(* ===== verification/Prelude.thy ===== *)
theory Prelude
  imports Main "HOL-Library.Word" "HOL-Library.Monad_Syntax"
begin

text \<open>
  Shared vocabulary of the development: the C integer types as words, the error
  numbers the journal returns, the option monad reading of BUG_ON, and the list,
  option and word lemmas that the component theories use.

  A kernel BUG (a failed J_ASSERT) and a read or write outside a buffer have no
  result in C; here they are the value None of an option.  Every other outcome,
  error returns included, is a value under Some.
\<close>

unbundle bit_operations_syntax

section \<open>Machine types\<close>

type_synonym u8 = "8 word"
type_synonym u32 = "32 word"
type_synonym u64 = "64 word"
type_synonym bytes = "u8 list"

text \<open>Addresses of the objects the journal allocates.\<close>

type_synonym tptr = nat \<comment> \<open>transaction\<close>
type_synonym jptr = nat \<comment> \<open>journal head\<close>
type_synonym bptr = nat \<comment> \<open>buffer head\<close>
type_synonym hptr = nat \<comment> \<open>handle\<close>
type_synonym iptr = nat \<comment> \<open>jbd inode\<close>
type_synonym dev = nat  \<comment> \<open>block device\<close>

section \<open>Error numbers\<close>

text \<open>The values of include/asm-generic/errno-base.h and errno.h; functions return them negated.\<close>

definition EIO :: int where "EIO = 5"
definition ENOMEM :: int where "ENOMEM = 12"
definition EINVAL :: int where "EINVAL = 22"
definition ENOSPC :: int where "ENOSPC = 28"
definition EROFS :: int where "EROFS = 30"
definition EUCLEAN :: int where "EUCLEAN = 117"

lemmas errno_defs = EIO_def ENOMEM_def EINVAL_def ENOSPC_def EROFS_def EUCLEAN_def

section \<open>Assertions\<close>

text \<open>J_ASSERT: None when the asserted condition fails.\<close>

definition j_assert :: "bool \<Rightarrow> unit option" where
  "j_assert b = (if b then Some () else None)"

lemma j_assert_True [simp]: "j_assert True = Some ()"
  by (simp add: j_assert_def)

lemma j_assert_False [simp]: "j_assert False = None"
  by (simp add: j_assert_def)

lemma j_assert_eq_Some [simp]: "j_assert b = Some u \<longleftrightarrow> b"
  by (simp add: j_assert_def)

lemma j_assert_bind_eq_Some [simp]:
  "Option.bind (j_assert b) f = Some r \<longleftrightarrow> b \<and> f () = Some r"
  by (simp add: j_assert_def)

lemma j_assert_bind_eq_None [simp]:
  "Option.bind (j_assert b) f = None \<longleftrightarrow> \<not> b \<or> f () = None"
  by (simp add: j_assert_def)

section \<open>Collections of facts\<close>

named_theorems layout_simps \<open>reads after writes of on-disk fields\<close>
named_theorems tid_simps \<open>transaction number comparison\<close>

section \<open>Lists\<close>

lemma nth_list_update_neqI: "i \<noteq> j \<Longrightarrow> xs[i := v] ! j = xs ! j"
  by simp

lemma filter_length_le_1:
  "distinct (map f xs) \<Longrightarrow> length (filter (\<lambda>x. f x = k) xs) \<le> 1"
  by (induction xs) (auto simp: filter_empty_conv image_iff)

lemma foldl_append_Nil: "foldl (@) xs yss = xs @ concat yss"
  by (induction yss arbitrary: xs) auto

section \<open>Words\<close>

lemma word_and_mask_less:
  fixes x :: "'a::len word"
  assumes "n < LENGTH('a)"
  shows "unat (x AND (2 ^ n - 1)) < 2 ^ n"
proof -
  have "x AND (2 ^ n - 1) = take_bit n x"
    by (simp add: take_bit_eq_mask mask_eq_decr_exp)
  moreover have "unat (take_bit n x) < 2 ^ n"
    by (simp add: unsigned_take_bit_eq)
  ultimately show ?thesis by simp
qed

lemma unat_inc_no_wrap: "unat (x :: 'a::len word) + 1 < 2 ^ LENGTH('a) \<Longrightarrow> unat (x + 1) = unat x + 1"
  by (simp add: unat_word_ariths)

lemma unat_dec_pos: "x \<noteq> (0 :: 'a::len word) \<Longrightarrow> unat (x - 1) = unat x - 1"
  by (rule unat_minus_one)

end
