(* ===== verification/Bytes.thy ===== *)
theory Bytes
  imports Prelude
begin

text \<open>
  Fixed-width integer fields inside a disk block.  A block is a list of bytes;
  get_be32 and put_be32 are the composition of a 32-bit memory access at a byte
  offset with be32_to_cpu and cpu_to_be32, get_be64 and put_be64 the 64-bit ones, and
  get_le32 is a plain int load on a little-endian machine.  The layout lemmas say
  what a read returns after a write to the same or to another offset.
\<close>

section \<open>Byte access\<close>

definition get_be32 :: "bytes \<Rightarrow> nat \<Rightarrow> u32" where
  "get_be32 bs off =
     push_bit 24 (ucast (bs ! off)) OR push_bit 16 (ucast (bs ! (off + 1))) OR
     push_bit 8 (ucast (bs ! (off + 2))) OR ucast (bs ! (off + 3))"

definition put_be32 :: "nat \<Rightarrow> u32 \<Rightarrow> bytes \<Rightarrow> bytes" where
  "put_be32 off v bs =
     bs[off := ucast (drop_bit 24 v), off + 1 := ucast (drop_bit 16 v),
        off + 2 := ucast (drop_bit 8 v), off + 3 := ucast v]"

definition get_be64 :: "bytes \<Rightarrow> nat \<Rightarrow> u64" where
  "get_be64 bs off = push_bit 32 (ucast (get_be32 bs off)) OR ucast (get_be32 bs (off + 4))"

definition put_be64 :: "nat \<Rightarrow> u64 \<Rightarrow> bytes \<Rightarrow> bytes" where
  "put_be64 off v bs = put_be32 (off + 4) (ucast v) (put_be32 off (ucast (drop_bit 32 v)) bs)"

definition get_le32 :: "bytes \<Rightarrow> nat \<Rightarrow> u32" where
  "get_le32 bs off =
     push_bit 24 (ucast (bs ! (off + 3))) OR push_bit 16 (ucast (bs ! (off + 2))) OR
     push_bit 8 (ucast (bs ! (off + 1))) OR ucast (bs ! off)"

section \<open>Lengths\<close>

lemma length_put_be32 [simp]: "length (put_be32 off v bs) = length bs"
  by (simp add: put_be32_def)

lemma length_put_be64 [simp]: "length (put_be64 off v bs) = length bs"
  by (simp add: put_be64_def)

section \<open>Round trips\<close>

lemma be32_bytes_cat:
  fixes v :: u32
  shows "push_bit 24 (ucast (ucast (drop_bit 24 v) :: u8)) OR
     push_bit 16 (ucast (ucast (drop_bit 16 v) :: u8)) OR
     push_bit 8 (ucast (ucast (drop_bit 8 v) :: u8)) OR ucast (ucast v :: u8) = v"
proof (rule bit_word_eqI)
  fix n assume "n < LENGTH(32)"
  then consider "n < 8" | "8 \<le> n" "n < 16" | "16 \<le> n" "n < 24" | "24 \<le> n" "n < 32"
    by fastforce
  then show "bit (push_bit 24 (ucast (ucast (drop_bit 24 v) :: u8)) OR
     push_bit 16 (ucast (ucast (drop_bit 16 v) :: u8)) OR
     push_bit 8 (ucast (ucast (drop_bit 8 v) :: u8)) OR ucast (ucast v :: u8) :: u32) n = bit v n"
    by cases (auto simp: bit_simps)
qed

lemma get_put_be32_same [layout_simps]:
  "off + 4 \<le> length bs \<Longrightarrow> get_be32 (put_be32 off v bs) off = v"
  by (simp add: get_be32_def put_be32_def be32_bytes_cat)

lemma get_put_be32_other [layout_simps]:
  "off' + 4 \<le> off \<or> off + 4 \<le> off' \<Longrightarrow> get_be32 (put_be32 off v bs) off' = get_be32 bs off'"
  by (auto simp: get_be32_def put_be32_def)

lemma be64_halves:
  fixes v :: u64
  shows "push_bit 32 (ucast (ucast (drop_bit 32 v) :: u32)) OR ucast (ucast v :: u32) = v"
  by (rule bit_word_eqI) (auto simp: bit_simps)

lemma get_put_be64_same [layout_simps]:
  "off + 8 \<le> length bs \<Longrightarrow> get_be64 (put_be64 off v bs) off = v"
  by (simp add: get_be64_def put_be64_def get_put_be32_same get_put_be32_other be64_halves)

lemma get_put_be64_other [layout_simps]:
  "off' + 8 \<le> off \<or> off + 8 \<le> off' \<Longrightarrow> get_be64 (put_be64 off v bs) off' = get_be64 bs off'"
  by (auto simp: get_be64_def put_be64_def get_put_be32_other)

lemma get_be32_put_be64_other [layout_simps]:
  "off' + 4 \<le> off \<or> off + 8 \<le> off' \<Longrightarrow> get_be32 (put_be64 off v bs) off' = get_be32 bs off'"
  by (auto simp: put_be64_def get_put_be32_other)

lemma get_be64_put_be32_other [layout_simps]:
  "off' + 8 \<le> off \<or> off + 4 \<le> off' \<Longrightarrow> get_be64 (put_be32 off v bs) off' = get_be64 bs off'"
  by (auto simp: get_be64_def get_put_be32_other)

text \<open>A block of zero bytes reads as zero.\<close>

lemma get_be32_zero: "off + 4 \<le> n \<Longrightarrow> get_be32 (replicate n 0) off = 0"
  by (simp add: get_be32_def)

lemma get_le32_eq_0:
  "get_le32 bs off = 0 \<longleftrightarrow>
     bs ! off = 0 \<and> bs ! (off + 1) = 0 \<and> bs ! (off + 2) = 0 \<and> bs ! (off + 3) = 0"
proof
  assume z: "get_le32 bs off = 0"
  have b: "bit (get_le32 bs off) i = False" for i
    using z by simp
  have "bit (bs ! off) i = False" for i
    using b [of i] by (cases "i < 8") (auto simp: get_le32_def bit_simps dest: bit_imp_le_length)
  moreover have "bit (bs ! (off + 1)) i = False" for i
    using b [of "i + 8"] by (cases "i < 8") (auto simp: get_le32_def bit_simps dest: bit_imp_le_length)
  moreover have "bit (bs ! (off + 2)) i = False" for i
    using b [of "i + 16"] by (cases "i < 8") (auto simp: get_le32_def bit_simps dest: bit_imp_le_length)
  moreover have "bit (bs ! (off + 3)) i = False" for i
    using b [of "i + 24"] by (cases "i < 8") (auto simp: get_le32_def bit_simps dest: bit_imp_le_length)
  ultimately show "bs ! off = 0 \<and> bs ! (off + 1) = 0 \<and> bs ! (off + 2) = 0 \<and> bs ! (off + 3) = 0"
    by (auto intro!: bit_word_eqI)
next
  assume "bs ! off = 0 \<and> bs ! (off + 1) = 0 \<and> bs ! (off + 2) = 0 \<and> bs ! (off + 3) = 0"
  then show "get_le32 bs off = 0" by (simp add: get_le32_def)
qed

text \<open>Writing back what was read, and writing twice.\<close>

lemma get_be32_bytes:
  "ucast (drop_bit 24 (get_be32 bs off)) = bs ! off" "ucast (drop_bit 16 (get_be32 bs off)) = bs ! (off + 1)"
  "ucast (drop_bit 8 (get_be32 bs off)) = bs ! (off + 2)" "ucast (get_be32 bs off) = bs ! (off + 3)"
  by (rule bit_word_eqI, auto simp: get_be32_def bit_simps dest: bit_imp_le_length)+

lemma put_get_be32: "put_be32 off (get_be32 bs off) bs = bs"
  by (simp add: put_be32_def get_be32_bytes)

lemma put_put_be32: "put_be32 off v (put_be32 off u bs) = put_be32 off v bs"
proof (rule nth_equalityI)
  have upd: "xs[i := x] ! j = (if i = j then x else xs ! j)" if "j < length xs" for xs :: bytes and i j x
    using that by (cases "i = j") auto
  fix i assume "i < length (put_be32 off v (put_be32 off u bs))"
  then show "put_be32 off v (put_be32 off u bs) ! i = put_be32 off v bs ! i"
    by (auto simp: put_be32_def upd)
qed simp

end
