(* ===== verification/JBD_Types.thy ===== *)
theory JBD_Types
  imports Bytes
begin

text \<open>
  The data model of the jbdbf journal: the constants, comparison functions and
  structures of jbdbf.h, journal-bf-head.h and the fields of struct buffer_head the
  journal uses.  A struct is a record with the names of its fields; where two structs
  share a field name the record field carries a prefix.  Doubly linked circular lists
  hanging off a transaction or the journal are lists of addresses in list order,
  starting at the element the head pointer names (theory Circular_Lists shows that the
  pointer code implements exactly these list operations).  All objects live in one
  world record: functions from addresses to records, the journal, the block
  contents and the log of issued I/O.
\<close>

section \<open>Transaction numbers and times\<close>

text \<open>Comparison of transaction numbers works over wrap-around of the 32-bit counter.\<close>

definition tid_gt :: "u32 \<Rightarrow> u32 \<Rightarrow> bool" where
  "tid_gt x y = (sint (x - y) > 0)"

definition tid_geq :: "u32 \<Rightarrow> u32 \<Rightarrow> bool" where
  "tid_geq x y = (sint (x - y) \<ge> 0)"

text \<open>MAX_JIFFY_OFFSET is (LONG_MAX / 2) - 1 on a 64-bit machine.\<close>

definition MAX_JIFFY_OFFSET :: u64 where "MAX_JIFFY_OFFSET = 2 ^ 62 - 2"

definition jbdbf_time_diff :: "u64 \<Rightarrow> u64 \<Rightarrow> u64" where
  "jbdbf_time_diff start fin = (if fin \<ge> start then fin - start else fin + (MAX_JIFFY_OFFSET - start))"

text \<open>time_after_eq(a, b): signed comparison of the wrapped difference.\<close>

definition time_after_eq :: "u64 \<Rightarrow> u64 \<Rightarrow> bool" where
  "time_after_eq a b = (sint (a - b) \<ge> 0)"

section \<open>Constants\<close>

definition JBD2_MAGIC_NUMBER :: u32 where "JBD2_MAGIC_NUMBER = 0xc03b3998"
definition JBD2_DESCRIPTOR_BLOCK :: u32 where "JBD2_DESCRIPTOR_BLOCK = 1"
definition JBD2_COMMIT_BLOCK :: u32 where "JBD2_COMMIT_BLOCK = 2"
definition JBD2_SUPERBLOCK_V1 :: u32 where "JBD2_SUPERBLOCK_V1 = 3"
definition JBD2_SUPERBLOCK_V2 :: u32 where "JBD2_SUPERBLOCK_V2 = 4"
definition JBD2_REVOKE_BLOCK :: u32 where "JBD2_REVOKE_BLOCK = 5"

lemmas blocktype_defs =
  JBD2_DESCRIPTOR_BLOCK_def JBD2_COMMIT_BLOCK_def JBD2_REVOKE_BLOCK_def
  JBD2_SUPERBLOCK_V1_def JBD2_SUPERBLOCK_V2_def

definition JBD2_CRC32_CHKSUM :: u8 where "JBD2_CRC32_CHKSUM = 1"
definition JBD2_CRC32_CHKSUM_SIZE :: u8 where "JBD2_CRC32_CHKSUM_SIZE = 4"

definition JBD2_FLAG_ESCAPE :: u32 where "JBD2_FLAG_ESCAPE = 1"
definition JBD2_FLAG_SAME_UUID :: u32 where "JBD2_FLAG_SAME_UUID = 2"
definition JBD2_FLAG_LAST_TAG :: u32 where "JBD2_FLAG_LAST_TAG = 8"

definition T_BLOCKTYPE_NOTDATA :: u32 where "T_BLOCKTYPE_NOTDATA = 0"
definition T_BLOCKTYPE_NEWLYAPPENDEDDATA :: u32 where "T_BLOCKTYPE_NEWLYAPPENDEDDATA = 2"
definition T_BLOCKTYPE_OVERWRITTENDATA :: u32 where "T_BLOCKTYPE_OVERWRITTENDATA = 3"

lemmas tag_const_defs =
  JBD2_FLAG_ESCAPE_def JBD2_FLAG_SAME_UUID_def JBD2_FLAG_LAST_TAG_def
  T_BLOCKTYPE_NOTDATA_def T_BLOCKTYPE_NEWLYAPPENDEDDATA_def T_BLOCKTYPE_OVERWRITTENDATA_def

definition JBD2_FEATURE_COMPAT_CHECKSUM :: u32 where "JBD2_FEATURE_COMPAT_CHECKSUM = 1"
definition JBD2_FEATURE_INCOMPAT_REVOKE :: u32 where "JBD2_FEATURE_INCOMPAT_REVOKE = 1"
definition JBD2_FEATURE_INCOMPAT_64BIT :: u32 where "JBD2_FEATURE_INCOMPAT_64BIT = 2"
definition JBD2_FEATURE_INCOMPAT_ASYNC_COMMIT :: u32 where "JBD2_FEATURE_INCOMPAT_ASYNC_COMMIT = 4"
definition JBD2_KNOWN_COMPAT_FEATURES :: u32 where "JBD2_KNOWN_COMPAT_FEATURES = 1"
definition JBD2_KNOWN_ROCOMPAT_FEATURES :: u32 where "JBD2_KNOWN_ROCOMPAT_FEATURES = 0"
definition JBD2_KNOWN_INCOMPAT_FEATURES :: u32 where
  "JBD2_KNOWN_INCOMPAT_FEATURES =
     JBD2_FEATURE_INCOMPAT_REVOKE OR JBD2_FEATURE_INCOMPAT_64BIT OR JBD2_FEATURE_INCOMPAT_ASYNC_COMMIT"

lemmas feature_defs =
  JBD2_FEATURE_COMPAT_CHECKSUM_def JBD2_FEATURE_INCOMPAT_REVOKE_def JBD2_FEATURE_INCOMPAT_64BIT_def
  JBD2_FEATURE_INCOMPAT_ASYNC_COMMIT_def JBD2_KNOWN_COMPAT_FEATURES_def
  JBD2_KNOWN_ROCOMPAT_FEATURES_def JBD2_KNOWN_INCOMPAT_FEATURES_def

definition JBD2_UNMOUNT :: u64 where "JBD2_UNMOUNT = 1"
definition JBD2_ABORT :: u64 where "JBD2_ABORT = 2"
definition JBD2_ACK_ERR :: u64 where "JBD2_ACK_ERR = 4"
definition JBD2_FLUSHED :: u64 where "JBD2_FLUSHED = 8"
definition JBD2_LOADED :: u64 where "JBD2_LOADED = 16"
definition JBD2_BARRIER :: u64 where "JBD2_BARRIER = 32"
definition JBD2_ABORT_ON_SYNCDATA_ERR :: u64 where "JBD2_ABORT_ON_SYNCDATA_ERR = 64"

lemmas jflag_defs =
  JBD2_UNMOUNT_def JBD2_ABORT_def JBD2_ACK_ERR_def JBD2_FLUSHED_def JBD2_LOADED_def
  JBD2_BARRIER_def JBD2_ABORT_ON_SYNCDATA_ERR_def

definition OSYNC_COMMIT :: int where "OSYNC_COMMIT = 0"
definition DSYNC_COMMIT :: int where "DSYNC_COMMIT = 1"
definition JBD2_MIN_JOURNAL_BLOCKS :: nat where "JBD2_MIN_JOURNAL_BLOCKS = 1024"
definition JBD2_NR_BATCH :: nat where "JBD2_NR_BATCH = 64"
definition EXT4BF_DATA_BATCH :: nat where "EXT4BF_DATA_BATCH = 1024"
definition JBDBF_CHECKPOINT_INTERVAL :: u64 where "JBDBF_CHECKPOINT_INTERVAL = 30000"

definition B_BLOCKTYPE_NORMAL :: nat where "B_BLOCKTYPE_NORMAL = 0"
definition B_BLOCKTYPE_DATA :: nat where "B_BLOCKTYPE_DATA = 1"
definition B_BLOCKTYPE_DURABLECHECKPOINT :: nat where "B_BLOCKTYPE_DURABLECHECKPOINT = 3"

lemmas bh_blocktype_defs =
  B_BLOCKTYPE_NORMAL_def B_BLOCKTYPE_DATA_def B_BLOCKTYPE_DURABLECHECKPOINT_def

text \<open>
  Sizes of the on-disk structures: the common header is three 32-bit words, the revoke
  header adds a count, and a block tag (with the fields OptFS adds for data checksums) is
  4 + 4 + 4 + (1 + 1 + 2) + 32 + 4 bytes.
\<close>

definition sizeof_header :: nat where "sizeof_header = 12"
definition sizeof_revoke_header :: nat where "sizeof_revoke_header = 16"
definition JBD2_TAG_SIZE32 :: nat where "JBD2_TAG_SIZE32 = 8"
definition JBD2_TAG_SIZE64 :: nat where "JBD2_TAG_SIZE64 = 52"

lemmas size_defs = sizeof_header_def sizeof_revoke_header_def JBD2_TAG_SIZE32_def JBD2_TAG_SIZE64_def

section \<open>Structures\<close>

datatype jlist =
  BJ_None | BJ_Metadata | BJ_Forget | BJ_IO | BJ_Shadow | BJ_LogCtl | BJ_Reserved | BJ_Dirtydata

datatype tstate =
  T_RUNNING | T_LOCKED | T_FLUSH | T_COMMIT | T_COMMIT_DFLUSH | T_COMMIT_JFLUSH | T_FINISHED

text \<open>struct buffer_head: the fields and state bits used by the journal.\<close>

record buffer_head =
  b_blocknr :: u64
  b_data :: bytes
  b_count :: int
  b_private :: "jptr option"
  b_blocktype :: nat
  b_checkpoint_time :: u64
  b_delayed_write :: bool
  b_bdev :: "dev option"
  b_page_mapping :: bool \<comment> \<open>b_page is set and the page has a mapping\<close>
  bh_uptodate :: bool
  bh_dirty :: bool
  bh_lock :: bool
  bh_mapped :: bool
  bh_write_io_error :: bool
  bh_jbd :: bool
  bh_jwrite :: bool
  bh_freed :: bool
  bh_revoked :: bool
  bh_revokevalid :: bool
  bh_jbddirty :: bool

record journal_bf_head =
  b_bh :: bptr
  b_jcount :: int
  b_jlist :: jlist
  b_modified :: bool
  b_frozen_data :: "bytes option"
  b_committed_data :: "bytes option"
  b_transaction :: "tptr option"
  b_next_transaction :: "tptr option"
  b_cp_transaction :: "tptr option"

text \<open>struct jbdbf_data_tag: block number and checksum of an appended data block.\<close>

record data_tag =
  dt_blocknr :: u64
  crc32_data_sum :: u32

record transaction =
  t_tid :: u32
  t_state :: tstate
  t_log_start :: u64
  t_nr_buffers :: int
  t_reserved_list :: "jptr list"
  t_buffers :: "jptr list"
  t_forget :: "jptr list"
  t_checkpoint_list :: "jptr list"
  t_checkpoint_io_list :: "jptr list"
  t_iobuf_list :: "jptr list"
  t_shadow_list :: "jptr list"
  t_log_list :: "jptr list"
  t_dirty_data_list :: "jptr list"
  t_max_wait :: u64
  t_start :: u64
  t_checkpoint_time :: u64
  cs_chp_time :: u64
  cs_forced_to_close :: u32
  cs_written :: u32
  cs_dropped :: u32
  t_updates :: int
  t_outstanding_credits :: int
  t_handle_count :: int
  t_expires :: u64
  t_start_time :: u64
  t_synchronous_commit :: bool
  t_need_data_flush :: bool
  t_inode_list :: "iptr list"
  t_data_tag_list :: "data_tag list"
  t_num_dirty_blocks :: u64
  t_durable_commit :: int

text \<open>struct jbdbf_inode; the flag is the bit JI_COMMIT_RUNNING of i_flags.\<close>

record jbdbf_inode =
  i_transaction :: "tptr option"
  i_next_transaction :: "tptr option"
  i_commit_running :: bool

text \<open>handle_t: a reference of an update to the transaction it belongs to.\<close>

record handle =
  h_transaction :: "tptr option"
  h_buffer_credits :: int
  h_ref :: int
  h_err :: int
  h_sync :: bool
  h_jdata :: bool
  h_aborted :: bool
  h_durable_commit :: bool

record revoke_record =
  rr_sequence :: u32
  rr_blocknr :: u64

record revoke_table =
  hash_size :: nat
  hash_shift :: nat
  hash_table :: "revoke_record list list"

text \<open>The journal superblock, with its big-endian fields as host values.\<close>

record journal_superblock =
  s_magic :: u32
  s_blocktype :: u32
  s_blocksize :: u32
  s_maxlen :: u32
  s_first :: u32
  s_sequence :: u32
  s_start :: u32
  s_errno :: u32
  s_feature_compat :: u32
  s_feature_incompat :: u32
  s_feature_ro_compat :: u32
  s_nr_users :: u32

record journal =
  j_flags :: u64
  j_errno :: int
  j_superblock :: journal_superblock
  j_sb_buffer :: bool
  j_sb_uptodate :: bool \<comment> \<open>the buffer of the superblock is up to date\<close>
  j_format_version :: int
  j_barrier_count :: int
  j_running_transaction :: "tptr option"
  j_committing_transaction :: "tptr option"
  j_checkpoint_transactions :: "tptr list"
  j_head :: u64
  j_tail :: u64
  j_free :: u64
  needs_checkpoint :: bool
  j_first :: u64
  j_last :: u64
  j_dev :: dev
  j_fs_dev :: dev
  j_blocksize :: nat
  j_inode :: bool
  j_maxlen :: u32
  j_tail_sequence :: u32
  j_transaction_bf_sequence :: u32
  j_commit_sequence :: u32
  j_commit_request :: u32
  j_uuid :: bytes
  j_max_transaction_buffers :: int
  j_commit_interval :: u64
  j_revoke :: "nat option"
  j_revoke_table :: "nat \<Rightarrow> revoke_table option"
  j_wbufsize :: nat
  j_last_sync_writer :: int
  j_average_commit_time :: u64
  j_min_batch_time :: u32
  j_max_batch_time :: u32
  j_failed_commit :: u32
  j_task :: bool \<comment> \<open>the journal thread is running\<close>

text \<open>
  I/O the journal issues, in order: a block submitted for writing (the flag says whether
  with WRITE_FLUSH_FUA), a cache flush of a device, the journal superblock written (the
  flag says whether the writer waited), the completion of a block waited for, and a device
  whose dirty buffers are written out.
\<close>

datatype io_event =
    SubmitWrite dev u64 bytes bool
  | IssueFlush dev
  | WriteSuper journal_superblock bool
  | WaitOn dev u64
  | SyncDev dev

record world =
  jnl :: journal
  trs :: "tptr \<Rightarrow> transaction"
  jhs :: "jptr \<Rightarrow> journal_bf_head"
  bhs :: "bptr \<Rightarrow> buffer_head"
  bdata :: "dev \<Rightarrow> u64 \<Rightarrow> bytes"
  unreadable :: "dev \<Rightarrow> u64 \<Rightarrow> bool"
  breq :: "dev \<Rightarrow> u64 \<Rightarrow> bool" \<comment> \<open>blocks read or filled through the buffer cache (BH_Req)\<close>
  bcache :: "dev \<Rightarrow> u64 \<Rightarrow> bptr option" \<comment> \<open>the buffer head the buffer cache has for a block\<close>
  hds :: "hptr \<Rightarrow> handle"
  jis :: "iptr \<Rightarrow> jbdbf_inode"
  journal_info :: "hptr option" \<comment> \<open>the handle of the current process\<close>
  iolog :: "io_event list"
  jiffies :: u64
  bh_next :: bptr \<comment> \<open>address the next allocated buffer head gets\<close>
  jh_next :: jptr \<comment> \<open>address the next allocated journal head gets\<close>
  h_next :: hptr \<comment> \<open>address the next allocated handle gets\<close>
  t_next :: tptr \<comment> \<open>address the next allocated transaction gets\<close>

text \<open>Assignment to a field of the journal or of the object at an address.\<close>

definition upd_jnl :: "(journal \<Rightarrow> journal) \<Rightarrow> world \<Rightarrow> world" where
  "upd_jnl f w = w\<lparr>jnl := f (jnl w)\<rparr>"

definition upd_tr :: "tptr \<Rightarrow> (transaction \<Rightarrow> transaction) \<Rightarrow> world \<Rightarrow> world" where
  "upd_tr t f w = w\<lparr>trs := (trs w)(t := f (trs w t))\<rparr>"

definition upd_jh :: "jptr \<Rightarrow> (journal_bf_head \<Rightarrow> journal_bf_head) \<Rightarrow> world \<Rightarrow> world" where
  "upd_jh jh f w = w\<lparr>jhs := (jhs w)(jh := f (jhs w jh))\<rparr>"

definition upd_bh :: "bptr \<Rightarrow> (buffer_head \<Rightarrow> buffer_head) \<Rightarrow> world \<Rightarrow> world" where
  "upd_bh bh f w = w\<lparr>bhs := (bhs w)(bh := f (bhs w bh))\<rparr>"

definition upd_hd :: "hptr \<Rightarrow> (handle \<Rightarrow> handle) \<Rightarrow> world \<Rightarrow> world" where
  "upd_hd h f w = w\<lparr>hds := (hds w)(h := f (hds w h))\<rparr>"

definition upd_ji :: "iptr \<Rightarrow> (jbdbf_inode \<Rightarrow> jbdbf_inode) \<Rightarrow> world \<Rightarrow> world" where
  "upd_ji i f w = w\<lparr>jis := (jis w)(i := f (jis w i))\<rparr>"

definition log_io :: "io_event \<Rightarrow> world \<Rightarrow> world" where
  "log_io e w = w\<lparr>iolog := iolog w @ [e]\<rparr>"

text \<open>Each update changes one component of the world.\<close>

lemma upd_jnl_sel [simp]:
  "jnl (upd_jnl f w) = f (jnl w)" "trs (upd_jnl f w) = trs w" "jhs (upd_jnl f w) = jhs w"
  "bhs (upd_jnl f w) = bhs w" "bdata (upd_jnl f w) = bdata w"
  "unreadable (upd_jnl f w) = unreadable w" "breq (upd_jnl f w) = breq w"
  "iolog (upd_jnl f w) = iolog w"
  "jiffies (upd_jnl f w) = jiffies w" "bh_next (upd_jnl f w) = bh_next w"
  "jh_next (upd_jnl f w) = jh_next w"
  "bcache (upd_jnl f w) = bcache w"
  "hds (upd_jnl f w) = hds w"
  "jis (upd_jnl f w) = jis w"
  "journal_info (upd_jnl f w) = journal_info w"
  "h_next (upd_jnl f w) = h_next w"
  "t_next (upd_jnl f w) = t_next w"
  by (simp_all add: upd_jnl_def)

lemma upd_tr_sel [simp]:
  "jnl (upd_tr t f w) = jnl w" "trs (upd_tr t f w) = (trs w)(t := f (trs w t))"
  "jhs (upd_tr t f w) = jhs w" "bhs (upd_tr t f w) = bhs w" "bdata (upd_tr t f w) = bdata w"
  "unreadable (upd_tr t f w) = unreadable w" "breq (upd_tr t f w) = breq w"
  "iolog (upd_tr t f w) = iolog w"
  "jiffies (upd_tr t f w) = jiffies w" "bh_next (upd_tr t f w) = bh_next w"
  "jh_next (upd_tr t f w) = jh_next w"
  "bcache (upd_tr t f w) = bcache w"
  "hds (upd_tr t f w) = hds w"
  "jis (upd_tr t f w) = jis w"
  "journal_info (upd_tr t f w) = journal_info w"
  "h_next (upd_tr t f w) = h_next w"
  "t_next (upd_tr t f w) = t_next w"
  by (simp_all add: upd_tr_def)

lemma upd_jh_sel [simp]:
  "jnl (upd_jh t f w) = jnl w" "trs (upd_jh t f w) = trs w"
  "jhs (upd_jh t f w) = (jhs w)(t := f (jhs w t))" "bhs (upd_jh t f w) = bhs w"
  "bdata (upd_jh t f w) = bdata w"
  "unreadable (upd_jh t f w) = unreadable w" "breq (upd_jh t f w) = breq w"
  "iolog (upd_jh t f w) = iolog w"
  "jiffies (upd_jh t f w) = jiffies w" "bh_next (upd_jh t f w) = bh_next w"
  "jh_next (upd_jh t f w) = jh_next w"
  "bcache (upd_jh t f w) = bcache w"
  "hds (upd_jh t f w) = hds w"
  "jis (upd_jh t f w) = jis w"
  "journal_info (upd_jh t f w) = journal_info w"
  "h_next (upd_jh t f w) = h_next w"
  "t_next (upd_jh t f w) = t_next w"
  by (simp_all add: upd_jh_def)

lemma upd_bh_sel [simp]:
  "jnl (upd_bh t f w) = jnl w" "trs (upd_bh t f w) = trs w" "jhs (upd_bh t f w) = jhs w"
  "bhs (upd_bh t f w) = (bhs w)(t := f (bhs w t))" "bdata (upd_bh t f w) = bdata w"
  "unreadable (upd_bh t f w) = unreadable w" "breq (upd_bh t f w) = breq w"
  "iolog (upd_bh t f w) = iolog w"
  "jiffies (upd_bh t f w) = jiffies w" "bh_next (upd_bh t f w) = bh_next w"
  "jh_next (upd_bh t f w) = jh_next w"
  "bcache (upd_bh t f w) = bcache w"
  "hds (upd_bh t f w) = hds w"
  "jis (upd_bh t f w) = jis w"
  "journal_info (upd_bh t f w) = journal_info w"
  "h_next (upd_bh t f w) = h_next w"
  "t_next (upd_bh t f w) = t_next w"
  by (simp_all add: upd_bh_def)

lemma upd_hd_sel [simp]:
  "jnl (upd_hd h f w) = jnl w"
  "trs (upd_hd h f w) = trs w"
  "jhs (upd_hd h f w) = jhs w"
  "bhs (upd_hd h f w) = bhs w"
  "bdata (upd_hd h f w) = bdata w"
  "unreadable (upd_hd h f w) = unreadable w"
  "breq (upd_hd h f w) = breq w"
  "bcache (upd_hd h f w) = bcache w"
  "hds (upd_hd h f w) = (hds w)(h := f (hds w h))"
  "jis (upd_hd h f w) = jis w"
  "journal_info (upd_hd h f w) = journal_info w"
  "iolog (upd_hd h f w) = iolog w"
  "jiffies (upd_hd h f w) = jiffies w"
  "bh_next (upd_hd h f w) = bh_next w"
  "jh_next (upd_hd h f w) = jh_next w"
  "h_next (upd_hd h f w) = h_next w"
  "t_next (upd_hd h f w) = t_next w"
  by (simp_all add: upd_hd_def)

lemma upd_ji_sel [simp]:
  "jnl (upd_ji i f w) = jnl w"
  "trs (upd_ji i f w) = trs w"
  "jhs (upd_ji i f w) = jhs w"
  "bhs (upd_ji i f w) = bhs w"
  "bdata (upd_ji i f w) = bdata w"
  "unreadable (upd_ji i f w) = unreadable w"
  "breq (upd_ji i f w) = breq w"
  "bcache (upd_ji i f w) = bcache w"
  "hds (upd_ji i f w) = hds w"
  "jis (upd_ji i f w) = (jis w)(i := f (jis w i))"
  "journal_info (upd_ji i f w) = journal_info w"
  "iolog (upd_ji i f w) = iolog w"
  "jiffies (upd_ji i f w) = jiffies w"
  "bh_next (upd_ji i f w) = bh_next w"
  "jh_next (upd_ji i f w) = jh_next w"
  "h_next (upd_ji i f w) = h_next w"
  "t_next (upd_ji i f w) = t_next w"
  by (simp_all add: upd_ji_def)

lemma log_io_sel [simp]:
  "jnl (log_io e w) = jnl w" "trs (log_io e w) = trs w" "jhs (log_io e w) = jhs w"
  "bhs (log_io e w) = bhs w" "bdata (log_io e w) = bdata w"
  "unreadable (log_io e w) = unreadable w" "breq (log_io e w) = breq w"
  "iolog (log_io e w) = iolog w @ [e]"
  "jiffies (log_io e w) = jiffies w" "bh_next (log_io e w) = bh_next w"
  "jh_next (log_io e w) = jh_next w"
  "bcache (log_io e w) = bcache w"
  "hds (log_io e w) = hds w"
  "jis (log_io e w) = jis w"
  "journal_info (log_io e w) = journal_info w"
  "h_next (log_io e w) = h_next w"
  "t_next (log_io e w) = t_next w"
  by (simp_all add: log_io_def)

text \<open>The places where a thread sleeps until another one has done something.\<close>

datatype wait_point =
    Wait_Barrier \<comment> \<open>j_wait_transaction_locked, for the barrier to be lifted\<close>
  | Wait_Locked \<comment> \<open>j_wait_transaction_locked, for a locked or full transaction\<close>
  | Wait_Updates \<comment> \<open>j_wait_updates, for the handles of a transaction to stop\<close>
  | Wait_Shadow jptr \<comment> \<open>BH_Unshadow, for a buffer to leave the shadow list\<close>
  | Wait_Inode iptr \<comment> \<open>JI_COMMIT_RUNNING, for the commit to have written the inode\<close>
  | Wait_Commit \<comment> \<open>j_wait_commit, for something to commit\<close>
  | Wait_Thread \<comment> \<open>j_wait_done_commit, for the journal thread to exit\<close>
  | Wait_Batch \<comment> \<open>the timeout for synchronous handles to be batched\<close>

text \<open>
  What the journal relies on of the rest of the kernel: the block mapping of the journal
  inode (0 when the block is not mapped), the blocks for which no buffer can be obtained,
  the result of writing out a device, whether allocations succeed, the blocks whose writes
  fail, what the other threads have made of the world when a transaction has committed or
  the thread wakes up, the clock, the page cache writing the data of an inode and waiting
  for it, the callback of the file system at the end of a commit, the current process, the
  journal superblock on the device (None if it cannot be read), whether a kernel thread
  can be started, the length of a tick of the clock (a millisecond in the quiet kernel below), and
  the value of a local variable that is read before it is assigned.
\<close>

record kernel_env =
  k_bmap :: "u64 \<Rightarrow> u64"
  k_getblk_null :: "dev \<Rightarrow> u64 \<Rightarrow> bool"
  k_sync_blockdev :: "dev \<Rightarrow> int"
  k_kzalloc_ok :: bool
  k_alloc_ok :: "world \<Rightarrow> bool"
  k_write_fails :: "u64 \<Rightarrow> bool"
  k_wait_commit :: "u32 \<Rightarrow> world \<Rightarrow> world"
  k_sleep :: "wait_point \<Rightarrow> world \<Rightarrow> world"
  k_ktime :: "world \<Rightarrow> u64"
  k_now :: "world \<Rightarrow> u64 \<times> u32"
  k_writepages :: "iptr \<Rightarrow> world \<Rightarrow> world \<times> int"
  k_fdatawrite_from :: "iptr \<Rightarrow> u64 \<Rightarrow> world \<Rightarrow> world \<times> int"
  k_fdatawait :: "iptr \<Rightarrow> world \<Rightarrow> world \<times> int"
  k_commit_callback :: "tptr \<Rightarrow> world \<Rightarrow> world"
  k_enable_debug :: bool
  k_pid :: int
  k_memalloc :: bool
  k_read_super :: "journal_superblock option"
  k_kthread_run :: "world \<Rightarrow> int"
  k_msecs_to_jiffies :: "u64 \<Rightarrow> u64"
  k_indeterminate :: int

text \<open>A kernel in which nothing fails and no other thread runs.\<close>

definition quiet_kernel :: kernel_env where
  "quiet_kernel = \<lparr>k_bmap = (\<lambda>b. b), k_getblk_null = (\<lambda>_ _. False), k_sync_blockdev = (\<lambda>_. 0),
     k_kzalloc_ok = True, k_alloc_ok = (\<lambda>_. True), k_write_fails = (\<lambda>_. False),
     k_wait_commit = (\<lambda>_ w. w), k_sleep = (\<lambda>_ w. w), k_ktime = (\<lambda>_. 0), k_now = (\<lambda>_. (0, 0)),
     k_writepages = (\<lambda>_ w. (w, 0)), k_fdatawrite_from = (\<lambda>_ _ w. (w, 0)), k_fdatawait = (\<lambda>_ w. (w, 0)), k_commit_callback = (\<lambda>_ w. w),
     k_enable_debug = False, k_pid = 0, k_memalloc = False,
     k_read_super = None, k_kthread_run = (\<lambda>_. 0), k_msecs_to_jiffies = (\<lambda>m. m), k_indeterminate = 0\<rparr>"

section \<open>Zeroed objects\<close>

text \<open>The structures as kzalloc returns them.\<close>

definition zero_superblock :: journal_superblock where
  "zero_superblock = \<lparr>s_magic = 0, s_blocktype = 0, s_blocksize = 0, s_maxlen = 0, s_first = 0,
     s_sequence = 0, s_start = 0, s_errno = 0, s_feature_compat = 0, s_feature_incompat = 0,
     s_feature_ro_compat = 0, s_nr_users = 0\<rparr>"

definition zero_journal :: journal where
  "zero_journal = \<lparr>j_flags = 0, j_errno = 0, j_superblock = zero_superblock, j_sb_buffer = False, j_sb_uptodate = False,
     j_format_version = 0, j_barrier_count = 0, j_running_transaction = None,
     j_committing_transaction = None, j_checkpoint_transactions = [], j_head = 0, j_tail = 0,
     j_free = 0, needs_checkpoint = False, j_first = 0, j_last = 0, j_dev = 0, j_fs_dev = 0,
     j_blocksize = 0, j_inode = False, j_maxlen = 0, j_tail_sequence = 0,
     j_transaction_bf_sequence = 0, j_commit_sequence = 0, j_commit_request = 0, j_uuid = [],
     j_max_transaction_buffers = 0, j_commit_interval = 0, j_revoke = None,
     j_revoke_table = (\<lambda>_. None), j_wbufsize = 0, j_last_sync_writer = 0,
     j_average_commit_time = 0, j_min_batch_time = 0, j_max_batch_time = 0, j_failed_commit = 0, j_task = False\<rparr>"

definition zero_transaction :: transaction where
  "zero_transaction = \<lparr>t_tid = 0, t_state = T_RUNNING, t_log_start = 0, t_nr_buffers = 0,
     t_reserved_list = [], t_buffers = [], t_forget = [], t_checkpoint_list = [],
     t_checkpoint_io_list = [], t_iobuf_list = [], t_shadow_list = [], t_log_list = [],
     t_dirty_data_list = [], t_max_wait = 0, t_start = 0, t_checkpoint_time = 0, cs_chp_time = 0,
     cs_forced_to_close = 0, cs_written = 0, cs_dropped = 0, t_updates = 0,
     t_outstanding_credits = 0, t_handle_count = 0, t_expires = 0, t_start_time = 0,
     t_synchronous_commit = False, t_need_data_flush = False, t_inode_list = [], t_data_tag_list = [],
     t_num_dirty_blocks = 0, t_durable_commit = 0\<rparr>"

definition zero_jh :: journal_bf_head where
  "zero_jh = \<lparr>b_bh = 0, b_jcount = 0, b_jlist = BJ_None, b_modified = False, b_frozen_data = None,
     b_committed_data = None, b_transaction = None, b_next_transaction = None,
     b_cp_transaction = None\<rparr>"

definition zero_bh :: buffer_head where
  "zero_bh = \<lparr>b_blocknr = 0, b_data = [], b_count = 0, b_private = None, b_blocktype = 0,
     b_checkpoint_time = 0, b_delayed_write = False, b_bdev = None, b_page_mapping = False, bh_uptodate = False, bh_dirty = False,
     bh_lock = False, bh_mapped = False, bh_write_io_error = False, bh_jbd = False,
     bh_jwrite = False, bh_freed = False, bh_revoked = False, bh_revokevalid = False,
     bh_jbddirty = False\<rparr>"

definition zero_handle :: handle where
  "zero_handle = \<lparr>h_transaction = None, h_buffer_credits = 0, h_ref = 0, h_err = 0, h_sync = False,
     h_jdata = False, h_aborted = False, h_durable_commit = False\<rparr>"

definition zero_jinode :: jbdbf_inode where
  "zero_jinode = \<lparr>i_transaction = None, i_next_transaction = None, i_commit_running = False\<rparr>"

definition zero_world :: world where
  "zero_world = \<lparr>jnl = zero_journal, trs = (\<lambda>_. zero_transaction), jhs = (\<lambda>_. zero_jh),
     bhs = (\<lambda>_. zero_bh), bdata = (\<lambda>_ _. []), unreadable = (\<lambda>_ _. False),
     breq = (\<lambda>_ _. False), bcache = (\<lambda>_ _. None), hds = (\<lambda>_. zero_handle), jis = (\<lambda>_. zero_jinode),
     journal_info = None, iolog = [],
     jiffies = 0, bh_next = 0, jh_next = 0, h_next = 0, t_next = 0\<rparr>"

lemmas zero_defs = zero_handle_def zero_jinode_def zero_superblock_def zero_journal_def zero_transaction_def zero_jh_def zero_bh_def zero_world_def

section \<open>Feature tests and derived quantities\<close>

definition JBD2_HAS_COMPAT_FEATURE :: "journal \<Rightarrow> u32 \<Rightarrow> bool" where
  "JBD2_HAS_COMPAT_FEATURE j msk =
     (j_format_version j \<ge> 2 \<and> s_feature_compat (j_superblock j) AND msk \<noteq> 0)"

definition JBD2_HAS_INCOMPAT_FEATURE :: "journal \<Rightarrow> u32 \<Rightarrow> bool" where
  "JBD2_HAS_INCOMPAT_FEATURE j msk =
     (j_format_version j \<ge> 2 \<and> s_feature_incompat (j_superblock j) AND msk \<noteq> 0)"

definition is_journal_aborted :: "journal \<Rightarrow> bool" where
  "is_journal_aborted j = (j_flags j AND JBD2_ABORT \<noteq> 0)"

text \<open>journal_tag_bytes: always the long tag, because of the checksum.\<close>

definition journal_tag_bytes :: "journal \<Rightarrow> nat" where
  "journal_tag_bytes j = JBD2_TAG_SIZE64"

definition jbd_space_needed :: "world \<Rightarrow> int" where
  "jbd_space_needed w =
     (let nblocks = j_max_transaction_buffers (jnl w);
          nblocks = (case j_committing_transaction (jnl w) of
                       None \<Rightarrow> nblocks
                     | Some t \<Rightarrow> nblocks + t_outstanding_credits (trs w t))
      in nblocks + 128)"

section \<open>Facts about transaction numbers\<close>

lemma tid_geq_refl [simp, tid_simps]: "tid_geq x x"
  by (simp add: tid_geq_def)

lemma tid_gt_irrefl [simp, tid_simps]: "\<not> tid_gt x x"
  by (simp add: tid_gt_def)

lemma tid_geq_iff: "tid_geq x y \<longleftrightarrow> tid_gt x y \<or> x = y"
proof
  assume "tid_geq x y"
  then have "sint (x - y) > 0 \<or> sint (x - y) = 0" by (auto simp: tid_geq_def)
  then show "tid_gt x y \<or> x = y"
    by (auto simp: tid_gt_def signed_eq_0_iff)
next
  assume "tid_gt x y \<or> x = y"
  then show "tid_geq x y" by (auto simp: tid_gt_def tid_geq_def)
qed

text \<open>
  Numbers a base counter reaches in fewer than half the counter's range are compared as
  their distances from the base, wherever the counter wraps.
\<close>

lemma sint_diff_offsets:
  fixes b :: u32
  assumes "m < 2 ^ 31" "n < 2 ^ 31"
  shows "sint ((b + of_nat m) - (b + of_nat n)) = int m - int n"
proof -
  have eq: "(b + of_nat m) - (b + of_nat n) = (of_int (int m - int n) :: u32)"
    by simp
  have "- (2 ^ 31) \<le> int m - int n" "int m - int n < 2 ^ 31"
    using assms by (auto)
  then have "signed_take_bit 31 (int m - int n) = int m - int n"
    by (simp add: signed_take_bit_int_eq_self_iff)
  then show ?thesis
    unfolding eq by (simp only: signed_of_int) simp
qed

lemma tid_gt_offsets:
  "m < 2 ^ 31 \<Longrightarrow> n < 2 ^ 31 \<Longrightarrow> tid_gt (b + of_nat m) (b + of_nat n) \<longleftrightarrow> n < m"
  unfolding tid_gt_def by (subst sint_diff_offsets) auto

lemma tid_geq_offsets:
  "m < 2 ^ 31 \<Longrightarrow> n < 2 ^ 31 \<Longrightarrow> tid_geq (b + of_nat m) (b + of_nat n) \<longleftrightarrow> n \<le> m"
  unfolding tid_geq_def by (subst sint_diff_offsets) auto

end
