(* ===== verification/Journal.thy ===== *)
theory Journal
  imports JBD_Types
begin

text \<open>
  The journal control operations of journal.c: requesting and waiting for commits,
  aborting, the superblock, allocation of log blocks in the ring of journal blocks, the
  feature bits and the error state.  A leading double underscore of a C name is written
  as the prefix u_.  A thread that has to wait for a commit goes on in the world that the
  environment gives for that wait; if the commit has not been done there, the result is None.
\<close>

section \<open>Requesting and awaiting a commit\<close>

definition u_jbdbf_log_start_commit :: "world \<Rightarrow> u32 \<Rightarrow> int \<Rightarrow> world \<times> int" where
  "u_jbdbf_log_start_commit w target dsync =
     (case j_running_transaction (jnl w) of
        Some t \<Rightarrow>
          (if t_tid (trs w t) = target
           then (upd_tr t (\<lambda>tr. tr\<lparr>t_durable_commit := dsync\<rparr>)
                   (upd_jnl (\<lambda>j. j\<lparr>j_commit_request := target\<rparr>) w), 1)
           else (w, 0))
      | None \<Rightarrow> (w, 0))"

definition jbdbf_log_start_commit :: "world \<Rightarrow> u32 \<Rightarrow> world \<times> int" where
  "jbdbf_log_start_commit w tid = u_jbdbf_log_start_commit w tid OSYNC_COMMIT"

definition jbdbf_log_start_optfs_commit :: "world \<Rightarrow> u32 \<Rightarrow> int \<Rightarrow> world \<times> int" where
  "jbdbf_log_start_optfs_commit w tid dsync = u_jbdbf_log_start_commit w tid dsync"

definition jbdbf_journal_start_commit :: "world \<Rightarrow> world \<times> u32 option \<times> int" where
  "jbdbf_journal_start_commit w =
     (case j_running_transaction (jnl w) of
        Some t \<Rightarrow>
          (let tid = t_tid (trs w t); (w', _) = u_jbdbf_log_start_commit w tid OSYNC_COMMIT
           in (w', Some tid, 1))
      | None \<Rightarrow>
          (case j_committing_transaction (jnl w) of
             Some t \<Rightarrow> (w, Some (t_tid (trs w t)), 1)
           | None \<Rightarrow> (w, None, 0)))"

text \<open>
  jbdbf_log_wait_commit sleeps while the commit sequence is behind tid and goes on in the world
  the other threads have produced by then; it never returns if that world is still behind.
\<close>

definition jbdbf_log_wait_commit :: "kernel_env \<Rightarrow> world \<Rightarrow> u32 \<Rightarrow> (world \<times> int) option" where
  "jbdbf_log_wait_commit k w tid =
     (let w = (if tid_gt tid (j_commit_sequence (jnl w)) then k_wait_commit k tid w else w)
      in if tid_gt tid (j_commit_sequence (jnl w)) then None
         else Some (w, if is_journal_aborted (jnl w) then - EIO else 0))"

text \<open>The argument has_handle says whether the calling process is within a transaction.\<close>

definition jbdbf_journal_force_commit_nested :: "kernel_env \<Rightarrow> world \<Rightarrow> bool \<Rightarrow> (world \<times> int) option" where
  "jbdbf_journal_force_commit_nested k w has_handle =
     (let (trans, need_to_start) =
        (case (j_running_transaction (jnl w), has_handle) of
           (Some t, False) \<Rightarrow>
             (Some t, \<not> tid_geq (j_commit_request (jnl w)) (t_tid (trs w t)))
         | _ \<Rightarrow> (j_committing_transaction (jnl w), False))
      in case trans of
           None \<Rightarrow> Some (w, 0)
         | Some t \<Rightarrow>
             (let tid = t_tid (trs w t);
                  w = (if need_to_start then fst (jbdbf_log_start_commit w tid) else w)
              in do { (w, _) \<leftarrow> jbdbf_log_wait_commit k w tid; Some (w, 1) }))"

section \<open>Superblock update and abort\<close>

text \<open>
  An error of the write, now or of the previous one, is printed and the flags of the buffer are reset;
  the callers do not see it, so it leaves no trace here.
\<close>

definition jbdbf_journal_update_superblock :: "world \<Rightarrow> bool \<Rightarrow> world" where
  "jbdbf_journal_update_superblock w wait =
     (let j = jnl w;
          w1 = (if s_start (j_superblock j) = 0 \<and>
                   j_tail_sequence j = j_transaction_bf_sequence j
                then w
                else let sb = (j_superblock j)\<lparr>s_sequence := j_tail_sequence j,
                                s_start := ucast (j_tail j),
                                s_errno := word_of_int (j_errno j)\<rparr>
                     in log_io (WriteSuper sb wait) (upd_jnl (\<lambda>j. j\<lparr>j_superblock := sb\<rparr>) w))
      in if s_start (j_superblock (jnl w1)) \<noteq> 0
         then upd_jnl (\<lambda>j. j\<lparr>j_flags := j_flags j AND NOT JBD2_FLUSHED\<rparr>) w1
         else upd_jnl (\<lambda>j. j\<lparr>j_flags := j_flags j OR JBD2_FLUSHED\<rparr>) w1)"

definition u_jbdbf_journal_abort_hard :: "world \<Rightarrow> world" where
  "u_jbdbf_journal_abort_hard w =
     (if j_flags (jnl w) AND JBD2_ABORT \<noteq> 0 then w
      else let w1 = upd_jnl (\<lambda>j. j\<lparr>j_flags := j_flags j OR JBD2_ABORT\<rparr>) w
           in case j_running_transaction (jnl w1) of
                None \<Rightarrow> w1
              | Some t \<Rightarrow> fst (u_jbdbf_log_start_commit w1 (t_tid (trs w1 t)) DSYNC_COMMIT))"

definition u_journal_abort_soft :: "world \<Rightarrow> int \<Rightarrow> world" where
  "u_journal_abort_soft w errno =
     (if j_flags (jnl w) AND JBD2_ABORT \<noteq> 0 then w
      else let w1 = (if j_errno (jnl w) = 0 then upd_jnl (\<lambda>j. j\<lparr>j_errno := errno\<rparr>) w else w);
               w2 = u_jbdbf_journal_abort_hard w1
           in if errno \<noteq> 0 then jbdbf_journal_update_superblock w2 True else w2)"

definition jbdbf_journal_abort :: "world \<Rightarrow> int \<Rightarrow> world" where
  "jbdbf_journal_abort w errno = u_journal_abort_soft w errno"

definition jbdbf_journal_errno :: "world \<Rightarrow> int" where
  "jbdbf_journal_errno w =
     (if j_flags (jnl w) AND JBD2_ABORT \<noteq> 0 then - EROFS else j_errno (jnl w))"

definition jbdbf_journal_clear_err :: "world \<Rightarrow> world \<times> int" where
  "jbdbf_journal_clear_err w =
     (if j_flags (jnl w) AND JBD2_ABORT \<noteq> 0 then (w, - EROFS)
      else (upd_jnl (\<lambda>j. j\<lparr>j_errno := 0\<rparr>) w, 0))"

definition jbdbf_journal_ack_err :: "world \<Rightarrow> world" where
  "jbdbf_journal_ack_err w =
     (if j_errno (jnl w) \<noteq> 0 then upd_jnl (\<lambda>j. j\<lparr>j_flags := j_flags j OR JBD2_ACK_ERR\<rparr>) w else w)"

section \<open>Log blocks\<close>

text \<open>j_free is assigned to an int, so its low 32 bits are read as a signed number.\<close>

definition MIN_LOG_RESERVED_BLOCKS :: int where "MIN_LOG_RESERVED_BLOCKS = 32"

definition u_jbdbf_log_space_left :: "journal \<Rightarrow> int" where
  "u_jbdbf_log_space_left j =
     (let left = sint (ucast (j_free j) :: u32);
          left = left - MIN_LOG_RESERVED_BLOCKS
      in if left \<le> 0 then 0 else left - left div 8)"

definition jbdbf_journal_bmap :: "kernel_env \<Rightarrow> world \<Rightarrow> u64 \<Rightarrow> world \<times> (int + u64)" where
  "jbdbf_journal_bmap k w blocknr =
     (if j_inode (jnl w)
      then let ret = k_bmap k blocknr
           in if ret \<noteq> 0 then (w, Inr ret)
              else (u_journal_abort_soft w (- EIO), Inl (- EIO))
      else (w, Inr blocknr))"

text \<open>The ring step of the log head: the block one past the last usable one is the first.\<close>

definition advance_head :: "journal \<Rightarrow> journal" where
  "advance_head j =
     (let h = j_head j + 1
      in j\<lparr>j_head := (if h = j_last j then j_first j else h), j_free := j_free j - 1\<rparr>)"

definition jbdbf_journal_next_log_block :: "kernel_env \<Rightarrow> world \<Rightarrow> (world \<times> (int + u64)) option" where
  "jbdbf_journal_next_log_block k w =
     do { j_assert (j_free (jnl w) > 1);
          let blocknr = j_head (jnl w);
          Some (jbdbf_journal_bmap k (upd_jnl advance_head w) blocknr) }"

section \<open>Reading the superblock\<close>

definition journal_fail_superblock :: "journal \<Rightarrow> journal" where
  "journal_fail_superblock j = j\<lparr>j_sb_buffer := False\<rparr>"

text \<open>The superblock read from the device replaces the contents of its buffer.\<close>

definition read_superblock :: "kernel_env \<Rightarrow> journal \<Rightarrow> journal option" where
  "read_superblock k j =
     (if j_sb_uptodate j then Some j
      else case k_read_super k of
             None \<Rightarrow> None
           | Some sb \<Rightarrow> Some (j\<lparr>j_superblock := sb, j_sb_uptodate := True\<rparr>))"

definition journal_get_superblock :: "kernel_env \<Rightarrow> journal \<Rightarrow> (journal \<times> int) option" where
  "journal_get_superblock k j =
     do { j_assert (j_sb_buffer j);
          Some (case read_superblock k j of
            None \<Rightarrow> (journal_fail_superblock j, - EIO)
          | Some j \<Rightarrow>
              (let sb = j_superblock j
               in if s_magic sb \<noteq> JBD2_MAGIC_NUMBER \<or> s_blocksize sb \<noteq> of_nat (j_blocksize j)
                  then (journal_fail_superblock j, - EINVAL)
                  else if s_blocktype sb \<noteq> JBD2_SUPERBLOCK_V1 \<and> s_blocktype sb \<noteq> JBD2_SUPERBLOCK_V2
                  then (journal_fail_superblock j, - EINVAL)
                  else let j = j\<lparr>j_format_version := (if s_blocktype sb = JBD2_SUPERBLOCK_V1 then 1 else 2)\<rparr>
                       in if s_maxlen sb > j_maxlen j then (journal_fail_superblock j, - EINVAL)
                          else let j = j\<lparr>j_maxlen := s_maxlen sb\<rparr>
                               in if s_first sb = 0 \<or> s_first sb \<ge> j_maxlen j
                                  then (journal_fail_superblock j, - EINVAL)
                                  else (j, 0))) }"

definition load_superblock :: "kernel_env \<Rightarrow> journal \<Rightarrow> (journal \<times> int) option" where
  "load_superblock k j =
     do { (j, err) \<leftarrow> journal_get_superblock k j;
          Some (if err \<noteq> 0 then (j, err)
                else let sb = j_superblock j
                     in (j\<lparr>j_tail_sequence := s_sequence sb, j_tail := ucast (s_start sb),
                           j_first := ucast (s_first sb), j_last := ucast (s_maxlen sb),
                           j_errno := sint (s_errno sb)\<rparr>, 0)) }"

definition journal_convert_superblock_v1 :: "world \<Rightarrow> world \<times> int" where
  "journal_convert_superblock_v1 w =
     (let sb = (j_superblock (jnl w))\<lparr>s_feature_compat := 0, s_feature_incompat := 0, s_feature_ro_compat := 0,
                 s_nr_users := 1, s_blocktype := JBD2_SUPERBLOCK_V2\<rparr>
      in (log_io (WriteSuper sb True) (upd_jnl (\<lambda>j. j\<lparr>j_superblock := sb, j_format_version := 2\<rparr>) w), 0))"

definition jbdbf_journal_update_format :: "kernel_env \<Rightarrow> world \<Rightarrow> (world \<times> int) option" where
  "jbdbf_journal_update_format k w =
     do { (j, err) \<leftarrow> journal_get_superblock k (jnl w);
          let w = w\<lparr>jnl := j\<rparr>;
          Some (if err \<noteq> 0 then (w, err)
                else if s_blocktype (j_superblock j) = JBD2_SUPERBLOCK_V2 then (w, 0)
                else if s_blocktype (j_superblock j) = JBD2_SUPERBLOCK_V1 then journal_convert_superblock_v1 w
                else (w, - EINVAL)) }"

section \<open>Features\<close>

definition jbdbf_journal_check_used_features ::
  "kernel_env \<Rightarrow> journal \<Rightarrow> u32 \<Rightarrow> u32 \<Rightarrow> u32 \<Rightarrow> (journal \<times> bool) option" where
  "jbdbf_journal_check_used_features k j cmp ro incompat =
     (if cmp = 0 \<and> ro = 0 \<and> incompat = 0 then Some (j, True)
      else do { (j, err) \<leftarrow> (if j_format_version j = 0 then journal_get_superblock k j else Some (j, 0));
                Some (j, err = 0 \<and> j_format_version j \<noteq> 1 \<and>
                         s_feature_compat (j_superblock j) AND cmp = cmp \<and>
                         s_feature_ro_compat (j_superblock j) AND ro = ro \<and>
                         s_feature_incompat (j_superblock j) AND incompat = incompat) })"

definition jbdbf_journal_check_available_features :: "journal \<Rightarrow> u32 \<Rightarrow> u32 \<Rightarrow> u32 \<Rightarrow> bool" where
  "jbdbf_journal_check_available_features j cmp ro incompat =
     (if cmp = 0 \<and> ro = 0 \<and> incompat = 0 then True
      else if j_format_version j \<noteq> 2 then False
      else cmp AND JBD2_KNOWN_COMPAT_FEATURES = cmp \<and>
           ro AND JBD2_KNOWN_ROCOMPAT_FEATURES = ro \<and>
           incompat AND JBD2_KNOWN_INCOMPAT_FEATURES = incompat)"

definition jbdbf_journal_set_features ::
  "kernel_env \<Rightarrow> journal \<Rightarrow> u32 \<Rightarrow> u32 \<Rightarrow> u32 \<Rightarrow> (journal \<times> bool) option" where
  "jbdbf_journal_set_features k j cmp ro incompat =
     do { (j, used) \<leftarrow> jbdbf_journal_check_used_features k j cmp ro incompat;
          Some (if used then (j, True)
                else if \<not> jbdbf_journal_check_available_features j cmp ro incompat then (j, False)
                else (j\<lparr>j_superblock := (j_superblock j)\<lparr>
                          s_feature_compat := s_feature_compat (j_superblock j) OR cmp,
                          s_feature_ro_compat := s_feature_ro_compat (j_superblock j) OR ro,
                          s_feature_incompat := s_feature_incompat (j_superblock j) OR incompat\<rparr>\<rparr>, True)) }"

definition jbdbf_journal_clear_features :: "journal \<Rightarrow> u32 \<Rightarrow> u32 \<Rightarrow> u32 \<Rightarrow> journal" where
  "jbdbf_journal_clear_features j cmp ro incompat =
     j\<lparr>j_superblock := (j_superblock j)\<lparr>
         s_feature_compat := s_feature_compat (j_superblock j) AND NOT cmp,
         s_feature_ro_compat := s_feature_ro_compat (j_superblock j) AND NOT ro,
         s_feature_incompat := s_feature_incompat (j_superblock j) AND NOT incompat\<rparr>\<rparr>"

end
