(* ===== verification/Revoke.thy ===== *)
theory Revoke
  imports Journal
begin

text \<open>
  The revoke tables of revoke.c: hash tables of revoke records, one for the running and
  one for the committing transaction, and the operations recovery uses to record and to
  test revokes.  The table refines a finite map from block numbers to the latest
  transaction that revoked the block.
\<close>

section \<open>The hash table\<close>

text \<open>
  Shifts of a 32-bit int.  The count of the third shift in hash is hash_shift - 12, which
  is negative for the table size the journal uses (256 entries, hash_shift 8); C leaves that
  undefined, and the x86 instruction takes the count modulo 32.
\<close>

definition c_shl :: "u32 \<Rightarrow> int \<Rightarrow> u32" where
  "c_shl x n = push_bit (nat (n mod 32)) x"

definition c_sar :: "u32 \<Rightarrow> nat \<Rightarrow> u32" where
  "c_sar x n = signed_drop_bit n x"

definition revoke_hash :: "revoke_table \<Rightarrow> u64 \<Rightarrow> nat" where
  "revoke_hash table block =
     (let shift = int (hash_shift table);
          h = (ucast block :: u32) XOR ucast (drop_bit 1 (drop_bit 31 block))
      in unat ((c_shl h (shift - 6) XOR c_sar h 13 XOR c_shl h (shift - 12))
               AND (of_nat (hash_size table) - 1)))"

text \<open>The table the journal currently uses; None when the pointer is NULL.\<close>

definition cur_revoke :: "journal \<Rightarrow> revoke_table option" where
  "cur_revoke j = Option.bind (j_revoke j) (j_revoke_table j)"

definition set_cur_revoke :: "revoke_table \<Rightarrow> journal \<Rightarrow> journal" where
  "set_cur_revoke table j =
     (case j_revoke j of None \<Rightarrow> j
      | Some i \<Rightarrow> j\<lparr>j_revoke_table := (j_revoke_table j)(i \<mapsto> table)\<rparr>)"

definition table_insert :: "revoke_table \<Rightarrow> u64 \<Rightarrow> u32 \<Rightarrow> revoke_table" where
  "table_insert table blocknr seq =
     (let i = revoke_hash table blocknr
      in table\<lparr>hash_table := (hash_table table)
           [i := \<lparr>rr_sequence = seq, rr_blocknr = blocknr\<rparr> # hash_table table ! i]\<rparr>)"

text \<open>
  insert_revoke_hash: the allocation is retried until it succeeds (journal_oom_retry is 1),
  so the function returns 0.
\<close>

definition insert_revoke_hash :: "journal \<Rightarrow> u64 \<Rightarrow> u32 \<Rightarrow> (journal \<times> int) option" where
  "insert_revoke_hash j blocknr seq =
     do { table \<leftarrow> cur_revoke j;
          Some (set_cur_revoke (table_insert table blocknr seq) j, 0) }"

fun find_in_chain :: "revoke_record list \<Rightarrow> u64 \<Rightarrow> revoke_record option" where
  "find_in_chain [] blocknr = None"
| "find_in_chain (r # rs) blocknr = (if rr_blocknr r = blocknr then Some r else find_in_chain rs blocknr)"

definition table_find :: "revoke_table \<Rightarrow> u64 \<Rightarrow> revoke_record option" where
  "table_find table blocknr = find_in_chain (hash_table table ! revoke_hash table blocknr) blocknr"

definition find_revoke_record :: "journal \<Rightarrow> u64 \<Rightarrow> revoke_record option option" where
  "find_revoke_record j blocknr = do { table \<leftarrow> cur_revoke j; Some (table_find table blocknr) }"

text \<open>Assignment to the sequence field of the record find_revoke_record returned.\<close>

fun set_seq_in_chain :: "revoke_record list \<Rightarrow> u64 \<Rightarrow> u32 \<Rightarrow> revoke_record list" where
  "set_seq_in_chain [] blocknr seq = []"
| "set_seq_in_chain (r # rs) blocknr seq =
     (if rr_blocknr r = blocknr then r\<lparr>rr_sequence := seq\<rparr> # rs
      else r # set_seq_in_chain rs blocknr seq)"

definition table_set_seq :: "revoke_table \<Rightarrow> u64 \<Rightarrow> u32 \<Rightarrow> revoke_table" where
  "table_set_seq table blocknr seq =
     (let i = revoke_hash table blocknr
      in table\<lparr>hash_table := (hash_table table)[i := set_seq_in_chain (hash_table table ! i) blocknr seq]\<rparr>)"

text \<open>list_del of the record find_revoke_record returned.\<close>

fun del_from_chain :: "revoke_record list \<Rightarrow> u64 \<Rightarrow> revoke_record list" where
  "del_from_chain [] blocknr = []"
| "del_from_chain (r # rs) blocknr =
     (if rr_blocknr r = blocknr then rs else r # del_from_chain rs blocknr)"

definition table_delete :: "revoke_table \<Rightarrow> u64 \<Rightarrow> revoke_table" where
  "table_delete table blocknr =
     (let i = revoke_hash table blocknr
      in table\<lparr>hash_table := (hash_table table)[i := del_from_chain (hash_table table ! i) blocknr]\<rparr>)"

section \<open>Creating and destroying tables\<close>

text \<open>The shift is the number of times the size can be halved before it is zero, less one.\<close>

fun shift_loop :: "nat \<Rightarrow> nat \<Rightarrow> nat" where
  "shift_loop tmp shift = (if tmp div 2 \<noteq> 0 then shift_loop (tmp div 2) (shift + 1) else shift)"

declare shift_loop.simps [simp del]

text \<open>The two flags say whether the allocation of the table and of its array succeeds.\<close>

definition jbdbf_journal_init_revoke_table :: "bool \<Rightarrow> bool \<Rightarrow> nat \<Rightarrow> revoke_table option" where
  "jbdbf_journal_init_revoke_table table_ok array_ok hsize =
     (if \<not> table_ok then None
      else if \<not> array_ok then None
      else Some \<lparr>hash_size = hsize, hash_shift = shift_loop hsize 0,
                 hash_table = replicate hsize []\<rparr>)"

definition jbdbf_journal_destroy_revoke_table :: "revoke_table \<Rightarrow> unit option" where
  "jbdbf_journal_destroy_revoke_table table =
     j_assert (\<forall>chain \<in> set (take (hash_size table) (hash_table table)). chain = [])"

definition is_power_of_2 :: "nat \<Rightarrow> bool" where
  "is_power_of_2 n = (n \<noteq> 0 \<and> (of_nat n :: u64) AND (of_nat n - 1) = 0)"

text \<open>The allocation outcomes of the two tables are the arguments ok0 and ok1.\<close>

definition jbdbf_journal_init_revoke ::
    "bool \<times> bool \<Rightarrow> bool \<times> bool \<Rightarrow> journal \<Rightarrow> nat \<Rightarrow> (journal \<times> int) option" where
  "jbdbf_journal_init_revoke ok0 ok1 j hsize =
     do { j_assert (j_revoke_table j 0 = None);
          j_assert (is_power_of_2 hsize);
          let t0 = jbdbf_journal_init_revoke_table (fst ok0) (snd ok0) hsize;
          let j = j\<lparr>j_revoke_table := (j_revoke_table j)(0 := t0)\<rparr>;
          case t0 of
            None \<Rightarrow> Some (j, - ENOMEM)
          | Some table0 \<Rightarrow>
              (let t1 = jbdbf_journal_init_revoke_table (fst ok1) (snd ok1) hsize;
                   j = j\<lparr>j_revoke_table := (j_revoke_table j)(1 := t1)\<rparr>
               in case t1 of
                    None \<Rightarrow> do { jbdbf_journal_destroy_revoke_table table0; Some (j, - ENOMEM) }
                  | Some _ \<Rightarrow> Some (j\<lparr>j_revoke := Some 1\<rparr>, 0)) }"

definition jbdbf_journal_destroy_revoke :: "journal \<Rightarrow> journal option" where
  "jbdbf_journal_destroy_revoke j =
     do { (case j_revoke_table j 0 of None \<Rightarrow> Some () | Some t \<Rightarrow> jbdbf_journal_destroy_revoke_table t);
          (case j_revoke_table j 1 of None \<Rightarrow> Some () | Some t \<Rightarrow> jbdbf_journal_destroy_revoke_table t);
          Some (j\<lparr>j_revoke := None\<rparr>) }"

section \<open>Switching tables at commit\<close>

definition table_clear :: "revoke_table \<Rightarrow> revoke_table" where
  "table_clear table = table\<lparr>hash_table :=
     map (\<lambda>(i, chain). if i < hash_size table then [] else chain)
       (List.enumerate 0 (hash_table table))\<rparr>"

definition jbdbf_journal_switch_revoke_table :: "journal \<Rightarrow> journal option" where
  "jbdbf_journal_switch_revoke_table j =
     (let j = j\<lparr>j_revoke := (if j_revoke j = Some 0 then Some 1 else Some 0)\<rparr>
      in do { table \<leftarrow> cur_revoke j; Some (set_cur_revoke (table_clear table) j) })"

section \<open>Revokes during recovery\<close>

definition jbdbf_journal_set_revoke :: "journal \<Rightarrow> u64 \<Rightarrow> u32 \<Rightarrow> (journal \<times> int) option" where
  "jbdbf_journal_set_revoke j blocknr sequence =
     do { rec \<leftarrow> find_revoke_record j blocknr;
          case rec of
            Some r \<Rightarrow>
              (if tid_gt sequence (rr_sequence r)
               then do { table \<leftarrow> cur_revoke j;
                         Some (set_cur_revoke (table_set_seq table blocknr sequence) j, 0) }
               else Some (j, 0))
          | None \<Rightarrow> insert_revoke_hash j blocknr sequence }"

definition jbdbf_journal_test_revoke :: "journal \<Rightarrow> u64 \<Rightarrow> u32 \<Rightarrow> bool option" where
  "jbdbf_journal_test_revoke j blocknr sequence =
     do { rec \<leftarrow> find_revoke_record j blocknr;
          case rec of
            None \<Rightarrow> Some False
          | Some r \<Rightarrow> Some (\<not> tid_gt sequence (rr_sequence r)) }"

definition jbdbf_journal_clear_revoke :: "journal \<Rightarrow> journal option" where
  "jbdbf_journal_clear_revoke j =
     do { table \<leftarrow> cur_revoke j; Some (set_cur_revoke (table_clear table) j) }"


section \<open>Well-formed tables\<close>

definition chain_ok :: "revoke_table \<Rightarrow> nat \<Rightarrow> revoke_record list \<Rightarrow> bool" where
  "chain_ok table i chain =
     (distinct (map rr_blocknr chain) \<and> (\<forall>r \<in> set chain. revoke_hash table (rr_blocknr r) = i))"

definition table_wf :: "revoke_table \<Rightarrow> bool" where
  "table_wf table =
     ((\<exists>k < 31. hash_size table = 2 ^ k) \<and> length (hash_table table) = hash_size table \<and>
      (\<forall>i < hash_size table. chain_ok table i (hash_table table ! i)))"

text \<open>The map a table stands for.\<close>

definition table_lookup :: "revoke_table \<Rightarrow> u64 \<Rightarrow> u32 option" where
  "table_lookup table blocknr = map_option rr_sequence (table_find table blocknr)"

lemma revoke_hash_bound:
  assumes "hash_size table = 2 ^ k" "k < 31"
  shows "revoke_hash table block < hash_size table"
proof -
  have "(of_nat (2 ^ k) - 1 :: u32) = 2 ^ k - 1" by simp
  then show ?thesis
    using assms word_and_mask_less [of k, where ?'a = 32]
    by (simp add: revoke_hash_def Let_def)
qed

lemma table_wf_hash_bound [intro, simp]:
  "table_wf table \<Longrightarrow> revoke_hash table block < length (hash_table table)"
  using revoke_hash_bound by (auto simp: table_wf_def)

text \<open>Changing the chains does not change where a block hashes to.\<close>

lemma revoke_hash_upd [simp]: "revoke_hash (table\<lparr>hash_table := ht\<rparr>) = revoke_hash table"
  by (rule ext) (simp add: revoke_hash_def)

lemma chain_ok_upd [simp]: "chain_ok (table\<lparr>hash_table := ht\<rparr>) = chain_ok table"
  by (intro ext) (simp add: chain_ok_def)

section \<open>Chains\<close>

lemma find_in_chain_None: "find_in_chain chain b = None \<longleftrightarrow> b \<notin> rr_blocknr ` set chain"
  by (induction chain) auto

lemma find_in_chain_Some_blocknr: "find_in_chain chain b = Some r \<Longrightarrow> rr_blocknr r = b \<and> r \<in> set chain"
  by (induction chain) (auto split: if_splits)

lemma find_set_seq:
  "find_in_chain (set_seq_in_chain chain b s) b' =
     (if b' = b then map_option (\<lambda>r. r\<lparr>rr_sequence := s\<rparr>) (find_in_chain chain b)
      else find_in_chain chain b')"
  by (induction chain) auto

lemma blocknrs_set_seq [simp]: "map rr_blocknr (set_seq_in_chain chain b s) = map rr_blocknr chain"
  by (induction chain) auto

lemma find_del_chain:
  "distinct (map rr_blocknr chain) \<Longrightarrow>
   find_in_chain (del_from_chain chain b) b' = (if b' = b then None else find_in_chain chain b')"
  by (induction chain) (auto simp: find_in_chain_None)

lemma set_del_chain: "set (del_from_chain chain b) \<subseteq> set chain"
  by (induction chain) auto

lemma distinct_del_chain:
  "distinct (map rr_blocknr chain) \<Longrightarrow> distinct (map rr_blocknr (del_from_chain chain b))"
  using set_del_chain by (induction chain) (fastforce simp: image_iff subset_iff)+

lemma chain_ok_set_seq: "chain_ok table i chain \<Longrightarrow> chain_ok table i (set_seq_in_chain chain b s)"
proof -
  have "r \<in> set (set_seq_in_chain chain b s) \<Longrightarrow> rr_blocknr r \<in> rr_blocknr ` set chain" for r
    by (metis blocknrs_set_seq image_eqI image_set)
  then show "chain_ok table i chain \<Longrightarrow> ?thesis"
    by (fastforce simp: chain_ok_def)
qed

lemma chain_ok_del: "chain_ok table i chain \<Longrightarrow> chain_ok table i (del_from_chain chain b)"
  using set_del_chain [of chain b] by (auto simp: chain_ok_def distinct_del_chain)

section \<open>Tables as maps\<close>

lemma table_wf_update_chain:
  assumes "table_wf table" "i = revoke_hash table b" "chain_ok table i chain"
  shows "table_wf (table\<lparr>hash_table := (hash_table table)[i := chain]\<rparr>)"
proof -
  have "chain_ok table ia ((hash_table table)[i := chain] ! ia)" if "ia < hash_size table" for ia
    using assms that by (cases "ia = i") (auto simp: table_wf_def)
  with assms(1) show ?thesis by (auto simp: table_wf_def)
qed

lemma table_wf_chain: "table_wf table \<Longrightarrow> chain_ok table (revoke_hash table b) (hash_table table ! revoke_hash table b)"
  using revoke_hash_bound by (auto simp: table_wf_def)

lemma table_wf_insert:
  "table_wf table \<Longrightarrow> table_find table b = None \<Longrightarrow> table_wf (table_insert table b s)"
  using table_wf_chain [of table b]
  by (auto simp: table_insert_def Let_def table_find_def find_in_chain_None chain_ok_def
      intro!: table_wf_update_chain)

lemma table_wf_set_seq: "table_wf table \<Longrightarrow> table_wf (table_set_seq table b s)"
  by (auto simp: table_set_seq_def Let_def intro!: table_wf_update_chain chain_ok_set_seq table_wf_chain)

lemma table_wf_delete: "table_wf table \<Longrightarrow> table_wf (table_delete table b)"
  by (auto simp: table_delete_def Let_def intro!: table_wf_update_chain chain_ok_del table_wf_chain)

lemma table_find_insert:
  "table_wf table \<Longrightarrow>
   table_find (table_insert table b s) b' =
     (if b' = b then Some \<lparr>rr_sequence = s, rr_blocknr = b\<rparr> else table_find table b')"
  by (auto simp: table_find_def table_insert_def Let_def nth_list_update)

lemma table_find_set_seq:
  "table_wf table \<Longrightarrow>
   table_find (table_set_seq table b s) b' =
     (if b' = b then map_option (\<lambda>r. r\<lparr>rr_sequence := s\<rparr>) (table_find table b) else table_find table b')"
  by (auto simp: table_find_def table_set_seq_def Let_def nth_list_update find_set_seq)

lemma table_find_delete:
  "table_wf table \<Longrightarrow>
   table_find (table_delete table b) b' = (if b' = b then None else table_find table b')"
  using table_wf_chain [of table b]
  by (auto simp: table_find_def table_delete_def Let_def nth_list_update find_del_chain chain_ok_def)

lemma table_clear_chains:
  "table_wf table \<Longrightarrow> hash_table (table_clear table) = replicate (hash_size table) []"
  by (auto simp: table_clear_def table_wf_def nth_enumerate_eq intro!: nth_equalityI)

lemma table_clear_sizes [simp]:
  "hash_size (table_clear table) = hash_size table" "hash_shift (table_clear table) = hash_shift table"
  by (simp_all add: table_clear_def)

lemma revoke_hash_clear [simp]: "revoke_hash (table_clear table) = revoke_hash table"
  by (simp add: table_clear_def)

lemma table_wf_clear: "table_wf table \<Longrightarrow> table_wf (table_clear table)"
  using table_clear_chains [of table] by (auto simp: table_wf_def chain_ok_def)

lemma table_find_clear: "table_wf table \<Longrightarrow> table_find (table_clear table) b = None"
  using table_clear_chains [of table] revoke_hash_bound
  by (auto simp: table_find_def table_wf_def)

text \<open>jbdbf_journal_set_revoke at the level of the table.\<close>

definition table_record :: "revoke_table \<Rightarrow> u64 \<Rightarrow> u32 \<Rightarrow> revoke_table" where
  "table_record table b s =
     (case table_find table b of
        Some r \<Rightarrow> if tid_gt s (rr_sequence r) then table_set_seq table b s else table
      | None \<Rightarrow> table_insert table b s)"

lemma table_wf_record: "table_wf table \<Longrightarrow> table_wf (table_record table b s)"
  by (auto simp: table_record_def table_wf_set_seq table_wf_insert split: option.splits)

lemma table_lookup_record:
  "table_wf table \<Longrightarrow>
   table_lookup (table_record table b s) =
     (table_lookup table)(b \<mapsto> (case table_lookup table b of None \<Rightarrow> s
                                 | Some s' \<Rightarrow> if tid_gt s s' then s else s'))"
  by (rule ext)
    (auto simp: table_record_def table_lookup_def table_find_insert table_find_set_seq
      split: option.splits)

section \<open>The interface recovery relies on\<close>

text \<open>
  The number of the latest transaction that revoked a block, given the transactions seen so far
  as distances from a base number.
\<close>

definition later :: "nat option \<Rightarrow> nat \<Rightarrow> nat option" where
  "later m n = Some (case m of None \<Rightarrow> n | Some k \<Rightarrow> max k n)"

definition latest :: "(u64 \<times> nat) list \<Rightarrow> u64 \<Rightarrow> nat option \<Rightarrow> nat option" where
  "latest recs b m = fold (\<lambda>(c, n) m. if c = b then later m n else m) recs m"

lemma latest_simps [simp]:
  "latest [] b m = m"
  "latest ((c, n) # recs) b m = latest recs b (if c = b then later m n else m)"
  by (simp_all add: latest_def)

lemma latest_geq:
  "(\<exists>k. latest recs b m0 = Some k \<and> m \<le> k) \<longleftrightarrow>
     (\<exists>k. m0 = Some k \<and> m \<le> k) \<or> (\<exists>n. (b, n) \<in> set recs \<and> m \<le> n)"
proof (induction recs arbitrary: m0)
  case Nil
  then show ?case by simp
next
  case (Cons rec recs)
  obtain c n where rec: "rec = (c, n)" by (cases rec)
  have "(\<exists>k. later m0 n = Some k \<and> m \<le> k) \<longleftrightarrow> (\<exists>k. m0 = Some k \<and> m \<le> k) \<or> m \<le> n"
    by (auto simp: later_def max_def split: option.splits)
  with Cons.IH [of "if c = b then later m0 n else m0"] show ?case
    by (auto simp: rec)
qed

lemma latest_bound:
  "\<forall>(b, n) \<in> set recs. n < N \<Longrightarrow> \<forall>k \<in> set_option m. k < N \<Longrightarrow>
   \<forall>k \<in> set_option (latest recs b m). k < N"
proof (induction recs arbitrary: m)
  case (Cons rec recs)
  obtain c n where rec: "rec = (c, n)" by (cases rec)
  have "\<forall>k \<in> set_option (if c = b then later m n else m). k < N"
    using Cons.prems by (auto simp: rec later_def split: option.splits)
  with Cons.IH Cons.prems(1) show ?case
    by (simp add: rec)
qed simp

text \<open>
  A store of revokes: recording keeps the later of two transaction numbers for a block
  and nothing else changes; wiping forgets everything.
\<close>

locale revoke_store =
  fixes invar :: "'t \<Rightarrow> bool"
    and lookup :: "'t \<Rightarrow> u64 \<Rightarrow> u32 option"
    and record_revoke :: "'t \<Rightarrow> u64 \<Rightarrow> u32 \<Rightarrow> 't"
    and wipe :: "'t \<Rightarrow> 't"
  assumes invar_record: "invar t \<Longrightarrow> invar (record_revoke t b s)"
    and lookup_record: "invar t \<Longrightarrow>
      lookup (record_revoke t b s) =
        (lookup t)(b \<mapsto> (case lookup t b of None \<Rightarrow> s
                            | Some s' \<Rightarrow> if tid_gt s s' then s else s'))"
    and invar_wipe: "invar t \<Longrightarrow> invar (wipe t)"
    and lookup_wipe: "invar t \<Longrightarrow> lookup (wipe t) b = None"
begin

definition record_all :: "(u64 \<times> u32) list \<Rightarrow> 't \<Rightarrow> 't" where
  "record_all recs t = fold (\<lambda>(b, s) t. record_revoke t b s) recs t"

lemma record_all_simps [simp]:
  "record_all [] t = t"
  "record_all ((b, s) # recs) t = record_all recs (record_revoke t b s)"
  by (simp_all add: record_all_def)

lemma record_all_append: "record_all (xs @ ys) t = record_all ys (record_all xs t)"
  by (simp add: record_all_def)

lemma invar_record_all: "invar t \<Longrightarrow> invar (record_all recs t)"
  by (induction recs arbitrary: t) (auto simp: invar_record)

text \<open>
  Recording a sequence of revokes whose transaction numbers lie within half the counter range
  of a base leaves, for each block, the latest of them.
\<close>

lemma lookup_record_all:
  assumes "invar t"
    and "\<forall>(b, n) \<in> set recs. n < 2 ^ 31"
    and "\<forall>k \<in> set_option m. k < 2 ^ 31"
    and "lookup t b = map_option (\<lambda>n. base + of_nat n) m"
  shows "lookup (record_all (map (\<lambda>(b, n). (b, base + of_nat n)) recs) t) b =
     map_option (\<lambda>n. base + of_nat n) (latest recs b m)"
  using assms
proof (induction recs arbitrary: t m)
  case Nil
  then show ?case by simp
next
  case (Cons rec recs)
  obtain c n where rec: "rec = (c, n)" by (cases rec)
  define t' where "t' = record_revoke t c (base + of_nat n)"
  define m' where "m' = (if c = b then later m n else m)"
  have n: "n < 2 ^ 31" using Cons.prems(2) rec by auto
  have "invar t'" using Cons.prems(1) by (simp add: t'_def invar_record)
  moreover have "\<forall>k \<in> set_option m'. k < 2 ^ 31"
    using Cons.prems(3) n by (auto simp: m'_def later_def split: option.splits)
  moreover have "lookup t' b = map_option (\<lambda>n. base + of_nat n) m'"
  proof (cases m)
    case None
    then show ?thesis
      using Cons.prems(1,4) by (cases "b = c") (simp_all add: t'_def m'_def lookup_record later_def)
  next
    case (Some k)
    then have "k < 2 ^ 31" using Cons.prems(3) by simp
    then have "tid_gt (base + of_nat n) (base + of_nat k) \<longleftrightarrow> k < n"
      using n by (rule tid_gt_offsets [rotated])
    then show ?thesis
      using Cons.prems(1,4) Some
      by (cases "b = c") (simp_all add: t'_def m'_def lookup_record later_def max_def)
  qed
  ultimately show ?case
    using Cons.IH [of t' m'] Cons.prems(2) by (simp add: rec t'_def m'_def)
qed

text \<open>Whether a block of a given transaction counts as revoked after recording from scratch.\<close>

lemma revoked_after_record_all:
  assumes "invar t" "lookup t b = None"
    and "\<forall>(b, n) \<in> set recs. n < 2 ^ 31" "m < 2 ^ 31"
  shows "(case lookup (record_all (map (\<lambda>(b, n). (b, base + of_nat n)) recs) t) b of
            None \<Rightarrow> False | Some s \<Rightarrow> \<not> tid_gt (base + of_nat m) s) \<longleftrightarrow>
         (\<exists>n. (b, n) \<in> set recs \<and> m \<le> n)"
proof -
  let ?l = "latest recs b None"
  have look: "lookup (record_all (map (\<lambda>(b, n). (b, base + of_nat n)) recs) t) b =
      map_option (\<lambda>n. base + of_nat n) ?l"
    using assms by (intro lookup_record_all) auto
  have "\<forall>k \<in> set_option ?l. k < 2 ^ 31"
    using assms(3) by (intro latest_bound) auto
  then have "(case map_option (\<lambda>n. base + of_nat n) ?l of
      None \<Rightarrow> False | Some s \<Rightarrow> \<not> tid_gt (base + of_nat m) s) \<longleftrightarrow> (\<exists>k. ?l = Some k \<and> m \<le> k)"
    using assms(4) by (auto simp: tid_gt_offsets not_less split: option.splits)
  then show ?thesis
    unfolding look latest_geq by simp
qed

end

interpretation rvk: revoke_store table_wf table_lookup table_record table_clear
  by unfold_locales
    (simp_all add: table_wf_record table_lookup_record table_wf_clear table_lookup_def table_find_clear)

section \<open>The journal operations over the current table\<close>

lemma cur_revoke_set [simp]: "cur_revoke j = Some t0 \<Longrightarrow> cur_revoke (set_cur_revoke t j) = Some t"
  by (auto simp: cur_revoke_def set_cur_revoke_def bind_eq_Some_conv)

lemma set_cur_revoke_set [simp]: "set_cur_revoke t (set_cur_revoke t' j) = set_cur_revoke t j"
  by (auto simp: set_cur_revoke_def split: option.splits)

lemma set_cur_revoke_same: "cur_revoke j = Some table \<Longrightarrow> set_cur_revoke table j = j"
  by (cases "j_revoke j") (simp_all add: cur_revoke_def set_cur_revoke_def fun_upd_idem)

lemma set_revoke_table:
  "cur_revoke j = Some table \<Longrightarrow>
   jbdbf_journal_set_revoke j b s = Some (set_cur_revoke (table_record table b s) j, 0)"
  by (cases "table_find table b")
    (simp_all add: jbdbf_journal_set_revoke_def find_revoke_record_def table_record_def
      insert_revoke_hash_def set_cur_revoke_same)

lemma test_revoke_table:
  "cur_revoke j = Some table \<Longrightarrow>
   jbdbf_journal_test_revoke j b s =
     Some (case table_lookup table b of None \<Rightarrow> False | Some s' \<Rightarrow> \<not> tid_gt s s')"
  by (auto simp: jbdbf_journal_test_revoke_def find_revoke_record_def table_lookup_def
      split: option.splits)

text \<open>Recording a list of revokes one after the other.\<close>

fun set_revokes :: "journal \<Rightarrow> (u64 \<times> u32) list \<Rightarrow> journal option" where
  "set_revokes j [] = Some j"
| "set_revokes j ((b, s) # recs) =
     do { (j', err) \<leftarrow> jbdbf_journal_set_revoke j b s; set_revokes j' recs }"

lemma set_revokes_table:
  "cur_revoke j = Some table \<Longrightarrow>
   set_revokes j recs = Some (set_cur_revoke (rvk.record_all recs table) j)"
proof (induction recs arbitrary: j table)
  case Nil
  then show ?case by (simp add: set_cur_revoke_same)
next
  case (Cons rec recs)
  obtain b s where rec: "rec = (b, s)" by (cases rec)
  have "cur_revoke (set_cur_revoke (table_record table b s) j) = Some (table_record table b s)"
    using Cons.prems by simp
  from Cons.IH [OF this] show ?case
    using Cons.prems by (simp add: rec set_revoke_table)
qed

section \<open>Fresh tables\<close>

lemma fresh_table_wf:
  "k < 31 \<Longrightarrow> table_wf \<lparr>hash_size = 2 ^ k, hash_shift = sh, hash_table = replicate (2 ^ k) []\<rparr>"
  by (auto simp: table_wf_def chain_ok_def)

lemma fresh_table_lookup:
  "k < 31 \<Longrightarrow>
   table_lookup \<lparr>hash_size = 2 ^ k, hash_shift = sh, hash_table = replicate (2 ^ k) []\<rparr> b = None"
  using revoke_hash_bound [of "\<lparr>hash_size = 2 ^ k, hash_shift = sh, hash_table = replicate (2 ^ k) []\<rparr>" k b]
  by (simp add: table_lookup_def table_find_def)

lemma shift_loop_power: "shift_loop (2 ^ k) s = s + k"
proof (induction k arbitrary: s)
  case 0
  then show ?case by (simp add: shift_loop.simps)
next
  case (Suc k)
  have "shift_loop (2 ^ Suc k) s = shift_loop (2 ^ k) (s + 1)"
    by (subst shift_loop.simps) simp
  with Suc.IH show ?case by simp
qed

lemma and_pred_zero_power: "(n::nat) \<noteq> 0 \<Longrightarrow> n AND (n - 1) = 0 \<Longrightarrow> \<exists>k. n = 2 ^ k"
proof (induction n rule: less_induct)
  case (less n)
  show ?case
  proof (cases "even n")
    case True
    then obtain m where m: "n = 2 * m" by blast
    have "(n AND (n - 1)) div 2 = m AND (m - 1)"
    proof -
      have "(n AND (n - 1)) div 2 = n div 2 AND (n - 1) div 2"
        by (simp add: drop_bit_eq_div [of 1, simplified, symmetric])
      also have "(n - 1) div 2 = m - 1" using m less.prems(1) by simp
      finally show ?thesis using m by simp
    qed
    with less.prems(2) have "m AND (m - 1) = 0" by simp
    moreover have "m \<noteq> 0" "m < n" using m less.prems(1) by auto
    ultimately obtain k where "m = 2 ^ k" using less.IH by blast
    with m have "n = 2 ^ Suc k" by simp
    then show ?thesis by blast
  next
    case False
    then obtain m where m: "n = 2 * m + 1" by (metis oddE)
    have "(n AND (n - 1)) div 2 = n div 2 AND (n - 1) div 2"
      by (simp add: drop_bit_eq_div [of 1, simplified, symmetric])
    with m less.prems(2) have "m = 0" by simp
    with m have "n = 2 ^ 0" by simp
    then show ?thesis by blast
  qed
qed

lemma power_of_2_exponent:
  assumes "is_power_of_2 n" "n < 2 ^ 31"
  shows "\<exists>k. n = 2 ^ k \<and> k < 31"
proof -
  have n: "n \<noteq> 0" and z: "(of_nat n :: u64) AND (of_nat n - 1) = 0"
    using assms(1) by (auto simp: is_power_of_2_def)
  have u: "unat (of_nat n :: u64) = n" "unat (of_nat n - 1 :: u64) = n - 1"
  proof -
    show un: "unat (of_nat n :: u64) = n"
      using assms(2) by (simp add: unsigned_of_nat take_bit_nat_eq_self)
    then have "of_nat n \<noteq> (0 :: u64)" using n by (metis unsigned_0)
    with un show "unat (of_nat n - 1 :: u64) = n - 1"
      by (metis unat_dec_pos)
  qed
  have "n AND (n - 1) = unat ((of_nat n :: u64) AND (of_nat n - 1))"
    using u by (simp add: unsigned_and_eq)
  with z have "n AND (n - 1) = 0" by simp
  with n obtain k where k: "n = 2 ^ k" using and_pred_zero_power by blast
  with assms(2) have "k < 31"
    by (metis nat_power_less_imp_less zero_less_numeral)
  with k show ?thesis by blast
qed

section \<open>Properties\<close>

text \<open>
  C1: a block logged by a transaction counts as revoked exactly when a revoke of that block
  was recorded by the same or a later transaction.  Any sequence of jbdbf_journal_set_revoke
  calls on an emptied table returns, in whatever order the revokes come and wherever the 32-bit
  transaction counter wraps, and afterwards jbdbf_journal_test_revoke answers that question.
\<close>

theorem test_revoke_after_set_revokes:
  assumes "cur_revoke j = Some table" "table_wf table"
    and "\<forall>(b, n) \<in> set recs. n < 2 ^ 31" "m < 2 ^ 31"
  shows "\<exists>j0 j1. jbdbf_journal_clear_revoke j = Some j0 \<and>
     set_revokes j0 (map (\<lambda>(b, n). (b, base + of_nat n)) recs) = Some j1 \<and>
     jbdbf_journal_test_revoke j1 b (base + of_nat m) = Some (\<exists>n. (b, n) \<in> set recs \<and> m \<le> n)"
proof -
  let ?t0 = "table_clear table" and ?j0 = "set_cur_revoke (table_clear table) j"
  let ?t1 = "rvk.record_all (map (\<lambda>(b, n). (b, base + of_nat n)) recs) ?t0"
  have j0: "jbdbf_journal_clear_revoke j = Some ?j0"
    using assms(1) by (simp add: jbdbf_journal_clear_revoke_def)
  have c0: "cur_revoke ?j0 = Some ?t0"
    using assms(1) by simp
  have "cur_revoke (set_cur_revoke ?t1 ?j0) = Some ?t1"
    using c0 by (rule cur_revoke_set)
  then have "jbdbf_journal_test_revoke (set_cur_revoke ?t1 ?j0) b (base + of_nat m) =
      Some (\<exists>n. (b, n) \<in> set recs \<and> m \<le> n)"
    using rvk.revoked_after_record_all [OF rvk.invar_wipe [OF assms(2)]
        rvk.lookup_wipe [OF assms(2)] assms(3,4), where b = b and base = base]
    by (simp add: test_revoke_table)
  with j0 set_revokes_table [OF c0] show ?thesis by blast
qed


definition two_chains :: revoke_table where
  "two_chains = \<lparr>hash_size = 2 ^ 1, hash_shift = 1, hash_table = replicate (2 ^ 1) []\<rparr>"

definition two_chains_journal :: journal where
  "two_chains_journal = zero_journal\<lparr>j_revoke := Some 0, j_revoke_table := [0 \<mapsto> two_chains]\<rparr>"

lemma two_chains_wf: "table_wf two_chains"
  unfolding two_chains_def by (rule fresh_table_wf) simp

lemma two_chains_current: "cur_revoke two_chains_journal = Some two_chains"
  by (simp add: cur_revoke_def two_chains_journal_def)

theorem test_revoke_after_set_revokes_witness:
  "\<exists>j0 j1. jbdbf_journal_clear_revoke two_chains_journal = Some j0 \<and>
     set_revokes j0 [(9, 2), (9, 0), (8, 1)] = Some j1 \<and>
     jbdbf_journal_test_revoke j1 9 2 = Some True"
  using test_revoke_after_set_revokes [OF two_chains_current two_chains_wf,
      where recs = "[(9, 3), (9, 1), (8, 2)]" and m = 3 and b = 9 and base = "- 1"]
  by auto

lemma fresh_table_clear:
  "table_clear \<lparr>hash_size = n, hash_shift = k, hash_table = replicate n []\<rparr> =
     \<lparr>hash_size = n, hash_shift = k, hash_table = replicate n []\<rparr>"
  by (auto simp: table_clear_def intro!: nth_equalityI simp: nth_enumerate_eq)

text \<open>
  C2: initialising the revoke tables of a fresh journal with a size that passes the
  assertion, for every outcome of the four allocations.  If they all succeed the journal gets
  two empty well-formed tables of that size, whose shift is the binary logarithm of the size,
  the second one is current, and the switch at the first commit makes the first one current, still
  empty.  If the first table cannot be allocated the function returns -ENOMEM and the journal is as before;
  if the second cannot it returns -ENOMEM with no second table and none current.
\<close>

theorem init_revoke_tables:
  assumes "j_revoke_table j 0 = None" "j_revoke j = None" "is_power_of_2 n" "n < 2 ^ 31"
  shows "\<exists>table. table_wf table \<and> hash_size table = n \<and> n = 2 ^ hash_shift table \<and>
     (\<forall>b. table_lookup table b = None) \<and>
     (let one = j\<lparr>j_revoke_table := (j_revoke_table j)(0 := Some table, 1 := None)\<rparr>;
          both = j\<lparr>j_revoke_table := (j_revoke_table j)(0 := Some table, 1 := Some table), j_revoke := Some 1\<rparr>
      in jbdbf_journal_init_revoke (head0, array0) (head1, array1) j n =
           Some (if \<not> (head0 \<and> array0) then (j, - ENOMEM)
                 else if \<not> (head1 \<and> array1) then (one, - ENOMEM) else (both, 0)) \<and>
         cur_revoke j = None \<and> cur_revoke one = None \<and> cur_revoke both = j_revoke_table both 1 \<and>
         jbdbf_journal_switch_revoke_table both = Some (both\<lparr>j_revoke := Some 0\<rparr>))"
proof -
  obtain k where k: "n = 2 ^ k" "k < 31"
    using power_of_2_exponent [OF assms(3,4)] by blast
  let ?t = "\<lparr>hash_size = 2 ^ k, hash_shift = k, hash_table = replicate (2 ^ k) []\<rparr>"
  let ?one = "j\<lparr>j_revoke_table := (j_revoke_table j)(0 := Some ?t, 1 := None)\<rparr>"
  let ?both = "j\<lparr>j_revoke_table := (j_revoke_table j)(0 := Some ?t, 1 := Some ?t), j_revoke := Some 1\<rparr>"
  have none: "(j_revoke_table j)(0 := None) = j_revoke_table j" using assms(1) by (rule fun_upd_idem)
  have destroy: "jbdbf_journal_destroy_revoke_table ?t = Some ()"
    by (simp add: jbdbf_journal_destroy_revoke_table_def)
  have init: "jbdbf_journal_init_revoke (head0, array0) (head1, array1) j n =
      Some (if \<not> (head0 \<and> array0) then (j, - ENOMEM)
            else if \<not> (head1 \<and> array1) then (?one, - ENOMEM) else (?both, 0))"
    using assms(1,3) k none destroy
    by (simp add: jbdbf_journal_init_revoke_def jbdbf_journal_init_revoke_table_def shift_loop_power Let_def)
  have switch: "jbdbf_journal_switch_revoke_table ?both = Some (?both\<lparr>j_revoke := Some 0\<rparr>)"
    by (simp add: jbdbf_journal_switch_revoke_table_def cur_revoke_def set_cur_revoke_def fresh_table_clear
        fun_upd_twist)
  have "cur_revoke j = None" "cur_revoke ?one = None" "cur_revoke ?both = j_revoke_table ?both 1"
    using assms(2) by (simp_all add: cur_revoke_def)
  then show ?thesis
    using init switch k(1) fresh_table_wf [OF k(2)] fresh_table_lookup [OF k(2)]
    by (intro exI [of _ ?t]) (simp only: Let_def revoke_table.simps simp_thms)
qed

theorem init_revoke_tables_witness:
  "\<exists>table. table_wf table \<and> hash_size table = 256 \<and> 256 = (2::nat) ^ hash_shift table \<and>
     jbdbf_journal_init_revoke (True, True) (True, True) zero_journal 256 =
       Some (zero_journal\<lparr>j_revoke_table := (j_revoke_table zero_journal)(0 := Some table, 1 := Some table),
                          j_revoke := Some 1\<rparr>, 0) \<and>
     jbdbf_journal_init_revoke (True, False) (True, True) zero_journal 256 = Some (zero_journal, - ENOMEM)"
proof -
  have "is_power_of_2 256"
    by (simp add: is_power_of_2_def)
  then show ?thesis
    using init_revoke_tables [of zero_journal 256 True True True True]
    by (auto simp: zero_journal_def Let_def jbdbf_journal_init_revoke_def jbdbf_journal_init_revoke_table_def)
qed

end
