(* ===== verification/Recovery.thy ===== *)
theory Recovery
  imports Revoke
begin

text \<open>
  Journal recovery, recovery.c: reading blocks of the log, the tags of descriptor
  blocks, the table of data blocks whose checksum does not match, and the three passes
  (scan, revoke, replay) over the log.  A pass is a loop over a step function; the loop
  may run forever on a corrupt log, so it is a partial function and its theorems show that
  it returns.
\<close>

section \<open>Checksums and tags\<close>

text \<open>dzat_checksum: the loop over the ints of a block stops at the first non-zero one.\<close>

function dzat_loop :: "bytes \<Rightarrow> nat \<Rightarrow> nat \<Rightarrow> u32 \<Rightarrow> u32" where
  "dzat_loop p n i flag =
     (if i < n \<and> flag = 0
      then dzat_loop p n (i + 1) (if get_le32 p (4 * i) \<noteq> 0 then 1 else flag)
      else flag)"
  by pat_completeness auto
termination
  by (relation "measure (\<lambda>(p, n, i, flag). n - i)") auto

declare dzat_loop.simps [simp del]

definition dzat_checksum :: "bytes \<Rightarrow> nat \<Rightarrow> u32" where
  "dzat_checksum p sz = dzat_loop p (sz div 4) 0 0"

text \<open>The fields of the tag at an offset of a descriptor block.\<close>

definition tag_flags :: "bytes \<Rightarrow> nat \<Rightarrow> u32" where
  "tag_flags b tagp = get_be32 b (tagp + 4)"

definition read_tag_block :: "nat \<Rightarrow> bytes \<Rightarrow> nat \<Rightarrow> u64" where
  "read_tag_block tag_bytes b tagp =
     (let block = (ucast (get_be32 b tagp) :: u64)
      in if tag_bytes > JBD2_TAG_SIZE32
         then block OR push_bit 32 (ucast (get_be32 b (tagp + 8)))
         else block)"

definition read_tag_checksum :: "bytes \<Rightarrow> nat \<Rightarrow> u32" where
  "read_tag_checksum b tagp = get_be32 b (tagp + 16)"

definition read_tag_type :: "bytes \<Rightarrow> nat \<Rightarrow> u32" where
  "read_tag_type b tagp = get_be32 b (tagp + 48)"

section \<open>Reading blocks\<close>

definition MAXBUF :: nat where "MAXBUF = 8"

definition buffer_uptodate :: "world \<Rightarrow> dev \<Rightarrow> u64 \<Rightarrow> bool" where
  "buffer_uptodate w d b = (breq w d b \<and> \<not> unreadable w d b)"

text \<open>ll_rw_block(READ): each block of the batch is requested.\<close>

definition ll_rw_block_read :: "dev \<Rightarrow> u64 list \<Rightarrow> world \<Rightarrow> world" where
  "ll_rw_block_read d bs w =
     w\<lparr>breq := \<lambda>d' b. if d' = d \<and> b \<in> set bs then True else breq w d' b\<rparr>"

text \<open>
  do_readahead: blocks that are not up to date are read in batches of MAXBUF.  On a bad
  block the current batch is released without being submitted.
\<close>

function readahead_loop :: "kernel_env \<Rightarrow> world \<Rightarrow> nat \<Rightarrow> nat \<Rightarrow> u64 list \<Rightarrow> world \<times> int" where
  "readahead_loop k w next maxb bufs =
     (if next < maxb
      then case jbdbf_journal_bmap k w (of_nat next) of
             (w, Inl err) \<Rightarrow> (w, err)
           | (w, Inr blocknr) \<Rightarrow>
               (let d = j_dev (jnl w)
                in if k_getblk_null k d blocknr then (w, - ENOMEM)
                   else if \<not> buffer_uptodate w d blocknr
                   then (let bufs = bufs @ [blocknr]
                         in if length bufs = MAXBUF
                            then readahead_loop k (ll_rw_block_read d bufs w) (next + 1) maxb []
                            else readahead_loop k w (next + 1) maxb bufs)
                   else readahead_loop k w (next + 1) maxb bufs)
      else (ll_rw_block_read (j_dev (jnl w)) bufs w, 0))"
  by pat_completeness auto
termination
  by (relation "measure (\<lambda>(k, w, next, maxb, bufs). maxb - next)") auto

declare readahead_loop.simps [simp del]

definition do_readahead :: "kernel_env \<Rightarrow> world \<Rightarrow> u32 \<Rightarrow> world \<times> int" where
  "do_readahead k w start =
     (let maxb = start + of_nat (128 * 1024 div j_blocksize (jnl w));
          maxb = (if maxb > j_maxlen (jnl w) then j_maxlen (jnl w) else maxb)
      in readahead_loop k w (unat start) (unat maxb) [])"

definition jread :: "kernel_env \<Rightarrow> world \<Rightarrow> u32 \<Rightarrow> world \<times> (int + bytes)" where
  "jread k w offset =
     (if offset \<ge> j_maxlen (jnl w) then (w, Inl (- EIO))
      else case jbdbf_journal_bmap k w (ucast offset) of
             (w, Inl err) \<Rightarrow> (w, Inl err)
           | (w, Inr blocknr) \<Rightarrow>
               (let d = j_dev (jnl w)
                in if k_getblk_null k d blocknr then (w, Inl (- ENOMEM))
                   else let w = (if \<not> buffer_uptodate w d blocknr \<and> \<not> breq w d blocknr
                                 then fst (do_readahead k w offset) else w)
                        in if \<not> buffer_uptodate w d blocknr then (w, Inl (- EIO))
                           else (w, Inr (bdata w d blocknr))))"

definition dread :: "kernel_env \<Rightarrow> world \<Rightarrow> u64 \<Rightarrow> world \<times> (int + bytes)" where
  "dread k w blocknr =
     (let d = j_fs_dev (jnl w)
      in if k_getblk_null k d blocknr then (w, Inl (- ENOMEM))
         else let w = (if \<not> buffer_uptodate w d blocknr then ll_rw_block_read d [blocknr] w else w)
              in if \<not> buffer_uptodate w d blocknr then (w, Inl (- EIO))
                 else (w, Inr (bdata w d blocknr)))"

section \<open>Descriptor blocks\<close>

text \<open>
  The position of the tag after the one at tagp: a tag that does not share the UUID of the
  one before is followed by 16 bytes of UUID.
\<close>

definition next_tagp :: "journal \<Rightarrow> bytes \<Rightarrow> nat \<Rightarrow> nat" where
  "next_tagp j b tagp =
     (tagp + journal_tag_bytes j + (if tag_flags b tagp AND JBD2_FLAG_SAME_UUID = 0 then 16 else 0))"

lemma next_tagp_gt [simp]: "tagp < next_tagp j b tagp"
  by (simp add: next_tagp_def journal_tag_bytes_def size_defs)

function count_tags_loop :: "journal \<Rightarrow> bytes \<Rightarrow> nat \<Rightarrow> nat \<Rightarrow> nat" where
  "count_tags_loop j b tagp nr =
     (if tagp + journal_tag_bytes j \<le> j_blocksize j
      then let nr = (if read_tag_type b tagp \<noteq> T_BLOCKTYPE_NEWLYAPPENDEDDATA then nr + 1 else nr)
           in if tag_flags b tagp AND JBD2_FLAG_LAST_TAG \<noteq> 0 then nr
              else count_tags_loop j b (next_tagp j b tagp) nr
      else nr)"
  by pat_completeness auto
termination
  by (relation "measure (\<lambda>(j, b, tagp, nr). j_blocksize j - tagp)")
    (auto intro!: diff_less_mono2 simp: journal_tag_bytes_def size_defs)

declare count_tags_loop.simps [simp del]

definition count_tags :: "journal \<Rightarrow> bytes \<Rightarrow> nat" where
  "count_tags j b = count_tags_loop j b sizeof_header 0"

section \<open>The table of mismatched data blocks\<close>

record dc_struct =
  mismatched_blocks :: "u64 list"
  dc_next_commit_ID :: "u32 list"

definition DC_CAPACITY :: nat where "DC_CAPACITY = 100"

definition init_dc_struct :: dc_struct where
  "init_dc_struct =
     \<lparr>mismatched_blocks = replicate DC_CAPACITY 0, dc_next_commit_ID = replicate DC_CAPACITY 0\<rparr>"

text \<open>The first index at which a for loop over the table finds the block.\<close>

definition dc_index :: "dc_struct \<Rightarrow> u64 \<Rightarrow> nat option" where
  "dc_index dc block = find (\<lambda>i. mismatched_blocks dc ! i = block) [0..<DC_CAPACITY]"

definition add_to_mismatched_blocks :: "dc_struct \<Rightarrow> u64 \<Rightarrow> u32 \<Rightarrow> dc_struct" where
  "add_to_mismatched_blocks dc block tid =
     (case dc_index dc block of
        Some i \<Rightarrow> dc\<lparr>dc_next_commit_ID := (dc_next_commit_ID dc)[i := tid]\<rparr>
      | None \<Rightarrow>
          (case dc_index dc 0 of
             Some i \<Rightarrow> dc\<lparr>mismatched_blocks := (mismatched_blocks dc)[i := block],
                          dc_next_commit_ID := (dc_next_commit_ID dc)[i := tid]\<rparr>
           | None \<Rightarrow> dc))"

definition delete_from_mismatched_blocks :: "dc_struct \<Rightarrow> u64 \<Rightarrow> dc_struct" where
  "delete_from_mismatched_blocks dc block =
     (case dc_index dc block of
        Some i \<Rightarrow> dc\<lparr>mismatched_blocks := (mismatched_blocks dc)[i := 0]\<rparr>
      | None \<Rightarrow> dc)"

text \<open>One iteration of the search for the entry with the smallest transaction number.\<close>

definition dc_better :: "dc_struct \<Rightarrow> nat option \<Rightarrow> nat \<Rightarrow> nat option" where
  "dc_better dc error_index i =
     (if mismatched_blocks dc ! i \<noteq> 0
      then case error_index of
             None \<Rightarrow> Some i
           | Some e \<Rightarrow> (if dc_next_commit_ID dc ! e > dc_next_commit_ID dc ! i then Some i else Some e)
      else error_index)"

definition is_datachecksum_err :: "dc_struct \<Rightarrow> (u32 \<times> u64) option" where
  "is_datachecksum_err dc =
     map_option (\<lambda>i. (dc_next_commit_ID dc ! i, mismatched_blocks dc ! i))
       (foldl (dc_better dc) None [0..<DC_CAPACITY])"

text \<open>
  The loop of read_and_verify_checksums.  It returns 1 at the first data block that cannot
  be read, without looking at the remaining tags.
\<close>

function verify_loop ::
    "kernel_env \<Rightarrow> journal \<Rightarrow> bytes \<Rightarrow> u32 \<Rightarrow> world \<Rightarrow> dc_struct \<Rightarrow> nat \<Rightarrow> int \<Rightarrow>
     world \<times> dc_struct \<times> int" where
  "verify_loop k j b next_commit_ID w dc tagp chksum_err =
     (if tagp + journal_tag_bytes j \<le> j_blocksize j
      then let blocknr = read_tag_block (journal_tag_bytes j) b tagp;
               blocktype = read_tag_type b tagp;
               next = (\<lambda>w dc chksum_err.
                 if tag_flags b tagp AND JBD2_FLAG_LAST_TAG \<noteq> 0 then (w, dc, chksum_err)
                 else verify_loop k j b next_commit_ID w dc (next_tagp j b tagp) chksum_err)
           in if blocktype = T_BLOCKTYPE_NEWLYAPPENDEDDATA
              then (case dread k w blocknr of
                      (w, Inl err) \<Rightarrow> (w, dc, 1)
                    | (w, Inr obh) \<Rightarrow>
                        (if dzat_checksum obh (j_blocksize j) \<noteq> read_tag_checksum b tagp
                         then next w (add_to_mismatched_blocks dc blocknr next_commit_ID) 1
                         else next w dc chksum_err))
              else if blocktype = T_BLOCKTYPE_OVERWRITTENDATA
              then next w (delete_from_mismatched_blocks dc blocknr) chksum_err
              else next w dc chksum_err
      else (w, dc, chksum_err))"
  by pat_completeness auto
termination
  by (relation "measure (\<lambda>(k, j, b, tid, w, dc, tagp, err). j_blocksize j - tagp)")
    (auto intro!: diff_less_mono2 simp: journal_tag_bytes_def size_defs)

declare verify_loop.simps [simp del]

definition read_and_verify_checksums ::
    "kernel_env \<Rightarrow> world \<Rightarrow> bytes \<Rightarrow> dc_struct \<Rightarrow> u32 \<Rightarrow> world \<times> dc_struct \<times> int" where
  "read_and_verify_checksums k w b dc next_commit_ID =
     verify_loop k (jnl w) b next_commit_ID w dc sizeof_header 0"

section \<open>The passes\<close>

definition wrap :: "journal \<Rightarrow> u64 \<Rightarrow> u64" where
  "wrap j var = (if var \<ge> j_last j then var - (j_last j - j_first j) else var)"

text \<open>
  calc_chksums: the new log position and checksum, and whether all blocks could be read.
\<close>

fun chksum_loop :: "kernel_env \<Rightarrow> world \<Rightarrow> nat \<Rightarrow> u64 \<Rightarrow> u32 \<Rightarrow> world \<times> u64 \<times> u32 \<times> int" where
  "chksum_loop k w 0 next_log_block crc32_sum = (w, next_log_block, crc32_sum, 0)"
| "chksum_loop k w (Suc n) next_log_block crc32_sum =
     (let io_block = next_log_block; next_log_block = wrap (jnl w) (next_log_block + 1)
      in case jread k w (ucast io_block) of
           (w, Inl err) \<Rightarrow> (w, next_log_block, crc32_sum, 1)
         | (w, Inr obh) \<Rightarrow>
             chksum_loop k w n next_log_block (dzat_checksum obh (j_blocksize (jnl w))))"

definition calc_chksums :: "kernel_env \<Rightarrow> world \<Rightarrow> bytes \<Rightarrow> u64 \<Rightarrow> u32 \<Rightarrow> world \<times> u64 \<times> u32 \<times> int" where
  "calc_chksums k w b next_log_block crc32_sum =
     chksum_loop k w (count_tags (jnl w) b) next_log_block (dzat_checksum b (j_blocksize (jnl w)))"

record recovery_info =
  start_transaction :: u32
  end_transaction :: u32
  nr_replays :: int
  nr_revokes :: int
  nr_revoke_hits :: int

datatype passtype = PASS_SCAN | PASS_REVOKE | PASS_REPLAY

text \<open>
  scan_revoke_records.  The count is read from the block and not compared with the block
  size: reading past the end of the block is None.
\<close>

function revoke_records_loop ::
    "bytes \<Rightarrow> nat \<Rightarrow> int \<Rightarrow> u32 \<Rightarrow> nat \<Rightarrow> journal \<Rightarrow> recovery_info \<Rightarrow> (journal \<times> recovery_info \<times> int) option" where
  "revoke_records_loop b record_len maxb sequence offset j info =
     (if int (offset + record_len) \<le> maxb \<and> record_len > 0
      then do { j_assert (offset + record_len \<le> length b);
                let blocknr = (if record_len = 4 then ucast (get_be32 b offset) else get_be64 b offset);
                (j, err) \<leftarrow> jbdbf_journal_set_revoke j blocknr sequence;
                if err \<noteq> 0 then Some (j, info, err)
                else revoke_records_loop b record_len maxb sequence (offset + record_len) j
                       (info\<lparr>nr_revokes := nr_revokes info + 1\<rparr>) }
      else Some (j, info, 0))"
  by pat_completeness auto
termination
  by (relation "measure (\<lambda>(b, len, maxb, sequence, offset, j, info). nat maxb - offset)") auto

declare revoke_records_loop.simps [simp del]

definition revoke_record_len :: "journal \<Rightarrow> nat" where
  "revoke_record_len j = (if JBD2_HAS_INCOMPAT_FEATURE j JBD2_FEATURE_INCOMPAT_64BIT then 8 else 4)"

definition scan_revoke_records ::
    "journal \<Rightarrow> bytes \<Rightarrow> u32 \<Rightarrow> recovery_info \<Rightarrow> (journal \<times> recovery_info \<times> int) option" where
  "scan_revoke_records j b sequence info =
     revoke_records_loop b (revoke_record_len j) (sint (get_be32 b 12)) sequence sizeof_revoke_header j info"

text \<open>The local variables of do_one_pass, the recovery_info it updates and the world.\<close>

record pass_state =
  p_world :: world
  p_info :: recovery_info
  p_commit_ID :: u32
  p_log_block :: u64
  p_crc32_sum :: u32
  p_dc :: dc_struct
  p_success :: int

text \<open>How an iteration ends: the loop goes on, is left (break, goto done), or goto failed.\<close>

datatype pass_result = Cont pass_state | Done pass_state | Failed pass_state int

text \<open>Filling the buffer of a file system block and marking it dirty and up to date.\<close>

definition restore_block :: "dev \<Rightarrow> u64 \<Rightarrow> bytes \<Rightarrow> world \<Rightarrow> world" where
  "restore_block d blocknr data w =
     w\<lparr>bdata := (bdata w)(d := (bdata w d)(blocknr := data)),
       unreadable := (unreadable w)(d := (unreadable w d)(blocknr := False)),
       breq := (breq w)(d := (breq w d)(blocknr := True))\<rparr>"

text \<open>memcpy of the log block; an escaped block gets its magic number back.\<close>

definition unescape :: "nat \<Rightarrow> u32 \<Rightarrow> bytes \<Rightarrow> bytes" where
  "unescape blocksize flags obh =
     (let data = take blocksize obh
      in if flags AND JBD2_FLAG_ESCAPE \<noteq> 0 then put_be32 0 JBD2_MAGIC_NUMBER data else data)"

text \<open>
  The body of the replay loop for one tag, up to the label skip_write: Inl is the jump to
  failed.
\<close>

definition replay_tag ::
    "kernel_env \<Rightarrow> bytes \<Rightarrow> nat \<Rightarrow> pass_state \<Rightarrow> (pass_state \<times> int + pass_state) option" where
  "replay_tag k b tagp s =
     (let j = jnl (p_world s); flags = tag_flags b tagp
      in if read_tag_type b tagp = T_BLOCKTYPE_NEWLYAPPENDEDDATA then Some (Inr s)
         else let io_block = p_log_block s;
                  s = s\<lparr>p_log_block := wrap j (io_block + 1)\<rparr>
              in case jread k (p_world s) (ucast io_block) of
                   (w, Inl err) \<Rightarrow> Some (Inr (s\<lparr>p_world := w, p_success := err\<rparr>))
                 | (w, Inr obh) \<Rightarrow>
                     (let blocknr = read_tag_block (journal_tag_bytes j) b tagp;
                          s = s\<lparr>p_world := w\<rparr>; info = p_info s
                      in do { revoked \<leftarrow> jbdbf_journal_test_revoke (jnl w) blocknr (p_commit_ID s);
                              Some (if revoked
                                    then Inr (s\<lparr>p_info := info\<lparr>nr_revoke_hits := nr_revoke_hits info + 1\<rparr>\<rparr>)
                                    else if k_getblk_null k (j_fs_dev j) blocknr
                                    then Inl (s, - ENOMEM)
                                    else Inr (s\<lparr>p_world := restore_block (j_fs_dev j) blocknr
                                                    (unescape (j_blocksize j) flags obh) w,
                                                p_info := info\<lparr>nr_replays := nr_replays info + 1\<rparr>\<rparr>)) }))"

function replay_loop ::
    "kernel_env \<Rightarrow> journal \<Rightarrow> bytes \<Rightarrow> nat \<Rightarrow> pass_state \<Rightarrow> pass_result option" where
  "replay_loop k j b tagp s =
     (if tagp + journal_tag_bytes j \<le> j_blocksize j
      then do { r \<leftarrow> replay_tag k b tagp s;
                case r of
                  Inl (s, err) \<Rightarrow> Some (Failed s err)
                | Inr s \<Rightarrow>
                    (if tag_flags b tagp AND JBD2_FLAG_LAST_TAG \<noteq> 0 then Some (Cont s)
                     else replay_loop k j b (next_tagp j b tagp) s) }
      else Some (Cont s))"
  by pat_completeness auto
termination
  by (relation "measure (\<lambda>(k, j, b, tagp, s). j_blocksize j - tagp)")
    (auto intro!: diff_less_mono2 simp: journal_tag_bytes_def size_defs)

declare replay_loop.simps [simp del]

definition descriptor_step :: "kernel_env \<Rightarrow> passtype \<Rightarrow> bytes \<Rightarrow> pass_state \<Rightarrow> pass_result option" where
  "descriptor_step k pass b s =
     (let j = jnl (p_world s)
      in if pass \<noteq> PASS_REPLAY
         then let (w, dc, _) = read_and_verify_checksums k (p_world s) b (p_dc s) (p_commit_ID s);
                  s = s\<lparr>p_world := w, p_dc := dc\<rparr>
              in if pass = PASS_SCAN \<and> JBD2_HAS_COMPAT_FEATURE j JBD2_FEATURE_COMPAT_CHECKSUM \<and>
                    end_transaction (p_info s) = 0
                 then let (w, next_log_block, crc32_sum, _) =
                        calc_chksums k w b (p_log_block s) (p_crc32_sum s)
                      in Some (Cont (s\<lparr>p_world := w, p_log_block := next_log_block,
                                       p_crc32_sum := crc32_sum\<rparr>))
                 else Some (Cont (s\<lparr>p_log_block := wrap j (p_log_block s + of_nat (count_tags j b))\<rparr>))
         else replay_loop k j b sizeof_header s)"

text \<open>
  A commit block.  In the scan pass with journal checksums the first transaction whose
  checksum is wrong becomes the end of the log; the break statements leave the switch only,
  so the scan goes on.
\<close>

definition commit_chksum_err :: "u32 \<Rightarrow> bytes \<Rightarrow> bool" where
  "commit_chksum_err crc32_sum b =
     (let found_chksum = get_be32 b 16; h_chksum_type = b ! 12; h_chksum_size = b ! 13
      in if crc32_sum = found_chksum \<and> h_chksum_type = JBD2_CRC32_CHKSUM \<and>
            h_chksum_size = JBD2_CRC32_CHKSUM_SIZE
         then False
         else \<not> (h_chksum_type = 0 \<and> h_chksum_size = 0 \<and> found_chksum = 0))"

definition commit_step :: "passtype \<Rightarrow> bytes \<Rightarrow> pass_state \<Rightarrow> pass_state" where
  "commit_step pass b s =
     (let j = jnl (p_world s); info = p_info s
      in if pass = PASS_SCAN \<and> JBD2_HAS_COMPAT_FEATURE j JBD2_FEATURE_COMPAT_CHECKSUM
         then if end_transaction info \<noteq> 0
              then s\<lparr>p_world := upd_jnl (\<lambda>j. j\<lparr>j_failed_commit := end_transaction info\<rparr>) (p_world s)\<rparr>
              else let err = commit_chksum_err (p_crc32_sum s) b;
                       s = (if err then s\<lparr>p_info := info\<lparr>end_transaction := p_commit_ID s\<rparr>\<rparr> else s)
                   in if err \<and> \<not> JBD2_HAS_INCOMPAT_FEATURE j JBD2_FEATURE_INCOMPAT_ASYNC_COMMIT
                      then s
                      else s\<lparr>p_crc32_sum := - 1, p_commit_ID := p_commit_ID s + 1\<rparr>
         else s\<lparr>p_commit_ID := p_commit_ID s + 1\<rparr>)"

definition revoke_step :: "passtype \<Rightarrow> bytes \<Rightarrow> pass_state \<Rightarrow> pass_result option" where
  "revoke_step pass b s =
     (if pass \<noteq> PASS_REVOKE then Some (Cont s)
      else do { (j, info, err) \<leftarrow> scan_revoke_records (jnl (p_world s)) b (p_commit_ID s) (p_info s);
                let s = s\<lparr>p_world := (p_world s)\<lparr>jnl := j\<rparr>, p_info := info\<rparr>;
                Some (if err \<noteq> 0 then Failed s err else Cont s) })"

text \<open>One iteration of the loop of do_one_pass.\<close>

definition pass_step :: "kernel_env \<Rightarrow> passtype \<Rightarrow> pass_state \<Rightarrow> pass_result option" where
  "pass_step k pass s =
     (if pass \<noteq> PASS_SCAN \<and> tid_geq (p_commit_ID s) (end_transaction (p_info s)) then Some (Done s)
      else case jread k (p_world s) (ucast (p_log_block s)) of
             (w, Inl err) \<Rightarrow> Some (Failed (s\<lparr>p_world := w\<rparr>) err)
           | (w, Inr b) \<Rightarrow>
               (let s = s\<lparr>p_world := w, p_log_block := wrap (jnl w) (p_log_block s + 1)\<rparr>
                in if get_be32 b 0 \<noteq> JBD2_MAGIC_NUMBER then Some (Done s)
                   else if get_be32 b 8 \<noteq> p_commit_ID s then Some (Done s)
                   else if get_be32 b 4 = JBD2_DESCRIPTOR_BLOCK then descriptor_step k pass b s
                   else if get_be32 b 4 = JBD2_COMMIT_BLOCK then Some (Cont (commit_step pass b s))
                   else if get_be32 b 4 = JBD2_REVOKE_BLOCK then revoke_step pass b s
                   else Some (Done s)))"

partial_function (option) pass_loop :: "kernel_env \<Rightarrow> passtype \<Rightarrow> pass_state \<Rightarrow> pass_result option" where
  "pass_loop k pass s =
     do { r \<leftarrow> pass_step k pass s;
          case r of Cont s' \<Rightarrow> pass_loop k pass s' | Done s' \<Rightarrow> Some r | Failed s' err \<Rightarrow> Some r }"

text \<open>The code at the label done.\<close>

definition pass_done :: "passtype \<Rightarrow> pass_state \<Rightarrow> recovery_info \<times> int" where
  "pass_done pass s =
     (let info = p_info s; success = p_success s
      in if pass = PASS_SCAN
         then (case is_datachecksum_err (p_dc s) of
                 Some (next_commit_ID, _) \<Rightarrow> (info\<lparr>end_transaction := next_commit_ID\<rparr>, success)
               | None \<Rightarrow> (if end_transaction info = 0
                          then (info\<lparr>end_transaction := p_commit_ID s\<rparr>, success)
                          else (info, success)))
         else (info, if end_transaction info \<noteq> p_commit_ID s \<and> success = 0 then - EIO else success))"

definition do_one_pass ::
    "kernel_env \<Rightarrow> passtype \<Rightarrow> world \<Rightarrow> recovery_info \<Rightarrow> (world \<times> recovery_info \<times> int) option" where
  "do_one_pass k pass w info =
     do { j_assert (k_kzalloc_ok k);
          let sb = j_superblock (jnl w);
          let info = (if pass = PASS_SCAN then info\<lparr>start_transaction := s_sequence sb\<rparr> else info);
          r \<leftarrow> pass_loop k pass
                 \<lparr>p_world = w, p_info = info, p_commit_ID = s_sequence sb,
                  p_log_block = ucast (s_start sb), p_crc32_sum = - 1, p_dc = init_dc_struct,
                  p_success = 0\<rparr>;
          Some (case r of
                  Failed s err \<Rightarrow> (p_world s, p_info s, err)
                | Done s \<Rightarrow> (p_world s, pass_done pass s)
                | Cont s \<Rightarrow> (p_world s, pass_done pass s)) }"

definition zero_info :: recovery_info where
  "zero_info = \<lparr>start_transaction = 0, end_transaction = 0, nr_replays = 0, nr_revokes = 0,
     nr_revoke_hits = 0\<rparr>"

definition sync_blockdev :: "kernel_env \<Rightarrow> world \<Rightarrow> dev \<Rightarrow> world \<times> int" where
  "sync_blockdev k w d = (log_io (SyncDev d) w, k_sync_blockdev k d)"

definition jbdbf_journal_recover :: "kernel_env \<Rightarrow> world \<Rightarrow> (world \<times> int) option" where
  "jbdbf_journal_recover k w =
     (let sb = j_superblock (jnl w)
      in if s_start sb = 0
         then Some (upd_jnl (\<lambda>j. j\<lparr>j_transaction_bf_sequence := s_sequence sb + 1\<rparr>) w, 0)
         else do { (w, info, err) \<leftarrow> do_one_pass k PASS_SCAN w zero_info;
                   (w, info, err) \<leftarrow>
                     (if err = 0 then do_one_pass k PASS_REVOKE w info else Some (w, info, err));
                   (w, info, err) \<leftarrow>
                     (if err = 0 then do_one_pass k PASS_REPLAY w info else Some (w, info, err));
                   let end_transaction = end_transaction info + 1;
                   j \<leftarrow> jbdbf_journal_clear_revoke
                          ((jnl w)\<lparr>j_transaction_bf_sequence := end_transaction\<rparr>);
                   let (w, err2) = sync_blockdev k (w\<lparr>jnl := j\<rparr>) (j_fs_dev j);
                   Some (w, if err = 0 then err2 else err) })"

definition jbdbf_journal_skip_recovery :: "kernel_env \<Rightarrow> world \<Rightarrow> (world \<times> int) option" where
  "jbdbf_journal_skip_recovery k w =
     do { (w, info, err) \<leftarrow> do_one_pass k PASS_SCAN w zero_info;
          let sequence = (if err \<noteq> 0 then j_transaction_bf_sequence (jnl w) + 1
                          else end_transaction info + 1);
          Some (upd_jnl (\<lambda>j. j\<lparr>j_transaction_bf_sequence := sequence, j_tail := 0\<rparr>) w, err) }"

end
