(* ===== verification/Mismatch_Table.thy ===== *)
theory Mismatch_Table
  imports Recovery
begin

text \<open>
  The fixed-size table of mismatched data blocks (struct dc_struct of recovery.c) as a
  finite map from block numbers to transaction numbers.  The interface is a locale: adding
  and deleting act on the map as long as the capacity is not exceeded.
\<close>

section \<open>The contract\<close>

datatype 'n dc_event = Mismatch u64 'n | Overwritten u64

fun event_block :: "'n dc_event \<Rightarrow> u64" where
  "event_block (Mismatch b n) = b"
| "event_block (Overwritten b) = b"

fun map_event :: "(u64 \<rightharpoonup> 'n) \<Rightarrow> 'n dc_event \<Rightarrow> (u64 \<rightharpoonup> 'n)" where
  "map_event m (Mismatch b n) = m(b \<mapsto> n)"
| "map_event m (Overwritten b) = m(b := None)"

definition mismatch_blocks :: "'n dc_event list \<Rightarrow> u64 set" where
  "mismatch_blocks evs = {b. \<exists>n. Mismatch b n \<in> set evs}"

lemma mismatch_blocks_simps [simp]:
  "mismatch_blocks [] = {}"
  "mismatch_blocks (Mismatch b n # evs) = insert b (mismatch_blocks evs)"
  "mismatch_blocks (Overwritten b # evs) = mismatch_blocks evs"
  by (auto simp: mismatch_blocks_def)

lemma finite_mismatch_blocks [simp]: "finite (mismatch_blocks evs)"
proof (induction evs)
  case (Cons e evs)
  then show ?case by (cases e) auto
qed simp

locale mismatch_store =
  fixes invar :: "'t \<Rightarrow> bool"
    and lookup :: "'t \<Rightarrow> u64 \<rightharpoonup> 'n"
    and add :: "'t \<Rightarrow> u64 \<Rightarrow> 'n \<Rightarrow> 't"
    and del :: "'t \<Rightarrow> u64 \<Rightarrow> 't"
    and capacity :: nat
  assumes finite_dom: "invar t \<Longrightarrow> finite (dom (lookup t))"
    and invar_add: "invar t \<Longrightarrow> b \<noteq> 0 \<Longrightarrow> b \<in> dom (lookup t) \<or> card (dom (lookup t)) < capacity \<Longrightarrow>
      invar (add t b n)"
    and lookup_add: "invar t \<Longrightarrow> b \<noteq> 0 \<Longrightarrow> b \<in> dom (lookup t) \<or> card (dom (lookup t)) < capacity \<Longrightarrow>
      lookup (add t b n) = (lookup t)(b \<mapsto> n)"
    and invar_del: "invar t \<Longrightarrow> b \<noteq> 0 \<Longrightarrow> invar (del t b)"
    and lookup_del: "invar t \<Longrightarrow> b \<noteq> 0 \<Longrightarrow> lookup (del t b) = (lookup t)(b := None)"
begin

fun event :: "'t \<Rightarrow> 'n dc_event \<Rightarrow> 't" where
  "event t (Mismatch b n) = add t b n"
| "event t (Overwritten b) = del t b"

lemma events_refine:
  assumes "invar t" "0 \<notin> event_block ` set evs"
    "card (dom (lookup t) \<union> mismatch_blocks evs) \<le> capacity"
  shows "invar (foldl event t evs) \<and> lookup (foldl event t evs) = foldl map_event (lookup t) evs"
  using assms
proof (induction evs arbitrary: t)
  case (Cons e evs)
  show ?case
  proof (cases e)
    case (Mismatch b n)
    have "b \<in> dom (lookup t) \<or> card (dom (lookup t)) < card (insert b (dom (lookup t)))"
      using finite_dom [OF Cons.prems(1)] by (cases "b \<in> dom (lookup t)") auto
    moreover have "card (insert b (dom (lookup t))) \<le> card (dom (lookup t) \<union> mismatch_blocks (e # evs))"
      using finite_dom [OF Cons.prems(1)] Mismatch by (intro card_mono) auto
    ultimately have room: "b \<in> dom (lookup t) \<or> card (dom (lookup t)) < capacity"
      using Cons.prems(3) by linarith
    have b: "b \<noteq> 0" using Cons.prems(2) Mismatch by auto
    note lk = lookup_add [OF Cons.prems(1) b room, of n]
    have "card (dom (lookup (add t b n)) \<union> mismatch_blocks evs) \<le> capacity"
      using Cons.prems(3) Mismatch unfolding lk by simp
    then have "invar (foldl event (add t b n) evs) \<and>
        lookup (foldl event (add t b n) evs) = foldl map_event (lookup (add t b n)) evs"
      using Cons.prems(2) invar_add [OF Cons.prems(1) b room] by (intro Cons.IH) auto
    then show ?thesis
      unfolding lk using Mismatch by simp
  next
    case (Overwritten b)
    have b: "b \<noteq> 0" using Cons.prems(2) Overwritten by auto
    note lk = lookup_del [OF Cons.prems(1) b]
    have "card (dom (lookup (del t b)) \<union> mismatch_blocks evs)
        \<le> card (dom (lookup t) \<union> mismatch_blocks (e # evs))"
      using Overwritten finite_dom [OF Cons.prems(1)] unfolding lk by (intro card_mono) auto
    then have "invar (foldl event (del t b) evs) \<and>
        lookup (foldl event (del t b) evs) = foldl map_event (lookup (del t b)) evs"
      using Cons.prems(2,3) invar_del [OF Cons.prems(1) b] by (intro Cons.IH) auto
    then show ?thesis
      unfolding lk using Overwritten by simp
  qed
qed simp

end

section \<open>The table of recovery.c\<close>

definition dc_ok :: "dc_struct \<Rightarrow> bool" where
  "dc_ok dc = (length (mismatched_blocks dc) = DC_CAPACITY \<and> length (dc_next_commit_ID dc) = DC_CAPACITY \<and>
     (\<forall>i < DC_CAPACITY. \<forall>i' < DC_CAPACITY.
        mismatched_blocks dc ! i = mismatched_blocks dc ! i' \<and> mismatched_blocks dc ! i \<noteq> 0 \<longrightarrow> i = i'))"

definition dc_map :: "dc_struct \<Rightarrow> u64 \<rightharpoonup> u32" where
  "dc_map dc b = (if b = 0 then None else map_option ((!) (dc_next_commit_ID dc)) (dc_index dc b))"

lemma dc_ok_length:
  "dc_ok dc \<Longrightarrow> length (mismatched_blocks dc) = DC_CAPACITY"
  "dc_ok dc \<Longrightarrow> length (dc_next_commit_ID dc) = DC_CAPACITY"
  by (simp_all add: dc_ok_def)

lemma dc_unique:
  "dc_ok dc \<Longrightarrow> i < DC_CAPACITY \<Longrightarrow> i' < DC_CAPACITY \<Longrightarrow> mismatched_blocks dc ! i = b \<Longrightarrow>
   mismatched_blocks dc ! i' = b \<Longrightarrow> b \<noteq> 0 \<Longrightarrow> i = i'"
  unfolding dc_ok_def by metis

lemma dc_okI:
  assumes "length (mismatched_blocks dc) = DC_CAPACITY" "length (dc_next_commit_ID dc) = DC_CAPACITY"
    "\<And>i i' b. i < DC_CAPACITY \<Longrightarrow> i' < DC_CAPACITY \<Longrightarrow> mismatched_blocks dc ! i = b \<Longrightarrow>
       mismatched_blocks dc ! i' = b \<Longrightarrow> b \<noteq> 0 \<Longrightarrow> i = i'"
  shows "dc_ok dc"
  unfolding dc_ok_def using assms by metis

lemma dc_index_Some:
  "dc_index dc b = Some i \<Longrightarrow> i < DC_CAPACITY \<and> mismatched_blocks dc ! i = b"
  by (auto simp: dc_index_def find_Some_iff)

lemma dc_index_None:
  "dc_index dc b = None \<longleftrightarrow> (\<forall>i < DC_CAPACITY. mismatched_blocks dc ! i \<noteq> b)"
  by (auto simp: dc_index_def find_None_iff)

lemma dc_map_iff:
  assumes "dc_ok dc"
  shows "dc_map dc b = Some n \<longleftrightarrow>
    b \<noteq> 0 \<and> (\<exists>i < DC_CAPACITY. mismatched_blocks dc ! i = b \<and> dc_next_commit_ID dc ! i = n)"
proof (cases "dc_index dc b")
  case None
  then show ?thesis by (simp add: dc_map_def) (use None dc_index_None in blast)
next
  case (Some i)
  note i = dc_index_Some [OF Some]
  have "i' = i" if "i' < DC_CAPACITY" "mismatched_blocks dc ! i' = b" "b \<noteq> 0" for i'
    using dc_unique [OF assms] that i by blast
  with i Some show ?thesis by (auto simp: dc_map_def)
qed

lemma dc_map_at:
  "dc_ok dc \<Longrightarrow> i < DC_CAPACITY \<Longrightarrow> mismatched_blocks dc ! i = b \<Longrightarrow> b \<noteq> 0 \<Longrightarrow>
   dc_map dc b = Some (dc_next_commit_ID dc ! i)"
  using dc_map_iff by blast

lemma dc_map_none: "\<forall>i < DC_CAPACITY. mismatched_blocks dc ! i \<noteq> b \<Longrightarrow> dc_map dc b = None"
  unfolding dc_index_None [symmetric] by (simp add: dc_map_def)

lemma dom_dc_map:
  assumes "dc_ok dc"
  shows "dom (dc_map dc) = {b. b \<noteq> 0 \<and> b \<in> set (mismatched_blocks dc)}"
proof -
  have "length (mismatched_blocks dc) = DC_CAPACITY" using assms by (rule dc_ok_length)
  then show ?thesis
    unfolding dom_def by (auto simp: dc_map_iff [OF assms] in_set_conv_nth)
qed

lemma dc_no_room:
  assumes "dc_ok dc" "dc_index dc 0 = None"
  shows "card (dom (dc_map dc)) = DC_CAPACITY"
proof -
  have len: "length (mismatched_blocks dc) = DC_CAPACITY"
    and nz: "\<forall>i < DC_CAPACITY. mismatched_blocks dc ! i \<noteq> 0"
    using assms by (auto simp: dc_ok_length dc_index_None)
  then have "distinct (mismatched_blocks dc)"
    unfolding distinct_conv_nth using dc_unique [OF assms(1)] by metis
  moreover have "dom (dc_map dc) = set (mismatched_blocks dc)"
    unfolding dom_dc_map [OF assms(1)] using nz len by (auto simp: in_set_conv_nth)
  ultimately show ?thesis
    using len by (simp add: distinct_card)
qed

lemma dc_ok_init: "dc_ok init_dc_struct" "dc_map init_dc_struct = Map.empty"
proof -
  show ok: "dc_ok init_dc_struct"
    by (simp add: dc_ok_def init_dc_struct_def)
  have "dom (dc_map init_dc_struct) = {}"
    unfolding dom_dc_map [OF ok] by (simp add: init_dc_struct_def)
  then show "dc_map init_dc_struct = Map.empty" by simp
qed

text \<open>
  Overwriting slot i with a block that no other slot holds (or with 0): the old block of the
  slot leaves the map and the new one enters it.
\<close>

definition dc_put :: "dc_struct \<Rightarrow> nat \<Rightarrow> u64 \<Rightarrow> u32 \<Rightarrow> dc_struct" where
  "dc_put dc i b n = dc\<lparr>mismatched_blocks := (mismatched_blocks dc)[i := b],
     dc_next_commit_ID := (dc_next_commit_ID dc)[i := n]\<rparr>"

lemma dc_put_ok:
  assumes ok: "dc_ok dc" and i: "i < DC_CAPACITY"
    and new: "\<forall>i' < DC_CAPACITY. i' \<noteq> i \<longrightarrow> mismatched_blocks dc ! i' = b \<longrightarrow> b = 0"
  shows "dc_ok (dc_put dc i b n)"
proof (rule dc_okI)
  fix j j' c
  assume that: "j < DC_CAPACITY" "j' < DC_CAPACITY" "mismatched_blocks (dc_put dc i b n) ! j = c"
    "mismatched_blocks (dc_put dc i b n) ! j' = c" "c \<noteq> 0"
  show "j = j'"
  proof (cases "j = i \<or> j' = i")
    case True
    then show ?thesis
      using that i new dc_ok_length [OF ok] by (auto simp: dc_put_def nth_list_update split: if_splits)
  next
    case False
    then show ?thesis using that dc_unique [OF ok, of j j' c] by (simp add: dc_put_def)
  qed
qed (simp_all add: dc_put_def dc_ok_length ok)

lemma dc_put_map:
  assumes ok: "dc_ok dc" and i: "i < DC_CAPACITY"
    and new: "\<forall>i' < DC_CAPACITY. i' \<noteq> i \<longrightarrow> mismatched_blocks dc ! i' = b \<longrightarrow> b = 0"
  shows "dc_map (dc_put dc i b n) =
    (let m = (dc_map dc)(mismatched_blocks dc ! i := None) in if b = 0 then m else m(b \<mapsto> n))"
    (is "?l = ?r")
proof
  fix b'
  let ?mm = "mismatched_blocks dc" and ?mm' = "mismatched_blocks (dc_put dc i b n)"
  have ok': "dc_ok (dc_put dc i b n)" by (rule dc_put_ok) (use assms in auto)
  have len: "length ?mm = DC_CAPACITY" "length (dc_next_commit_ID dc) = DC_CAPACITY"
    using ok by (auto simp: dc_ok_length)
  have at: "?mm' ! i = b" "dc_next_commit_ID (dc_put dc i b n) ! i = n"
    using len i by (auto simp: dc_put_def)
  have other: "?mm' ! i' = ?mm ! i'" "dc_next_commit_ID (dc_put dc i b n) ! i' = dc_next_commit_ID dc ! i'"
    if "i' \<noteq> i" for i'
    using that by (auto simp: dc_put_def)
  consider "b' = 0" | "b' = b" "b \<noteq> 0"
    | i' where "b' \<noteq> 0" "b' \<noteq> b" "i' < DC_CAPACITY" "i' \<noteq> i" "?mm ! i' = b'"
    | "b' \<noteq> 0" "b' \<noteq> b" "\<forall>i' < DC_CAPACITY. i' \<noteq> i \<longrightarrow> ?mm ! i' \<noteq> b'"
    by blast
  then show "?l b' = ?r b'"
  proof cases
    case 1
    then show ?thesis by (simp add: dc_map_def Let_def)
  next
    case 2
    then show ?thesis using dc_map_at [OF ok' i at(1)] at by (simp add: Let_def)
  next
    case (3 i')
    have "?mm ! i \<noteq> b'" using 3 i dc_unique [OF ok] by blast
    then show ?thesis
      using 3 dc_map_at [OF ok 3(3,5)] dc_map_at [OF ok' 3(3)] other [OF 3(4)]
      by (simp add: Let_def)
  next
    case 4
    have "\<forall>i' < DC_CAPACITY. ?mm' ! i' \<noteq> b'" using 4 at other by metis
    then have "?l b' = None" by (rule dc_map_none)
    moreover have "?mm ! i \<noteq> b' \<Longrightarrow> dc_map dc b' = None"
      using 4 by (intro dc_map_none) blast
    ultimately show ?thesis using 4 by (auto simp: Let_def)
  qed
qed

lemma dc_add:
  assumes ok: "dc_ok dc" and b: "b \<noteq> 0"
    and room: "b \<in> dom (dc_map dc) \<or> card (dom (dc_map dc)) < DC_CAPACITY"
  shows "dc_ok (add_to_mismatched_blocks dc b n) \<and>
    dc_map (add_to_mismatched_blocks dc b n) = (dc_map dc)(b \<mapsto> n)"
proof (cases "dc_index dc b")
  case (Some i)
  note i = dc_index_Some [OF Some]
  have "(mismatched_blocks dc)[i := b] = mismatched_blocks dc"
    using i by auto
  then have eq: "add_to_mismatched_blocks dc b n = dc_put dc i b n"
    using Some by (simp add: add_to_mismatched_blocks_def dc_put_def)
  have new: "\<forall>i' < DC_CAPACITY. i' \<noteq> i \<longrightarrow> mismatched_blocks dc ! i' = b \<longrightarrow> b = 0"
    using i dc_unique [OF ok] by blast
  show ?thesis
    unfolding eq dc_put_map [OF ok conjunct1 [OF i] new, where n = n]
    using dc_put_ok [OF ok conjunct1 [OF i] new, where n = n] i b by simp
next
  case None
  have "dc_index dc 0 \<noteq> None"
  proof
    assume "dc_index dc 0 = None"
    then have "b \<in> dom (dc_map dc)" using room dc_no_room [OF ok] by simp
    with None b show False by (simp add: dc_map_def dom_def)
  qed
  then obtain i where Some: "dc_index dc 0 = Some i" by blast
  note i = dc_index_Some [OF Some]
  have eq: "add_to_mismatched_blocks dc b n = dc_put dc i b n"
    using Some None by (simp add: add_to_mismatched_blocks_def dc_put_def)
  have new: "\<forall>i' < DC_CAPACITY. i' \<noteq> i \<longrightarrow> mismatched_blocks dc ! i' = b \<longrightarrow> b = 0"
    using None by (auto simp: dc_index_None)
  have "(dc_map dc)(0 := None) = dc_map dc" by (auto simp: dc_map_def)
  then show ?thesis
    unfolding eq dc_put_map [OF ok conjunct1 [OF i] new, where n = n]
    using dc_put_ok [OF ok conjunct1 [OF i] new, where n = n] i b by simp
qed

lemma dc_del:
  assumes ok: "dc_ok dc" and b: "b \<noteq> 0"
  shows "dc_ok (delete_from_mismatched_blocks dc b) \<and>
    dc_map (delete_from_mismatched_blocks dc b) = (dc_map dc)(b := None)"
proof (cases "dc_index dc b")
  case None
  then show ?thesis
    using ok by (auto simp: delete_from_mismatched_blocks_def dc_map_def)
next
  case (Some i)
  note i = dc_index_Some [OF Some]
  have eq: "delete_from_mismatched_blocks dc b = dc_put dc i 0 (dc_next_commit_ID dc ! i)"
    using Some by (simp add: delete_from_mismatched_blocks_def dc_put_def)
  have new: "\<forall>i' < DC_CAPACITY. i' \<noteq> i \<longrightarrow> mismatched_blocks dc ! i' = 0 \<longrightarrow> (0 :: u64) = 0"
    by simp
  show ?thesis
    unfolding eq dc_put_map [OF ok conjunct1 [OF i] new]
    using dc_put_ok [OF ok conjunct1 [OF i] new] i by simp
qed

interpretation dct: mismatch_store dc_ok dc_map add_to_mismatched_blocks delete_from_mismatched_blocks DC_CAPACITY
  using dc_add dc_del by unfold_locales (auto simp: dom_dc_map)

section \<open>The earliest mismatch\<close>

text \<open>After looking at some slots the index is that of a smallest entry among them.\<close>

definition dc_min_of :: "dc_struct \<Rightarrow> nat list \<Rightarrow> nat option \<Rightarrow> bool" where
  "dc_min_of dc is r =
     (case r of
        None \<Rightarrow> (\<forall>i \<in> set is. mismatched_blocks dc ! i = 0)
      | Some e \<Rightarrow> e \<in> set is \<and> mismatched_blocks dc ! e \<noteq> 0 \<and>
          (\<forall>i \<in> set is. mismatched_blocks dc ! i \<noteq> 0 \<longrightarrow>
             dc_next_commit_ID dc ! e \<le> dc_next_commit_ID dc ! i))"

lemma dc_better_min:
  "dc_min_of dc is r \<Longrightarrow> dc_min_of dc (is @ [i]) (dc_better dc r i)"
proof (cases r)
  case None
  then show "dc_min_of dc is r \<Longrightarrow> ?thesis" by (auto simp: dc_min_of_def dc_better_def)
next
  case (Some e)
  then show "dc_min_of dc is r \<Longrightarrow> ?thesis" by (fastforce simp: dc_min_of_def dc_better_def)
qed

lemma dc_foldl_min: "dc_min_of dc is (foldl (dc_better dc) None is)"
proof (induction "is" rule: rev_induct)
  case Nil
  then show ?case by (simp add: dc_min_of_def)
next
  case (snoc i "is")
  then show ?case by (simp add: dc_better_min)
qed

lemma is_datachecksum_err_None:
  assumes "dc_ok dc"
  shows "is_datachecksum_err dc = None \<longleftrightarrow> dc_map dc = Map.empty"
proof -
  let ?r = "foldl (dc_better dc) None [0..<DC_CAPACITY]"
  have "?r = None \<longleftrightarrow> (\<forall>i < DC_CAPACITY. mismatched_blocks dc ! i = 0)"
    using dc_foldl_min [of dc "[0..<DC_CAPACITY]"]
    by (cases ?r) (auto simp: dc_min_of_def)
  also have "\<dots> \<longleftrightarrow> dom (dc_map dc) = {}"
    unfolding dom_dc_map [OF assms] using dc_ok_length [OF assms] by (auto simp: in_set_conv_nth)
  finally show ?thesis by (simp add: is_datachecksum_err_def)
qed

lemma is_datachecksum_err_Some:
  assumes ok: "dc_ok dc" and e: "is_datachecksum_err dc = Some (n, b)"
  shows "dc_map dc b = Some n \<and> (\<forall>b' n'. dc_map dc b' = Some n' \<longrightarrow> n \<le> n')"
proof -
  obtain i where i: "foldl (dc_better dc) None [0..<DC_CAPACITY] = Some i"
      "n = dc_next_commit_ID dc ! i" "b = mismatched_blocks dc ! i"
    using e by (auto simp: is_datachecksum_err_def)
  then have m: "i < DC_CAPACITY" "b \<noteq> 0"
      "\<And>i'. i' < DC_CAPACITY \<Longrightarrow> mismatched_blocks dc ! i' \<noteq> 0 \<Longrightarrow> n \<le> dc_next_commit_ID dc ! i'"
    using dc_foldl_min [of dc "[0..<DC_CAPACITY]"] by (auto simp: dc_min_of_def)
  have "n \<le> n'" if "dc_map dc b' = Some n'" for b' n'
  proof -
    have "b' \<noteq> 0" using that by (auto simp: dc_map_def)
    then show ?thesis using that m(3) by (auto simp: dc_map_iff [OF ok])
  qed
  moreover have "dc_map dc b = Some n"
    using m i dc_map_iff [OF ok] by blast
  ultimately show ?thesis by blast
qed

end
