(* ===== verification/Log_Format.thy ===== *)
theory Log_Format
  imports Mismatch_Table
begin

text \<open>
  The contents of a log as recovery is meant to read them: the tags of a descriptor
  block, the records of a revoke block, and the sequence of items found from a position of
  the ring on.  The loops of recovery.c over tags and records are shown to be folds over these
  lists, and reading a mapped log block to return its contents.
\<close>

section \<open>Tags\<close>

record log_tag =
  lt_block :: u64
  lt_flags :: u32
  lt_sum :: u32
  lt_type :: u32

definition tag_at :: "bytes \<Rightarrow> nat \<Rightarrow> log_tag" where
  "tag_at b tagp = \<lparr>lt_block = read_tag_block JBD2_TAG_SIZE64 b tagp, lt_flags = tag_flags b tagp,
     lt_sum = read_tag_checksum b tagp, lt_type = read_tag_type b tagp\<rparr>"

function tags_from :: "journal \<Rightarrow> bytes \<Rightarrow> nat \<Rightarrow> log_tag list" where
  "tags_from j b tagp =
     (if tagp + journal_tag_bytes j \<le> j_blocksize j
      then tag_at b tagp #
           (if tag_flags b tagp AND JBD2_FLAG_LAST_TAG \<noteq> 0 then []
            else tags_from j b (next_tagp j b tagp))
      else [])"
  by pat_completeness auto
termination
  by (relation "measure (\<lambda>(j, b, tagp). j_blocksize j - tagp)")
    (auto intro!: diff_less_mono2 simp: journal_tag_bytes_def size_defs)

declare tags_from.simps [simp del]

abbreviation journaled :: "log_tag \<Rightarrow> bool" where
  "journaled t \<equiv> lt_type t \<noteq> T_BLOCKTYPE_NEWLYAPPENDEDDATA"

lemma count_tags_loop_tags:
  "count_tags_loop j b tagp nr = nr + length (filter journaled (tags_from j b tagp))"
proof (induction j b tagp nr rule: count_tags_loop.induct)
  case (1 j b tagp nr)
  show ?case
    by (subst count_tags_loop.simps, subst tags_from.simps) (simp add: 1 Let_def tag_at_def)
qed

lemma count_tags_eq: "count_tags j b = length (filter journaled (tags_from j b sizeof_header))"
  by (simp add: count_tags_def count_tags_loop_tags)

text \<open>Only the block size of the journal matters for the walk over the tags.\<close>

lemma tags_from_blocksize:
  "j_blocksize j = j_blocksize j' \<Longrightarrow> tags_from j b tagp = tags_from j' b tagp"
proof (induction j b tagp rule: tags_from.induct)
  case (1 j b tagp)
  have nt: "next_tagp j b tagp = next_tagp j' b tagp"
    by (simp add: next_tagp_def journal_tag_bytes_def)
  show ?case
    using 1(1) 1(2) unfolding tags_from.simps [of j b tagp] tags_from.simps [of j' b tagp]
    by (auto simp: nt journal_tag_bytes_def)
qed

section \<open>Data checksums\<close>

text \<open>What a tag does to the table of mismatches, given the file system contents.\<close>

definition tag_events :: "nat \<Rightarrow> (u64 \<Rightarrow> bytes) \<Rightarrow> 'n \<Rightarrow> log_tag \<Rightarrow> 'n dc_event list" where
  "tag_events blocksize fs n t =
     (if lt_type t = T_BLOCKTYPE_NEWLYAPPENDEDDATA
      then if dzat_checksum (fs (lt_block t)) blocksize \<noteq> lt_sum t then [Mismatch (lt_block t) n] else []
      else if lt_type t = T_BLOCKTYPE_OVERWRITTENDATA then [Overwritten (lt_block t)]
      else [])"

text \<open>All data blocks the tags name can be read.\<close>

definition data_readable :: "kernel_env \<Rightarrow> world \<Rightarrow> log_tag list \<Rightarrow> bool" where
  "data_readable k w tags =
     (\<forall>t \<in> set tags. lt_type t = T_BLOCKTYPE_NEWLYAPPENDEDDATA \<longrightarrow>
        \<not> k_getblk_null k (j_fs_dev (jnl w)) (lt_block t) \<and> \<not> unreadable w (j_fs_dev (jnl w)) (lt_block t))"

lemma dread_ok:
  assumes "\<not> k_getblk_null k (j_fs_dev (jnl w)) b" "\<not> unreadable w (j_fs_dev (jnl w)) b"
  shows "\<exists>r. dread k w b = (w\<lparr>breq := r\<rparr>, Inr (bdata w (j_fs_dev (jnl w)) b))"
proof (cases "breq w (j_fs_dev (jnl w)) b")
  case True
  then have "dread k w b = (w\<lparr>breq := breq w\<rparr>, Inr (bdata w (j_fs_dev (jnl w)) b))"
    using assms by (simp add: dread_def buffer_uptodate_def)
  then show ?thesis by blast
next
  case False
  then show ?thesis
    using assms by (auto simp: dread_def buffer_uptodate_def ll_rw_block_read_def Let_def)
qed

fun verify_tags ::
    "kernel_env \<Rightarrow> nat \<Rightarrow> u32 \<Rightarrow> world \<Rightarrow> dc_struct \<Rightarrow> log_tag list \<Rightarrow> int \<Rightarrow> world \<times> dc_struct \<times> int" where
  "verify_tags k blocksize tid w dc [] err = (w, dc, err)"
| "verify_tags k blocksize tid w dc (t # ts) err =
     (if lt_type t = T_BLOCKTYPE_NEWLYAPPENDEDDATA
      then case dread k w (lt_block t) of
             (w, Inl e) \<Rightarrow> (w, dc, 1)
           | (w, Inr obh) \<Rightarrow>
               (if dzat_checksum obh blocksize \<noteq> lt_sum t
                then verify_tags k blocksize tid w (add_to_mismatched_blocks dc (lt_block t) tid) ts 1
                else verify_tags k blocksize tid w dc ts err)
      else if lt_type t = T_BLOCKTYPE_OVERWRITTENDATA
      then verify_tags k blocksize tid w (delete_from_mismatched_blocks dc (lt_block t)) ts err
      else verify_tags k blocksize tid w dc ts err)"

lemma verify_loop_tags:
  "verify_loop k j b tid w dc tagp err = verify_tags k (j_blocksize j) tid w dc (tags_from j b tagp) err"
proof (induction j b tagp arbitrary: w dc err rule: tags_from.induct)
  case (1 j b tagp)
  show ?case
  proof (cases "tagp + journal_tag_bytes j \<le> j_blocksize j")
    case False
    then show ?thesis by (subst verify_loop.simps, subst tags_from.simps) simp
  next
    case True
    have *: "(if tag_flags b tagp AND JBD2_FLAG_LAST_TAG \<noteq> 0 then (w, dc, err)
        else verify_loop k j b tid w dc (next_tagp j b tagp) err) =
      verify_tags k (j_blocksize j) tid w dc (if tag_flags b tagp AND JBD2_FLAG_LAST_TAG \<noteq> 0 then []
        else tags_from j b (next_tagp j b tagp)) err" for w dc err
      using 1 True by simp
    show ?thesis
      by (subst verify_loop.simps, subst tags_from.simps)
        (simp only: True if_True Let_def *, simp add: tag_at_def journal_tag_bytes_def split: prod.split sum.split)
  qed
qed

lemma verify_tags_events:
  assumes "data_readable k w tags"
  shows "\<exists>r e. verify_tags k blocksize tid w dc tags err =
    (w\<lparr>breq := r\<rparr>,
     foldl dct.event dc (concat (map (tag_events blocksize (bdata w (j_fs_dev (jnl w))) tid) tags)), e)"
  using assms
proof (induction tags arbitrary: w dc err)
  case Nil
  then show ?case by (auto intro: exI [of _ "breq w"])
next
  case (Cons t ts)
  have rest: "data_readable k (w\<lparr>breq := r\<rparr>) ts" for r
    using Cons.prems by (auto simp: data_readable_def)
  have rest0: "data_readable k w ts"
    using Cons.prems by (auto simp: data_readable_def)
  show ?case
  proof (cases "lt_type t = T_BLOCKTYPE_NEWLYAPPENDEDDATA")
    case True
    then obtain r where r: "dread k w (lt_block t) = (w\<lparr>breq := r\<rparr>, Inr (bdata w (j_fs_dev (jnl w)) (lt_block t)))"
      using dread_ok [of k w "lt_block t"] Cons.prems by (auto simp: data_readable_def)
    show ?thesis
      using True r Cons.IH [OF rest, of r] by (simp add: tag_events_def)
  next
    case False
    then show ?thesis
      using Cons.IH [OF rest0] by (simp add: tag_events_def)
  qed
qed

lemma read_and_verify_events:
  assumes "data_readable k w (tags_from (jnl w) b sizeof_header)"
  shows "\<exists>r e. read_and_verify_checksums k w b dc tid =
    (w\<lparr>breq := r\<rparr>,
     foldl dct.event dc (concat (map (tag_events (j_blocksize (jnl w)) (bdata w (j_fs_dev (jnl w))) tid)
       (tags_from (jnl w) b sizeof_header))), e)"
  unfolding read_and_verify_checksums_def verify_loop_tags by (rule verify_tags_events [OF assms])

section \<open>Reading the log\<close>

definition log_addr :: "kernel_env \<Rightarrow> journal \<Rightarrow> u64 \<Rightarrow> u64" where
  "log_addr k j p = (if j_inode j then k_bmap k p else p)"

text \<open>Every block of the journal area is mapped, has a buffer and can be read.\<close>

definition log_readable :: "kernel_env \<Rightarrow> world \<Rightarrow> bool" where
  "log_readable k w =
     (\<forall>p < ucast (j_maxlen (jnl w)). (j_inode (jnl w) \<longrightarrow> k_bmap k p \<noteq> 0) \<and>
        \<not> k_getblk_null k (j_dev (jnl w)) (log_addr k (jnl w) p) \<and>
        \<not> unreadable w (j_dev (jnl w)) (log_addr k (jnl w) p))"

definition log_block :: "kernel_env \<Rightarrow> world \<Rightarrow> u64 \<Rightarrow> bytes" where
  "log_block k w p = bdata w (j_dev (jnl w)) (log_addr k (jnl w) p)"

lemma bmap_ok:
  "log_readable k w \<Longrightarrow> p < ucast (j_maxlen (jnl w)) \<Longrightarrow>
   jbdbf_journal_bmap k w p = (w, Inr (log_addr k (jnl w) p))"
  by (auto simp: jbdbf_journal_bmap_def log_readable_def log_addr_def)

lemma log_readable_breq [simp]: "log_readable k (w\<lparr>breq := r\<rparr>) = log_readable k w"
  by (simp add: log_readable_def)

lemma unat_ucast_32_64 [simp]: "unat (ucast (m :: u32) :: u64) = unat m"
proof -
  have "unat m < 2 ^ 64" using unsigned_less [of m, where ?'a = nat] by simp
  then show ?thesis by (simp add: unsigned_ucast_eq take_bit_nat_eq_self)
qed

lemma of_nat_less_ucast: "n < unat (m :: u32) \<Longrightarrow> (of_nat n :: u64) < ucast m"
proof -
  assume n: "n < unat m"
  then have "n < 2 ^ 64" using unsigned_less [of m, where ?'a = nat] by simp
  with n show ?thesis
    by (simp add: word_less_nat_alt unsigned_of_nat take_bit_nat_eq_self)
qed

text \<open>Reading ahead over mapped blocks succeeds and requests every block of the range.\<close>

definition requested :: "kernel_env \<Rightarrow> world \<Rightarrow> nat \<Rightarrow> nat \<Rightarrow> u64 list \<Rightarrow> (dev \<Rightarrow> u64 \<Rightarrow> bool) \<Rightarrow> bool" where
  "requested k w n maxb bufs r =
     ((\<forall>d b. breq w d b \<longrightarrow> r d b) \<and> (\<forall>b \<in> set bufs. r (j_dev (jnl w)) b) \<and>
      (\<forall>i. n \<le> i \<and> i < maxb \<longrightarrow> r (j_dev (jnl w)) (log_addr k (jnl w) (of_nat i))))"

lemma readahead_ok:
  assumes "log_readable k w" "maxb \<le> unat (j_maxlen (jnl w))"
  shows "\<exists>r. readahead_loop k w n maxb bufs = (w\<lparr>breq := r\<rparr>, 0) \<and> requested k w n maxb bufs r"
  using assms
proof (induction "maxb - n" arbitrary: n w bufs)
  case 0
  then show ?case
    by (subst readahead_loop.simps)
      (auto simp: ll_rw_block_read_def requested_def intro!: exI [of _ "\<lambda>d' b. if d' = j_dev (jnl w) \<and> b \<in> set bufs then True else breq w d' b"])
next
  case (Suc m)
  let ?d = "j_dev (jnl w)"
  let ?a = "log_addr k (jnl w) (of_nat n)"
  have n: "n < maxb" and m: "m = maxb - (n + 1)" using Suc(2) by auto
  then have less: "(of_nat n :: u64) < ucast (j_maxlen (jnl w))"
    using Suc.prems(2) by (intro of_nat_less_ucast) simp
  then have bm: "jbdbf_journal_bmap k w (of_nat n) = (w, Inr ?a)"
    and nn: "\<not> k_getblk_null k ?d ?a" and rd: "\<not> unreadable w ?d ?a"
    using bmap_ok [OF Suc.prems(1)] Suc.prems(1) by (auto simp: log_readable_def)
  have range: "i = n \<or> n + 1 \<le> i" if "n \<le> i" for i using that by auto
  consider "breq w ?d ?a" | "\<not> breq w ?d ?a" "length (bufs @ [?a]) = MAXBUF"
    | "\<not> breq w ?d ?a" "length (bufs @ [?a]) \<noteq> MAXBUF" by blast
  then show ?case
  proof cases
    case 1
    obtain r where r: "readahead_loop k w (n + 1) maxb bufs = (w\<lparr>breq := r\<rparr>, 0)" "requested k w (n + 1) maxb bufs r"
      using Suc.hyps(1) [OF m Suc.prems] by blast
    moreover have "requested k w n maxb bufs r"
      using r(2) 1 range unfolding requested_def by metis
    ultimately show ?thesis
      using n bm nn rd 1 by (subst readahead_loop.simps) (auto simp: buffer_uptodate_def)
  next
    case 2
    let ?w = "ll_rw_block_read ?d (bufs @ [?a]) w"
    obtain r where r: "readahead_loop k ?w (n + 1) maxb [] = (?w\<lparr>breq := r\<rparr>, 0)" "requested k ?w (n + 1) maxb [] r"
      using Suc.hyps(1) [OF m, of ?w "[]"] Suc.prems by (auto simp: ll_rw_block_read_def)
    have "requested k w n maxb bufs r"
      using r(2) range unfolding requested_def ll_rw_block_read_def by fastforce
    moreover have "?w\<lparr>breq := r\<rparr> = w\<lparr>breq := r\<rparr>" by (simp add: ll_rw_block_read_def)
    ultimately show ?thesis
      using n bm nn rd 2 r(1) by (subst readahead_loop.simps) (auto simp: buffer_uptodate_def)
  next
    case 3
    obtain r where r: "readahead_loop k w (n + 1) maxb (bufs @ [?a]) = (w\<lparr>breq := r\<rparr>, 0)"
        "requested k w (n + 1) maxb (bufs @ [?a]) r"
      using Suc.hyps(1) [OF m Suc.prems] by blast
    moreover have "requested k w n maxb bufs r"
      using r(2) range unfolding requested_def by fastforce
    ultimately show ?thesis
      using n bm nn rd 3 by (subst readahead_loop.simps) (auto simp: buffer_uptodate_def)
  qed
qed

text \<open>
  The read-ahead window is not empty: it would be if the window's end wrapped around the
  32-bit block counter or the block size were zero or above 128 KiB.
\<close>

definition readahead_window_ok :: "journal \<Rightarrow> bool" where
  "readahead_window_ok j =
     (0 < j_blocksize j \<and> j_blocksize j \<le> 128 * 1024 \<and> unat (j_maxlen j) + 128 * 1024 < 2 ^ 32)"

lemma jread_ok:
  assumes ok: "log_readable k w" and win: "readahead_window_ok (jnl w)" and p: "p < ucast (j_maxlen (jnl w))"
  shows "\<exists>r. jread k w (ucast p) = (w\<lparr>breq := r\<rparr>, Inr (log_block k w p))"
proof -
  let ?d = "j_dev (jnl w)" and ?a = "log_addr k (jnl w) p" and ?o = "ucast p :: u32"
  have p32: "unat p < unat (j_maxlen (jnl w))" using p by (simp add: word_less_nat_alt)
  also have "\<dots> < 2 ^ 32" using unsigned_less [of "j_maxlen (jnl w)", where ?'a = nat] by simp
  finally have "unat p < 2 ^ 32" .
  then have uo: "unat ?o = unat p" by (simp add: unsigned_ucast_eq take_bit_nat_eq_self)
  then have oo: "ucast ?o = p" by (metis unat_ucast_32_64 word_unat_eq_iff)
  have less: "?o < j_maxlen (jnl w)" using p32 uo by (simp add: word_less_nat_alt)
  have bm: "jbdbf_journal_bmap k w (ucast ?o) = (w, Inr ?a)"
    and nn: "\<not> k_getblk_null k ?d ?a" and rd: "\<not> unreadable w ?d ?a"
    using bmap_ok [OF ok p] ok p oo by (auto simp: log_readable_def)
  define nb where "nb = 128 * 1024 div j_blocksize (jnl w)"
  have nb: "0 < nb" "nb \<le> 128 * 1024"
    using win by (auto simp: nb_def readahead_window_ok_def div_greater_zero_iff)
  define mx where "mx = (let m = ?o + of_nat nb in if m > j_maxlen (jnl w) then j_maxlen (jnl w) else m)"
  have "unat p + nb < 2 ^ 32" using p32 nb win by (simp add: readahead_window_ok_def)
  then have "unat (?o + of_nat nb) = unat p + nb"
    by (simp add: unat_word_ariths uo unsigned_of_nat take_bit_nat_eq_self)
  then have mx: "unat p < unat mx" "unat mx \<le> unat (j_maxlen (jnl w))"
    using p32 nb by (auto simp: mx_def Let_def word_less_nat_alt)
  have ra: "do_readahead k w ?o = readahead_loop k w (unat p) (unat mx) []"
    by (simp add: do_readahead_def uo mx_def nb_def Let_def)
  show ?thesis
  proof (cases "breq w ?d ?a")
    case True
    then show ?thesis
      using less bm nn rd by (auto simp: jread_def buffer_uptodate_def log_block_def intro!: exI [of _ "breq w"])
  next
    case False
    obtain r where r: "do_readahead k w ?o = (w\<lparr>breq := r\<rparr>, 0)" "requested k w (unat p) (unat mx) [] r"
      using readahead_ok [OF ok mx(2)] ra by metis
    have "r ?d (log_addr k (jnl w) (of_nat (unat p)))"
      using r(2) mx(1) unfolding requested_def by blast
    then have "r ?d ?a" by simp
    then show ?thesis
      using less bm nn rd r False by (auto simp: jread_def buffer_uptodate_def log_block_def Let_def)
  qed
qed

section \<open>Positions in the ring\<close>

definition ring_ok :: "journal \<Rightarrow> bool" where
  "ring_ok j = (j_first j < j_last j \<and> unat (j_last j) \<le> unat (j_maxlen j))"

definition in_ring :: "journal \<Rightarrow> u64 \<Rightarrow> bool" where
  "in_ring j p = (j_first j \<le> p \<and> p < j_last j)"

definition ring_size :: "journal \<Rightarrow> nat" where
  "ring_size j = unat (j_last j) - unat (j_first j)"

fun adv :: "journal \<Rightarrow> nat \<Rightarrow> u64 \<Rightarrow> u64" where
  "adv j 0 p = p"
| "adv j (Suc n) p = adv j n (wrap j (p + 1))"

lemma ring_bounds:
  assumes "ring_ok j"
  shows "unat (j_first j) < unat (j_last j)" "unat (j_last j) < 2 ^ 32"
  using assms unsigned_less [of "j_maxlen j", where ?'a = nat]
  by (auto simp: ring_ok_def word_less_nat_alt)

lemma in_ring_nat:
  "in_ring j p \<longleftrightarrow> unat (j_first j) \<le> unat p \<and> unat p < unat (j_last j)"
  by (simp add: in_ring_def word_less_nat_alt word_le_nat_alt)

text \<open>One wrap is enough for a displacement of at most the size of the ring.\<close>

lemma wrap_add_nat:
  assumes ok: "ring_ok j" and p: "in_ring j p" and n: "n \<le> ring_size j"
  shows "unat (wrap j (p + of_nat n)) =
    (if unat p + n < unat (j_last j) then unat p + n else unat p + n - ring_size j)"
proof -
  note b = ring_bounds [OF ok]
  have "unat p + n < 2 ^ 32 + 2 ^ 32"
    using p n b unfolding in_ring_nat ring_size_def by linarith
  then have small: "unat p + n < 2 ^ 64" by simp
  then have "n < 2 ^ 64" by simp
  then have s: "unat (p + of_nat n) = unat p + n"
    using small by (simp add: unat_word_ariths unsigned_of_nat take_bit_nat_eq_self)
  have d: "unat (j_last j - j_first j) = ring_size j"
    using b by (simp add: unat_sub word_le_nat_alt ring_size_def)
  show ?thesis
  proof (cases "unat p + n < unat (j_last j)")
    case True
    then show ?thesis using s by (simp add: wrap_def word_le_nat_alt)
  next
    case False
    then have "j_last j - j_first j \<le> p + of_nat n"
      using s d b by (simp add: word_le_nat_alt ring_size_def)
    then show ?thesis
      using s d False by (simp add: wrap_def word_le_nat_alt unat_sub)
  qed
qed

lemma wrap_add_in_ring:
  "ring_ok j \<Longrightarrow> in_ring j p \<Longrightarrow> n \<le> ring_size j \<Longrightarrow> in_ring j (wrap j (p + of_nat n))"
  using wrap_add_nat [of j p n] ring_bounds [of j]
  by (auto simp: in_ring_nat ring_size_def)

lemma wrap_Suc_in_ring: "ring_ok j \<Longrightarrow> in_ring j p \<Longrightarrow> in_ring j (wrap j (p + 1))"
  using wrap_add_in_ring [of j p 1] ring_bounds [of j] by (simp add: ring_size_def)

lemma adv_in_ring: "ring_ok j \<Longrightarrow> in_ring j p \<Longrightarrow> in_ring j (adv j n p)"
  by (induction n arbitrary: p) (auto simp: wrap_Suc_in_ring)

lemma wrap_add_adv:
  assumes "ring_ok j" "in_ring j p" "n \<le> ring_size j"
  shows "wrap j (p + of_nat n) = adv j n p"
  using assms
proof (induction n arbitrary: p)
  case 0
  then show ?case by (auto simp: wrap_def in_ring_def)
next
  case (Suc n)
  have one: "1 \<le> ring_size j" using Suc.prems(3) by simp
  let ?q = "wrap j (p + 1)"
  have q: "in_ring j ?q" by (rule wrap_Suc_in_ring [OF Suc.prems(1,2)])
  have uq: "unat ?q = (if unat p + 1 < unat (j_last j) then unat p + 1 else unat p + 1 - ring_size j)"
    using wrap_add_nat [OF Suc.prems(1,2) one] by simp
  have un: "unat (wrap j (?q + of_nat n)) =
      (if unat ?q + n < unat (j_last j) then unat ?q + n else unat ?q + n - ring_size j)"
    using wrap_add_nat [OF Suc.prems(1) q, of n] Suc.prems(3) by simp
  have us: "unat (wrap j (p + of_nat (Suc n))) =
      (if unat p + Suc n < unat (j_last j) then unat p + Suc n else unat p + Suc n - ring_size j)"
    by (rule wrap_add_nat [OF Suc.prems])
  have "unat (wrap j (p + of_nat (Suc n))) = unat (wrap j (?q + of_nat n))"
    unfolding un us uq using Suc.prems(2,3) ring_bounds [OF Suc.prems(1)]
    by (auto simp: in_ring_nat ring_size_def)
  then have "wrap j (p + of_nat (Suc n)) = wrap j (?q + of_nat n)"
    by (simp only: word_unat_eq_iff)
  also have "\<dots> = adv j n ?q"
    using Suc.IH [OF Suc.prems(1) q] Suc.prems(3) by simp
  finally show ?case by simp
qed

section \<open>Revoke records\<close>

function records_from :: "bytes \<Rightarrow> nat \<Rightarrow> int \<Rightarrow> nat \<Rightarrow> u64 list" where
  "records_from b len maxb offset =
     (if int (offset + len) \<le> maxb \<and> len > 0
      then (if len = 4 then ucast (get_be32 b offset) else get_be64 b offset) #
           records_from b len maxb (offset + len)
      else [])"
  by pat_completeness auto
termination
  by (relation "measure (\<lambda>(b, len, maxb, offset). nat maxb - offset)") auto

declare records_from.simps [simp del]

definition revoke_list :: "journal \<Rightarrow> bytes \<Rightarrow> u64 list" where
  "revoke_list j b = records_from b (revoke_record_len j) (sint (get_be32 b 12)) sizeof_revoke_header"

text \<open>
  If the count in the header does not exceed the block, scanning a revoke block records
  each of its blocks with the sequence number of the transaction.
\<close>

lemma revoke_records_loop_list:
  assumes "maxb \<le> int (length b)" "cur_revoke j = Some table"
  shows "\<exists>info'. revoke_records_loop b len maxb tid offset j info =
     Some (set_cur_revoke (rvk.record_all (map (\<lambda>x. (x, tid)) (records_from b len maxb offset)) table) j, info', 0)
     \<and> start_transaction info' = start_transaction info \<and> end_transaction info' = end_transaction info"
  using assms
proof (induction b len maxb offset arbitrary: j table info rule: records_from.induct)
  case (1 b len maxb offset)
  show ?case
  proof (cases "int (offset + len) \<le> maxb \<and> len > 0")
    case False
    then have "records_from b len maxb offset = []"
        "revoke_records_loop b len maxb tid offset j info = Some (j, info, 0)"
      by (simp_all only: records_from.simps [of b len maxb offset]
          revoke_records_loop.simps [of b len maxb tid offset] if_False)
    then show ?thesis
      using 1(3) by (simp add: set_cur_revoke_same)
  next
    case True
    let ?x = "if len = 4 then ucast (get_be32 b offset) else get_be64 b offset"
    let ?t = "table_record table ?x tid"
    have len: "offset + len \<le> length b" using True 1(2) by linarith
    have "cur_revoke (set_cur_revoke ?t j) = Some ?t" using 1(3) by simp
    note IH = 1(1) [OF True 1(2) this, of "info\<lparr>nr_revokes := nr_revokes info + 1\<rparr>"]
    have "records_from b len maxb offset = ?x # records_from b len maxb (offset + len)"
      by (simp only: records_from.simps [of b len maxb offset] if_P [OF True])
    moreover have "revoke_records_loop b len maxb tid offset j info =
        revoke_records_loop b len maxb tid (offset + len) (set_cur_revoke ?t j)
          (info\<lparr>nr_revokes := nr_revokes info + 1\<rparr>)"
      using len set_revoke_table [OF 1(3), of ?x tid]
      by (simp only: revoke_records_loop.simps [of b len maxb tid offset] if_P [OF True]) (simp add: Let_def)
    ultimately show ?thesis using IH by simp
  qed
qed

lemma scan_revoke_records_list:
  assumes "sint (get_be32 b 12) \<le> int (length b)" "cur_revoke j = Some table"
  shows "\<exists>info'. scan_revoke_records j b tid info =
     Some (set_cur_revoke (rvk.record_all (map (\<lambda>x. (x, tid)) (revoke_list j b)) table) j, info', 0)
     \<and> start_transaction info' = start_transaction info \<and> end_transaction info' = end_transaction info"
  unfolding scan_revoke_records_def revoke_list_def by (rule revoke_records_loop_list [OF assms])

section \<open>Replaying tags\<close>

text \<open>The replay loop as a recursion over the tags.\<close>

definition replay_one :: "kernel_env \<Rightarrow> log_tag \<Rightarrow> pass_state \<Rightarrow> (pass_state \<times> int + pass_state) option" where
  "replay_one k t s =
     (let j = jnl (p_world s)
      in if lt_type t = T_BLOCKTYPE_NEWLYAPPENDEDDATA then Some (Inr s)
         else let io_block = p_log_block s; s = s\<lparr>p_log_block := wrap j (io_block + 1)\<rparr>
              in case jread k (p_world s) (ucast io_block) of
                   (w, Inl err) \<Rightarrow> Some (Inr (s\<lparr>p_world := w, p_success := err\<rparr>))
                 | (w, Inr obh) \<Rightarrow>
                     (let s = s\<lparr>p_world := w\<rparr>; info = p_info s
                      in do { revoked \<leftarrow> jbdbf_journal_test_revoke (jnl w) (lt_block t) (p_commit_ID s);
                              Some (if revoked
                                    then Inr (s\<lparr>p_info := info\<lparr>nr_revoke_hits := nr_revoke_hits info + 1\<rparr>\<rparr>)
                                    else if k_getblk_null k (j_fs_dev j) (lt_block t)
                                    then Inl (s, - ENOMEM)
                                    else Inr (s\<lparr>p_world := restore_block (j_fs_dev j) (lt_block t)
                                                    (unescape (j_blocksize j) (lt_flags t) obh) w,
                                                p_info := info\<lparr>nr_replays := nr_replays info + 1\<rparr>\<rparr>)) }))"

fun replay_tags :: "kernel_env \<Rightarrow> log_tag list \<Rightarrow> pass_state \<Rightarrow> pass_result option" where
  "replay_tags k [] s = Some (Cont s)"
| "replay_tags k (t # ts) s =
     do { r \<leftarrow> replay_one k t s;
          case r of Inl (s, err) \<Rightarrow> Some (Failed s err) | Inr s \<Rightarrow> replay_tags k ts s }"

lemma replay_tag_one: "replay_tag k b tagp s = replay_one k (tag_at b tagp) s"
  unfolding replay_tag_def replay_one_def tag_at_def journal_tag_bytes_def Let_def log_tag.simps
  by (rule refl)

lemma replay_loop_tags: "replay_loop k j b tagp s = replay_tags k (tags_from j b tagp) s"
proof (induction j b tagp arbitrary: s rule: tags_from.induct)
  case (1 j b tagp)
  show ?case
  proof (cases "tagp + journal_tag_bytes j \<le> j_blocksize j")
    case False
    then show ?thesis by (subst replay_loop.simps, subst tags_from.simps) simp
  next
    case True
    have *: "(if tag_flags b tagp AND JBD2_FLAG_LAST_TAG \<noteq> 0 then Some (Cont s)
        else replay_loop k j b (next_tagp j b tagp) s) =
      replay_tags k (if tag_flags b tagp AND JBD2_FLAG_LAST_TAG \<noteq> 0 then []
        else tags_from j b (next_tagp j b tagp)) s" for s
      using 1 True by simp
    show ?thesis
      by (subst replay_loop.simps, subst tags_from.simps) (simp only: True if_True * replay_tags.simps replay_tag_one)
  qed
qed

section \<open>The items of a log\<close>

text \<open>
  A log is a sequence of descriptor blocks with the blocks they describe, revoke blocks and
  commit blocks.  A transaction ends with its commit block.
\<close>

datatype log_item = LDesc "log_tag list" "bytes list" | LRevoke "u64 list" | LCommit

definition header :: "bytes \<Rightarrow> u32 \<Rightarrow> u32 \<Rightarrow> bool" where
  "header b seq typ = (get_be32 b 0 = JBD2_MAGIC_NUMBER \<and> get_be32 b 4 = typ \<and> get_be32 b 8 = seq)"

fun item_at :: "kernel_env \<Rightarrow> world \<Rightarrow> u64 \<Rightarrow> u32 \<Rightarrow> log_item \<Rightarrow> bool" where
  "item_at k w p seq (LDesc tags datas) =
     (header (log_block k w p) seq JBD2_DESCRIPTOR_BLOCK \<and>
      tags_from (jnl w) (log_block k w p) sizeof_header = tags \<and>
      datas = map (\<lambda>i. log_block k w (adv (jnl w) (Suc i) p)) [0..<length (filter journaled tags)] \<and>
      length datas < ring_size (jnl w))"
| "item_at k w p seq (LRevoke blocks) =
     (header (log_block k w p) seq JBD2_REVOKE_BLOCK \<and>
      sint (get_be32 (log_block k w p) 12) \<le> int (length (log_block k w p)) \<and>
      revoke_list (jnl w) (log_block k w p) = blocks)"
| "item_at k w p seq LCommit = header (log_block k w p) seq JBD2_COMMIT_BLOCK"

fun item_len :: "log_item \<Rightarrow> nat" where
  "item_len (LDesc tags datas) = Suc (length datas)"
| "item_len (LRevoke blocks) = 1"
| "item_len LCommit = 1"

fun tx_next :: "nat \<Rightarrow> log_item \<Rightarrow> nat" where
  "tx_next n LCommit = Suc n"
| "tx_next n it = n"

text \<open>
  The log at position p, in the n-th transaction after the one numbered base, consists of the
  given items and ends there: the next block is not part of transaction n.
\<close>

fun log_at :: "kernel_env \<Rightarrow> world \<Rightarrow> u32 \<Rightarrow> u64 \<Rightarrow> nat \<Rightarrow> log_item list \<Rightarrow> bool" where
  "log_at k w base p n [] =
     (\<forall>typ \<in> {JBD2_DESCRIPTOR_BLOCK, JBD2_COMMIT_BLOCK, JBD2_REVOKE_BLOCK}.
        \<not> header (log_block k w p) (base + of_nat n) typ)"
| "log_at k w base p n (it # its) =
     (item_at k w p (base + of_nat n) it \<and>
      log_at k w base (adv (jnl w) (item_len it) p) (tx_next n it) its)"

definition commits :: "log_item list \<Rightarrow> nat" where
  "commits its = length (filter (\<lambda>it. it = LCommit) its)"

fun item_tags :: "log_item \<Rightarrow> log_tag list" where
  "item_tags (LDesc tags datas) = tags"
| "item_tags it = []"

fun item_writes :: "nat \<Rightarrow> log_item \<Rightarrow> (nat \<times> log_tag \<times> bytes) list" where
  "item_writes n (LDesc tags datas) = map (Pair n) (zip (filter journaled tags) datas)"
| "item_writes n it = []"

fun item_revokes :: "nat \<Rightarrow> log_item \<Rightarrow> (u64 \<times> nat) list" where
  "item_revokes n (LRevoke blocks) = map (\<lambda>b. (b, n)) blocks"
| "item_revokes n it = []"

text \<open>Collecting from all items, each with the index of its transaction.\<close>

fun collect :: "(nat \<Rightarrow> log_item \<Rightarrow> 'a list) \<Rightarrow> nat \<Rightarrow> log_item list \<Rightarrow> 'a list" where
  "collect f n [] = []"
| "collect f n (it # its) = f n it @ collect f (tx_next n it) its"

text \<open>The items of the transactions before transaction stop.\<close>

fun before :: "nat \<Rightarrow> nat \<Rightarrow> log_item list \<Rightarrow> log_item list" where
  "before stop n [] = []"
| "before stop n (it # its) = (if n < stop then it # before stop (tx_next n it) its else [])"

text \<open>Applying the writes that are not revoked, in log order.\<close>

definition revoked_by :: "(u64 \<times> nat) list \<Rightarrow> u64 \<Rightarrow> nat \<Rightarrow> bool" where
  "revoked_by revs b n = (\<exists>m. (b, m) \<in> set revs \<and> n \<le> m)"

definition apply_write ::
    "nat \<Rightarrow> (u64 \<times> nat) list \<Rightarrow> (u64 \<Rightarrow> bytes) \<Rightarrow> nat \<times> log_tag \<times> bytes \<Rightarrow> (u64 \<Rightarrow> bytes)" where
  "apply_write blocksize revs fs wr =
     (case wr of (n, t, d) \<Rightarrow>
        if revoked_by revs (lt_block t) n then fs
        else fs(lt_block t := unescape blocksize (lt_flags t) d))"

end
