(* ===== verification/Recovery_Correct.thy ===== *)
theory Recovery_Correct
  imports Log_Format
begin

text \<open>
  Correctness of recovery: on a readable, well-formed log the scan pass finds the end of
  the log, the revoke pass collects the revoke records of the complete transactions, and the
  replay pass applies exactly the unrevoked writes of these transactions in log order.
\<close>

section \<open>Worlds with the same log\<close>

text \<open>
  During recovery the revoke tables, the file system blocks and the state of the buffer
  cache change; the log does not.
\<close>

definition same_log :: "kernel_env \<Rightarrow> world \<Rightarrow> world \<Rightarrow> bool" where
  "same_log k w0 w =
     ((\<exists>tb. jnl w = (jnl w0)\<lparr>j_revoke_table := tb\<rparr>) \<and> log_readable k w \<and>
      (\<forall>p < ucast (j_maxlen (jnl w0)). log_block k w p = log_block k w0 p))"

lemma same_log_refl: "log_readable k w \<Longrightarrow> same_log k w w"
  unfolding same_log_def by (intro conjI exI [of _ "j_revoke_table (jnl w)"]) simp_all

lemma same_log_breq [simp]: "same_log k w0 (w\<lparr>breq := r\<rparr>) = same_log k w0 w"
  by (simp add: same_log_def log_block_def)

lemma same_log_jnl:
  assumes "same_log k w0 w"
  shows "j_maxlen (jnl w) = j_maxlen (jnl w0)" "j_first (jnl w) = j_first (jnl w0)"
    "j_last (jnl w) = j_last (jnl w0)" "j_blocksize (jnl w) = j_blocksize (jnl w0)"
    "j_fs_dev (jnl w) = j_fs_dev (jnl w0)" "j_dev (jnl w) = j_dev (jnl w0)"
    "j_inode (jnl w) = j_inode (jnl w0)" "j_format_version (jnl w) = j_format_version (jnl w0)"
    "j_superblock (jnl w) = j_superblock (jnl w0)" "j_revoke (jnl w) = j_revoke (jnl w0)"
  using assms by (auto simp: same_log_def)

lemma same_log_wrap [simp]:
  assumes "same_log k w0 w"
  shows "wrap (jnl w) = wrap (jnl w0)" "revoke_list (jnl w) = revoke_list (jnl w0)"
    "tags_from (jnl w) = tags_from (jnl w0)"
proof -
  note eq = same_log_jnl [OF assms]
  show "wrap (jnl w) = wrap (jnl w0)"
    by (rule ext) (simp add: wrap_def eq)
  show "revoke_list (jnl w) = revoke_list (jnl w0)"
    by (rule ext) (simp add: revoke_list_def revoke_record_len_def JBD2_HAS_INCOMPAT_FEATURE_def eq)
  show "tags_from (jnl w) = tags_from (jnl w0)"
    by (intro ext tags_from_blocksize) (rule eq)
qed

lemma in_ring_maxlen:
  "ring_ok j \<Longrightarrow> in_ring j p \<Longrightarrow> p < ucast (j_maxlen j)"
  by (auto simp: ring_ok_def in_ring_def word_less_nat_alt word_le_nat_alt)

text \<open>What holds of the journal throughout recovery.\<close>

definition log_env :: "kernel_env \<Rightarrow> world \<Rightarrow> bool" where
  "log_env k w0 =
     (ring_ok (jnl w0) \<and> readahead_window_ok (jnl w0) \<and>
      \<not> JBD2_HAS_COMPAT_FEATURE (jnl w0) JBD2_FEATURE_COMPAT_CHECKSUM)"

lemma jread_same_log:
  assumes "log_env k w0" "same_log k w0 w" "in_ring (jnl w0) p"
  shows "\<exists>r. jread k w (ucast p) = (w\<lparr>breq := r\<rparr>, Inr (log_block k w0 p))"
proof -
  have "p < ucast (j_maxlen (jnl w0))"
    using in_ring_maxlen assms by (auto simp: log_env_def)
  moreover have "readahead_window_ok (jnl w)"
    using assms(1) same_log_jnl [OF assms(2)] by (simp add: log_env_def readahead_window_ok_def)
  ultimately show ?thesis
    using jread_ok [of k w p] assms(2) same_log_jnl [OF assms(2)] by (auto simp: same_log_def)
qed

section \<open>One iteration\<close>

definition going :: "passtype \<Rightarrow> pass_state \<Rightarrow> bool" where
  "going pass s = (pass = PASS_SCAN \<or> \<not> tid_geq (p_commit_ID s) (end_transaction (p_info s)))"

text \<open>What happens after a block b of the log has been read.\<close>

definition dispatch :: "kernel_env \<Rightarrow> passtype \<Rightarrow> bytes \<Rightarrow> pass_state \<Rightarrow> pass_result option" where
  "dispatch k pass b s =
     (if header b (p_commit_ID s) JBD2_DESCRIPTOR_BLOCK then descriptor_step k pass b s
      else if header b (p_commit_ID s) JBD2_COMMIT_BLOCK then Some (Cont (commit_step pass b s))
      else if header b (p_commit_ID s) JBD2_REVOKE_BLOCK then revoke_step pass b s
      else Some (Done s))"

lemma dispatch_typed:
  "header b (p_commit_ID s) JBD2_DESCRIPTOR_BLOCK \<Longrightarrow> dispatch k pass b s = descriptor_step k pass b s"
  "header b (p_commit_ID s) JBD2_COMMIT_BLOCK \<Longrightarrow> dispatch k pass b s = Some (Cont (commit_step pass b s))"
  "header b (p_commit_ID s) JBD2_REVOKE_BLOCK \<Longrightarrow> dispatch k pass b s = revoke_step pass b s"
  by (simp_all add: dispatch_def header_def blocktype_defs)

lemma pass_step_dispatch:
  assumes env: "log_env k w0" "same_log k w0 (p_world s)" "in_ring (jnl w0) (p_log_block s)"
    and go: "going pass s"
  shows "\<exists>r. pass_step k pass s = dispatch k pass (log_block k w0 (p_log_block s))
    (s\<lparr>p_world := (p_world s)\<lparr>breq := r\<rparr>, p_log_block := adv (jnl w0) 1 (p_log_block s)\<rparr>)"
proof -
  obtain r where r: "jread k (p_world s) (ucast (p_log_block s)) =
      ((p_world s)\<lparr>breq := r\<rparr>, Inr (log_block k w0 (p_log_block s)))"
    using jread_same_log [OF env] by blast
  have on: "\<not> (pass \<noteq> PASS_SCAN \<and> tid_geq (p_commit_ID s) (end_transaction (p_info s)))"
    using go by (auto simp: going_def)
  have "pass_step k pass s = dispatch k pass (log_block k w0 (p_log_block s))
    (s\<lparr>p_world := (p_world s)\<lparr>breq := r\<rparr>, p_log_block := adv (jnl w0) 1 (p_log_block s)\<rparr>)"
    unfolding pass_step_def if_not_P [OF on] using r env(2) by (auto simp: dispatch_def header_def Let_def)
  then show ?thesis by blast
qed

lemma no_chksum_feature:
  "log_env k w0 \<Longrightarrow> same_log k w0 w \<Longrightarrow> \<not> JBD2_HAS_COMPAT_FEATURE (jnl w) JBD2_FEATURE_COMPAT_CHECKSUM"
  using same_log_jnl [of k w0 w] by (simp add: log_env_def JBD2_HAS_COMPAT_FEATURE_def)

lemma dispatch_commit:
  assumes "log_env k w0" "same_log k w0 (p_world s)" "header b (p_commit_ID s) JBD2_COMMIT_BLOCK"
  shows "dispatch k pass b s = Some (Cont (s\<lparr>p_commit_ID := p_commit_ID s + 1\<rparr>))"
  using no_chksum_feature [OF assms(1,2)] assms(3) by (simp add: dispatch_typed commit_step_def)

lemma dispatch_end:
  assumes "\<forall>typ \<in> {JBD2_DESCRIPTOR_BLOCK, JBD2_COMMIT_BLOCK, JBD2_REVOKE_BLOCK}.
      \<not> header b (p_commit_ID s) typ"
  shows "dispatch k pass b s = Some (Done s)"
  using assms by (simp add: dispatch_def)

lemma dispatch_skip_descriptor:
  assumes "log_env k w0" "same_log k w0 (p_world s)" "header b (p_commit_ID s) JBD2_DESCRIPTOR_BLOCK"
    and "pass \<noteq> PASS_REPLAY" "data_readable k (p_world s) (tags_from (jnl w0) b sizeof_header)"
    and "in_ring (jnl w0) (p_log_block s)" "count_tags (jnl w0) b < ring_size (jnl w0)"
  shows "\<exists>r. dispatch k pass b s = Some (Cont (s\<lparr>p_world := (p_world s)\<lparr>breq := r\<rparr>,
    p_dc := foldl dct.event (p_dc s) (concat (map (tag_events (j_blocksize (jnl w0))
      (bdata (p_world s) (j_fs_dev (jnl w0))) (p_commit_ID s)) (tags_from (jnl w0) b sizeof_header))),
    p_log_block := adv (jnl w0) (count_tags (jnl w0) b) (p_log_block s)\<rparr>))"
proof -
  note eq = same_log_jnl [OF assms(2)]
  have "data_readable k (p_world s) (tags_from (jnl (p_world s)) b sizeof_header)"
    using assms(2,5) by simp
  from read_and_verify_events [OF this, of "p_dc s" "p_commit_ID s"]
  obtain r e where r: "read_and_verify_checksums k (p_world s) b (p_dc s) (p_commit_ID s) =
      ((p_world s)\<lparr>breq := r\<rparr>,
       foldl dct.event (p_dc s) (concat (map (tag_events (j_blocksize (jnl w0))
         (bdata (p_world s) (j_fs_dev (jnl w0))) (p_commit_ID s)) (tags_from (jnl w0) b sizeof_header))), e)"
    using assms(2) eq by auto
  have "wrap (jnl w0) (p_log_block s + of_nat (count_tags (jnl w0) b)) =
      adv (jnl w0) (count_tags (jnl w0) b) (p_log_block s)"
    using assms by (intro wrap_add_adv) (auto simp: log_env_def)
  moreover have "count_tags (jnl (p_world s)) b = count_tags (jnl w0) b"
    using assms(2) by (simp add: count_tags_eq)
  ultimately show ?thesis
    using assms r no_chksum_feature [OF assms(1,2)]
    by (auto simp: dispatch_typed descriptor_step_def Let_def)
qed

lemma dispatch_skip_revoke:
  "header b (p_commit_ID s) JBD2_REVOKE_BLOCK \<Longrightarrow> pass \<noteq> PASS_REVOKE \<Longrightarrow> dispatch k pass b s = Some (Cont s)"
  by (simp add: dispatch_typed revoke_step_def)

lemma dispatch_revoke:
  assumes "header b (p_commit_ID s) JBD2_REVOKE_BLOCK" "same_log k w0 (p_world s)"
    and "sint (get_be32 b 12) \<le> int (length b)" "cur_revoke (jnl (p_world s)) = Some table"
  shows "\<exists>info. dispatch k PASS_REVOKE b s = Some (Cont (s\<lparr>p_world := (p_world s)\<lparr>jnl :=
      set_cur_revoke (rvk.record_all (map (\<lambda>x. (x, p_commit_ID s)) (revoke_list (jnl w0) b)) table) (jnl (p_world s))\<rparr>,
    p_info := info\<rparr>)) \<and> end_transaction info = end_transaction (p_info s)"
proof -
  from scan_revoke_records_list [OF assms(3,4), of "p_commit_ID s" "p_info s"] assms(2)
  show ?thesis using assms(1) by (auto simp: dispatch_typed revoke_step_def)
qed

section \<open>The scan pass\<close>

lemma pass_loop_Cont: "pass_step k pass s = Some (Cont s') \<Longrightarrow> pass_loop k pass s = pass_loop k pass s'"
  by (subst pass_loop.simps) simp

lemma pass_loop_Done: "pass_step k pass s = Some (Done s') \<Longrightarrow> pass_loop k pass s = Some (Done s')"
  by (subst pass_loop.simps) simp

definition item_events :: "nat \<Rightarrow> (u64 \<Rightarrow> bytes) \<Rightarrow> (nat \<Rightarrow> 'n) \<Rightarrow> nat \<Rightarrow> log_item \<Rightarrow> 'n dc_event list" where
  "item_events blocksize fs f n it = concat (map (tag_events blocksize fs (f n)) (item_tags it))"

text \<open>The effect of an item on a state, in the passes that do not use it.\<close>

definition skipped :: "journal \<Rightarrow> (u64 \<Rightarrow> bytes) \<Rightarrow> log_item \<Rightarrow> pass_state \<Rightarrow> pass_state \<Rightarrow> bool" where
  "skipped j fs it s s' =
     ((\<exists>r. p_world s' = (p_world s)\<lparr>breq := r\<rparr>) \<and> p_info s' = p_info s \<and> p_success s' = p_success s \<and>
      p_dc s' = foldl dct.event (p_dc s)
        (concat (map (tag_events (j_blocksize j) fs (p_commit_ID s)) (item_tags it))) \<and>
      p_log_block s' = adv j (item_len it) (p_log_block s) \<and>
      p_commit_ID s' = (if it = LCommit then p_commit_ID s + 1 else p_commit_ID s))"

lemma step_skip:
  assumes env: "log_env k w0" "same_log k w0 (p_world s)" "in_ring (jnl w0) (p_log_block s)" "going pass s"
    and item: "item_at k w0 (p_log_block s) (p_commit_ID s) it"
    and pass: "pass \<noteq> PASS_REPLAY" "pass = PASS_REVOKE \<longrightarrow> (\<forall>bs. it \<noteq> LRevoke bs)"
    and data: "data_readable k (p_world s) (item_tags it)"
  shows "\<exists>s'. pass_step k pass s = Some (Cont s') \<and>
    skipped (jnl w0) (bdata (p_world s) (j_fs_dev (jnl w0))) it s s'"
proof -
  let ?b = "log_block k w0 (p_log_block s)"
  obtain r where r: "pass_step k pass s = dispatch k pass ?b
      (s\<lparr>p_world := (p_world s)\<lparr>breq := r\<rparr>, p_log_block := adv (jnl w0) 1 (p_log_block s)\<rparr>)"
      (is "_ = dispatch k pass ?b ?s")
    using pass_step_dispatch [OF env] by blast
  have s: "same_log k w0 (p_world ?s)" "in_ring (jnl w0) (p_log_block ?s)"
    using env adv_in_ring [of "jnl w0" _ 1] by (auto simp: log_env_def)
  show ?thesis
  proof (cases it)
    case (LDesc tags datas)
    then have h: "header ?b (p_commit_ID ?s) JBD2_DESCRIPTOR_BLOCK"
      and t: "tags_from (jnl w0) ?b sizeof_header = tags"
      and n: "count_tags (jnl w0) ?b = length datas" "length datas < ring_size (jnl w0)"
      using item by (auto simp: count_tags_eq)
    have "data_readable k (p_world ?s) (tags_from (jnl w0) ?b sizeof_header)"
      using data LDesc t by (simp add: data_readable_def)
    from dispatch_skip_descriptor [OF env(1) s(1) h pass(1) this s(2)] n
    show ?thesis unfolding r by (auto simp: LDesc skipped_def t)
  next
    case (LRevoke bs)
    then have "header ?b (p_commit_ID ?s) JBD2_REVOKE_BLOCK" "pass \<noteq> PASS_REVOKE"
      using item pass by auto
    from dispatch_skip_revoke [OF this] show ?thesis
      unfolding r by (auto simp: LRevoke skipped_def)
  next
    case LCommit
    then have "header ?b (p_commit_ID ?s) JBD2_COMMIT_BLOCK"
      using item by auto
    from dispatch_commit [OF env(1) s(1) this] show ?thesis
      unfolding r by (auto simp: LCommit skipped_def)
  qed
qed

lemma commits_Nil [simp]: "commits [] = 0"
  by (simp add: commits_def)

lemma commits_Cons: "n + commits (it # its) = tx_next n it + commits its"
  by (cases it) (simp_all add: commits_def)

lemma skipped_next:
  assumes "skipped (jnl w0) fs it s s'" "log_env k w0" "same_log k w0 (p_world s)"
    "in_ring (jnl w0) (p_log_block s)" "p_commit_ID s = base + of_nat n"
  shows "same_log k w0 (p_world s')" "in_ring (jnl w0) (p_log_block s')"
    "p_commit_ID s' = base + of_nat (tx_next n it)"
    "bdata (p_world s') = bdata (p_world s)" "jnl (p_world s') = jnl (p_world s)"
    "data_readable k (p_world s') tags = data_readable k (p_world s) tags"
proof -
  obtain r where r: "p_world s' = (p_world s)\<lparr>breq := r\<rparr>"
    using assms(1) by (auto simp: skipped_def)
  show "same_log k w0 (p_world s')" "bdata (p_world s') = bdata (p_world s)"
      "jnl (p_world s') = jnl (p_world s)"
      "data_readable k (p_world s') tags = data_readable k (p_world s) tags"
    using assms(3) by (simp_all add: r data_readable_def)
  show "in_ring (jnl w0) (p_log_block s')"
    using assms adv_in_ring by (simp add: skipped_def log_env_def)
  show "p_commit_ID s' = base + of_nat (tx_next n it)"
    using assms(1,5) by (cases it) (simp_all add: skipped_def)
qed

lemma scan_loop:
  assumes "log_env k w0" "same_log k w0 (p_world s)" "in_ring (jnl w0) (p_log_block s)"
    and "log_at k w0 base (p_log_block s) n its" "p_commit_ID s = base + of_nat n"
    and "\<forall>it \<in> set its. data_readable k (p_world s) (item_tags it)"
    and "fs = bdata (p_world s) (j_fs_dev (jnl w0))"
  shows "\<exists>s' r. pass_loop k PASS_SCAN s = Some (Done s') \<and> p_world s' = (p_world s)\<lparr>breq := r\<rparr> \<and>
    p_info s' = p_info s \<and> p_success s' = p_success s \<and> p_commit_ID s' = base + of_nat (n + commits its) \<and>
    p_dc s' = foldl dct.event (p_dc s)
      (collect (item_events (j_blocksize (jnl w0)) fs (\<lambda>n. base + of_nat n)) n its)"
  using assms
proof (induction its arbitrary: n s)
  case Nil
  have go: "going PASS_SCAN s" by (simp add: going_def)
  obtain r where r: "pass_step k PASS_SCAN s = dispatch k PASS_SCAN (log_block k w0 (p_log_block s))
      (s\<lparr>p_world := (p_world s)\<lparr>breq := r\<rparr>, p_log_block := adv (jnl w0) 1 (p_log_block s)\<rparr>)"
    using pass_step_dispatch [OF Nil(1-3) go] by blast
  have "pass_step k PASS_SCAN s = Some (Done
      (s\<lparr>p_world := (p_world s)\<lparr>breq := r\<rparr>, p_log_block := adv (jnl w0) 1 (p_log_block s)\<rparr>))"
    unfolding r by (rule dispatch_end) (use Nil(4,5) in simp)
  from pass_loop_Done [OF this] Nil(5) show ?case by auto
next
  case (Cons it its)
  have go: "going PASS_SCAN s" by (simp add: going_def)
  obtain s1 where s1: "pass_step k PASS_SCAN s = Some (Cont s1)" "skipped (jnl w0) fs it s s1"
    using step_skip [OF Cons.prems(1-3) go, of it] Cons.prems by auto
  note nx = skipped_next [OF s1(2) Cons.prems(1-3,5)]
  have at: "log_at k w0 base (p_log_block s1) (tx_next n it) its"
    using Cons.prems(4) s1(2) by (simp add: skipped_def)
  obtain s' r where s': "pass_loop k PASS_SCAN s1 = Some (Done s')" "p_world s' = (p_world s1)\<lparr>breq := r\<rparr>"
      "p_info s' = p_info s1" "p_success s' = p_success s1"
      "p_commit_ID s' = base + of_nat (tx_next n it + commits its)"
      "p_dc s' = foldl dct.event (p_dc s1)
        (collect (item_events (j_blocksize (jnl w0)) fs (\<lambda>n. base + of_nat n)) (tx_next n it) its)"
    using Cons.IH [OF Cons.prems(1) nx(1,2) at nx(3)] Cons.prems(6,7) nx(4,6) by auto
  have "\<exists>r. p_world s' = (p_world s)\<lparr>breq := r\<rparr>"
    using s'(2) s1(2) by (auto simp: skipped_def)
  then show ?case
    unfolding commits_Cons using s' s1(2) pass_loop_Cont [OF s1(1)] Cons.prems(5)
    by (auto simp: skipped_def item_events_def [of _ _ _ n it])
qed

section \<open>The revoke pass\<close>

lemma same_log_set_revoke:
  assumes "same_log k w0 w"
  shows "same_log k w0 (w\<lparr>jnl := set_cur_revoke t (jnl w)\<rparr>)"
proof -
  have "\<exists>tb. set_cur_revoke t (jnl w) = (jnl w)\<lparr>j_revoke_table := tb\<rparr>"
    by (cases "j_revoke (jnl w)")
      (auto simp: set_cur_revoke_def intro: exI [of _ "j_revoke_table (jnl w)"])
  then obtain tb where tb: "set_cur_revoke t (jnl w) = (jnl w)\<lparr>j_revoke_table := tb\<rparr>" by blast
  have "log_readable k (w\<lparr>jnl := (jnl w)\<lparr>j_revoke_table := tb\<rparr>\<rparr>) = log_readable k w"
      "log_block k (w\<lparr>jnl := (jnl w)\<lparr>j_revoke_table := tb\<rparr>\<rparr>) p = log_block k w p" for p
    by (simp_all add: log_readable_def log_block_def log_addr_def)
  then show ?thesis
    using assms unfolding tb by (auto simp: same_log_def)
qed

definition tid_revokes :: "u32 \<Rightarrow> (u64 \<times> nat) list \<Rightarrow> (u64 \<times> u32) list" where
  "tid_revokes base = map (\<lambda>(b, n). (b, base + of_nat n))"

lemma tid_geq_bound:
  "m < 2 ^ 31 \<Longrightarrow> n < 2 ^ 31 \<Longrightarrow> tid_geq (base + of_nat m) (base + of_nat n) \<longleftrightarrow> n \<le> m"
  by (rule tid_geq_offsets)

text \<open>Both later passes stop at the transaction the scan pass determined.\<close>

lemma pass_stop:
  assumes "pass \<noteq> PASS_SCAN" "p_commit_ID s = base + of_nat stop" "end_transaction (p_info s) = base + of_nat stop"
  shows "pass_loop k pass s = Some (Done s)"
  using assms by (intro pass_loop_Done) (simp add: pass_step_def)

lemma revoke_step_item:
  assumes env: "log_env k w0" "same_log k w0 (p_world s)" "in_ring (jnl w0) (p_log_block s)" "going PASS_REVOKE s"
    and item: "item_at k w0 (p_log_block s) (base + of_nat n) it" and n: "p_commit_ID s = base + of_nat n"
    and data: "data_readable k (p_world s) (item_tags it)"
    and tab: "cur_revoke (jnl (p_world s)) = Some table"
  shows "\<exists>s'. pass_step k PASS_REVOKE s = Some (Cont s') \<and> same_log k w0 (p_world s') \<and>
    in_ring (jnl w0) (p_log_block s') \<and>
    bdata (p_world s') = bdata (p_world s) \<and> unreadable (p_world s') = unreadable (p_world s) \<and>
    jnl (p_world s') = set_cur_revoke (rvk.record_all (tid_revokes base (item_revokes n it)) table) (jnl (p_world s)) \<and>
    end_transaction (p_info s') = end_transaction (p_info s) \<and> p_success s' = p_success s \<and>
    p_log_block s' = adv (jnl w0) (item_len it) (p_log_block s) \<and>
    p_commit_ID s' = base + of_nat (tx_next n it)"
proof (cases "\<exists>bs. it = LRevoke bs")
  case False
  then obtain s' where s': "pass_step k PASS_REVOKE s = Some (Cont s')"
      "skipped (jnl w0) (bdata (p_world s) (j_fs_dev (jnl w0))) it s s'"
    using step_skip [OF env, of it] item n data by auto
  have "item_revokes n it = []" using False by (cases it) auto
  then show ?thesis
    using s' skipped_next [OF s'(2) env(1-3) n] set_cur_revoke_same [OF tab]
    by (auto simp: skipped_def tid_revokes_def)
next
  case True
  then obtain bs where it: "it = LRevoke bs" by blast
  let ?b = "log_block k w0 (p_log_block s)"
  obtain r where r: "pass_step k PASS_REVOKE s = dispatch k PASS_REVOKE ?b
      (s\<lparr>p_world := (p_world s)\<lparr>breq := r\<rparr>, p_log_block := adv (jnl w0) 1 (p_log_block s)\<rparr>)"
      (is "_ = dispatch _ _ _ ?s")
    using pass_step_dispatch [OF env] by blast
  have h: "header ?b (p_commit_ID ?s) JBD2_REVOKE_BLOCK" "sint (get_be32 ?b 12) \<le> int (length ?b)"
      "revoke_list (jnl w0) ?b = bs"
    using item n it by auto
  have sl: "same_log k w0 (p_world ?s)" and cr: "cur_revoke (jnl (p_world ?s)) = Some table"
    using env(2) tab by simp_all
  obtain info where info: "dispatch k PASS_REVOKE ?b ?s = Some (Cont (?s\<lparr>p_world := (p_world ?s)\<lparr>jnl :=
        set_cur_revoke (rvk.record_all (map (\<lambda>x. (x, p_commit_ID ?s)) bs) table) (jnl (p_world ?s))\<rparr>,
      p_info := info\<rparr>))" "end_transaction info = end_transaction (p_info ?s)"
    using dispatch_revoke [OF h(1) sl h(2) cr] h(3) by auto
  have "tid_revokes base (item_revokes n it) = map (\<lambda>x. (x, p_commit_ID ?s)) bs"
    using it n by (simp add: tid_revokes_def)
  moreover have "in_ring (jnl w0) (wrap (jnl w0) (p_log_block s + 1))"
    using env by (intro wrap_Suc_in_ring) (auto simp: log_env_def)
  ultimately show ?thesis
    using r info it n same_log_set_revoke [OF sl] by simp
qed

lemma revoke_loop:
  assumes "log_env k w0" "same_log k w0 (p_world s)" "in_ring (jnl w0) (p_log_block s)"
    and "log_at k w0 base (p_log_block s) n its" "p_commit_ID s = base + of_nat n"
    and "\<forall>it \<in> set its. data_readable k (p_world s) (item_tags it)"
    and "n \<le> stop" "stop \<le> n + commits its" "n + commits its < 2 ^ 31"
    and "end_transaction (p_info s) = base + of_nat stop"
    and "cur_revoke (jnl (p_world s)) = Some table"
  shows "\<exists>s'. pass_loop k PASS_REVOKE s = Some (Done s') \<and> same_log k w0 (p_world s') \<and>
    bdata (p_world s') = bdata (p_world s) \<and> unreadable (p_world s') = unreadable (p_world s) \<and>
    jnl (p_world s') = set_cur_revoke
      (rvk.record_all (tid_revokes base (collect item_revokes n (before stop n its))) table) (jnl (p_world s)) \<and>
    end_transaction (p_info s') = end_transaction (p_info s) \<and> p_success s' = p_success s \<and>
    p_commit_ID s' = base + of_nat stop"
  using assms
proof (induction its arbitrary: n s table)
  case Nil
  then show ?case
    using pass_stop [of PASS_REVOKE s base stop k] set_cur_revoke_same by (simp add: tid_revokes_def)
next
  case (Cons it its)
  show ?case
  proof (cases "n = stop")
    case True
    then show ?thesis
      using Cons.prems pass_stop [of PASS_REVOKE s base stop k] set_cur_revoke_same
      by (simp add: tid_revokes_def)
  next
    case False
    have "n < stop" using False Cons.prems(7) by simp
    then have go: "going PASS_REVOKE s"
      using Cons.prems(5,7-10) by (simp add: going_def tid_geq_bound)
    have "item_at k w0 (p_log_block s) (base + of_nat n) it"
        "data_readable k (p_world s) (item_tags it)"
      using Cons.prems(4,6) by auto
    from revoke_step_item [OF Cons.prems(1-3) go this(1) Cons.prems(5) this(2) Cons.prems(11)]
    obtain s1 where s1: "pass_step k PASS_REVOKE s = Some (Cont s1)" "same_log k w0 (p_world s1)"
        "in_ring (jnl w0) (p_log_block s1)"
        "bdata (p_world s1) = bdata (p_world s)" "unreadable (p_world s1) = unreadable (p_world s)"
        "jnl (p_world s1) = set_cur_revoke (rvk.record_all (tid_revokes base (item_revokes n it)) table) (jnl (p_world s))"
        "end_transaction (p_info s1) = end_transaction (p_info s)" "p_success s1 = p_success s"
        "p_log_block s1 = adv (jnl w0) (item_len it) (p_log_block s)"
        "p_commit_ID s1 = base + of_nat (tx_next n it)"
      by blast
    let ?t1 = "rvk.record_all (tid_revokes base (item_revokes n it)) table"
    have nx: "tx_next n it \<le> stop" using \<open>n < stop\<close> by (cases it) auto
    have cm: "stop \<le> tx_next n it + commits its" "tx_next n it + commits its < 2 ^ 31"
      using Cons.prems(8,9) by (simp_all only: commits_Cons)
    have at: "log_at k w0 base (p_log_block s1) (tx_next n it) its"
      using Cons.prems(4) s1(9) by simp
    have dr: "\<forall>it \<in> set its. data_readable k (p_world s1) (item_tags it)"
      using Cons.prems(6) s1(5) same_log_jnl(5) [OF s1(2)] same_log_jnl(5) [OF Cons.prems(2)]
      by (simp add: data_readable_def)
    have "cur_revoke (jnl (p_world s1)) = Some ?t1"
      using s1(6) Cons.prems(11) by simp
    from Cons.IH [OF Cons.prems(1) s1(2,3) at s1(10) dr nx cm _ this] s1(7) Cons.prems(10)
    show ?thesis
      using s1 pass_loop_Cont [OF s1(1)] \<open>n < stop\<close>
      by (auto simp: tid_revokes_def rvk.record_all_append)
  qed
qed

section \<open>The replay pass\<close>

text \<open>A target of a write has a buffer and lies outside the journal.\<close>

definition target_ok :: "kernel_env \<Rightarrow> world \<Rightarrow> log_tag \<Rightarrow> bool" where
  "target_ok k w0 t =
     (journaled t \<longrightarrow> \<not> k_getblk_null k (j_fs_dev (jnl w0)) (lt_block t) \<and>
        (j_dev (jnl w0) = j_fs_dev (jnl w0) \<longrightarrow>
           (\<forall>p < ucast (j_maxlen (jnl w0)). lt_block t \<noteq> log_addr k (jnl w0) p)))"

lemma same_log_restore:
  assumes "same_log k w0 w" "target_ok k w0 t" "journaled t"
  shows "same_log k w0 (restore_block (j_fs_dev (jnl w0)) (lt_block t) data w)"
proof -
  note eq = same_log_jnl [OF assms(1)]
  have addr: "log_addr k (jnl w) = log_addr k (jnl w0)"
    by (rule ext) (simp add: log_addr_def eq)
  have "log_block k (restore_block (j_fs_dev (jnl w0)) (lt_block t) data w) p = log_block k w p"
    if "p < ucast (j_maxlen (jnl w0))" for p
    using assms(2,3) that by (auto simp: log_block_def restore_block_def target_ok_def addr eq)
  moreover have "log_readable k (restore_block (j_fs_dev (jnl w0)) (lt_block t) data w)"
    using assms(1) by (auto simp: same_log_def log_readable_def restore_block_def)
  ultimately show ?thesis
    using assms(1) by (auto simp: same_log_def restore_block_def)
qed

fun datas_at :: "kernel_env \<Rightarrow> world \<Rightarrow> u64 \<Rightarrow> nat \<Rightarrow> bytes list" where
  "datas_at k w p 0 = []"
| "datas_at k w p (Suc n) = log_block k w p # datas_at k w (wrap (jnl w) (p + 1)) n"

lemma datas_at_map: "datas_at k w p n = map (\<lambda>i. log_block k w (adv (jnl w) i p)) [0..<n]"
proof (induction n arbitrary: p)
  case (Suc n)
  have "[0..<Suc n] = 0 # map Suc [0..<n]" by (simp add: map_Suc_upt upt_conv_Cons)
  then show ?case using Suc by (simp del: upt_Suc add: comp_def)
qed simp

definition write_tag :: "nat \<Rightarrow> (u64 \<Rightarrow> bool) \<Rightarrow> (u64 \<Rightarrow> bytes) \<Rightarrow> log_tag \<times> bytes \<Rightarrow> (u64 \<Rightarrow> bytes)" where
  "write_tag blocksize rv fs td =
     (if rv (lt_block (fst td)) then fs
      else fs(lt_block (fst td) := unescape blocksize (lt_flags (fst td)) (snd td)))"

text \<open>How the states before and after replaying some tags are related.\<close>

definition replayed :: "kernel_env \<Rightarrow> world \<Rightarrow> (u64 \<Rightarrow> bool) \<Rightarrow> log_tag list \<Rightarrow> pass_state \<Rightarrow> pass_state \<Rightarrow> bool" where
  "replayed k w0 rv ts s s' =
     (same_log k w0 (p_world s') \<and> in_ring (jnl w0) (p_log_block s') \<and> jnl (p_world s') = jnl (p_world s) \<and>
      bdata (p_world s') = (bdata (p_world s))(j_fs_dev (jnl w0) :=
        foldl (write_tag (j_blocksize (jnl w0)) rv) (bdata (p_world s) (j_fs_dev (jnl w0)))
          (zip (filter journaled ts) (datas_at k w0 (p_log_block s) (length (filter journaled ts))))) \<and>
      end_transaction (p_info s') = end_transaction (p_info s) \<and> p_success s' = p_success s \<and>
      p_commit_ID s' = p_commit_ID s \<and>
      p_log_block s' = adv (jnl w0) (length (filter journaled ts)) (p_log_block s))"

lemma replay_one_ok:
  assumes env: "log_env k w0" "same_log k w0 (p_world s)" "in_ring (jnl w0) (p_log_block s)"
    and t: "target_ok k w0 t"
    and rv: "jbdbf_journal_test_revoke (jnl (p_world s)) (lt_block t) (p_commit_ID s) = Some (rv (lt_block t))"
  shows "\<exists>s'. replay_one k t s = Some (Inr s') \<and> replayed k w0 rv [t] s s'"
proof (cases "journaled t")
  case False
  then show ?thesis using env by (simp add: replay_one_def replayed_def)
next
  case True
  note eq = same_log_jnl [OF env(2)]
  obtain r where r: "jread k (p_world s) (ucast (p_log_block s)) =
      ((p_world s)\<lparr>breq := r\<rparr>, Inr (log_block k w0 (p_log_block s)))"
    using jread_same_log [OF env] by blast
  have w: "in_ring (jnl w0) (wrap (jnl w0) (p_log_block s + 1))"
    using env by (intro wrap_Suc_in_ring) (auto simp: log_env_def)
  show ?thesis
  proof (cases "rv (lt_block t)")
    case rev: True
    then show ?thesis
      using True r rv env(2) w by (simp add: replay_one_def replayed_def write_tag_def Let_def)
  next
    case False
    let ?w = "restore_block (j_fs_dev (jnl w0)) (lt_block t)
      (unescape (j_blocksize (jnl w0)) (lt_flags t) (log_block k w0 (p_log_block s))) ((p_world s)\<lparr>breq := r\<rparr>)"
    have "same_log k w0 ?w"
      using env(2) by (intro same_log_restore t True) simp
    moreover have "\<not> k_getblk_null k (j_fs_dev (jnl w0)) (lt_block t)"
      using t True by (simp add: target_ok_def)
    moreover have "jnl ?w = jnl (p_world s)" "bdata ?w = (bdata (p_world s))(j_fs_dev (jnl w0) :=
        (bdata (p_world s) (j_fs_dev (jnl w0)))(lt_block t :=
          unescape (j_blocksize (jnl w0)) (lt_flags t) (log_block k w0 (p_log_block s))))"
      by (simp_all add: restore_block_def)
    ultimately show ?thesis
      using True False r rv env(2) w eq
      by (simp add: replay_one_def replayed_def write_tag_def Let_def)
  qed
qed

lemma datas_at_append:
  "datas_at k w p (m + n) = datas_at k w p m @ datas_at k w (adv (jnl w) m p) n"
  by (induction m arbitrary: p) simp_all

lemma length_datas_at [simp]: "length (datas_at k w p n) = n"
  by (induction n arbitrary: p) simp_all

lemma adv_add: "adv j (m + n) p = adv j n (adv j m p)"
  by (induction m arbitrary: p) simp_all

lemma replayed_trans:
  assumes "replayed k w0 rv ts s s1" "replayed k w0 rv us s1 s2"
  shows "replayed k w0 rv (ts @ us) s s2"
  using assms by (auto simp: replayed_def datas_at_append adv_add)

lemma replay_tags_ok:
  assumes "log_env k w0" "same_log k w0 (p_world s)" "in_ring (jnl w0) (p_log_block s)"
    and "\<forall>t \<in> set ts. target_ok k w0 t"
    and "\<And>b. jbdbf_journal_test_revoke (jnl (p_world s)) b (p_commit_ID s) = Some (rv b)"
  shows "\<exists>s'. replay_tags k ts s = Some (Cont s') \<and> replayed k w0 rv ts s s'"
  using assms
proof (induction ts arbitrary: s)
  case Nil
  then show ?case by (simp add: replayed_def)
next
  case (Cons t ts)
  obtain s1 where s1: "replay_one k t s = Some (Inr s1)" "replayed k w0 rv [t] s s1"
    using replay_one_ok [of k w0 s t rv] Cons.prems by auto
  obtain s' where s': "replay_tags k ts s1 = Some (Cont s')" "replayed k w0 rv ts s1 s'"
    using Cons.IH [of s1] Cons.prems s1(2) by (auto simp: replayed_def)
  from s1(1) s'(1) replayed_trans [OF s1(2) s'(2)] show ?case by simp
qed

lemma write_tag_apply:
  "apply_write blocksize revs fs (n, td) = write_tag blocksize (\<lambda>b. revoked_by revs b n) fs td"
  by (cases td) (simp add: apply_write_def write_tag_def)

lemma foldl_apply_write_item:
  "foldl (apply_write blocksize revs) fs (item_writes n (LDesc tags datas)) =
   foldl (write_tag blocksize (\<lambda>b. revoked_by revs b n)) fs (zip (filter journaled tags) datas)"
  by (simp add: foldl_map write_tag_apply)

text \<open>The effect of an item in the replay pass.\<close>

lemma replay_step_item:
  assumes env: "log_env k w0" "same_log k w0 (p_world s)" "in_ring (jnl w0) (p_log_block s)" "going PASS_REPLAY s"
    and item: "item_at k w0 (p_log_block s) (base + of_nat n) it" and n: "p_commit_ID s = base + of_nat n"
    and targets: "\<forall>t \<in> set (item_tags it). target_ok k w0 t"
    and rv: "\<And>b. jbdbf_journal_test_revoke (jnl (p_world s)) b (base + of_nat n) = Some (revoked_by revs b n)"
  shows "\<exists>s'. pass_step k PASS_REPLAY s = Some (Cont s') \<and> same_log k w0 (p_world s') \<and>
    in_ring (jnl w0) (p_log_block s') \<and> jnl (p_world s') = jnl (p_world s) \<and>
    bdata (p_world s') = (bdata (p_world s))(j_fs_dev (jnl w0) :=
      foldl (apply_write (j_blocksize (jnl w0)) revs) (bdata (p_world s) (j_fs_dev (jnl w0))) (item_writes n it)) \<and>
    end_transaction (p_info s') = end_transaction (p_info s) \<and> p_success s' = p_success s \<and>
    p_log_block s' = adv (jnl w0) (item_len it) (p_log_block s) \<and>
    p_commit_ID s' = base + of_nat (tx_next n it)"
proof -
  let ?b = "log_block k w0 (p_log_block s)"
  obtain r where r: "pass_step k PASS_REPLAY s = dispatch k PASS_REPLAY ?b
      (s\<lparr>p_world := (p_world s)\<lparr>breq := r\<rparr>, p_log_block := adv (jnl w0) 1 (p_log_block s)\<rparr>)"
      (is "_ = dispatch _ _ _ ?s")
    using pass_step_dispatch [OF env] by blast
  have s: "same_log k w0 (p_world ?s)" "in_ring (jnl w0) (p_log_block ?s)"
    using env adv_in_ring [of "jnl w0" _ 1] by (auto simp: log_env_def)
  show ?thesis
  proof (cases it)
    case (LDesc tags datas)
    then have h: "header ?b (p_commit_ID ?s) JBD2_DESCRIPTOR_BLOCK"
      and t: "tags_from (jnl w0) ?b sizeof_header = tags"
      and d: "datas = datas_at k w0 (p_log_block ?s) (length (filter journaled tags))"
      using item n by (auto simp: datas_at_map)
    have rv': "\<And>b. jbdbf_journal_test_revoke (jnl (p_world ?s)) b (p_commit_ID ?s) = Some (revoked_by revs b n)"
      using rv n by simp
    obtain s' where s': "replay_tags k tags ?s = Some (Cont s')"
        "replayed k w0 (\<lambda>b. revoked_by revs b n) tags ?s s'"
      using replay_tags_ok [OF env(1) s _ rv', of tags] targets LDesc by auto
    have "dispatch k PASS_REPLAY ?b ?s = Some (Cont s')"
      using h t s' s(1) by (simp add: dispatch_typed descriptor_step_def replay_loop_tags)
    then show ?thesis
      using r s'(2) d n unfolding LDesc foldl_apply_write_item by (auto simp: replayed_def)
  next
    case (LRevoke bs)
    then have "header ?b (p_commit_ID ?s) JBD2_REVOKE_BLOCK" using item n by auto
    from dispatch_skip_revoke [OF this, of PASS_REPLAY k] show ?thesis
      unfolding r using s n by (auto simp: LRevoke)
  next
    case LCommit
    then have "header ?b (p_commit_ID ?s) JBD2_COMMIT_BLOCK" using item n by auto
    from dispatch_commit [OF env(1) s(1) this] show ?thesis
      unfolding r using s n by (auto simp: LCommit)
  qed
qed

lemma replay_loop_ok:
  assumes "log_env k w0" "same_log k w0 (p_world s)" "in_ring (jnl w0) (p_log_block s)"
    and "log_at k w0 base (p_log_block s) n its" "p_commit_ID s = base + of_nat n"
    and "\<forall>it \<in> set its. \<forall>t \<in> set (item_tags it). target_ok k w0 t"
    and "n \<le> stop" "stop \<le> n + commits its" "n + commits its < 2 ^ 31"
    and "end_transaction (p_info s) = base + of_nat stop"
    and "\<And>b m. m < 2 ^ 31 \<Longrightarrow>
      jbdbf_journal_test_revoke (jnl (p_world s)) b (base + of_nat m) = Some (revoked_by revs b m)"
  shows "\<exists>s'. pass_loop k PASS_REPLAY s = Some (Done s') \<and> same_log k w0 (p_world s') \<and>
    jnl (p_world s') = jnl (p_world s) \<and>
    bdata (p_world s') = (bdata (p_world s))(j_fs_dev (jnl w0) :=
      foldl (apply_write (j_blocksize (jnl w0)) revs) (bdata (p_world s) (j_fs_dev (jnl w0)))
        (collect item_writes n (before stop n its))) \<and>
    end_transaction (p_info s') = end_transaction (p_info s) \<and> p_success s' = p_success s \<and>
    p_commit_ID s' = base + of_nat stop"
  using assms
proof (induction its arbitrary: n s)
  case Nil
  then show ?case
    using pass_stop [of PASS_REPLAY s base stop k] by simp
next
  case (Cons it its)
  show ?case
  proof (cases "n = stop")
    case True
    then show ?thesis
      using Cons.prems pass_stop [of PASS_REPLAY s base stop k] by simp
  next
    case False
    have "n < stop" using False Cons.prems(7) by simp
    then have go: "going PASS_REPLAY s" and n31: "n < 2 ^ 31"
      using Cons.prems(5,7-10) by (simp_all add: going_def tid_geq_bound)
    have it: "item_at k w0 (p_log_block s) (base + of_nat n) it"
        "\<forall>t \<in> set (item_tags it). target_ok k w0 t"
      using Cons.prems(4,6) by auto
    from replay_step_item [OF Cons.prems(1-3) go it(1) Cons.prems(5) it(2) Cons.prems(11) [OF n31]]
    obtain s1 where s1: "pass_step k PASS_REPLAY s = Some (Cont s1)" "same_log k w0 (p_world s1)"
        "in_ring (jnl w0) (p_log_block s1)" "jnl (p_world s1) = jnl (p_world s)"
        "bdata (p_world s1) = (bdata (p_world s))(j_fs_dev (jnl w0) :=
          foldl (apply_write (j_blocksize (jnl w0)) revs) (bdata (p_world s) (j_fs_dev (jnl w0))) (item_writes n it))"
        "end_transaction (p_info s1) = end_transaction (p_info s)" "p_success s1 = p_success s"
        "p_log_block s1 = adv (jnl w0) (item_len it) (p_log_block s)"
        "p_commit_ID s1 = base + of_nat (tx_next n it)"
      by blast
    have nx: "tx_next n it \<le> stop" using \<open>n < stop\<close> by (cases it) auto
    have cm: "stop \<le> tx_next n it + commits its" "tx_next n it + commits its < 2 ^ 31"
      using Cons.prems(8,9) by (simp_all only: commits_Cons)
    have at: "log_at k w0 base (p_log_block s1) (tx_next n it) its"
      using Cons.prems(4) s1(8) by simp
    have tg: "\<forall>it \<in> set its. \<forall>t \<in> set (item_tags it). target_ok k w0 t"
      using Cons.prems(6) by simp
    have rv: "\<And>b m. m < 2 ^ 31 \<Longrightarrow>
        jbdbf_journal_test_revoke (jnl (p_world s1)) b (base + of_nat m) = Some (revoked_by revs b m)"
      using Cons.prems(11) s1(4) by simp
    from Cons.IH [OF Cons.prems(1) s1(2,3) at s1(9) tg nx cm _ rv] s1(6) Cons.prems(10)
    show ?thesis
      using s1 pass_loop_Cont [OF s1(1)] \<open>n < stop\<close> by (auto intro!: ext)
  qed
qed

section \<open>The end of the log\<close>

text \<open>
  The mismatches the scan pass has seen and not seen overwritten again, and the index of the
  transaction at which recovery stops: the earliest with such a mismatch, or the number of
  complete transactions.
\<close>

definition mismatches :: "nat \<Rightarrow> (u64 \<Rightarrow> bytes) \<Rightarrow> log_item list \<Rightarrow> u64 \<rightharpoonup> nat" where
  "mismatches blocksize fs its = foldl map_event Map.empty (collect (item_events blocksize fs (\<lambda>n. n)) 0 its)"

definition stop_index :: "nat \<Rightarrow> (u64 \<Rightarrow> bytes) \<Rightarrow> log_item list \<Rightarrow> nat" where
  "stop_index blocksize fs its =
     (if mismatches blocksize fs its = Map.empty then commits its else Min (ran (mismatches blocksize fs its)))"

text \<open>Numbering the events by transaction numbers instead of indices.\<close>

lemma collect_map: "collect (\<lambda>n it. map g (f n it)) n its = map g (collect f n its)"
  by (induction its arbitrary: n) simp_all

lemma item_events_map:
  "item_events blocksize fs f n it = map (map_dc_event f) (item_events blocksize fs (\<lambda>n. n) n it)"
proof -
  have "tag_events blocksize fs (f n) = (\<lambda>t. map (map_dc_event f) (tag_events blocksize fs n t))"
    by (rule ext) (simp add: tag_events_def)
  then show ?thesis by (simp add: item_events_def map_concat comp_def)
qed

lemma map_event_map:
  "foldl map_event (\<lambda>b. map_option f (m b)) (map (map_dc_event f) evs) =
   (\<lambda>b. map_option f (foldl map_event m evs b))"
proof (induction evs arbitrary: m)
  case (Cons e evs)
  have "map_event (\<lambda>b. map_option f (m b)) (map_dc_event f e) = (\<lambda>b. map_option f (map_event m e b))"
    by (cases e) auto
  then show ?case using Cons by simp
qed simp

lemma event_block_map [simp]: "event_block (map_dc_event f e) = event_block e"
  by (cases e) simp_all

lemma mismatch_blocks_map [simp]: "mismatch_blocks (map (map_dc_event f) evs) = mismatch_blocks evs"
proof (induction evs)
  case (Cons e evs)
  then show ?case by (cases e) simp_all
qed simp

lemma mismatch_index:
  "foldl map_event m evs b = Some n \<Longrightarrow> m b = Some n \<or> Mismatch b n \<in> set evs"
proof (induction evs arbitrary: m)
  case (Cons e evs)
  then show ?case by (cases e) (fastforce split: if_splits)+
qed simp

lemma tx_next_ge: "n \<le> tx_next n it"
  by (cases it) simp_all

lemma collect_events_bound:
  "Mismatch b m \<in> set (collect (item_events blocksize fs (\<lambda>n. n)) n its) \<Longrightarrow> m \<le> n + commits its"
proof (induction its arbitrary: n)
  case (Cons it its)
  show ?case
  proof (cases "Mismatch b m \<in> set (item_events blocksize fs (\<lambda>n. n) n it)")
    case True
    then have "m = n" by (auto simp: item_events_def tag_events_def split: if_splits)
    then show ?thesis by simp
  next
    case False
    then show ?thesis using Cons unfolding commits_Cons by auto
  qed
qed simp

lemma finite_mismatches: "finite (ran (mismatches blocksize fs its))"
proof -
  have "ran (mismatches blocksize fs its) \<subseteq> {0..commits its}"
    using mismatch_index collect_events_bound [of _ _ blocksize fs 0 its]
    by (fastforce simp: mismatches_def ran_def)
  then show ?thesis by (rule finite_subset) simp
qed

lemma stop_index_le: "stop_index blocksize fs its \<le> commits its"
proof (cases "mismatches blocksize fs its = Map.empty")
  case False
  then have "Min (ran (mismatches blocksize fs its)) \<in> ran (mismatches blocksize fs its)"
    using finite_mismatches by (intro Min_in) (auto simp: ran_def fun_eq_iff)
  then obtain b where "mismatches blocksize fs its b = Some (Min (ran (mismatches blocksize fs its)))"
    by (auto simp: ran_def)
  then show ?thesis
    using False mismatch_index collect_events_bound [of b _ blocksize fs 0 its]
    by (fastforce simp: stop_index_def mismatches_def)
qed (simp add: stop_index_def)

text \<open>What the scan pass makes of the table it has filled.\<close>

lemma scan_end:
  assumes dc: "dc = foldl dct.event init_dc_struct
      (collect (item_events blocksize fs (\<lambda>n. base + of_nat n)) 0 its)"
    and evs: "evs = collect (item_events blocksize fs (\<lambda>n. n)) 0 its"
    and zero: "0 \<notin> event_block ` set evs" and cap: "card (mismatch_blocks evs) \<le> DC_CAPACITY"
    and wrap: "unat (base :: u32) + commits its < 2 ^ 32"
  shows "case is_datachecksum_err dc of
      None \<Rightarrow> stop_index blocksize fs its = commits its
    | Some (tid, b) \<Rightarrow> tid = base + of_nat (stop_index blocksize fs its)"
proof -
  let ?f = "\<lambda>n. base + of_nat n" and ?m = "mismatches blocksize fs its"
  have ev: "collect (item_events blocksize fs ?f) 0 its = map (map_dc_event ?f) evs"
    unfolding evs by (subst item_events_map [abs_def]) (simp only: collect_map)
  have ok: "dc_ok dc" and map: "dc_map dc = (\<lambda>b. map_option ?f (?m b))"
    using dct.events_refine [OF dc_ok_init(1), of "map (map_dc_event ?f) evs"] zero cap
      map_event_map [of ?f Map.empty evs]
    by (auto simp: dc ev dc_ok_init(2) mismatches_def evs image_image)
  have bound: "n \<le> commits its" if "?m b = Some n" for b n
    using that mismatch_index [of Map.empty evs b n] collect_events_bound [of b n blocksize fs 0 its]
    by (auto simp: mismatches_def evs)
  have un: "unat (?f n) = unat base + n" if "n \<le> commits its" for n
    using wrap that by (simp add: unat_word_ariths unsigned_of_nat take_bit_nat_eq_self)
  show ?thesis
  proof (cases "is_datachecksum_err dc")
    case None
    then have "?m = Map.empty"
      using is_datachecksum_err_None [OF ok] by (simp add: map fun_eq_iff)
    then show ?thesis using None by (simp add: stop_index_def)
  next
    case (Some e)
    obtain tid b where e: "e = (tid, b)" by (cases e)
    note min = is_datachecksum_err_Some [OF ok, of tid b]
    obtain n where n: "?m b = Some n" "tid = ?f n"
      using min Some e by (auto simp: map)
    have "n \<le> n'" if "?m b' = Some n'" for b' n'
    proof -
      have "?f n \<le> ?f n'" using min Some e that n by (auto simp: map)
      then show ?thesis
        using un [OF bound [OF n(1)]] un [OF bound [OF that]] by (simp add: word_le_nat_alt)
    qed
    then have "Min (ran ?m) = n"
      using n(1) finite_mismatches by (intro Min_eqI) (auto simp: ran_def)
    moreover have "?m \<noteq> Map.empty" using n(1) by auto
    ultimately show ?thesis
      using Some e n by (simp add: stop_index_def)
  qed
qed

section \<open>Recovery as a whole\<close>

text \<open>
  A log that recovery can work on: every journal block can be read, the log from the
  superblock's start on consists of the given items, the data blocks named by tags can be
  read, the blocks to be replayed lie outside the journal, the table of mismatches is large
  enough and the transaction numbers do not wrap around.
\<close>

definition recoverable :: "kernel_env \<Rightarrow> world \<Rightarrow> log_item list \<Rightarrow> bool" where
  "recoverable k w its =
     (let j = jnl w; sb = j_superblock j;
          evs = collect (item_events (j_blocksize j) (bdata w (j_fs_dev j)) (\<lambda>n. n)) 0 its
      in log_env k w \<and> log_readable k w \<and> k_kzalloc_ok k \<and> s_start sb \<noteq> 0 \<and>
         in_ring j (ucast (s_start sb)) \<and> log_at k w (s_sequence sb) (ucast (s_start sb)) 0 its \<and>
         (\<forall>it \<in> set its. data_readable k w (item_tags it) \<and> (\<forall>t \<in> set (item_tags it). target_ok k w t)) \<and>
         0 \<notin> event_block ` set evs \<and> card (mismatch_blocks evs) \<le> DC_CAPACITY \<and>
         commits its < 2 ^ 31 \<and> unat (s_sequence sb) + commits its < 2 ^ 32 \<and>
         (case cur_revoke j of None \<Rightarrow> False
          | Some table \<Rightarrow> table_wf table \<and> (\<forall>b. table_lookup table b = None)))"

definition replay_result :: "world \<Rightarrow> log_item list \<Rightarrow> (u64 \<Rightarrow> bytes)" where
  "replay_result w its =
     (let bs = j_blocksize (jnl w); fs = bdata w (j_fs_dev (jnl w));
          done = before (stop_index bs fs its) 0 its
      in foldl (apply_write bs (collect item_revokes 0 done)) fs (collect item_writes 0 done))"

lemma item_revokes_bound: "(b, m) \<in> set (collect item_revokes n its) \<Longrightarrow> m \<le> n + commits its"
proof (induction its arbitrary: n)
  case (Cons it its)
  then show ?case
    by (cases it) (auto simp: commits_def dest: Cons.IH)
qed simp

lemma commits_before: "n + commits (before stop n its) \<le> n + commits its"
proof (induction its arbitrary: n)
  case (Cons it its)
  show ?case
  proof (cases "n < stop")
    case True
    then show ?thesis using Cons [of "tx_next n it"] by (simp only: before.simps commits_Cons if_True)
  qed (simp add: commits_def)
qed simp

lemma test_revoke_recorded:
  assumes "cur_revoke j = Some table" "table_wf table" "\<forall>b. table_lookup table b = None"
    and "\<forall>(b, n) \<in> set revs. n < 2 ^ 31" "m < 2 ^ 31"
  shows "jbdbf_journal_test_revoke (set_cur_revoke (rvk.record_all (tid_revokes base revs) table) j)
    b (base + of_nat m) = Some (revoked_by revs b m)"
proof -
  let ?t = "rvk.record_all (tid_revokes base revs) table"
  have "cur_revoke (set_cur_revoke ?t j) = Some ?t" using assms(1) by simp
  then show ?thesis
    using rvk.revoked_after_record_all [OF assms(2) _ assms(4,5), of b base] assms(3)
    by (simp add: test_revoke_table tid_revokes_def revoked_by_def)
qed

text \<open>The initial state of a pass.\<close>

definition pass_init :: "world \<Rightarrow> recovery_info \<Rightarrow> pass_state" where
  "pass_init w info = \<lparr>p_world = w, p_info = info, p_commit_ID = s_sequence (j_superblock (jnl w)),
     p_log_block = ucast (s_start (j_superblock (jnl w))), p_crc32_sum = - 1, p_dc = init_dc_struct,
     p_success = 0\<rparr>"

lemma pass_init_sel [simp]:
  "p_world (pass_init w info) = w" "p_info (pass_init w info) = info" "p_success (pass_init w info) = 0"
  "p_dc (pass_init w info) = init_dc_struct"
  "p_commit_ID (pass_init w info) = s_sequence (j_superblock (jnl w))"
  "p_log_block (pass_init w info) = ucast (s_start (j_superblock (jnl w)))"
  by (simp_all add: pass_init_def)

lemma do_one_pass_Done:
  assumes "k_kzalloc_ok k"
    and "pass_loop k pass (pass_init w (if pass = PASS_SCAN
      then info\<lparr>start_transaction := s_sequence (j_superblock (jnl w))\<rparr> else info)) = Some (Done s)"
  shows "do_one_pass k pass w info = Some (p_world s, pass_done pass s)"
  using assms by (simp add: do_one_pass_def pass_init_def Let_def)

lemma scan_pass:
  assumes rec: "recoverable k w its"
    and stop: "stop = stop_index (j_blocksize (jnl w)) (bdata w (j_fs_dev (jnl w))) its"
  shows "\<exists>r info. do_one_pass k PASS_SCAN w zero_info = Some (w\<lparr>breq := r\<rparr>, info, 0) \<and>
    end_transaction info = s_sequence (j_superblock (jnl w)) + of_nat stop"
proof -
  let ?base = "s_sequence (j_superblock (jnl w))" and ?fs = "bdata w (j_fs_dev (jnl w))"
  let ?s0 = "pass_init w (zero_info\<lparr>start_transaction := ?base\<rparr>)"
  have r: "log_env k w" "same_log k w w" "in_ring (jnl w) (p_log_block ?s0)"
      "log_at k w ?base (p_log_block ?s0) 0 its"
      "\<forall>it \<in> set its. data_readable k (p_world ?s0) (item_tags it)" "k_kzalloc_ok k"
    using rec by (auto simp: recoverable_def Let_def same_log_refl)
  obtain s' r' where s': "pass_loop k PASS_SCAN ?s0 = Some (Done s')" "p_world s' = w\<lparr>breq := r'\<rparr>"
      "p_info s' = zero_info\<lparr>start_transaction := ?base\<rparr>" "p_success s' = 0"
      "p_commit_ID s' = ?base + of_nat (commits its)"
      "p_dc s' = foldl dct.event init_dc_struct
        (collect (item_events (j_blocksize (jnl w)) ?fs (\<lambda>n. ?base + of_nat n)) 0 its)"
    using scan_loop [OF r(1) _ r(3,4) _ r(5) refl] r(2) by auto
  have "case is_datachecksum_err (p_dc s') of
      None \<Rightarrow> stop = commits its | Some (tid, b) \<Rightarrow> tid = ?base + of_nat stop"
    unfolding stop using rec by (intro scan_end [OF s'(6) refl]) (auto simp: recoverable_def Let_def)
  then have "end_transaction (fst (pass_done PASS_SCAN s')) = ?base + of_nat stop \<and>
      snd (pass_done PASS_SCAN s') = 0"
    using s'(3-5) by (auto simp: pass_done_def zero_info_def Let_def split: option.splits)
  moreover have "do_one_pass k PASS_SCAN w zero_info = Some (p_world s', pass_done PASS_SCAN s')"
    using s'(1) by (intro do_one_pass_Done r(6)) simp
  ultimately show ?thesis
    using s'(2) by (cases "pass_done PASS_SCAN s'") auto
qed

lemma revoke_pass:
  assumes rec: "recoverable k w its" and sl: "same_log k w w1" and eq: "jnl w1 = jnl w" "bdata w1 = bdata w" "unreadable w1 = unreadable w"
    and stop: "stop \<le> commits its" "end_transaction info = s_sequence (j_superblock (jnl w)) + of_nat stop"
    and tab: "cur_revoke (jnl w) = Some table"
  shows "\<exists>w2 info'. do_one_pass k PASS_REVOKE w1 info = Some (w2, info', 0) \<and> same_log k w w2 \<and>
    bdata w2 = bdata w \<and> end_transaction info' = end_transaction info \<and>
    jnl w2 = set_cur_revoke (rvk.record_all (tid_revokes (s_sequence (j_superblock (jnl w)))
      (collect item_revokes 0 (before stop 0 its))) table) (jnl w)"
proof -
  let ?base = "s_sequence (j_superblock (jnl w))" and ?s0 = "pass_init w1 info"
  have r: "log_env k w" "in_ring (jnl w) (p_log_block ?s0)"
      "log_at k w ?base (p_log_block ?s0) 0 its" "k_kzalloc_ok k" "commits its < 2 ^ 31"
      "\<forall>it \<in> set its. data_readable k (p_world ?s0) (item_tags it)"
    using rec eq by (auto simp: recoverable_def Let_def data_readable_def)
  obtain s' where s': "pass_loop k PASS_REVOKE ?s0 = Some (Done s')" "same_log k w (p_world s')"
      "bdata (p_world s') = bdata w1"
      "jnl (p_world s') = set_cur_revoke (rvk.record_all (tid_revokes ?base
        (collect item_revokes 0 (before stop 0 its))) table) (jnl w1)"
      "end_transaction (p_info s') = end_transaction info" "p_success s' = 0"
      "p_commit_ID s' = ?base + of_nat stop"
    using revoke_loop [OF r(1) _ r(2,3) _ r(6), of stop table] sl eq stop tab r(5) by auto
  have "do_one_pass k PASS_REVOKE w1 info = Some (p_world s', pass_done PASS_REVOKE s')"
    using s'(1) by (intro do_one_pass_Done r(4)) simp
  then show ?thesis
    using s' eq stop by (auto simp: pass_done_def)
qed

lemma replay_pass:
  assumes rec: "recoverable k w its" and sl: "same_log k w w2" and eq: "bdata w2 = bdata w"
    and stop: "stop \<le> commits its" "end_transaction info = s_sequence (j_superblock (jnl w)) + of_nat stop"
    and rv: "\<And>b m. m < 2 ^ 31 \<Longrightarrow> jbdbf_journal_test_revoke (jnl w2) b
      (s_sequence (j_superblock (jnl w)) + of_nat m) = Some (revoked_by revs b m)"
  shows "\<exists>w3 info'. do_one_pass k PASS_REPLAY w2 info = Some (w3, info', 0) \<and> jnl w3 = jnl w2 \<and>
    end_transaction info' = end_transaction info \<and>
    bdata w3 = (bdata w)(j_fs_dev (jnl w) := foldl (apply_write (j_blocksize (jnl w)) revs)
      (bdata w (j_fs_dev (jnl w))) (collect item_writes 0 (before stop 0 its)))"
proof -
  let ?base = "s_sequence (j_superblock (jnl w))" and ?s0 = "pass_init w2 info"
  have sb: "j_superblock (jnl w2) = j_superblock (jnl w)" by (rule same_log_jnl [OF sl])
  have r: "log_env k w" "in_ring (jnl w) (p_log_block ?s0)"
      "log_at k w ?base (p_log_block ?s0) 0 its" "k_kzalloc_ok k" "commits its < 2 ^ 31"
      "\<forall>it \<in> set its. \<forall>t \<in> set (item_tags it). target_ok k w t"
    using rec sb by (auto simp: recoverable_def Let_def)
  have sl0: "same_log k w (p_world ?s0)" and id0: "p_commit_ID ?s0 = ?base + of_nat 0"
    using sl sb by simp_all
  have rv0: "\<And>b m. m < 2 ^ 31 \<Longrightarrow> jbdbf_journal_test_revoke (jnl (p_world ?s0)) b (?base + of_nat m) =
      Some (revoked_by revs b m)"
    using rv by simp
  have "end_transaction (p_info ?s0) = ?base + of_nat stop" "stop \<le> 0 + commits its" "0 + commits its < 2 ^ 31"
    using stop r(5) by simp_all
  from replay_loop_ok [OF r(1) sl0 r(2,3) id0 r(6) _ this(2,3,1) rv0]
  obtain s' where s': "pass_loop k PASS_REPLAY ?s0 = Some (Done s')"
      "jnl (p_world s') = jnl w2"
      "bdata (p_world s') = (bdata w2)(j_fs_dev (jnl w) :=
        foldl (apply_write (j_blocksize (jnl w)) revs) (bdata w2 (j_fs_dev (jnl w)))
          (collect item_writes 0 (before stop 0 its)))"
      "end_transaction (p_info s') = end_transaction info" "p_success s' = 0"
      "p_commit_ID s' = ?base + of_nat stop"
    by auto
  have "do_one_pass k PASS_REPLAY w2 info = Some (p_world s', pass_done PASS_REPLAY s')"
    using s'(1) by (intro do_one_pass_Done r(4)) simp
  then show ?thesis
    using s' eq stop by (auto simp: pass_done_def)
qed

lemma recover_result:
  assumes rec: "recoverable k w its"
  shows "\<exists>w'. jbdbf_journal_recover k w = Some (w', k_sync_blockdev k (j_fs_dev (jnl w))) \<and>
    bdata w' = (bdata w)(j_fs_dev (jnl w) := replay_result w its) \<and>
    j_transaction_bf_sequence (jnl w') = s_sequence (j_superblock (jnl w)) +
      of_nat (stop_index (j_blocksize (jnl w)) (bdata w (j_fs_dev (jnl w))) its) + 1"
proof -
  define base where "base = s_sequence (j_superblock (jnl w))"
  define stop where "stop = stop_index (j_blocksize (jnl w)) (bdata w (j_fs_dev (jnl w))) its"
  define revs where "revs = collect item_revokes 0 (before stop 0 its)"
  have stop: "stop \<le> commits its" by (simp add: stop_def stop_index_le)
  obtain table where tab: "cur_revoke (jnl w) = Some table" "table_wf table" "\<forall>b. table_lookup table b = None"
    using rec by (auto simp: recoverable_def Let_def split: option.splits)
  obtain r info where p1: "do_one_pass k PASS_SCAN w zero_info = Some (w\<lparr>breq := r\<rparr>, info, 0)"
      "end_transaction info = base + of_nat stop"
    using scan_pass [OF rec stop_def] by (auto simp: base_def)
  have sl: "same_log k w (w\<lparr>breq := r\<rparr>)" using rec by (simp add: recoverable_def Let_def same_log_refl)
  obtain w2 info2 where p2: "do_one_pass k PASS_REVOKE (w\<lparr>breq := r\<rparr>) info = Some (w2, info2, 0)"
      "same_log k w w2" "bdata w2 = bdata w" "end_transaction info2 = base + of_nat stop"
      "jnl w2 = set_cur_revoke (rvk.record_all (tid_revokes base revs) table) (jnl w)"
    using revoke_pass [OF rec sl _ _ _ stop _ tab(1), of info] p1(2) by (auto simp: base_def revs_def)
  have "\<forall>(b, n) \<in> set revs. n < 2 ^ 31"
    using item_revokes_bound [of _ _ 0 "before stop 0 its"] commits_before [of 0 stop its] rec
    unfolding revs_def recoverable_def Let_def by fastforce
  then have rv: "jbdbf_journal_test_revoke (jnl w2) b (base + of_nat m) = Some (revoked_by revs b m)"
    if "m < 2 ^ 31" for b m
    unfolding p2(5) by (rule test_revoke_recorded [OF tab _ that])
  obtain w3 info3 where p3: "do_one_pass k PASS_REPLAY w2 info2 = Some (w3, info3, 0)" "jnl w3 = jnl w2"
      "end_transaction info3 = base + of_nat stop"
      "bdata w3 = (bdata w)(j_fs_dev (jnl w) := replay_result w its)"
    using replay_pass [OF rec p2(2,3) stop _ rv [unfolded base_def], where info = info2] p2(4)
    by (auto simp: base_def revs_def replay_result_def stop_def Let_def)
  have cur: "cur_revoke ((jnl w3)\<lparr>j_transaction_bf_sequence := x\<rparr>) =
      Some (rvk.record_all (tid_revokes base revs) table)" for x
    using tab(1) p2(5) p3(2) by (simp add: cur_revoke_def set_cur_revoke_def split: option.splits)
  have "s_start (j_superblock (jnl w)) \<noteq> 0" using rec by (simp add: recoverable_def Let_def)
  then show ?thesis
    using p1 p2 p3 cur same_log_jnl [OF p2(2)]
    by (auto simp: jbdbf_journal_recover_def jbdbf_journal_clear_revoke_def sync_blockdev_def Let_def
        set_cur_revoke_def base_def stop_def split: option.splits)
qed

section \<open>Properties\<close>

text \<open>
  C3: on a readable, well-formed log, recovery returns (with the result of writing out the file
  system device), leaves on the file system device exactly the unrevoked writes of the
  transactions before the stop index applied in log order, changes no other device, and sets
  the next transaction number to one past the stopping transaction.
\<close>

theorem recover_replays_log:
  assumes rec: "recoverable k w its"
  shows "\<exists>w'. jbdbf_journal_recover k w = Some (w', k_sync_blockdev k (j_fs_dev (jnl w))) \<and>
    bdata w' = (bdata w)(j_fs_dev (jnl w) := replay_result w its) \<and>
    j_transaction_bf_sequence (jnl w') = s_sequence (j_superblock (jnl w)) +
      of_nat (stop_index (j_blocksize (jnl w)) (bdata w (j_fs_dev (jnl w))) its) + 1"
  by (rule recover_result [OF rec])

text \<open>
  A small example: an eight block journal with one transaction that writes block 5.
\<close>

definition ex_zero :: bytes where "ex_zero = replicate 128 0"
definition ex_data :: bytes where "ex_data = replicate 128 170"

definition ex_block :: "u32 \<Rightarrow> bytes" where
  "ex_block typ = put_be32 0 JBD2_MAGIC_NUMBER (put_be32 4 typ (put_be32 8 7 ex_zero))"

definition ex_desc :: bytes where
  "ex_desc = put_be32 12 5 (put_be32 16 10 (ex_block JBD2_DESCRIPTOR_BLOCK))"

definition ex_journal :: journal where
  "ex_journal = two_chains_journal\<lparr>j_superblock := zero_superblock\<lparr>s_sequence := 7, s_start := 1\<rparr>,
     j_first := 1, j_last := 8, j_maxlen := 8, j_blocksize := 128, j_dev := 1, j_fs_dev := 0\<rparr>"

definition ex_world :: world where
  "ex_world = zero_world\<lparr>jnl := ex_journal,
     bdata := \<lambda>d b. if d = 1 \<and> b = 1 then ex_desc else if d = 1 \<and> b = 2 then ex_data
                   else if d = 1 \<and> b = 3 then ex_block JBD2_COMMIT_BLOCK else ex_zero\<rparr>"

definition ex_env :: kernel_env where
  "ex_env = quiet_kernel"

definition ex_tag :: log_tag where
  "ex_tag = \<lparr>lt_block = 5, lt_flags = 10, lt_sum = 0, lt_type = 0\<rparr>"

definition ex_items :: "log_item list" where
  "ex_items = [LDesc [ex_tag] [ex_data], LCommit]"

lemma ex_blocks:
  "header ex_desc 7 JBD2_DESCRIPTOR_BLOCK" "header (ex_block JBD2_COMMIT_BLOCK) 7 JBD2_COMMIT_BLOCK"
  "tag_at ex_desc 12 = ex_tag" "tag_flags ex_desc 12 = 10" "get_be32 ex_zero 0 = 0"
  by code_simp+

lemma ex_no_header: "\<not> header ex_zero s t"
  by (simp add: header_def ex_blocks JBD2_MAGIC_NUMBER_def)

lemma ex_sel [simp]:
  "jnl ex_world = ex_journal" "unreadable ex_world = (\<lambda>_ _. False)"
  "s_start (j_superblock ex_journal) = 1" "s_sequence (j_superblock ex_journal) = 7"
  "j_first ex_journal = 1" "j_last ex_journal = 8" "j_maxlen ex_journal = 8"
  "j_blocksize ex_journal = 128" "j_dev ex_journal = 1" "j_fs_dev ex_journal = 0"
  "j_inode ex_journal = False" "j_format_version ex_journal = 0" "cur_revoke ex_journal = Some two_chains"
  by (simp_all add: ex_world_def ex_journal_def two_chains_journal_def zero_world_def zero_journal_def cur_revoke_def)

lemma ex_env_sel [simp]:
  "k_getblk_null ex_env = (\<lambda>_ _. False)" "k_sync_blockdev ex_env = (\<lambda>_. 0)" "k_kzalloc_ok ex_env = True"
  by (simp_all add: ex_env_def quiet_kernel_def)

lemma ex_tags: "tags_from ex_journal ex_desc sizeof_header = [ex_tag]"
  by (subst tags_from.simps) (simp add: ex_blocks journal_tag_bytes_def size_defs tag_const_defs)

lemma ex_log_block:
  "log_block ex_env ex_world 1 = ex_desc" "log_block ex_env ex_world 2 = ex_data"
  "log_block ex_env ex_world 3 = ex_block JBD2_COMMIT_BLOCK" "log_block ex_env ex_world 4 = ex_zero"
  by (simp_all add: log_block_def log_addr_def) (simp_all add: ex_world_def)

lemma ex_events: "collect (item_events bs fs f) n ex_items = []"
  by (simp add: ex_items_def item_events_def tag_events_def ex_tag_def tag_const_defs)

lemma ex_recoverable: "recoverable ex_env ex_world ex_items"
proof -
  have "log_at ex_env ex_world 7 1 0 ex_items"
    by (simp add: ex_items_def ex_log_block ex_blocks ex_no_header ex_tags ex_tag_def tag_const_defs
        ring_size_def wrap_def)
  moreover have "log_env ex_env ex_world"
    by (simp add: log_env_def ring_ok_def readahead_window_ok_def JBD2_HAS_COMPAT_FEATURE_def)
  moreover have "table_lookup two_chains b = None" for b
    using fresh_table_lookup [of 1 1 b] by (simp add: two_chains_def)
  moreover have "log_readable ex_env ex_world"
    by (simp add: log_readable_def)
  moreover have "\<forall>it \<in> set ex_items. data_readable ex_env ex_world (item_tags it) \<and>
      (\<forall>t \<in> set (item_tags it). target_ok ex_env ex_world t)"
    by (simp add: data_readable_def target_ok_def)
  moreover have "commits ex_items = 1" by (simp add: commits_def ex_items_def)
  ultimately show ?thesis
    using two_chains_wf by (simp add: recoverable_def ex_events in_ring_def)
qed

theorem recover_replays_log_witness:
  "\<exists>w'. jbdbf_journal_recover ex_env ex_world = Some (w', 0) \<and>
     bdata w' 0 5 = ex_data \<and> j_transaction_bf_sequence (jnl w') = 9"
proof -
  have stop: "stop_index bs fs ex_items = 1" for bs fs
    by (simp add: stop_index_def mismatches_def ex_events) (simp add: ex_items_def commits_def)
  have "take 128 ex_data = ex_data" by (simp add: ex_data_def)
  then have "replay_result ex_world ex_items 5 = ex_data"
    unfolding replay_result_def Let_def stop
    by (simp add: ex_items_def ex_tag_def tag_const_defs apply_write_def revoked_by_def unescape_def)
  with recover_replays_log [OF ex_recoverable] show ?thesis
    by (auto simp: stop)
qed

end
