(* ===== verification/Buffers.thy ===== *)
theory Buffers
  imports Journal
begin

text \<open>
  Journal heads and the lists of buffers of a transaction: attaching a journal head to a
  buffer and counting its references (journal.c), and filing, unlinking and refiling a
  buffer (transaction.c).  The lists of a transaction are lists of addresses; theory
  Circular_Lists relates them to the b_tnext/b_tprev pointers.  Locks are not modelled: each
  operation runs as it does with the buffer-state and list locks held.
\<close>

section \<open>Journal heads\<close>

definition get_bh :: "bptr \<Rightarrow> world \<Rightarrow> world" where
  "get_bh bh w = upd_bh bh (\<lambda>b. b\<lparr>b_count := b_count b + 1\<rparr>) w"

text \<open>__brelse: drops a reference; with none left it only warns.\<close>

definition u_brelse :: "bptr \<Rightarrow> world \<Rightarrow> world" where
  "u_brelse bh w =
     (if b_count (bhs w bh) \<noteq> 0 then upd_bh bh (\<lambda>b. b\<lparr>b_count := b_count b - 1\<rparr>) w else w)"

definition jbdbf_journal_add_journal_bf_head :: "world \<Rightarrow> bptr \<Rightarrow> (world \<times> jptr) option" where
  "jbdbf_journal_add_journal_bf_head w bh =
     (if bh_jbd (bhs w bh)
      then do { jh \<leftarrow> b_private (bhs w bh);
                Some (upd_jh jh (\<lambda>h. h\<lparr>b_jcount := b_jcount h + 1\<rparr>) w, jh) }
      else do { j_assert (b_count (bhs w bh) > 0 \<or> b_page_mapping (bhs w bh));
                let jh = jh_next w;
                let w = w\<lparr>jh_next := jh + 1\<rparr>;
                let w = upd_bh bh (\<lambda>b. b\<lparr>bh_jbd := True, b_private := Some jh\<rparr>) w;
                let w = upd_jh jh (\<lambda>_. zero_jh\<lparr>b_bh := bh\<rparr>) w;
                let w = get_bh bh w;
                Some (upd_jh jh (\<lambda>h. h\<lparr>b_jcount := b_jcount h + 1\<rparr>) w, jh) })"

definition jbdbf_journal_grab_journal_bf_head :: "world \<Rightarrow> bptr \<Rightarrow> (world \<times> jptr option) option" where
  "jbdbf_journal_grab_journal_bf_head w bh =
     (if bh_jbd (bhs w bh)
      then do { jh \<leftarrow> b_private (bhs w bh);
                Some (upd_jh jh (\<lambda>h. h\<lparr>b_jcount := b_jcount h + 1\<rparr>) w, Some jh) }
      else Some (w, None))"

text \<open>Detaching frees the journal head; its record is not used again.\<close>

definition u_journal_remove_journal_bf_head :: "world \<Rightarrow> bptr \<Rightarrow> world option" where
  "u_journal_remove_journal_bf_head w bh =
     do { jh \<leftarrow> b_private (bhs w bh);
          let h = jhs w jh;
          j_assert (b_jcount h \<ge> 0);
          j_assert (b_transaction h = None);
          j_assert (b_next_transaction h = None);
          j_assert (b_cp_transaction h = None);
          j_assert (b_jlist h = BJ_None);
          j_assert (bh_jbd (bhs w bh));
          j_assert (b_bh h = bh);
          let w = upd_jh jh (\<lambda>h. h\<lparr>b_frozen_data := None, b_committed_data := None\<rparr>) w;
          Some (upd_bh bh (\<lambda>b. b\<lparr>b_private := None, bh_jbd := False\<rparr>) w) }"

definition jbdbf_journal_put_journal_bf_head :: "world \<Rightarrow> jptr \<Rightarrow> world option" where
  "jbdbf_journal_put_journal_bf_head w jh =
     (let bh = b_bh (jhs w jh)
      in do { j_assert (b_jcount (jhs w jh) > 0);
              let w = upd_jh jh (\<lambda>h. h\<lparr>b_jcount := b_jcount h - 1\<rparr>) w;
              if b_jcount (jhs w jh) = 0
              then do { w \<leftarrow> u_journal_remove_journal_bf_head w bh; Some (u_brelse bh w) }
              else Some w })"

section \<open>The lists of a transaction\<close>

fun t_list :: "jlist \<Rightarrow> transaction \<Rightarrow> jptr list" where
  "t_list BJ_None tr = []"
| "t_list BJ_Metadata tr = t_buffers tr"
| "t_list BJ_Forget tr = t_forget tr"
| "t_list BJ_IO tr = t_iobuf_list tr"
| "t_list BJ_Shadow tr = t_shadow_list tr"
| "t_list BJ_LogCtl tr = t_log_list tr"
| "t_list BJ_Reserved tr = t_reserved_list tr"
| "t_list BJ_Dirtydata tr = t_dirty_data_list tr"

fun upd_t_list :: "jlist \<Rightarrow> (jptr list \<Rightarrow> jptr list) \<Rightarrow> transaction \<Rightarrow> transaction" where
  "upd_t_list BJ_None f tr = tr"
| "upd_t_list BJ_Metadata f tr = tr\<lparr>t_buffers := f (t_buffers tr)\<rparr>"
| "upd_t_list BJ_Forget f tr = tr\<lparr>t_forget := f (t_forget tr)\<rparr>"
| "upd_t_list BJ_IO f tr = tr\<lparr>t_iobuf_list := f (t_iobuf_list tr)\<rparr>"
| "upd_t_list BJ_Shadow f tr = tr\<lparr>t_shadow_list := f (t_shadow_list tr)\<rparr>"
| "upd_t_list BJ_LogCtl f tr = tr\<lparr>t_log_list := f (t_log_list tr)\<rparr>"
| "upd_t_list BJ_Reserved f tr = tr\<lparr>t_reserved_list := f (t_reserved_list tr)\<rparr>"
| "upd_t_list BJ_Dirtydata f tr = tr\<lparr>t_dirty_data_list := f (t_dirty_data_list tr)\<rparr>"

text \<open>__blist_add_buffer and __blist_del_buffer on the list view.\<close>

definition u_blist_add_buffer :: "jptr list \<Rightarrow> jptr \<Rightarrow> jptr list" where
  "u_blist_add_buffer xs jh = xs @ [jh]"

definition u_blist_del_buffer :: "jptr list \<Rightarrow> jptr \<Rightarrow> jptr list" where
  "u_blist_del_buffer xs jh = remove1 jh xs"

definition clear_jbddirty :: "bptr \<Rightarrow> world \<Rightarrow> world" where
  "clear_jbddirty bh w = upd_bh bh (\<lambda>b. b\<lparr>bh_jbddirty := False\<rparr>) w"

definition set_jbddirty :: "bptr \<Rightarrow> world \<Rightarrow> world" where
  "set_jbddirty bh w = upd_bh bh (\<lambda>b. b\<lparr>bh_jbddirty := True\<rparr>) w"

definition clear_dirty :: "bptr \<Rightarrow> world \<Rightarrow> world" where
  "clear_dirty bh w = upd_bh bh (\<lambda>b. b\<lparr>bh_dirty := False\<rparr>) w"

definition mark_buffer_dirty :: "bptr \<Rightarrow> world \<Rightarrow> world" where
  "mark_buffer_dirty bh w = upd_bh bh (\<lambda>b. b\<lparr>bh_dirty := True\<rparr>) w"

lemmas dirty_bit_defs = clear_jbddirty_def set_jbddirty_def clear_dirty_def mark_buffer_dirty_def

text \<open>Deleting a buffer from a list it is not on would corrupt memory: None.\<close>

definition u_jbdbf_journal_temp_unlink_buffer :: "world \<Rightarrow> jptr \<Rightarrow> world option" where
  "u_jbdbf_journal_temp_unlink_buffer w jh =
     (let l = b_jlist (jhs w jh); bh = b_bh (jhs w jh)
      in if l = BJ_None then Some w
         else do { t \<leftarrow> b_transaction (jhs w jh);
                   let w = (if l = BJ_Metadata
                            then upd_tr t (\<lambda>tr. tr\<lparr>t_nr_buffers := t_nr_buffers tr - 1\<rparr>) w else w);
                   j_assert (l = BJ_Metadata \<longrightarrow> t_nr_buffers (trs w t) \<ge> 0);
                   j_assert (jh \<in> set (t_list l (trs w t)));
                   let w = upd_tr t (upd_t_list l (\<lambda>xs. u_blist_del_buffer xs jh)) w;
                   let w = upd_jh jh (\<lambda>h. h\<lparr>b_jlist := BJ_None\<rparr>) w;
                   Some (if bh_jbddirty (bhs w bh)
                         then mark_buffer_dirty bh (clear_jbddirty bh w) else w) })"

definition u_jbdbf_journal_unfile_buffer :: "world \<Rightarrow> jptr \<Rightarrow> world option" where
  "u_jbdbf_journal_unfile_buffer w jh =
     do { w \<leftarrow> u_jbdbf_journal_temp_unlink_buffer w jh;
          jbdbf_journal_put_journal_bf_head (upd_jh jh (\<lambda>h. h\<lparr>b_transaction := None\<rparr>) w) jh }"

definition jbdbf_journal_unfile_buffer :: "world \<Rightarrow> jptr \<Rightarrow> world option" where
  "jbdbf_journal_unfile_buffer w jh =
     (let bh = b_bh (jhs w jh)
      in do { w \<leftarrow> u_jbdbf_journal_unfile_buffer (get_bh bh w) jh; Some (u_brelse bh w) })"

text \<open>
  The dirty bits for the lists whose dirtiness is tracked in jbddirty.  The second
  test-and-clear of the source runs only if the first found the bit clear.
\<close>

definition take_dirty :: "bptr \<Rightarrow> world \<Rightarrow> world \<times> bool" where
  "take_dirty bh w =
     (if bh_dirty (bhs w bh) then (clear_dirty bh w, True)
      else if bh_jbddirty (bhs w bh) then (clear_jbddirty bh w, True)
      else (w, False))"

definition u_jbdbf_journal_file_buffer :: "world \<Rightarrow> jptr \<Rightarrow> tptr \<Rightarrow> jlist \<Rightarrow> world option" where
  "u_jbdbf_journal_file_buffer w jh t l =
     (let bh = b_bh (jhs w jh); tr = b_transaction (jhs w jh)
      in do { j_assert (tr = Some t \<or> tr = None);
              if tr \<noteq> None \<and> b_jlist (jhs w jh) = l then Some w
              else do { let (w, was_dirty) =
                          (if l \<in> {BJ_Metadata, BJ_Reserved, BJ_Shadow, BJ_Forget}
                           then take_dirty bh w else (w, False));
                        w \<leftarrow> (if tr \<noteq> None then u_jbdbf_journal_temp_unlink_buffer w jh
                              else map_option fst (jbdbf_journal_grab_journal_bf_head w bh));
                        let w = upd_jh jh (\<lambda>h. h\<lparr>b_transaction := Some t\<rparr>) w;
                        if l = BJ_None
                        then do { j_assert (b_committed_data (jhs w jh) = None);
                                  j_assert (b_frozen_data (jhs w jh) = None);
                                  Some w }
                        else do { let w = (if l = BJ_Metadata
                                           then upd_tr t (\<lambda>tr. tr\<lparr>t_nr_buffers := t_nr_buffers tr + 1\<rparr>) w
                                           else w);
                                  let w = upd_tr t (upd_t_list l (\<lambda>xs. u_blist_add_buffer xs jh)) w;
                                  let w = upd_jh jh (\<lambda>h. h\<lparr>b_jlist := l\<rparr>) w;
                                  Some (if was_dirty then set_jbddirty bh w else w) } } })"

definition jbdbf_journal_file_buffer :: "world \<Rightarrow> jptr \<Rightarrow> tptr \<Rightarrow> jlist \<Rightarrow> world option" where
  "jbdbf_journal_file_buffer w jh t l = u_jbdbf_journal_file_buffer w jh t l"

definition u_jbdbf_journal_refile_buffer :: "world \<Rightarrow> jptr \<Rightarrow> world option" where
  "u_jbdbf_journal_refile_buffer w jh =
     (let bh = b_bh (jhs w jh)
      in case b_next_transaction (jhs w jh) of
           None \<Rightarrow> u_jbdbf_journal_unfile_buffer w jh
         | Some t \<Rightarrow>
             do { let was_dirty = bh_jbddirty (bhs w bh);
                  w \<leftarrow> u_jbdbf_journal_temp_unlink_buffer (clear_jbddirty bh w) jh;
                  let w = upd_jh jh (\<lambda>h. h\<lparr>b_transaction := Some t, b_next_transaction := None\<rparr>) w;
                  let l = (if bh_freed (bhs w bh) then BJ_Forget
                           else if b_modified (jhs w jh) then BJ_Metadata else BJ_Reserved);
                  w \<leftarrow> u_jbdbf_journal_file_buffer w jh t l;
                  j_assert (t_state (trs w t) = T_RUNNING);
                  Some (if was_dirty then set_jbddirty bh w else w) })"

definition jbdbf_journal_refile_buffer :: "world \<Rightarrow> jptr \<Rightarrow> world option" where
  "jbdbf_journal_refile_buffer w jh =
     (let bh = b_bh (jhs w jh)
      in do { w \<leftarrow> u_jbdbf_journal_refile_buffer (get_bh bh w) jh; Some (u_brelse bh w) })"

end
