(* ===== verification/Checkpoint.thy ===== *)
theory Checkpoint
  imports Buffers
begin

text \<open>
  Checkpointing, checkpoint.c: the checkpoint lists of a transaction, writing the buffers
  of the oldest transaction to their place in the file system, dropping transactions that
  are no longer needed and advancing the tail of the log.  Waiting for a buffer completes
  its write; waiting for a commit continues with the world the other threads have produced
  by then.  Lock contention and preemption points are not modelled.
\<close>

section \<open>Buffer I/O\<close>

text \<open>lock_buffer and wait_on_buffer: a write under way on the buffer completes.\<close>

definition wait_on_buffer :: "kernel_env \<Rightarrow> bptr \<Rightarrow> world \<Rightarrow> world" where
  "wait_on_buffer k bh w =
     (let b = bhs w bh
      in if bh_lock b
         then let fails = k_write_fails k (b_blocknr b)
              in upd_bh bh (\<lambda>b. b\<lparr>bh_lock := False, bh_write_io_error := bh_write_io_error b \<or> fails,
                                  bh_uptodate := bh_uptodate b \<and> \<not> fails\<rparr>)
                   (case b_bdev b of None \<Rightarrow> w | Some d \<Rightarrow> log_io (WaitOn d (b_blocknr b)) w)
         else w)"

text \<open>submit_bh of a locked buffer for writing; the flag says whether with FLUSH and FUA.\<close>

definition submit_bh_write :: "bool \<Rightarrow> bptr \<Rightarrow> world \<Rightarrow> world" where
  "submit_bh_write fua bh w =
     (case b_bdev (bhs w bh) of
        None \<Rightarrow> w
      | Some d \<Rightarrow> log_io (SubmitWrite d (b_blocknr (bhs w bh)) (b_data (bhs w bh)) fua) w)"

definition write_dirty_buffer :: "kernel_env \<Rightarrow> bptr \<Rightarrow> world \<Rightarrow> world" where
  "write_dirty_buffer k bh w =
     (let w = wait_on_buffer k bh w
      in if bh_dirty (bhs w bh)
         then submit_bh_write False bh
                (upd_bh bh (\<lambda>b. b\<lparr>bh_dirty := False, bh_lock := True\<rparr>) w)
         else w)"

definition blkdev_issue_flush :: "dev \<Rightarrow> world \<Rightarrow> world" where
  "blkdev_issue_flush d w = log_io (IssueFlush d) w"

section \<open>Checkpoint lists\<close>

text \<open>
  Unlinking a buffer from the checkpoint list it is on.  New buffers go to the head of the
  lists.  The transaction is the one in b_cp_transaction.
\<close>

definition u_buffer_unlink_first :: "world \<Rightarrow> jptr \<Rightarrow> world option" where
  "u_buffer_unlink_first w jh =
     do { t \<leftarrow> b_cp_transaction (jhs w jh);
          j_assert (jh \<in> set (t_checkpoint_list (trs w t)));
          Some (upd_tr t (\<lambda>tr. tr\<lparr>t_checkpoint_list := remove1 jh (t_checkpoint_list tr)\<rparr>) w) }"

definition u_buffer_unlink :: "world \<Rightarrow> jptr \<Rightarrow> world option" where
  "u_buffer_unlink w jh =
     do { t \<leftarrow> b_cp_transaction (jhs w jh);
          j_assert (jh \<in> set (t_checkpoint_list (trs w t)) \<union> set (t_checkpoint_io_list (trs w t)));
          Some (upd_tr t (\<lambda>tr. tr\<lparr>t_checkpoint_list := remove1 jh (t_checkpoint_list tr),
                                  t_checkpoint_io_list := remove1 jh (t_checkpoint_io_list tr)\<rparr>) w) }"

definition u_buffer_relink_io :: "world \<Rightarrow> jptr \<Rightarrow> world option" where
  "u_buffer_relink_io w jh =
     do { t \<leftarrow> b_cp_transaction (jhs w jh);
          w \<leftarrow> u_buffer_unlink_first w jh;
          Some (upd_tr t (\<lambda>tr. tr\<lparr>t_checkpoint_io_list := jh # t_checkpoint_io_list tr\<rparr>) w) }"

definition u_jbdbf_journal_insert_checkpoint :: "world \<Rightarrow> jptr \<Rightarrow> tptr \<Rightarrow> world option" where
  "u_jbdbf_journal_insert_checkpoint w jh t =
     (let bh = b_bh (jhs w jh)
      in do { j_assert (bh_dirty (bhs w bh) \<or> bh_jbddirty (bhs w bh));
              j_assert (b_cp_transaction (jhs w jh) = None);
              (w, _) \<leftarrow> jbdbf_journal_grab_journal_bf_head w bh;
              let w = upd_jh jh (\<lambda>h. h\<lparr>b_cp_transaction := Some t\<rparr>) w;
              Some (upd_tr t (\<lambda>tr. tr\<lparr>t_checkpoint_list := jh # t_checkpoint_list tr\<rparr>) w) })"

definition u_jbdbf_journal_drop_transaction :: "world \<Rightarrow> tptr \<Rightarrow> world option" where
  "u_jbdbf_journal_drop_transaction w t =
     (let w = upd_jnl (\<lambda>j. j\<lparr>j_checkpoint_transactions := remove1 t (j_checkpoint_transactions j)\<rparr>) w;
          tr = trs w t
      in do { j_assert (t_state tr = T_FINISHED);
              j_assert (t_buffers tr = []);
              j_assert (t_forget tr = []);
              j_assert (t_iobuf_list tr = []);
              j_assert (t_shadow_list tr = []);
              j_assert (t_log_list tr = []);
              j_assert (t_checkpoint_list tr = []);
              j_assert (t_checkpoint_io_list tr = []);
              j_assert (t_updates tr = 0);
              j_assert (j_committing_transaction (jnl w) \<noteq> Some t);
              j_assert (j_running_transaction (jnl w) \<noteq> Some t);
              Some w })"

text \<open>Returns 1 if the transaction was dropped from the log.\<close>

definition u_jbdbf_journal_remove_checkpoint :: "world \<Rightarrow> jptr \<Rightarrow> (world \<times> int) option" where
  "u_jbdbf_journal_remove_checkpoint w jh =
     (case b_cp_transaction (jhs w jh) of
        None \<Rightarrow> Some (w, 0)
      | Some t \<Rightarrow>
          do { w \<leftarrow> u_buffer_unlink w jh;
               w \<leftarrow> jbdbf_journal_put_journal_bf_head (upd_jh jh (\<lambda>h. h\<lparr>b_cp_transaction := None\<rparr>) w) jh;
               if t_checkpoint_list (trs w t) \<noteq> [] \<or> t_checkpoint_io_list (trs w t) \<noteq> [] then Some (w, 0)
               else if t_state (trs w t) \<noteq> T_FINISHED then Some (w, 0)
               else do { let w = (if cs_chp_time (trs w t) \<noteq> 0
                                  then upd_tr t (\<lambda>tr. tr\<lparr>cs_chp_time := jbdbf_time_diff (cs_chp_time tr) (jiffies w)\<rparr>) w
                                  else w);
                         w \<leftarrow> u_jbdbf_journal_drop_transaction w t;
                         Some (w, 1) } })"

definition u_try_to_free_cp_buf :: "world \<Rightarrow> jptr \<Rightarrow> (world \<times> int) option" where
  "u_try_to_free_cp_buf w jh =
     (let bh = b_bh (jhs w jh); b = bhs w bh
      in if b_jlist (jhs w jh) = BJ_None \<and> \<not> bh_lock b \<and> \<not> bh_dirty b \<and> \<not> bh_write_io_error b
         then do { (w, ret) \<leftarrow> u_jbdbf_journal_remove_checkpoint (get_bh bh w) jh;
                   Some (u_brelse bh w, ret + 1) }
         else Some (w, 0))"

text \<open>The walk over one checkpoint list: the buffers freed and whether the transaction went.\<close>

fun clean_cp_walk :: "world \<Rightarrow> jptr list \<Rightarrow> int \<Rightarrow> (world \<times> int \<times> bool) option" where
  "clean_cp_walk w [] freed = Some (w, freed, False)"
| "clean_cp_walk w (jh # xs) freed =
     do { (w, ret) \<leftarrow> u_try_to_free_cp_buf w jh;
          let freed = (if ret \<noteq> 0 then freed + 1 else freed);
          if ret = 2 then Some (w, freed, True) else clean_cp_walk w xs freed }"

definition journal_clean_one_cp_list :: "world \<Rightarrow> jptr list \<Rightarrow> (world \<times> int \<times> bool) option" where
  "journal_clean_one_cp_list w xs = clean_cp_walk w xs 0"

fun clean_checkpoint_walk :: "world \<Rightarrow> tptr list \<Rightarrow> int \<Rightarrow> (world \<times> int) option" where
  "clean_checkpoint_walk w [] ret = Some (w, ret)"
| "clean_checkpoint_walk w (t # ts) ret =
     do { (w, n, released) \<leftarrow> journal_clean_one_cp_list w (t_checkpoint_list (trs w t));
          let ret = ret + n;
          if released then clean_checkpoint_walk w ts ret
          else do { (w, n, _) \<leftarrow> journal_clean_one_cp_list w (t_checkpoint_io_list (trs w t));
                    clean_checkpoint_walk w ts (ret + n) } }"

definition u_jbdbf_journal_clean_checkpoint_list :: "world \<Rightarrow> (world \<times> int) option" where
  "u_jbdbf_journal_clean_checkpoint_list w =
     clean_checkpoint_walk w (j_checkpoint_transactions (jnl w)) 0"

section \<open>Advancing the tail of the log\<close>

text \<open>The oldest transaction remaining in the log and the block it starts at.\<close>

definition oldest_transaction :: "world \<Rightarrow> u32 \<times> u64" where
  "oldest_transaction w =
     (let j = jnl w
      in case j_checkpoint_transactions j of
           t # _ \<Rightarrow> (t_tid (trs w t), t_log_start (trs w t))
         | [] \<Rightarrow>
             (case j_committing_transaction j of
                Some t \<Rightarrow> (t_tid (trs w t), t_log_start (trs w t))
              | None \<Rightarrow>
                  (case j_running_transaction j of
                     Some t \<Rightarrow> (t_tid (trs w t), j_head j)
                   | None \<Rightarrow> (j_transaction_bf_sequence j, j_head j))))"

definition jbdbf_cleanup_journal_tail :: "world \<Rightarrow> (world \<times> int) option" where
  "jbdbf_cleanup_journal_tail w =
     (if is_journal_aborted (jnl w) then Some (w, 1)
      else do { let (first_tid, blocknr) = oldest_transaction w;
                j_assert (blocknr \<noteq> 0);
                if j_tail_sequence (jnl w) = first_tid then Some (w, 1)
                else do { let j = jnl w;
                          let freed = blocknr - j_tail j;
                          let freed = (if blocknr < j_tail j then freed + j_last j - j_first j else freed);
                          let w = upd_jnl (\<lambda>j. j\<lparr>j_free := j_free j + freed, j_tail_sequence := first_tid,
                                                  j_tail := blocknr\<rparr>) w;
                          let w = (if j_fs_dev j \<noteq> j_dev j \<and> j_flags j AND JBD2_BARRIER \<noteq> 0
                                   then blkdev_issue_flush (j_fs_dev j) w else w);
                          let w = (if j_flags j AND JBD2_ABORT = 0
                                   then jbdbf_journal_update_superblock w True else w);
                          Some (w, 0) } })"

section \<open>Writing out the oldest transaction\<close>

definition is_first_cp :: "world \<Rightarrow> tptr \<Rightarrow> u32 \<Rightarrow> bool" where
  "is_first_cp w t tid =
     (j_checkpoint_transactions (jnl w) \<noteq> [] \<and> hd (j_checkpoint_transactions (jnl w)) = t \<and>
      t_tid (trs w t) = tid)"

text \<open>
  The loop of \<open>__wait_cp_io\<close>; the flag says that it is at the label restart, where it looks
  whether the transaction is still the oldest one.
\<close>

partial_function (option) wait_cp_io_loop ::
  "kernel_env \<Rightarrow> world \<Rightarrow> tptr \<Rightarrow> u32 \<Rightarrow> bool \<Rightarrow> int \<Rightarrow> (world \<times> int) option" where
  "wait_cp_io_loop k w t tid restart ret =
     (if restart \<and> \<not> is_first_cp w t tid then Some (w, ret)
      else case t_checkpoint_io_list (trs w t) of
             [] \<Rightarrow> Some (w, ret)
           | jh # _ \<Rightarrow>
               (let bh = b_bh (jhs w jh); w = get_bh bh w
                in if bh_lock (bhs w bh)
                   then wait_cp_io_loop k (u_brelse bh (wait_on_buffer k bh w)) t tid True ret
                   else let ret = (if bh_write_io_error (bhs w bh) then - EIO else ret)
                        in do { (w, released) \<leftarrow> u_jbdbf_journal_remove_checkpoint w jh;
                                let w = u_brelse bh w;
                                if released \<noteq> 0 then Some (w, ret)
                                else wait_cp_io_loop k w t tid False ret }))"

definition u_wait_cp_io :: "kernel_env \<Rightarrow> world \<Rightarrow> tptr \<Rightarrow> (world \<times> int) option" where
  "u_wait_cp_io k w t = wait_cp_io_loop k w t (t_tid (trs w t)) True 0"

text \<open>The batch is the used part of j_chkpt_bhs.\<close>

definition flush_one :: "kernel_env \<Rightarrow> bptr \<Rightarrow> world \<Rightarrow> world" where
  "flush_one k bh w =
     write_dirty_buffer k bh
       (upd_bh bh (\<lambda>b. b\<lparr>b_blocktype := B_BLOCKTYPE_NORMAL, b_delayed_write := False\<rparr>) w)"

definition release_one :: "bptr \<Rightarrow> world \<Rightarrow> world" where
  "release_one bh w = u_brelse bh (upd_bh bh (\<lambda>b. b\<lparr>bh_jwrite := False\<rparr>) w)"

definition u_flush_batch :: "kernel_env \<Rightarrow> world \<Rightarrow> bptr list \<Rightarrow> world" where
  "u_flush_batch k w batch = fold release_one batch (fold (flush_one k) batch w)"

definition u_process_buffer ::
  "kernel_env \<Rightarrow> world \<Rightarrow> jptr \<Rightarrow> bptr list \<Rightarrow> tptr \<Rightarrow> (world \<times> bptr list \<times> int) option" where
  "u_process_buffer k w jh batch t =
     (let bh = b_bh (jhs w jh); b = bhs w bh
      in if bh_lock b then Some (u_brelse bh (wait_on_buffer k bh (get_bh bh w)), batch, 1)
         else case b_transaction (jhs w jh) of
           Some t' \<Rightarrow>
             (let tid = t_tid (trs w t');
                  w = upd_tr t (\<lambda>tr. tr\<lparr>cs_forced_to_close := cs_forced_to_close tr + 1\<rparr>) w;
                  w = fst (jbdbf_log_start_commit w tid)
              in do { (w, _) \<leftarrow> jbdbf_log_wait_commit k w tid; Some (w, batch, 1) })
         | None \<Rightarrow>
             (if \<not> bh_dirty b
              then do { let ret = (if bh_write_io_error b then - EIO else 1);
                        let w = get_bh bh w;
                        j_assert (\<not> bh_jbddirty b);
                        (w, _) \<leftarrow> u_jbdbf_journal_remove_checkpoint w jh;
                        Some (u_brelse bh w, batch, ret) }
              else do { let w = get_bh bh w;
                        j_assert (\<not> bh_jwrite b);
                        let w = upd_bh bh (\<lambda>b. b\<lparr>bh_jwrite := True\<rparr>) w;
                        w \<leftarrow> u_buffer_relink_io w jh;
                        let w = upd_tr t (\<lambda>tr. tr\<lparr>cs_written := cs_written tr + 1\<rparr>) w;
                        let batch = batch @ [bh];
                        if length batch = JBD2_NR_BATCH then Some (u_flush_batch k w batch, [], 1)
                        else Some (w, batch, 0) }))"

text \<open>The inner loop of jbdbf_log_do_checkpoint over t_checkpoint_list.\<close>

partial_function (option) checkpoint_scan ::
  "kernel_env \<Rightarrow> world \<Rightarrow> tptr \<Rightarrow> bptr list \<Rightarrow> int \<Rightarrow> (world \<times> bptr list \<times> int \<times> int) option" where
  "checkpoint_scan k w t batch result =
     (case t_checkpoint_list (trs w t) of
        [] \<Rightarrow> Some (w, batch, 0, result)
      | jh # _ \<Rightarrow>
          do { (w, batch, retry) \<leftarrow> u_process_buffer k w jh batch t;
               let result = (if retry < 0 \<and> result = 0 then retry else result);
               if retry \<noteq> 0 then Some (w, batch, retry, result)
               else checkpoint_scan k w t batch result })"

text \<open>The code from the label restart to the label out.\<close>

partial_function (option) checkpoint_restart ::
  "kernel_env \<Rightarrow> world \<Rightarrow> tptr \<Rightarrow> u32 \<Rightarrow> int \<Rightarrow> (world \<times> int) option" where
  "checkpoint_restart k w t tid result =
     (if \<not> is_first_cp w t tid then Some (w, result)
      else do { (w, batch, retry, result) \<leftarrow> checkpoint_scan k w t [] result;
                let (w, retry) = (if batch \<noteq> [] then (u_flush_batch k w batch, if retry = 0 then 1 else retry)
                                  else (w, retry));
                if retry \<noteq> 0 then checkpoint_restart k w t tid result
                else do { (w, err) \<leftarrow> u_wait_cp_io k w t;
                          Some (w, if result = 0 then err else result) } })"

text \<open>
  The body of jbdbf_log_do_checkpoint up to the label out: the oldest transaction is written
  when the log needs space, after a flush, or when its checkpoint time has come.
\<close>

definition checkpoint_oldest :: "kernel_env \<Rightarrow> world \<Rightarrow> (world \<times> int) option" where
  "checkpoint_oldest k w =
     (case j_checkpoint_transactions (jnl w) of
        [] \<Rightarrow> Some (w, 0)
      | t # _ \<Rightarrow>
          (let w = (if cs_chp_time (trs w t) = 0 then upd_tr t (\<lambda>tr. tr\<lparr>cs_chp_time := jiffies w\<rparr>) w else w);
               tid = t_tid (trs w t)
           in if needs_checkpoint (jnl w)
              then checkpoint_restart k (blkdev_issue_flush (j_fs_dev (jnl w)) w) t tid 0
              else if \<not> time_after_eq (jiffies w) (t_checkpoint_time (trs w t)) then Some (w, 0)
              else checkpoint_restart k w t tid 0))"

definition jbdbf_log_do_checkpoint :: "kernel_env \<Rightarrow> world \<Rightarrow> (world \<times> int) option" where
  "jbdbf_log_do_checkpoint k w =
     do { (w, result) \<leftarrow> jbdbf_cleanup_journal_tail w;
          if result \<le> 0 then Some (w, result)
          else do { (w, result) \<leftarrow> checkpoint_oldest k w;
                    let w = (if needs_checkpoint (jnl w)
                             then upd_jnl (\<lambda>j. j\<lparr>needs_checkpoint := False\<rparr>)
                                    (blkdev_issue_flush (j_fs_dev (jnl w)) w)
                             else w);
                    (w, result) \<leftarrow> (if result < 0 then Some (jbdbf_journal_abort w result, result)
                                     else jbdbf_cleanup_journal_tail w);
                    Some (w, if result < 0 then result else 0) } }"

text \<open>
  Waiting for log space.  The loop tests the space against the number of blocks found needed in the round
  before; under the checkpoint mutex it works the number out again.
\<close>

partial_function (option) wait_for_space_loop :: "kernel_env \<Rightarrow> int \<Rightarrow> world \<Rightarrow> world option" where
  "wait_for_space_loop k nblocks w =
     (if \<not> u_jbdbf_log_space_left (jnl w) < nblocks then Some w
      else if j_flags (jnl w) AND JBD2_ABORT \<noteq> 0 then Some w
      else let nblocks = jbd_space_needed w
           in if \<not> u_jbdbf_log_space_left (jnl w) < nblocks then wait_for_space_loop k nblocks w
              else let chkpt = (j_checkpoint_transactions (jnl w) \<noteq> []);
                       tid = (case j_committing_transaction (jnl w) of None \<Rightarrow> 0 | Some t \<Rightarrow> t_tid (trs w t))
                   in if chkpt
                      then do { (w, _) \<leftarrow> jbdbf_log_do_checkpoint k (upd_jnl (\<lambda>j. j\<lparr>needs_checkpoint := True\<rparr>) w);
                                wait_for_space_loop k nblocks (upd_jnl (\<lambda>j. j\<lparr>needs_checkpoint := False\<rparr>) w) }
                      else do { (w, r) \<leftarrow> jbdbf_cleanup_journal_tail w;
                                w \<leftarrow> (if r = 0 then Some w
                                     else if tid \<noteq> 0
                                     then do { (w, _) \<leftarrow> jbdbf_log_wait_commit k w tid; Some w }
                                     else Some (jbdbf_journal_abort w 0));
                                wait_for_space_loop k nblocks w })"

definition u_jbdbf_log_wait_for_space :: "kernel_env \<Rightarrow> world \<Rightarrow> world option" where
  "u_jbdbf_log_wait_for_space k w = wait_for_space_loop k (jbd_space_needed w) w"

end
