(* ===== verification/Log_Space.thy ===== *)
theory Log_Space
  imports Checkpoint Log_Format
begin

text \<open>
  Accounting of the space in the log.  The live blocks are those from the tail up to the
  head of the ring; the invariant ties j_free to their number.  Allocating a log block
  (jbdbf_journal_next_log_block) and releasing the space of checkpointed transactions
  (jbdbf_cleanup_journal_tail) keep it.  The interface of an allocator that never hands out
  a live block is the locale \<open>block_source\<close>, interpreted on the journal.
\<close>

section \<open>The live part of the ring\<close>

definition ring_dist :: "journal \<Rightarrow> u64 \<Rightarrow> u64 \<Rightarrow> nat" where
  "ring_dist j a b =
     (if unat a \<le> unat b then unat b - unat a else ring_size j + unat b - unat a)"

definition live :: "journal \<Rightarrow> u64 set" where
  "live j = {p. in_ring j p \<and> ring_dist j (j_tail j) p < ring_dist j (j_tail j) (j_head j)}"

definition log_space_ok :: "journal \<Rightarrow> bool" where
  "log_space_ok j =
     (ring_ok j \<and> in_ring j (j_head j) \<and> in_ring j (j_tail j) \<and>
      unat (j_free j) + ring_dist j (j_tail j) (j_head j) = ring_size j)"

definition next_pos :: "journal \<Rightarrow> u64 \<Rightarrow> u64" where
  "next_pos j p = (if p + 1 = j_last j then j_first j else p + 1)"

lemma next_pos_nat:
  assumes "ring_ok j" "in_ring j p"
  shows "unat (next_pos j p) = (if unat p + 1 = unat (j_last j) then unat (j_first j) else unat p + 1)"
proof -
  have "unat p + 1 < 2 ^ 64"
    using assms ring_bounds [OF assms(1)] by (simp add: in_ring_nat)
  then have "unat (p + 1) = unat p + 1"
    by (simp add: unat_word_ariths)
  then show ?thesis by (simp add: next_pos_def word_unat_eq_iff)
qed

lemma next_pos_in_ring: "ring_ok j \<Longrightarrow> in_ring j p \<Longrightarrow> in_ring j (next_pos j p)"
  using next_pos_nat [of j p] ring_bounds [of j] by (auto simp: in_ring_nat)

lemma ring_dist_less: "in_ring j a \<Longrightarrow> in_ring j b \<Longrightarrow> ring_dist j a b < ring_size j"
  by (auto simp: ring_dist_def in_ring_nat ring_size_def)

lemma ring_dist_inj: "in_ring j a \<Longrightarrow> in_ring j b \<Longrightarrow> in_ring j c \<Longrightarrow> ring_dist j a b = ring_dist j a c \<Longrightarrow> b = c"
  unfolding word_unat_eq_iff
  by (auto simp: ring_dist_def in_ring_nat ring_size_def split: if_splits)

lemma ring_dist_next:
  assumes "ring_ok j" "in_ring j a" "in_ring j p" "ring_dist j a p + 1 < ring_size j"
  shows "ring_dist j a (next_pos j p) = ring_dist j a p + 1"
  using assms next_pos_nat [OF assms(1,3)] ring_bounds [OF assms(1)]
  by (auto simp: ring_dist_def in_ring_nat ring_size_def split: if_splits)

lemma ring_dist_add:
  assumes "in_ring j a" "in_ring j b" "in_ring j c" "ring_dist j a b \<le> ring_dist j a c"
  shows "ring_dist j a c = ring_dist j a b + ring_dist j b c"
  using assms by (auto simp: ring_dist_def in_ring_nat ring_size_def split: if_splits)

lemma ring_dist_back:
  assumes "in_ring j a" "in_ring j b" "in_ring j c" "ring_dist j a c < ring_dist j a b"
  shows "ring_dist j b c = ring_size j + ring_dist j a c - ring_dist j a b"
  using assms by (auto simp: ring_dist_def in_ring_nat ring_size_def split: if_splits)

lemma advance_head_ok:
  assumes ok: "log_space_ok j" and free: "j_free j > 1"
  shows "log_space_ok (advance_head j)"
    and "j_head j \<notin> live j"
    and "live (advance_head j) = insert (j_head j) (live j)"
    and "unat (j_free (advance_head j)) = unat (j_free j) - 1"
proof -
  let ?j = "advance_head j"
  have f: "1 < unat (j_free j)" using free by (simp add: word_less_nat_alt)
  have uf: "unat (j_free ?j) = unat (j_free j) - 1"
    using f by (simp add: advance_head_def Let_def unat_sub word_le_nat_alt)
  have sel: "j_head ?j = next_pos j (j_head j)" "j_tail ?j = j_tail j"
    "in_ring ?j = in_ring j" "ring_ok ?j = ring_ok j" "ring_size ?j = ring_size j" "ring_dist ?j = ring_dist j"
    by (auto simp: advance_head_def Let_def next_pos_def in_ring_def ring_ok_def ring_size_def ring_dist_def fun_eq_iff)
  have less: "ring_dist j (j_tail j) (j_head j) + 1 < ring_size j"
    using ok f by (simp add: log_space_ok_def)
  have d: "ring_dist j (j_tail j) (next_pos j (j_head j)) = ring_dist j (j_tail j) (j_head j) + 1"
    using ok less by (intro ring_dist_next) (auto simp: log_space_ok_def)
  show "log_space_ok ?j"
    using ok f d uf by (simp add: log_space_ok_def sel next_pos_in_ring)
  show "j_head j \<notin> live j" by (simp add: live_def)
  show "live ?j = insert (j_head j) (live j)"
    using ok d ring_dist_inj [of j "j_tail j" _ "j_head j"]
    by (auto simp: live_def sel log_space_ok_def less_Suc_eq)
  show "unat (j_free ?j) = unat (j_free j) - 1" by (rule uf)
qed

section \<open>Allocating log blocks\<close>

text \<open>Taking n blocks one after the other from a source of blocks.\<close>

fun take_blocks :: "('s \<Rightarrow> ('s \<times> 'b) option) \<Rightarrow> nat \<Rightarrow> 's \<Rightarrow> ('s \<times> 'b list) option" where
  "take_blocks nxt 0 s = Some (s, [])"
| "take_blocks nxt (Suc n) s =
     do { (s, b) \<leftarrow> nxt s; (s, bs) \<leftarrow> take_blocks nxt n s; Some (s, b # bs) }"

locale block_source =
  fixes valid :: "'s \<Rightarrow> bool" and used :: "'s \<Rightarrow> 'b set" and avail :: "'s \<Rightarrow> nat"
    and nxt :: "'s \<Rightarrow> ('s \<times> 'b) option"
  assumes nxt_ok: "valid s \<Longrightarrow> 1 < avail s \<Longrightarrow>
      \<exists>s' b. nxt s = Some (s', b) \<and> valid s' \<and> b \<notin> used s \<and> used s' = insert b (used s) \<and>
        avail s' = avail s - 1"
    and nxt_full: "valid s \<Longrightarrow> avail s \<le> 1 \<Longrightarrow> nxt s = None"
begin

lemma take_blocks_ok:
  assumes "valid s" "n < avail s"
  shows "\<exists>s' bs. take_blocks nxt n s = Some (s', bs) \<and> valid s' \<and> length bs = n \<and> distinct bs \<and>
    set bs \<inter> used s = {} \<and> used s' = used s \<union> set bs \<and> avail s' = avail s - n"
  using assms
proof (induction n arbitrary: s)
  case 0
  then show ?case by simp
next
  case (Suc n)
  obtain s1 b where 1: "nxt s = Some (s1, b)" "valid s1" "b \<notin> used s" "used s1 = insert b (used s)"
    "avail s1 = avail s - 1"
    using nxt_ok [OF Suc.prems(1)] Suc.prems(2) by auto
  obtain s2 bs where 2: "take_blocks nxt n s1 = Some (s2, bs)" "valid s2" "length bs = n" "distinct bs"
    "set bs \<inter> used s1 = {}" "used s2 = used s1 \<union> set bs" "avail s2 = avail s1 - n"
    using Suc.IH [OF 1(2)] 1(5) Suc.prems(2) by (metis less_diff_conv add.commute plus_1_eq_Suc)
  show ?case using 1 2 Suc.prems(2) by auto
qed

lemma take_blocks_full:
  assumes "valid s" "avail s \<le> n" "0 < avail s"
  shows "take_blocks nxt n s = None"
  using assms
proof (induction n arbitrary: s)
  case 0
  then show ?case by simp
next
  case (Suc n)
  show ?case
  proof (cases "avail s \<le> 1")
    case True
    then show ?thesis using nxt_full [OF Suc.prems(1)] by simp
  next
    case False
    then obtain s1 b where 1: "nxt s = Some (s1, b)" "valid s1" "avail s1 = avail s - 1"
      using nxt_ok [OF Suc.prems(1)] by auto
    then show ?thesis using Suc.IH [OF 1(2)] Suc.prems False by simp
  qed
qed

end

text \<open>
  The journal as a source of blocks.  A journal in an inode relies on the block map of the
  inode: the blocks of the ring are mapped, to different blocks of the device.
\<close>

definition bmap_ok :: "kernel_env \<Rightarrow> journal \<Rightarrow> bool" where
  "bmap_ok k j = (j_inode j \<longrightarrow>
     inj_on (k_bmap k) {p. in_ring j p} \<and> (\<forall>p. in_ring j p \<longrightarrow> k_bmap k p \<noteq> 0))"

definition log_valid :: "kernel_env \<Rightarrow> world \<Rightarrow> bool" where
  "log_valid k w = (log_space_ok (jnl w) \<and> bmap_ok k (jnl w))"

definition live_blocks :: "kernel_env \<Rightarrow> world \<Rightarrow> u64 set" where
  "live_blocks k w = log_addr k (jnl w) ` live (jnl w)"

definition log_free :: "world \<Rightarrow> nat" where
  "log_free w = unat (j_free (jnl w))"

definition log_next :: "kernel_env \<Rightarrow> world \<Rightarrow> (world \<times> u64) option" where
  "log_next k w =
     (case jbdbf_journal_next_log_block k w of
        Some (w', Inr blocknr) \<Rightarrow> Some (w', blocknr)
      | _ \<Rightarrow> None)"

lemma log_addr_inj:
  "bmap_ok k j \<Longrightarrow> in_ring j p \<Longrightarrow> in_ring j q \<Longrightarrow> log_addr k j p = log_addr k j q \<longleftrightarrow> p = q"
  by (auto simp: bmap_ok_def log_addr_def inj_on_def)

lemma bmap_mapped:
  "bmap_ok k (jnl w) \<Longrightarrow> in_ring (jnl w) p \<Longrightarrow> jbdbf_journal_bmap k w p = (w, Inr (log_addr k (jnl w) p))"
  by (auto simp: bmap_ok_def jbdbf_journal_bmap_def log_addr_def Let_def)

lemma next_log_block_ok:
  assumes v: "log_valid k w" and free: "1 < log_free w"
  shows "jbdbf_journal_next_log_block k w =
    Some (upd_jnl advance_head w, Inr (log_addr k (jnl w) (j_head (jnl w))))"
proof -
  have "in_ring (advance_head j) = in_ring j" "j_inode (advance_head j) = j_inode j"
    "log_addr k (advance_head j) = log_addr k j" for j
    by (auto simp: advance_head_def Let_def in_ring_def log_addr_def fun_eq_iff)
  then show ?thesis
    using v free bmap_mapped [of k "upd_jnl advance_head w" "j_head (jnl w)"]
    by (simp add: jbdbf_journal_next_log_block_def j_assert_def log_valid_def log_space_ok_def
        log_free_def word_less_nat_alt bmap_ok_def)
qed

interpretation journal_log: block_source "log_valid k" "live_blocks k" log_free "log_next k" for k
proof unfold_locales
  fix w
  assume v: "log_valid k w" and free: "1 < log_free w"
  let ?j = "jnl w" and ?w = "upd_jnl advance_head w"
  have f: "j_free ?j > 1" using free by (simp add: log_free_def word_less_nat_alt)
  note adv = advance_head_ok [OF _ f]
  have eqs: "in_ring (advance_head ?j) = in_ring ?j" "j_inode (advance_head ?j) = j_inode ?j"
    "log_addr k (advance_head ?j) = log_addr k ?j"
    by (auto simp: advance_head_def Let_def in_ring_def log_addr_def fun_eq_iff)
  have ok: "log_space_ok ?j" "bmap_ok k ?j" using v by (auto simp: log_valid_def)
  have valid: "log_valid k ?w" using adv(1) ok by (simp add: log_valid_def bmap_ok_def eqs)
  have head: "in_ring ?j (j_head ?j)" using ok by (simp add: log_space_ok_def)
  have fresh: "log_addr k ?j (j_head ?j) \<notin> live_blocks k w"
    using adv(2) [OF ok(1)] log_addr_inj [OF ok(2) head] by (auto simp: live_blocks_def live_def)
  have used: "live_blocks k ?w = insert (log_addr k ?j (j_head ?j)) (live_blocks k w)"
    using adv(3) [OF ok(1)] by (simp add: live_blocks_def eqs)
  show "\<exists>w' b. log_next k w = Some (w', b) \<and> log_valid k w' \<and> b \<notin> live_blocks k w \<and>
      live_blocks k w' = insert b (live_blocks k w) \<and> log_free w' = log_free w - 1"
    using next_log_block_ok [OF v free] valid fresh used adv(4) [OF ok(1)]
    by (simp add: log_next_def log_free_def)
next
  fix w
  assume "log_valid k w" "log_free w \<le> 1"
  then show "log_next k w = None"
    by (simp add: log_next_def jbdbf_journal_next_log_block_def j_assert_def log_free_def
        word_less_nat_alt)
qed

text \<open>
  C7.  As long as fewer blocks are requested than are free, jbdbf_journal_next_log_block
  hands out different blocks of the device, none of which holds a part of the live log, and
  afterwards exactly the old live blocks and the new ones are live.
\<close>

theorem next_log_blocks_fresh:
  assumes "log_valid k w" and "n < log_free w"
  shows "\<exists>w' bs. take_blocks (log_next k) n w = Some (w', bs) \<and> log_valid k w' \<and>
    length bs = n \<and> distinct bs \<and> set bs \<inter> live_blocks k w = {} \<and>
    live_blocks k w' = live_blocks k w \<union> set bs \<and> log_free w' = log_free w - n"
  using assms by (rule journal_log.take_blocks_ok)

definition ex_log_env :: kernel_env where
  "ex_log_env = quiet_kernel\<lparr>k_bmap := (\<lambda>b. b + 100)\<rparr>"

definition ex_log_journal :: journal where
  "ex_log_journal = zero_journal\<lparr>j_inode := True, j_first := 1, j_last := 9, j_maxlen := 9,
     j_head := 8, j_tail := 6, j_free := 6\<rparr>"

definition ex_log_world :: world where
  "ex_log_world = zero_world\<lparr>jnl := ex_log_journal\<rparr>"

lemmas ex_log_defs = quiet_kernel_def ex_log_env_def ex_log_journal_def ex_log_world_def zero_journal_def zero_world_def

lemma ex_log_valid: "log_valid ex_log_env ex_log_world"
proof -
  have "log_space_ok ex_log_journal"
    by (simp add: log_space_ok_def ring_ok_def in_ring_def ring_dist_def ring_size_def ex_log_defs)
  moreover have "k_bmap ex_log_env p \<noteq> 0" if "in_ring ex_log_journal p" for p
  proof -
    have "unat p < 9" using that by (simp add: in_ring_nat ex_log_defs)
    then have "unat (p + 100) = unat p + 100" by (simp add: unat_word_ariths)
    then show ?thesis by (auto simp: ex_log_env_def quiet_kernel_def word_unat_eq_iff)
  qed
  moreover have "inj_on (k_bmap ex_log_env) S" for S by (simp add: inj_on_def ex_log_env_def quiet_kernel_def)
  ultimately show ?thesis
    by (simp add: log_valid_def bmap_ok_def ex_log_world_def)
qed

theorem next_log_blocks_fresh_witness:
  "\<exists>w' bs. take_blocks (log_next ex_log_env) 4 ex_log_world = Some (w', bs) \<and>
    length bs = 4 \<and> distinct bs \<and> set bs \<inter> live_blocks ex_log_env ex_log_world = {} \<and> log_free w' = 2"
proof -
  have free: "log_free ex_log_world = 6" by (simp add: log_free_def ex_log_defs)
  show ?thesis
    using next_log_blocks_fresh [OF ex_log_valid, of 4] by (auto simp: free)
qed

section \<open>Releasing log space\<close>

text \<open>The fields of the journal the accounting depends on.\<close>

lemma log_space_ok_sel:
  assumes "j_first j' = j_first j" "j_last j' = j_last j" "j_maxlen j' = j_maxlen j"
    "j_head j' = j_head j" "j_tail j' = j_tail j" "j_free j' = j_free j"
  shows "log_space_ok j' = log_space_ok j" "live j' = live j"
  using assms by (simp_all add: log_space_ok_def live_def ring_ok_def in_ring_def ring_dist_def ring_size_def)

lemma update_superblock_sel:
  "j_first (jnl (jbdbf_journal_update_superblock w b)) = j_first (jnl w)"
  "j_last (jnl (jbdbf_journal_update_superblock w b)) = j_last (jnl w)"
  "j_maxlen (jnl (jbdbf_journal_update_superblock w b)) = j_maxlen (jnl w)"
  "j_head (jnl (jbdbf_journal_update_superblock w b)) = j_head (jnl w)"
  "j_tail (jnl (jbdbf_journal_update_superblock w b)) = j_tail (jnl w)"
  "j_free (jnl (jbdbf_journal_update_superblock w b)) = j_free (jnl w)"
  "j_tail_sequence (jnl (jbdbf_journal_update_superblock w b)) = j_tail_sequence (jnl w)"
  "trs (jbdbf_journal_update_superblock w b) = trs w"
  by (simp_all add: jbdbf_journal_update_superblock_def Let_def)

lemma update_superblock_iolog:
  assumes "s_start (j_superblock (jnl w)) \<noteq> 0"
  shows "iolog (jbdbf_journal_update_superblock w b) =
    iolog w @ [WriteSuper ((j_superblock (jnl w))\<lparr>s_sequence := j_tail_sequence (jnl w),
      s_start := ucast (j_tail (jnl w)), s_errno := word_of_int (j_errno (jnl w))\<rparr>) b]"
  using assms by (simp add: jbdbf_journal_update_superblock_def Let_def)

text \<open>Moving the tail forward to a block of the live part, or to the head.\<close>

definition tail_freed :: "journal \<Rightarrow> u64 \<Rightarrow> u64" where
  "tail_freed j blocknr =
     (if blocknr < j_tail j then blocknr - j_tail j + j_last j - j_first j else blocknr - j_tail j)"

lemma tail_freed_nat:
  assumes "ring_ok j" "in_ring j (j_tail j)" "in_ring j b"
  shows "unat (tail_freed j b) = ring_dist j (j_tail j) b"
proof (cases "b < j_tail j")
  case True
  have "tail_freed j b = (j_last j - j_first j) - (j_tail j - b)"
    using True by (simp add: tail_freed_def)
  also have "unat \<dots> = unat (j_last j - j_first j) - unat (j_tail j - b)"
    using assms True by (subst unat_sub)
      (auto simp: word_le_nat_alt unat_sub word_less_nat_alt in_ring_nat ring_ok_def)
  also have "\<dots> = ring_dist j (j_tail j) b"
    using True assms by (auto simp: ring_dist_def unat_sub word_le_nat_alt word_less_nat_alt
        ring_ok_def in_ring_nat ring_size_def)
  finally show ?thesis .
next
  case False
  then show ?thesis
    by (simp add: tail_freed_def ring_dist_def unat_sub word_le_nat_alt word_less_nat_alt)
qed

lemma move_tail_ok:
  fixes tid :: u32
  assumes ok: "log_space_ok j" and b: "in_ring j b"
    and le: "ring_dist j (j_tail j) b \<le> ring_dist j (j_tail j) (j_head j)"
  defines "j' \<equiv> j\<lparr>j_free := j_free j + tail_freed j b, j_tail_sequence := tid, j_tail := b\<rparr>"
  shows "log_space_ok j'"
    and "live j' = {p \<in> live j. ring_dist j (j_tail j) b \<le> ring_dist j (j_tail j) p}"
    and "unat (j_free j') = unat (j_free j) + ring_dist j (j_tail j) b"
proof -
  have sel: "ring_ok j' = ring_ok j" "in_ring j' = in_ring j" "ring_size j' = ring_size j"
    "ring_dist j' = ring_dist j" "j_tail j' = b" "j_head j' = j_head j"
    by (auto simp: j'_def ring_ok_def in_ring_def ring_size_def ring_dist_def fun_eq_iff)
  have r: "ring_ok j" "in_ring j (j_tail j)" "in_ring j (j_head j)" using ok by (auto simp: log_space_ok_def)
  note f = tail_freed_nat [OF r(1,2) b]
  have sum: "unat (j_free j) + ring_dist j (j_tail j) b \<le> ring_size j"
    using ok le by (simp add: log_space_ok_def)
  also have "\<dots> < 2 ^ 64" using ring_bounds [OF r(1)] by (simp add: ring_size_def)
  finally show uf: "unat (j_free j') = unat (j_free j) + ring_dist j (j_tail j) b"
    using f by (simp add: j'_def unat_word_ariths)
  note add = ring_dist_add [OF r(2) b]
  show "log_space_ok j'"
    using ok uf add [OF r(3) le] b by (simp add: log_space_ok_def sel)
  have "ring_dist j b p < ring_dist j b (j_head j) \<longleftrightarrow>
      ring_dist j (j_tail j) p < ring_dist j (j_tail j) (j_head j) \<and> ring_dist j (j_tail j) b \<le> ring_dist j (j_tail j) p"
    if "in_ring j p" for p
    using add [OF r(3) le] add [OF that] ring_dist_back [OF r(2) b that]
      ring_dist_less [OF r(2,3)] by linarith
  then show "live j' = {p \<in> live j. ring_dist j (j_tail j) b \<le> ring_dist j (j_tail j) p}"
    by (auto simp: live_def sel)
qed

text \<open>The events of a tail update: the file system device is flushed first if the log is external.\<close>

definition tail_events :: "journal \<Rightarrow> u32 \<Rightarrow> u64 \<Rightarrow> io_event list" where
  "tail_events j tid b =
     (if j_fs_dev j \<noteq> j_dev j \<and> j_flags j AND JBD2_BARRIER \<noteq> 0 then [IssueFlush (j_fs_dev j)] else []) @
     [WriteSuper ((j_superblock j)\<lparr>s_sequence := tid, s_start := ucast b,
        s_errno := word_of_int (j_errno j)\<rparr>) True]"

lemma cleanup_journal_tail_eq:
  assumes "\<not> is_journal_aborted (jnl w)" "oldest_transaction w = (tid, b)" "b \<noteq> 0"
    "j_tail_sequence (jnl w) \<noteq> tid"
  defines "w1 \<equiv> upd_jnl (\<lambda>j. j\<lparr>j_free := j_free j + tail_freed j b, j_tail_sequence := tid, j_tail := b\<rparr>) w"
  shows "jbdbf_cleanup_journal_tail w = Some (jbdbf_journal_update_superblock
    (if j_fs_dev (jnl w) \<noteq> j_dev (jnl w) \<and> j_flags (jnl w) AND JBD2_BARRIER \<noteq> 0
     then log_io (IssueFlush (j_fs_dev (jnl w))) w1 else w1) True, 0)"
proof -
  have free: "w1 = upd_jnl (\<lambda>j. j\<lparr>j_free := j_free j + tail_freed (jnl w) b, j_tail_sequence := tid,
      j_tail := b\<rparr>) w"
    by (simp add: w1_def upd_jnl_def)
  show ?thesis
    using assms(1-4) unfolding free jbdbf_cleanup_journal_tail_def
    by (simp add: j_assert_def is_journal_aborted_def Let_def tail_freed_def blkdev_issue_flush_def)
qed

text \<open>
  C8.  When the oldest transaction left in the log has changed, jbdbf_cleanup_journal_tail
  moves the tail to its first block: exactly the blocks before it stop being live and become
  free, the accounting stays exact, and the new tail is recorded in the superblock on disk,
  after a flush of the file system device if the log is on another device.
\<close>

theorem cleanup_journal_tail_frees:
  assumes "log_space_ok (jnl w)" and "\<not> is_journal_aborted (jnl w)"
    and old: "oldest_transaction w = (tid, b)" and b: "in_ring (jnl w) b" "b \<noteq> 0"
    and le: "ring_dist (jnl w) (j_tail (jnl w)) b \<le> ring_dist (jnl w) (j_tail (jnl w)) (j_head (jnl w))"
    and seq: "j_tail_sequence (jnl w) \<noteq> tid" and start: "s_start (j_superblock (jnl w)) \<noteq> 0"
  shows "\<exists>w'. jbdbf_cleanup_journal_tail w = Some (w', 0) \<and> log_space_ok (jnl w') \<and>
    live (jnl w') = {p \<in> live (jnl w). ring_dist (jnl w) (j_tail (jnl w)) b \<le> ring_dist (jnl w) (j_tail (jnl w)) p} \<and>
    unat (j_free (jnl w')) = unat (j_free (jnl w)) + ring_dist (jnl w) (j_tail (jnl w)) b \<and>
    j_tail (jnl w') = b \<and> j_tail_sequence (jnl w') = tid \<and>
    iolog w' = iolog w @ tail_events (jnl w) tid b"
proof -
  let ?j = "(jnl w)\<lparr>j_free := j_free (jnl w) + tail_freed (jnl w) b, j_tail_sequence := tid, j_tail := b\<rparr>"
  note mv = move_tail_ok [OF assms(1) b(1) le, of tid]
  obtain w' where w': "jbdbf_cleanup_journal_tail w = Some (w', 0)"
    and sel: "j_first (jnl w') = j_first ?j" "j_last (jnl w') = j_last ?j" "j_maxlen (jnl w') = j_maxlen ?j"
      "j_head (jnl w') = j_head ?j" "j_tail (jnl w') = j_tail ?j" "j_free (jnl w') = j_free ?j"
      "j_tail_sequence (jnl w') = tid"
    and io: "iolog w' = iolog w @ tail_events (jnl w) tid b"
    using cleanup_journal_tail_eq [OF assms(2) old b(2) seq] start
    by (auto simp: update_superblock_sel update_superblock_iolog tail_events_def)
  show ?thesis
    using w' io mv log_space_ok_sel [OF sel(1-6)] sel by simp
qed

definition ex_tail_world :: world where
  "ex_tail_world = zero_world\<lparr>
     jnl := ex_log_journal\<lparr>j_checkpoint_transactions := [3], j_tail_sequence := 6,
       j_superblock := zero_superblock\<lparr>s_start := 6, s_sequence := 6\<rparr>\<rparr>,
     trs := (\<lambda>_. zero_transaction)(3 := zero_transaction\<lparr>t_tid := 7, t_log_start := 7\<rparr>)\<rparr>"

lemmas ex_tail_defs = ex_tail_world_def ex_log_defs zero_transaction_def zero_superblock_def

theorem cleanup_journal_tail_frees_witness:
  "\<exists>w'. jbdbf_cleanup_journal_tail ex_tail_world = Some (w', 0) \<and> log_space_ok (jnl w') \<and>
    live (jnl w') = {p \<in> live (jnl ex_tail_world). 1 \<le> ring_dist (jnl ex_tail_world) 6 p} \<and>
    unat (j_free (jnl w')) = 7 \<and> j_tail (jnl w') = 7 \<and> j_tail_sequence (jnl w') = 7 \<and>
    iolog w' = [WriteSuper (zero_superblock\<lparr>s_start := 7, s_sequence := 7\<rparr>) True]"
proof -
  have ok: "log_space_ok (jnl ex_tail_world)"
    by (simp add: log_space_ok_def ring_ok_def in_ring_def ring_dist_def ring_size_def ex_tail_defs)
  have ab: "\<not> is_journal_aborted (jnl ex_tail_world)"
    by (simp add: is_journal_aborted_def jflag_defs ex_tail_defs)
  have old: "oldest_transaction ex_tail_world = (7, 7)"
    by (simp add: oldest_transaction_def ex_tail_defs)
  have b: "in_ring (jnl ex_tail_world) 7" "(7::u64) \<noteq> 0" by (simp_all add: in_ring_def ex_tail_defs)
  have d: "ring_dist (jnl ex_tail_world) (j_tail (jnl ex_tail_world)) 7 = 1"
    "ring_dist (jnl ex_tail_world) (j_tail (jnl ex_tail_world)) (j_head (jnl ex_tail_world)) = 2"
    by (simp_all add: ring_dist_def ex_tail_defs)
  have seq: "j_tail_sequence (jnl ex_tail_world) \<noteq> 7" "s_start (j_superblock (jnl ex_tail_world)) \<noteq> 0"
    by (simp_all add: ex_tail_defs)
  have sel: "j_tail (jnl ex_tail_world) = 6" "j_free (jnl ex_tail_world) = 6" "iolog ex_tail_world = []"
    "tail_events (jnl ex_tail_world) 7 7 = [WriteSuper (zero_superblock\<lparr>s_start := 7, s_sequence := 7\<rparr>) True]"
    by (simp_all add: tail_events_def ex_tail_defs)
  show ?thesis
    using cleanup_journal_tail_frees [OF ok ab old b _ seq] d by (simp add: sel)
qed

end
