(* ===== verification/Buffer_Lists.thy ===== *)
theory Buffer_Lists
  imports Buffers
begin

text \<open>
  The invariant of the buffer lists: a journal head is on the list of a transaction
  exactly if its fields say so, no list holds it twice, the metadata count of a transaction
  is the length of its metadata list, and the reference count of a journal head covers its
  transactions.  Filing, unlinking and refiling keep it and never hit an assertion.
\<close>

section \<open>Lists of a transaction\<close>

lemma t_list_upd [simp]:
  "t_list l (upd_t_list l' f tr) = (if l = l' \<and> l \<noteq> BJ_None then f (t_list l tr) else t_list l tr)"
  by (cases l; cases l'; simp)

lemma t_list_nr [simp]: "t_list l (tr\<lparr>t_nr_buffers := n\<rparr>) = t_list l tr"
  by (cases l; simp)

lemma upd_t_list_sel [simp]:
  "t_nr_buffers (upd_t_list l f tr) = t_nr_buffers tr" "t_state (upd_t_list l f tr) = t_state tr"
  "t_tid (upd_t_list l f tr) = t_tid tr" "t_updates (upd_t_list l f tr) = t_updates tr"
  "t_outstanding_credits (upd_t_list l f tr) = t_outstanding_credits tr"
  "t_checkpoint_list (upd_t_list l f tr) = t_checkpoint_list tr"
  "t_checkpoint_io_list (upd_t_list l f tr) = t_checkpoint_io_list tr"
  by (cases l; simp)+

lemma t_buffers_list: "t_buffers tr = t_list BJ_Metadata tr"
  by simp

declare t_list.simps [simp del] upd_t_list.simps [simp del]

lemma t_list_None [simp]: "t_list BJ_None tr = []"
  by (simp add: t_list.simps)

definition lists_wf :: "world \<Rightarrow> bool" where
  "lists_wf w =
     ((\<forall>t l. distinct (t_list l (trs w t))) \<and>
      (\<forall>t l jh. jh \<in> set (t_list l (trs w t)) \<longleftrightarrow>
         l \<noteq> BJ_None \<and> b_transaction (jhs w jh) = Some t \<and> b_jlist (jhs w jh) = l) \<and>
      (\<forall>t. t_nr_buffers (trs w t) = int (length (t_list BJ_Metadata (trs w t)))) \<and>
      (\<forall>jh. b_transaction (jhs w jh) = None \<longrightarrow> b_jlist (jhs w jh) = BJ_None))"

lemma lists_wf_mem:
  "lists_wf w \<Longrightarrow> jh \<in> set (t_list l (trs w t)) \<longleftrightarrow>
     l \<noteq> BJ_None \<and> b_transaction (jhs w jh) = Some t \<and> b_jlist (jhs w jh) = l"
  unfolding lists_wf_def by blast

lemma lists_wf_distinct: "lists_wf w \<Longrightarrow> distinct (t_list l (trs w t))"
  unfolding lists_wf_def by blast

lemma lists_wf_nr: "lists_wf w \<Longrightarrow> t_nr_buffers (trs w t) = int (length (t_list BJ_Metadata (trs w t)))"
  unfolding lists_wf_def by blast

lemma lists_wf_None: "lists_wf w \<Longrightarrow> b_transaction (jhs w jh) = None \<Longrightarrow> b_jlist (jhs w jh) = BJ_None"
  unfolding lists_wf_def by blast

text \<open>
  The invariant depends only on the lists and counts of the transactions and on the two
  fields of the journal heads.
\<close>

lemma lists_wf_cong:
  assumes "lists_wf w"
    and "\<And>t l. t_list l (trs w' t) = t_list l (trs w t)" "\<And>t. t_nr_buffers (trs w' t) = t_nr_buffers (trs w t)"
    and "\<And>jh. b_transaction (jhs w' jh) = b_transaction (jhs w jh)" "\<And>jh. b_jlist (jhs w' jh) = b_jlist (jhs w jh)"
  shows "lists_wf w'"
  using assms unfolding lists_wf_def by simp

section \<open>Unlinking\<close>

lemma int_length_remove1: "int (length (remove1 x xs)) = int (length xs) - (if x \<in> set xs then 1 else 0)"
  by (induction xs) auto

definition unlinked :: "world \<Rightarrow> jptr \<Rightarrow> world \<Rightarrow> bool" where
  "unlinked w jh w' =
     (jhs w' = (jhs w)(jh := (jhs w jh)\<lparr>b_jlist := BJ_None\<rparr>) \<and> jnl w' = jnl w \<and>
      (\<forall>t l. t_list l (trs w' t) = remove1 jh (t_list l (trs w t))) \<and>
      (\<forall>t. t_nr_buffers (trs w' t) = int (length (t_list BJ_Metadata (trs w' t))) \<and>
           t_state (trs w' t) = t_state (trs w t)) \<and>
      (\<forall>b. b \<noteq> b_bh (jhs w jh) \<longrightarrow> bhs w' b = bhs w b) \<and>
      bhs w' (b_bh (jhs w jh)) =
        (let b = bhs w (b_bh (jhs w jh))
         in if b_jlist (jhs w jh) \<noteq> BJ_None \<and> bh_jbddirty b
            then b\<lparr>bh_jbddirty := False, bh_dirty := True\<rparr> else b))"

lemma temp_unlink_ok:
  assumes wf: "lists_wf w"
  shows "\<exists>w'. u_jbdbf_journal_temp_unlink_buffer w jh = Some w' \<and> unlinked w jh w'"
proof (cases "b_jlist (jhs w jh) = BJ_None")
  case True
  then have "jh \<notin> set (t_list l (trs w t))" for t l
    using lists_wf_mem [OF wf] by auto
  then have "unlinked w jh w"
    using True lists_wf_nr [OF wf] by (simp add: unlinked_def remove1_idem Let_def fun_upd_idem)
  then show ?thesis using True by (simp add: u_jbdbf_journal_temp_unlink_buffer_def)
next
  case False
  define l where "l = b_jlist (jhs w jh)"
  obtain t where t: "b_transaction (jhs w jh) = Some t"
    using False lists_wf_None [OF wf] by (cases "b_transaction (jhs w jh)") auto
  have mem: "jh \<in> set (t_list l (trs w t))"
    using lists_wf_mem [OF wf] False t l_def by simp
  have other: "remove1 jh (t_list l' (trs w t')) = t_list l' (trs w t')" if "l' \<noteq> l \<or> t' \<noteq> t" for l' t'
    using that t lists_wf_mem [OF wf] by (auto simp: l_def remove1_idem)
  have nr: "l = BJ_Metadata \<Longrightarrow> 0 < t_nr_buffers (trs w t)"
    using lists_wf_nr [OF wf, of t] mem by (cases "t_list l (trs w t)") auto
  define w1 where "w1 = (if l = BJ_Metadata
    then upd_tr t (\<lambda>tr. tr\<lparr>t_nr_buffers := t_nr_buffers tr - 1\<rparr>) w else w)"
  define w2 where "w2 = upd_jh jh (\<lambda>h. h\<lparr>b_jlist := BJ_None\<rparr>)
    (upd_tr t (upd_t_list l (\<lambda>xs. u_blist_del_buffer xs jh)) w1)"
  define w3 where "w3 = (if bh_jbddirty (bhs w2 (b_bh (jhs w jh)))
    then mark_buffer_dirty (b_bh (jhs w jh)) (clear_jbddirty (b_bh (jhs w jh)) w2) else w2)"
  have w1: "t_list l' (trs w1 t') = t_list l' (trs w t')" "jhs w1 = jhs w" "bhs w1 = bhs w" "jnl w1 = jnl w"
      "t_state (trs w1 t') = t_state (trs w t')"
      "t_nr_buffers (trs w1 t') = (if t' = t \<and> l = BJ_Metadata then t_nr_buffers (trs w t) - 1
        else t_nr_buffers (trs w t'))" for l' t'
    by (auto simp: w1_def)
  have "bhs w2 = bhs w" by (simp add: w2_def w1)
  then have "u_jbdbf_journal_temp_unlink_buffer w jh = Some w3"
    using False t mem nr w1
    by (auto simp: u_jbdbf_journal_temp_unlink_buffer_def l_def [symmetric] w1_def [symmetric]
        w2_def [symmetric] w3_def Let_def)
  moreover have "unlinked w jh w3"
  proof -
    have tl: "t_list l' (trs w3 t') = remove1 jh (t_list l' (trs w t'))" for l' t'
      using False other [of l' t'] by (auto simp: w3_def w2_def w1 dirty_bit_defs u_blist_del_buffer_def l_def)
    have "t_nr_buffers (trs w3 t') = int (length (t_list BJ_Metadata (trs w3 t')))" for t'
    proof -
      have "t_nr_buffers (trs w3 t') = t_nr_buffers (trs w1 t')"
        by (simp add: w3_def w2_def dirty_bit_defs)
      then show ?thesis
        unfolding tl using mem lists_wf_nr [OF wf, of t'] other [of BJ_Metadata t'] lists_wf_mem [OF wf, of jh BJ_Metadata t']
        by (auto simp: w1 int_length_remove1 l_def t)
    qed
    with tl show ?thesis
      using False by (simp add: unlinked_def) (simp add: w3_def w2_def w1 dirty_bit_defs Let_def l_def)
  qed
  ultimately show ?thesis by blast
qed

lemma unlinked_wf:
  assumes wf: "lists_wf w" and u: "unlinked w jh w'"
  shows "lists_wf w'"
  unfolding lists_wf_def
proof (intro conjI allI)
  fix t l jh'
  show "distinct (t_list l (trs w' t))"
    using u lists_wf_distinct [OF wf] by (simp add: unlinked_def)
  show "jh' \<in> set (t_list l (trs w' t)) \<longleftrightarrow>
      l \<noteq> BJ_None \<and> b_transaction (jhs w' jh') = Some t \<and> b_jlist (jhs w' jh') = l"
    using u lists_wf_distinct [OF wf] lists_wf_mem [OF wf] by (auto simp: unlinked_def)
  show "t_nr_buffers (trs w' t) = int (length (t_list BJ_Metadata (trs w' t)))"
    using u by (simp add: unlinked_def)
  show "b_transaction (jhs w' jh') = None \<longrightarrow> b_jlist (jhs w' jh') = BJ_None"
    using u lists_wf_None [OF wf] by (simp add: unlinked_def)
qed

text \<open>A change of a journal head that keeps it off all lists keeps the invariant.\<close>

lemma lists_wf_off_list:
  assumes "lists_wf w" "b_jlist (jhs w jh) = BJ_None" "b_jlist h = BJ_None"
  shows "lists_wf (w\<lparr>jhs := (jhs w)(jh := h)\<rparr>)"
  using assms lists_wf_mem [OF assms(1), of jh] unfolding lists_wf_def by auto

section \<open>Journal heads and references\<close>

text \<open>
  An attached journal head and its buffer point to each other, and its count covers the
  transaction and the checkpoint transaction it belongs to.
\<close>

definition attached :: "world \<Rightarrow> jptr \<Rightarrow> bool" where
  "attached w jh = (bh_jbd (bhs w (b_bh (jhs w jh))) \<and> b_private (bhs w (b_bh (jhs w jh))) = Some jh)"

definition jh_refs :: "journal_bf_head \<Rightarrow> int" where
  "jh_refs h = (if b_transaction h = None then 0 else 1) + (if b_cp_transaction h = None then 0 else 1)"

lemma jh_refs_nonneg [simp]: "0 \<le> jh_refs h"
  by (simp add: jh_refs_def)

definition refs_wf :: "world \<Rightarrow> bool" where
  "refs_wf w =
     (\<forall>jh. attached w jh \<longrightarrow> jh_refs (jhs w jh) \<le> b_jcount (jhs w jh) \<and>
        (b_transaction (jhs w jh) = None \<longrightarrow> b_next_transaction (jhs w jh) = None))"

lemma attached_inj: "attached w jh \<Longrightarrow> attached w jh' \<Longrightarrow> b_bh (jhs w jh) = b_bh (jhs w jh') \<Longrightarrow> jh = jh'"
  by (simp add: attached_def)

section \<open>Filing\<close>

definition placed :: "world \<Rightarrow> jptr \<Rightarrow> (tptr \<times> jlist) option" where
  "placed w jh =
     (if b_jlist (jhs w jh) = BJ_None then None
      else map_option (\<lambda>t. (t, b_jlist (jhs w jh))) (b_transaction (jhs w jh)))"

lemma take_dirty_sel:
  "trs (fst (take_dirty bh w)) = trs w" "jhs (fst (take_dirty bh w)) = jhs w" "jnl (fst (take_dirty bh w)) = jnl w"
  "bh_jbd (bhs (fst (take_dirty bh w)) b) = bh_jbd (bhs w b)"
  "b_private (bhs (fst (take_dirty bh w)) b) = b_private (bhs w b)"
  by (auto simp: take_dirty_def dirty_bit_defs)

text \<open>Filing a buffer that is off all lists at the tail of a list.\<close>

definition put_on_list :: "world \<Rightarrow> jptr \<Rightarrow> tptr \<Rightarrow> jlist \<Rightarrow> world" where
  "put_on_list w jh t l =
     upd_jh jh (\<lambda>h. h\<lparr>b_transaction := Some t, b_jlist := l\<rparr>)
       (upd_tr t (\<lambda>tr. upd_t_list l (\<lambda>xs. xs @ [jh])
          (if l = BJ_Metadata then tr\<lparr>t_nr_buffers := t_nr_buffers tr + 1\<rparr> else tr)) w)"

lemma put_on_list_wf:
  assumes wf: "lists_wf w" and off: "b_jlist (jhs w jh) = BJ_None" and l: "l \<noteq> BJ_None"
  shows "lists_wf (put_on_list w jh t l)"
  unfolding lists_wf_def
proof (intro conjI allI)
  fix t' l' jh'
  have not: "jh \<notin> set (t_list l' (trs w t'))" for l' t'
    using lists_wf_mem [OF wf] off by auto
  show "distinct (t_list l' (trs (put_on_list w jh t l) t'))"
    using lists_wf_distinct [OF wf] not by (simp add: put_on_list_def)
  show "jh' \<in> set (t_list l' (trs (put_on_list w jh t l) t')) \<longleftrightarrow>
      l' \<noteq> BJ_None \<and> b_transaction (jhs (put_on_list w jh t l) jh') = Some t' \<and>
      b_jlist (jhs (put_on_list w jh t l) jh') = l'"
    using lists_wf_mem [OF wf] off not l by (auto simp: put_on_list_def)
  show "t_nr_buffers (trs (put_on_list w jh t l) t') =
      int (length (t_list BJ_Metadata (trs (put_on_list w jh t l) t')))"
    using lists_wf_nr [OF wf] by (simp add: put_on_list_def)
  show "b_transaction (jhs (put_on_list w jh t l) jh') = None \<longrightarrow> b_jlist (jhs (put_on_list w jh t l) jh') = BJ_None"
    using lists_wf_None [OF wf] by (simp add: put_on_list_def)
qed

definition filed :: "world \<Rightarrow> jptr \<Rightarrow> tptr \<Rightarrow> jlist \<Rightarrow> world \<Rightarrow> bool" where
  "filed w jh t l w' =
     (lists_wf w' \<and>
      jhs w' = (jhs w)(jh := (jhs w jh)\<lparr>b_transaction := Some t, b_jlist := l,
        b_jcount := b_jcount (jhs w jh) + (if b_transaction (jhs w jh) = None then 1 else 0)\<rparr>) \<and>
      (\<forall>t' l'. t_list l' (trs w' t') =
         (if placed w jh = Some (t, l) then t_list l' (trs w t')
          else remove1 jh (t_list l' (trs w t')) @ (if t' = t \<and> l' = l then [jh] else []))) \<and>
      (\<forall>t'. t_state (trs w' t') = t_state (trs w t')) \<and> jnl w' = jnl w \<and>
      (\<forall>b. b \<noteq> b_bh (jhs w jh) \<longrightarrow> bhs w' b = bhs w b) \<and>
      (\<forall>b. bh_jbd (bhs w' b) = bh_jbd (bhs w b) \<and> b_private (bhs w' b) = b_private (bhs w b) \<and>
           bh_freed (bhs w' b) = bh_freed (bhs w b)))"

text \<open>The step that takes the buffer off its list, or takes a reference.\<close>

definition unlink_or_grab :: "world \<Rightarrow> jptr \<Rightarrow> world option" where
  "unlink_or_grab w jh =
     (if b_transaction (jhs w jh) \<noteq> None then u_jbdbf_journal_temp_unlink_buffer w jh
      else map_option fst (jbdbf_journal_grab_journal_bf_head w (b_bh (jhs w jh))))"

lemma unlink_or_grab_ok:
  assumes wf: "lists_wf w" and att: "attached w jh"
  shows "\<exists>w'. unlink_or_grab w jh = Some w' \<and> lists_wf w' \<and>
    jhs w' = (jhs w)(jh := (jhs w jh)\<lparr>b_jlist := BJ_None,
      b_jcount := b_jcount (jhs w jh) + (if b_transaction (jhs w jh) = None then 1 else 0)\<rparr>) \<and>
    (\<forall>t l. t_list l (trs w' t) = remove1 jh (t_list l (trs w t))) \<and>
    (\<forall>t. t_state (trs w' t) = t_state (trs w t)) \<and> jnl w' = jnl w \<and>
    (\<forall>b. b \<noteq> b_bh (jhs w jh) \<longrightarrow> bhs w' b = bhs w b) \<and>
    (\<forall>b. bh_jbd (bhs w' b) = bh_jbd (bhs w b) \<and> b_private (bhs w' b) = b_private (bhs w b) \<and>
         bh_freed (bhs w' b) = bh_freed (bhs w b))"
proof (cases "b_transaction (jhs w jh)")
  case None
  have off: "b_jlist (jhs w jh) = BJ_None" by (rule lists_wf_None [OF wf None])
  then have "jh \<notin> set (t_list l (trs w t))" for t l using lists_wf_mem [OF wf] by auto
  moreover have "lists_wf (upd_jh jh (\<lambda>h. h\<lparr>b_jcount := b_jcount h + 1\<rparr>) w)"
    by (rule lists_wf_cong [OF wf]) auto
  moreover have "(jhs w jh)\<lparr>b_jlist := BJ_None\<rparr> = jhs w jh"
    using off by (cases "jhs w jh") simp
  ultimately show ?thesis
    using None att by (simp add: unlink_or_grab_def attached_def jbdbf_journal_grab_journal_bf_head_def remove1_idem)
next
  case (Some t)
  obtain w' where w': "u_jbdbf_journal_temp_unlink_buffer w jh = Some w'" "unlinked w jh w'"
    using temp_unlink_ok [OF wf] by blast
  then have "bh_jbd (bhs w' b) = bh_jbd (bhs w b) \<and> b_private (bhs w' b) = b_private (bhs w b) \<and>
      bh_freed (bhs w' b) = bh_freed (bhs w b)" for b
    by (cases "b = b_bh (jhs w jh)") (auto simp: unlinked_def Let_def)
  then show ?thesis
    using Some w' unlinked_wf [OF wf w'(2)] by (auto simp: unlink_or_grab_def unlinked_def)
qed

lemma put_on_list_eq:
  "upd_jh jh (\<lambda>h. h\<lparr>b_jlist := l\<rparr>)
     (upd_tr t (upd_t_list l (\<lambda>xs. u_blist_add_buffer xs jh))
        (if l = BJ_Metadata
         then upd_tr t (\<lambda>tr. tr\<lparr>t_nr_buffers := t_nr_buffers tr + 1\<rparr>)
           (upd_jh jh (\<lambda>h. h\<lparr>b_transaction := Some t\<rparr>) w)
         else upd_jh jh (\<lambda>h. h\<lparr>b_transaction := Some t\<rparr>) w)) = put_on_list w jh t l"
  by (simp add: put_on_list_def u_blist_add_buffer_def upd_jh_def upd_tr_def)

lemma file_buffer_eq:
  assumes l: "l \<noteq> BJ_None" and tr: "b_transaction (jhs w jh) = Some t \<or> b_transaction (jhs w jh) = None"
    and new: "\<not> (b_transaction (jhs w jh) \<noteq> None \<and> b_jlist (jhs w jh) = l)"
    and d: "(if l \<in> {BJ_Metadata, BJ_Reserved, BJ_Shadow, BJ_Forget}
      then take_dirty (b_bh (jhs w jh)) w else (w, False)) = (w1, was_dirty)"
  shows "u_jbdbf_journal_file_buffer w jh t l =
    map_option (\<lambda>w2. if was_dirty then set_jbddirty (b_bh (jhs w jh)) (put_on_list w2 jh t l)
      else put_on_list w2 jh t l) (unlink_or_grab w1 jh)"
proof -
  have "jhs w1 = jhs w"
    using d take_dirty_sel(2) [of "b_bh (jhs w jh)" w] by (metis fst_conv)
  then have ug: "(if b_transaction (jhs w jh) \<noteq> None then u_jbdbf_journal_temp_unlink_buffer w1 jh
      else map_option fst (jbdbf_journal_grab_journal_bf_head w1 (b_bh (jhs w jh)))) = unlink_or_grab w1 jh"
    by (simp add: unlink_or_grab_def)
  show ?thesis
    unfolding u_jbdbf_journal_file_buffer_def Let_def if_not_P [OF new] d prod.case ug put_on_list_eq if_not_P [OF l]
    using tr by (cases "unlink_or_grab w1 jh") auto
qed

lemma put_on_list_sel [simp]:
  "jhs (put_on_list w jh t l) = (jhs w)(jh := (jhs w jh)\<lparr>b_transaction := Some t, b_jlist := l\<rparr>)"
  "jnl (put_on_list w jh t l) = jnl w" "bhs (put_on_list w jh t l) = bhs w"
  "t_state (trs (put_on_list w jh t l) t') = t_state (trs w t')"
  "l \<noteq> BJ_None \<Longrightarrow> t_list l' (trs (put_on_list w jh t l) t') =
     t_list l' (trs w t') @ (if t' = t \<and> l' = l then [jh] else [])"
  by (auto simp: put_on_list_def)

lemma set_jbddirty_sel [simp]:
  "jhs (set_jbddirty bh w) = jhs w" "trs (set_jbddirty bh w) = trs w" "jnl (set_jbddirty bh w) = jnl w"
  "bhs (set_jbddirty bh w) = (bhs w)(bh := (bhs w bh)\<lparr>bh_jbddirty := True\<rparr>)"
  by (simp_all add: set_jbddirty_def)

lemma file_buffer_ok:
  assumes wf: "lists_wf w" and att: "attached w jh" and l: "l \<noteq> BJ_None"
    and tr: "b_transaction (jhs w jh) = Some t \<or> b_transaction (jhs w jh) = None"
  shows "\<exists>w'. u_jbdbf_journal_file_buffer w jh t l = Some w' \<and> filed w jh t l w'"
proof (cases "b_transaction (jhs w jh) \<noteq> None \<and> b_jlist (jhs w jh) = l")
  case True
  then have "u_jbdbf_journal_file_buffer w jh t l = Some w"
    using tr by (simp add: u_jbdbf_journal_file_buffer_def)
  moreover have "(jhs w jh)\<lparr>b_transaction := Some t, b_jlist := l\<rparr> = jhs w jh"
    using True tr by (cases "jhs w jh") auto
  then have "filed w jh t l w"
    using True tr wf l by (auto simp: filed_def placed_def fun_upd_idem)
  ultimately show ?thesis by blast
next
  case new: False
  let ?bh = "b_bh (jhs w jh)"
  obtain w1 wd where d: "(if l \<in> {BJ_Metadata, BJ_Reserved, BJ_Shadow, BJ_Forget}
      then take_dirty ?bh w else (w, False)) = (w1, wd)" by (cases "if l \<in> {BJ_Metadata, BJ_Reserved, BJ_Shadow, BJ_Forget}
      then take_dirty ?bh w else (w, False)")
  have w1: "trs w1 = trs w" "jhs w1 = jhs w" "jnl w1 = jnl w" "bh_jbd (bhs w1 b) = bh_jbd (bhs w b)"
      "b_private (bhs w1 b) = b_private (bhs w b)" "b \<noteq> ?bh \<Longrightarrow> bhs w1 b = bhs w b"
      "bh_freed (bhs w1 b) = bh_freed (bhs w b)" for b
    using d by (auto simp: take_dirty_def dirty_bit_defs split: if_splits)
  have wf1: "lists_wf w1" by (rule lists_wf_cong [OF wf]) (simp_all add: w1)
  have att1: "attached w1 jh" using att by (simp add: attached_def w1)
  obtain w2 where w2: "unlink_or_grab w1 jh = Some w2" "lists_wf w2"
      "jhs w2 = (jhs w1)(jh := (jhs w1 jh)\<lparr>b_jlist := BJ_None,
        b_jcount := b_jcount (jhs w1 jh) + (if b_transaction (jhs w1 jh) = None then 1 else 0)\<rparr>)"
      "\<And>t l. t_list l (trs w2 t) = remove1 jh (t_list l (trs w1 t))"
      "\<And>t. t_state (trs w2 t) = t_state (trs w1 t)" "jnl w2 = jnl w1"
      "\<And>b. b \<noteq> b_bh (jhs w1 jh) \<Longrightarrow> bhs w2 b = bhs w1 b"
      "\<And>b. bh_jbd (bhs w2 b) = bh_jbd (bhs w1 b) \<and> b_private (bhs w2 b) = b_private (bhs w1 b) \<and>
           bh_freed (bhs w2 b) = bh_freed (bhs w1 b)"
    using unlink_or_grab_ok [OF wf1 att1] by blast
  define w3 where "w3 = (if wd then set_jbddirty ?bh (put_on_list w2 jh t l) else put_on_list w2 jh t l)"
  have "u_jbdbf_journal_file_buffer w jh t l = Some w3"
    using file_buffer_eq [OF l tr new d] w2(1) by (simp add: w3_def)
  moreover have "lists_wf (put_on_list w2 jh t l)"
    by (rule put_on_list_wf [OF w2(2) _ l]) (simp add: w2(3))
  then have "lists_wf w3" by (rule lists_wf_cong) (auto simp: w3_def)
  moreover have "placed w jh \<noteq> Some (t, l)" using new by (auto simp: placed_def split: if_splits)
  ultimately have "filed w jh t l w3"
    using w1 w2 l by (auto simp: filed_def w3_def)
  with \<open>u_jbdbf_journal_file_buffer w jh t l = Some w3\<close> show ?thesis by blast
qed

section \<open>Unfiling and refiling\<close>

lemma filed_attached:
  "filed w jh t l w' \<Longrightarrow> attached w' jh' = attached w jh'"
  by (auto simp: filed_def attached_def)

lemma filed_refs:
  assumes "filed w jh t l w'" "refs_wf w"
  shows "refs_wf w'"
  unfolding refs_wf_def
proof (intro allI impI)
  fix jh'
  assume "attached w' jh'"
  then have "attached w jh'" using filed_attached [OF assms(1)] by simp
  then have "jh_refs (jhs w jh') \<le> b_jcount (jhs w jh')"
      "b_transaction (jhs w jh') = None \<longrightarrow> b_next_transaction (jhs w jh') = None"
    using assms(2) by (auto simp: refs_wf_def)
  then show "jh_refs (jhs w' jh') \<le> b_jcount (jhs w' jh') \<and>
      (b_transaction (jhs w' jh') = None \<longrightarrow> b_next_transaction (jhs w' jh') = None)"
    using assms(1) by (auto simp: filed_def jh_refs_def)
qed

lemma filed_placed:
  assumes "filed w jh t l w'" "l \<noteq> BJ_None"
  shows "placed w' = (placed w)(jh \<mapsto> (t, l))"
  using assms by (auto simp: filed_def placed_def)

definition unfiled :: "world \<Rightarrow> jptr \<Rightarrow> world \<Rightarrow> bool" where
  "unfiled w jh w' =
     (lists_wf w' \<and> refs_wf w' \<and> placed w' = (placed w)(jh := None) \<and> b_transaction (jhs w' jh) = None \<and>
      (\<forall>j. j \<noteq> jh \<longrightarrow> jhs w' j = jhs w j \<and> attached w' j = attached w j) \<and>
      (\<forall>t l. t_list l (trs w' t) = remove1 jh (t_list l (trs w t))) \<and>
      (attached w' jh \<longleftrightarrow> 1 < b_jcount (jhs w jh)))"

lemma unfile_ok:
  assumes wf: "lists_wf w" and refs: "refs_wf w" and att: "attached w jh"
    and tr: "b_transaction (jhs w jh) = Some t" and nx: "b_next_transaction (jhs w jh) = None"
  shows "\<exists>w'. u_jbdbf_journal_unfile_buffer w jh = Some w' \<and> unfiled w jh w'"
proof -
  let ?bh = "b_bh (jhs w jh)"
  obtain w1 where w1: "u_jbdbf_journal_temp_unlink_buffer w jh = Some w1" "unlinked w jh w1"
    using temp_unlink_ok [OF wf] by blast
  have bits: "bh_jbd (bhs w1 b) = bh_jbd (bhs w b)" "b_private (bhs w1 b) = b_private (bhs w b)"
      "b_count (bhs w1 b) = b_count (bhs w b)" for b
    using w1(2) by (cases "b = ?bh"; auto simp: unlinked_def Let_def)+
  have jhs1: "jhs w1 = (jhs w)(jh := (jhs w jh)\<lparr>b_jlist := BJ_None\<rparr>)" using w1(2) by (simp add: unlinked_def)
  define w2 where "w2 = upd_jh jh (\<lambda>h. h\<lparr>b_jcount := b_jcount h - 1\<rparr>)
    (upd_jh jh (\<lambda>h. h\<lparr>b_transaction := None\<rparr>) w1)"
  have jhs2: "jhs w2 = (jhs w)(jh := (jhs w jh)\<lparr>b_jlist := BJ_None, b_transaction := None,
      b_jcount := b_jcount (jhs w jh) - 1\<rparr>)" "bhs w2 = bhs w1" "trs w2 = trs w1"
    by (simp_all add: w2_def jhs1)
  have cnt: "jh_refs (jhs w jh) \<le> b_jcount (jhs w jh)" using refs att by (simp add: refs_wf_def)
  then have cnt1: "1 \<le> b_jcount (jhs w jh)" and cp: "b_jcount (jhs w jh) = 1 \<Longrightarrow> b_cp_transaction (jhs w jh) = None"
    using tr by (auto simp: jh_refs_def split: if_splits)
  have wf1: "lists_wf w1" by (rule unlinked_wf [OF wf w1(2)])
  define w3 where "w3 = (if b_jcount (jhs w jh) = 1
    then u_brelse ?bh (upd_bh ?bh (\<lambda>b. b\<lparr>b_private := None, bh_jbd := False\<rparr>)
      (upd_jh jh (\<lambda>h. h\<lparr>b_frozen_data := None, b_committed_data := None\<rparr>) w2)) else w2)"
  have "u_jbdbf_journal_unfile_buffer w jh = Some w3"
    using w1(1) cnt1 cp nx att
    by (simp add: u_jbdbf_journal_unfile_buffer_def jbdbf_journal_put_journal_bf_head_def
        u_journal_remove_journal_bf_head_def jhs1 w3_def w2_def bits attached_def Let_def)
  moreover have "lists_wf w3"
  proof -
    have "lists_wf (w1\<lparr>jhs := (jhs w1)(jh := (jhs w1 jh)\<lparr>b_transaction := None\<rparr>)\<rparr>)"
      by (rule lists_wf_off_list [OF wf1]) (simp_all add: jhs1)
    then show ?thesis
      by (rule lists_wf_cong) (auto simp: w3_def w2_def u_brelse_def jhs1)
  qed
  moreover have at3: "attached w3 j = (if j = jh then 1 < b_jcount (jhs w jh) else attached w j)" for j
    using att cnt1 by (auto simp: w3_def attached_def jhs2 u_brelse_def bits)
  moreover have jh3: "j \<noteq> jh \<Longrightarrow> jhs w3 j = jhs w j" "b_transaction (jhs w3 jh) = None"
      "b_jlist (jhs w3 jh) = BJ_None" "b_next_transaction (jhs w3 jh) = None"
      "jh_refs (jhs w3 jh) = jh_refs (jhs w jh) - 1"
      "b_jcount (jhs w3 jh) = b_jcount (jhs w jh) - 1" for j
    using tr nx by (auto simp: w3_def jhs2 u_brelse_def jh_refs_def)
  moreover have "refs_wf w3"
    unfolding refs_wf_def
  proof (intro allI impI)
    fix j assume "attached w3 j"
    then show "jh_refs (jhs w3 j) \<le> b_jcount (jhs w3 j) \<and>
        (b_transaction (jhs w3 j) = None \<longrightarrow> b_next_transaction (jhs w3 j) = None)"
      using refs cnt jh3 by (cases "j = jh") (auto simp: at3 refs_wf_def)
  qed
  moreover have "placed w3 = (placed w)(jh := None)"
    using jh3 by (auto simp: placed_def)
  moreover have "t_list l (trs w3 t') = remove1 jh (t_list l (trs w t'))" for l t'
    using w1(2) by (auto simp: w3_def jhs2 u_brelse_def unlinked_def)
  ultimately show ?thesis by (auto simp: unfiled_def)
qed

text \<open>
  The dirty bits after filing on a list whose dirtiness the journal tracks: the jbddirty bit
  collects both bits.  The dirty bit is set again if both bits were set and the buffer was on
  a list.
\<close>

lemma file_buffer_bits:
  assumes wf: "lists_wf w" and l: "l \<in> {BJ_Metadata, BJ_Reserved, BJ_Shadow, BJ_Forget}"
    and tr: "b_transaction (jhs w jh) = Some t \<or> b_transaction (jhs w jh) = None"
    and new: "placed w jh \<noteq> Some (t, l)"
    and res: "u_jbdbf_journal_file_buffer w jh t l = Some w'"
  shows "let b = bhs w (b_bh (jhs w jh)); b' = bhs w' (b_bh (jhs w jh))
    in bh_jbddirty b' = (bh_dirty b \<or> bh_jbddirty b) \<and>
       bh_dirty b' = (bh_dirty b \<and> bh_jbddirty b \<and> b_jlist (jhs w jh) \<noteq> BJ_None)"
proof -
  let ?bh = "b_bh (jhs w jh)"
  obtain w1 wd where d: "take_dirty ?bh w = (w1, wd)" by (cases "take_dirty ?bh w")
  have l': "l \<noteq> BJ_None" using l by auto
  have new': "\<not> (b_transaction (jhs w jh) \<noteq> None \<and> b_jlist (jhs w jh) = l)"
    using new tr l' by (auto simp: placed_def)
  have d': "(if l \<in> {BJ_Metadata, BJ_Reserved, BJ_Shadow, BJ_Forget} then take_dirty ?bh w else (w, False)) = (w1, wd)"
    using d l by simp
  obtain w2 where w2: "unlink_or_grab w1 jh = Some w2"
      "w' = (if wd then set_jbddirty ?bh (put_on_list w2 jh t l) else put_on_list w2 jh t l)"
    using res file_buffer_eq [OF l' tr new' d'] by (cases "unlink_or_grab w1 jh") auto
  have jh1: "jhs w1 = jhs w" "trs w1 = trs w"
    using d take_dirty_sel [of ?bh w] by auto
  have wf1: "lists_wf w1" by (rule lists_wf_cong [OF wf]) (simp_all add: jh1)
  have "bhs w2 ?bh = (let b = bhs w1 ?bh in if b_jlist (jhs w jh) \<noteq> BJ_None \<and> bh_jbddirty b
      then b\<lparr>bh_jbddirty := False, bh_dirty := True\<rparr> else b)"
  proof (cases "b_transaction (jhs w jh)")
    case None
    then show ?thesis
      using w2(1) lists_wf_None [OF wf None]
      by (auto simp: unlink_or_grab_def jh1 jbdbf_journal_grab_journal_bf_head_def Let_def bind_eq_Some_conv
          split: if_splits)
  next
    case (Some t')
    then have "unlinked w1 jh w2"
      using w2(1) temp_unlink_ok [OF wf1, of jh] by (auto simp: unlink_or_grab_def jh1)
    then show ?thesis by (simp add: unlinked_def jh1)
  qed
  then show ?thesis
    using d unfolding w2(2) by (auto simp: Let_def take_dirty_def dirty_bit_defs split: if_splits)
qed

definition refile_list :: "world \<Rightarrow> jptr \<Rightarrow> jlist" where
  "refile_list w jh =
     (if bh_freed (bhs w (b_bh (jhs w jh))) then BJ_Forget
      else if b_modified (jhs w jh) then BJ_Metadata else BJ_Reserved)"

text \<open>The state of refiling just before the buffer is filed for the next transaction.\<close>

definition refile_ready :: "world \<Rightarrow> jptr \<Rightarrow> tptr \<Rightarrow> world \<Rightarrow> bool" where
  "refile_ready w jh t w2 =
     (lists_wf w2 \<and> refs_wf w2 \<and> attached w2 jh \<and>
      jhs w2 = (jhs w)(jh := (jhs w jh)\<lparr>b_jlist := BJ_None, b_transaction := Some t, b_next_transaction := None\<rparr>) \<and>
      bhs w2 = (bhs w)(b_bh (jhs w jh) := (bhs w (b_bh (jhs w jh)))\<lparr>bh_jbddirty := False\<rparr>) \<and>
      (\<forall>t' l. t_list l (trs w2 t') = remove1 jh (t_list l (trs w t'))) \<and>
      (\<forall>t'. t_state (trs w2 t') = t_state (trs w t')))"

lemma refile_prepare:
  assumes wf: "lists_wf w" and refs: "refs_wf w" and att: "attached w jh"
    and tr: "b_transaction (jhs w jh) = Some t0" and nx: "b_next_transaction (jhs w jh) = Some t"
  shows "\<exists>w2. refile_ready w jh t w2 \<and>
    u_jbdbf_journal_refile_buffer w jh =
      do { w3 \<leftarrow> u_jbdbf_journal_file_buffer w2 jh t (refile_list w jh);
           j_assert (t_state (trs w3 t) = T_RUNNING);
           Some (if bh_jbddirty (bhs w (b_bh (jhs w jh))) then set_jbddirty (b_bh (jhs w jh)) w3 else w3) }"
proof -
  let ?bh = "b_bh (jhs w jh)"
  define w0 where "w0 = clear_jbddirty ?bh w"
  have w0: "jhs w0 = jhs w" "trs w0 = trs w" "bhs w0 = (bhs w)(?bh := (bhs w ?bh)\<lparr>bh_jbddirty := False\<rparr>)"
    by (simp_all add: w0_def dirty_bit_defs)
  have wf0: "lists_wf w0" by (rule lists_wf_cong [OF wf]) (simp_all add: w0)
  obtain w1 where w1: "u_jbdbf_journal_temp_unlink_buffer w0 jh = Some w1" "unlinked w0 jh w1"
    using temp_unlink_ok [OF wf0] by blast
  have jhs1: "jhs w1 = (jhs w)(jh := (jhs w jh)\<lparr>b_jlist := BJ_None\<rparr>)"
    using w1(2) by (simp add: unlinked_def w0)
  have bh1: "bhs w1 = bhs w0"
    using w1(2) by (auto simp: unlinked_def w0 Let_def fun_eq_iff)
  define w2 where "w2 = upd_jh jh (\<lambda>h. h\<lparr>b_transaction := Some t, b_next_transaction := None\<rparr>) w1"
  have jhs2: "jhs w2 = (jhs w)(jh := (jhs w jh)\<lparr>b_jlist := BJ_None, b_transaction := Some t, b_next_transaction := None\<rparr>)"
    and bhs2: "bhs w2 = (bhs w)(?bh := (bhs w ?bh)\<lparr>bh_jbddirty := False\<rparr>)"
    by (simp_all add: w2_def jhs1 bh1 w0)
  have "w2 = w1\<lparr>jhs := (jhs w1)(jh := (jhs w1 jh)\<lparr>b_transaction := Some t, b_next_transaction := None\<rparr>)\<rparr>"
    by (simp add: w2_def upd_jh_def)
  then have "lists_wf w2"
    using lists_wf_off_list [OF unlinked_wf [OF wf0 w1(2)], of jh] by (simp add: jhs1)
  moreover have att2: "attached w2 j = attached w j" for j
    using att by (auto simp: attached_def jhs2 bhs2 split: if_splits)
  moreover have "refs_wf w2"
    using refs tr by (auto simp: refs_wf_def att2 jhs2 jh_refs_def)
  moreover have "t_list l (trs w2 t') = remove1 jh (t_list l (trs w t'))" "t_state (trs w2 t') = t_state (trs w t')" for t' l
    using w1(2) by (simp_all add: w2_def unlinked_def w0)
  ultimately have "refile_ready w jh t w2" using att jhs2 bhs2 by (simp add: refile_ready_def)
  moreover have "u_jbdbf_journal_refile_buffer w jh =
      do { w3 \<leftarrow> u_jbdbf_journal_file_buffer w2 jh t (refile_list w jh);
           j_assert (t_state (trs w3 t) = T_RUNNING);
           Some (if bh_jbddirty (bhs w (b_bh (jhs w jh))) then set_jbddirty (b_bh (jhs w jh)) w3 else w3) }"
    using w1(1) nx
    by (simp add: u_jbdbf_journal_refile_buffer_def w0_def [symmetric] w2_def [symmetric] Let_def
        refile_list_def jhs1 jhs2 bh1 w0(3))
  ultimately show ?thesis by blast
qed

lemma refile_next_ok:
  assumes wf: "lists_wf w" and refs: "refs_wf w" and att: "attached w jh"
    and tr: "b_transaction (jhs w jh) = Some t0" and nx: "b_next_transaction (jhs w jh) = Some t"
    and run: "t_state (trs w t) = T_RUNNING"
  shows "\<exists>w'. u_jbdbf_journal_refile_buffer w jh = Some w' \<and> lists_wf w' \<and> refs_wf w' \<and>
    placed w' = (placed w)(jh \<mapsto> (t, refile_list w jh)) \<and> b_next_transaction (jhs w' jh) = None \<and>
    (\<forall>t' l'. t_list l' (trs w' t') =
       remove1 jh (t_list l' (trs w t')) @ (if t' = t \<and> l' = refile_list w jh then [jh] else [])) \<and>
    bh_dirty (bhs w' (b_bh (jhs w jh))) = False \<and>
    bh_jbddirty (bhs w' (b_bh (jhs w jh))) =
      (bh_jbddirty (bhs w (b_bh (jhs w jh))) \<or> bh_dirty (bhs w (b_bh (jhs w jh))))"
proof -
  let ?bh = "b_bh (jhs w jh)" and ?l = "refile_list w jh"
  have l: "?l \<in> {BJ_Metadata, BJ_Reserved, BJ_Shadow, BJ_Forget}" "?l \<noteq> BJ_None"
    by (auto simp: refile_list_def)
  obtain w2 where rdy: "refile_ready w jh t w2" and eq: "u_jbdbf_journal_refile_buffer w jh =
      do { w3 \<leftarrow> u_jbdbf_journal_file_buffer w2 jh t ?l;
           j_assert (t_state (trs w3 t) = T_RUNNING);
           Some (if bh_jbddirty (bhs w ?bh) then set_jbddirty ?bh w3 else w3) }"
    using refile_prepare [OF wf refs att tr nx] by blast
  then have w2: "lists_wf w2" "refs_wf w2" "attached w2 jh" "b_transaction (jhs w2 jh) = Some t"
      "b_jlist (jhs w2 jh) = BJ_None" "b_bh (jhs w2 jh) = ?bh"
    by (simp_all add: refile_ready_def)
  obtain w3 where w3: "u_jbdbf_journal_file_buffer w2 jh t ?l = Some w3" "filed w2 jh t ?l w3"
    using file_buffer_ok [OF w2(1,3) l(2)] w2(4) by blast
  have new: "placed w2 jh \<noteq> Some (t, ?l)" by (simp add: placed_def w2)
  define w4 where "w4 = (if bh_jbddirty (bhs w ?bh) then set_jbddirty ?bh w3 else w3)"
  have "u_jbdbf_journal_refile_buffer w jh = Some w4"
    using eq w3 run rdy by (simp add: w4_def filed_def refile_ready_def)
  moreover have "lists_wf w3" using w3(2) by (simp add: filed_def)
  then have "lists_wf w4" by (rule lists_wf_cong) (simp_all add: w4_def)
  moreover have "attached w4 j = attached w3 j" "jhs w4 = jhs w3" for j
    by (simp_all add: w4_def attached_def)
  then have "refs_wf w4"
    using filed_refs [OF w3(2) w2(2)] by (simp add: refs_wf_def)
  moreover have "placed w4 = (placed w)(jh \<mapsto> (t, ?l))"
  proof -
    have "placed w4 = placed w3" by (auto simp: placed_def w4_def fun_eq_iff)
    moreover have "(placed w2)(jh \<mapsto> (t, ?l)) = (placed w)(jh \<mapsto> (t, ?l))"
      using rdy by (auto simp: placed_def refile_ready_def fun_eq_iff)
    ultimately show ?thesis using filed_placed [OF w3(2) l(2)] by simp
  qed
  moreover have "t_list l' (trs w4 t') = remove1 jh (t_list l' (trs w t')) @ (if t' = t \<and> l' = ?l then [jh] else [])" for l' t'
  proof -
    have "jh \<notin> set (t_list l' (trs w2 t'))" using lists_wf_mem [OF w2(1)] w2(5) by auto
    then have "t_list l' (trs w3 t') = t_list l' (trs w2 t') @ (if t' = t \<and> l' = ?l then [jh] else [])"
      using w3(2) new by (simp add: filed_def remove1_idem)
    moreover have "t_list l' (trs w2 t') = remove1 jh (t_list l' (trs w t'))"
      using rdy by (simp add: refile_ready_def)
    moreover have "trs w4 = trs w3" by (simp add: w4_def)
    ultimately show ?thesis by (simp only:)
  qed
  moreover have "bhs w2 ?bh = (bhs w ?bh)\<lparr>bh_jbddirty := False\<rparr>"
    using rdy by (simp add: refile_ready_def)
  then have "bh_dirty (bhs w4 ?bh) = False"
      "bh_jbddirty (bhs w4 ?bh) = (bh_jbddirty (bhs w ?bh) \<or> bh_dirty (bhs w ?bh))"
    using file_buffer_bits [OF w2(1) l(1) _ new w3(1)] w2 by (simp_all add: Let_def w4_def)
  moreover have "b_next_transaction (jhs w4 jh) = None"
    using w3(2) rdy by (simp add: w4_def filed_def refile_ready_def)
  ultimately show ?thesis by blast
qed

section \<open>Properties\<close>

text \<open>
  C4: filing an attached buffer that belongs to the transaction or to none succeeds, keeps the
  invariants of lists and references, and moves the buffer (and no other) to the tail of the
  requested list; if it is already there nothing changes.
\<close>

theorem file_buffer_moves:
  assumes "lists_wf w" "refs_wf w" "attached w jh" "l \<noteq> BJ_None"
    and "b_transaction (jhs w jh) = Some t \<or> b_transaction (jhs w jh) = None"
  shows "\<exists>w'. u_jbdbf_journal_file_buffer w jh t l = Some w' \<and> lists_wf w' \<and> refs_wf w' \<and>
    placed w' = (placed w)(jh \<mapsto> (t, l)) \<and>
    (\<forall>t' l'. t_list l' (trs w' t') =
       (if placed w jh = Some (t, l) then t_list l' (trs w t')
        else remove1 jh (t_list l' (trs w t')) @ (if t' = t \<and> l' = l then [jh] else [])))"
proof -
  obtain w' where w': "u_jbdbf_journal_file_buffer w jh t l = Some w'" "filed w jh t l w'"
    using file_buffer_ok [OF assms(1,3,4,5)] by blast
  then show ?thesis
    using filed_refs [OF w'(2) assms(2)] filed_placed [OF w'(2) assms(4)] by (simp add: filed_def)
qed

text \<open>A world with one buffer: journal head 5, of block buffer 9, on the forget list of transaction 1.\<close>

definition ex_buffer :: "bool \<Rightarrow> world" where
  "ex_buffer dirty = zero_world\<lparr>
     jhs := (\<lambda>_. zero_jh)(5 := zero_jh\<lparr>b_bh := 9, b_jcount := 1, b_transaction := Some 1,
       b_next_transaction := Some 2, b_jlist := BJ_Forget, b_modified := True\<rparr>),
     bhs := (\<lambda>_. zero_bh)(9 := zero_bh\<lparr>bh_jbd := True, b_private := Some 5, bh_jbddirty := True, bh_dirty := dirty\<rparr>),
     trs := (\<lambda>_. zero_transaction)(1 := zero_transaction\<lparr>t_forget := [5], t_state := T_COMMIT\<rparr>)\<rparr>"

lemma ex_buffer_wf: "lists_wf (ex_buffer d)" "refs_wf (ex_buffer d)" "attached (ex_buffer d) 5"
proof -
  have tl: "t_list l (trs (ex_buffer d) t) = (if t = 1 \<and> l = BJ_Forget then [5] else [])" for t l
    by (cases l) (auto simp: ex_buffer_def zero_transaction_def t_list.simps)
  show "lists_wf (ex_buffer d)"
    unfolding lists_wf_def tl by (auto simp: ex_buffer_def zero_defs)
  show "refs_wf (ex_buffer d)" "attached (ex_buffer d) 5"
    by (auto simp: refs_wf_def attached_def ex_buffer_def zero_defs jh_refs_def split: if_splits)
qed

lemma ex_buffer_sel [simp]:
  "jhs (ex_buffer d) 5 = zero_jh\<lparr>b_bh := 9, b_jcount := 1, b_transaction := Some 1,
     b_next_transaction := Some 2, b_jlist := BJ_Forget, b_modified := True\<rparr>"
  "bh_dirty (bhs (ex_buffer d) 9) = d" "bh_jbddirty (bhs (ex_buffer d) 9)" "\<not> bh_freed (bhs (ex_buffer d) 9)"
  "t_state (trs (ex_buffer d) 2) = T_RUNNING"
  by (simp_all add: ex_buffer_def zero_defs)

theorem file_buffer_moves_witness:
  "\<exists>w'. u_jbdbf_journal_file_buffer (ex_buffer False) 5 1 BJ_Metadata = Some w' \<and>
     placed w' 5 = Some (1, BJ_Metadata)"
  using file_buffer_moves [OF ex_buffer_wf [of False], of BJ_Metadata 1] by auto

text \<open>
  C5: refiling a buffer when its transaction has committed: if a later running transaction has
  claimed the buffer it moves to the tail of that transaction's forget, metadata or reserved
  list with its dirty state in the jbddirty bit; otherwise it is taken off its list, and
  detached if the transaction held the last reference.
\<close>

theorem refile_buffer_moves:
  assumes "lists_wf w" "refs_wf w" "attached w jh" "b_transaction (jhs w jh) = Some t0"
    and "\<forall>t. b_next_transaction (jhs w jh) = Some t \<longrightarrow> t_state (trs w t) = T_RUNNING"
  shows "\<exists>w'. u_jbdbf_journal_refile_buffer w jh = Some w' \<and> lists_wf w' \<and> refs_wf w' \<and>
    placed w' = (placed w)(jh := map_option (\<lambda>t. (t, refile_list w jh)) (b_next_transaction (jhs w jh))) \<and>
    (case b_next_transaction (jhs w jh) of
       None \<Rightarrow> attached w' jh \<longleftrightarrow> 1 < b_jcount (jhs w jh)
     | Some t \<Rightarrow>
         bh_dirty (bhs w' (b_bh (jhs w jh))) = False \<and>
         bh_jbddirty (bhs w' (b_bh (jhs w jh))) =
           (bh_jbddirty (bhs w (b_bh (jhs w jh))) \<or> bh_dirty (bhs w (b_bh (jhs w jh)))))"
proof (cases "b_next_transaction (jhs w jh)")
  case None
  then show ?thesis
    using unfile_ok [OF assms(1-4) None] by (auto simp: u_jbdbf_journal_refile_buffer_def unfiled_def)
next
  case (Some t)
  then show ?thesis
    using refile_next_ok [OF assms(1-4) Some] assms(5) by auto
qed

theorem refile_buffer_moves_witness:
  "\<exists>w'. u_jbdbf_journal_refile_buffer (ex_buffer True) 5 = Some w' \<and>
     placed w' 5 = Some (2, BJ_Metadata) \<and> bh_jbddirty (bhs w' 9) \<and> \<not> bh_dirty (bhs w' 9)"
  using refile_buffer_moves [OF ex_buffer_wf, of True 1] by (auto simp: refile_list_def zero_jh_def)

text \<open>
  C6: moving a metadata buffer from one list to another while both its dirty bits are set leaves
  the dirty bit set, so that the page cache may write the buffer before its transaction commits:
  the second test-and-clear in __jbdbf_journal_file_buffer is not evaluated when the first
  finds the dirty bit, and unlinking then turns the jbddirty bit into the dirty bit.
\<close>

theorem file_buffer_leaves_dirty:
  assumes "lists_wf w" "attached w jh" "b_transaction (jhs w jh) = Some t"
    and "l \<in> {BJ_Metadata, BJ_Reserved, BJ_Shadow, BJ_Forget}" "b_jlist (jhs w jh) \<noteq> l"
    and "b_jlist (jhs w jh) \<noteq> BJ_None"
    and "bh_dirty (bhs w (b_bh (jhs w jh)))" "bh_jbddirty (bhs w (b_bh (jhs w jh)))"
  shows "\<exists>w'. u_jbdbf_journal_file_buffer w jh t l = Some w' \<and> placed w' jh = Some (t, l) \<and>
    bh_dirty (bhs w' (b_bh (jhs w jh)))"
proof -
  have l: "l \<noteq> BJ_None" using assms(4) by auto
  obtain w' where w': "u_jbdbf_journal_file_buffer w jh t l = Some w'" "filed w jh t l w'"
    using file_buffer_ok [OF assms(1,2) l] assms(3) by blast
  have "placed w jh \<noteq> Some (t, l)" using assms(5) by (auto simp: placed_def split: if_splits)
  then show ?thesis
    using file_buffer_bits [OF assms(1,4) _ _ w'(1)] w' filed_placed [OF w'(2) l] assms by (auto simp: Let_def)
qed

theorem file_buffer_leaves_dirty_witness:
  "\<exists>w'. u_jbdbf_journal_file_buffer (ex_buffer True) 5 1 BJ_Metadata = Some w' \<and>
     placed w' 5 = Some (1, BJ_Metadata) \<and> bh_dirty (bhs w' 9)"
  using file_buffer_leaves_dirty [OF ex_buffer_wf(1,3), of True 1 BJ_Metadata] by auto

end
