(* ===== verification/Checkpoint_Correct.thy ===== *)
theory Checkpoint_Correct
  imports Log_Space Buffer_Lists
begin

text \<open>
  Correctness of jbdbf_log_do_checkpoint: on the oldest finished transaction the loops end,
  every dirty buffer of its checkpoint list is submitted for writing, and the transaction
  leaves the list of transactions to checkpoint.  When the log needs space the device is
  flushed before the first write, and again after the last one and before the tail of the
  log moves.
\<close>

section \<open>Operations on the buffer only\<close>

text \<open>Nothing changes but the log of I/O and state bits and counts of buffers.\<close>

definition io_step :: "world \<Rightarrow> world \<Rightarrow> bool" where
  "io_step w w' =
     (jnl w' = jnl w \<and> trs w' = trs w \<and> jhs w' = jhs w \<and>
      (\<forall>b. bh_jbd (bhs w' b) = bh_jbd (bhs w b) \<and> b_private (bhs w' b) = b_private (bhs w b) \<and>
           bh_jbddirty (bhs w' b) = bh_jbddirty (bhs w b) \<and> b_blocknr (bhs w' b) = b_blocknr (bhs w b) \<and>
           b_data (bhs w' b) = b_data (bhs w b) \<and> b_bdev (bhs w' b) = b_bdev (bhs w b)))"

fun cp_event :: "io_event \<Rightarrow> bool" where
  "cp_event (SubmitWrite _ _ _ fua) = (\<not> fua)"
| "cp_event (WaitOn _ _) = True"
| "cp_event _ = False"

definition logs :: "world \<Rightarrow> io_event list \<Rightarrow> world \<Rightarrow> bool" where
  "logs w es w' = (iolog w' = iolog w @ es \<and> list_all cp_event es)"

named_theorems io_steps

lemma io_step_refl [simp]: "io_step w w"
  by (simp add: io_step_def)

lemma io_step_trans [trans]: "io_step w w' \<Longrightarrow> io_step w' w'' \<Longrightarrow> io_step w w''"
  by (simp add: io_step_def)

lemma logs_trans [trans]: "logs w es w' \<Longrightarrow> logs w' es' w'' \<Longrightarrow> logs w (es @ es') w''"
  by (simp add: logs_def)

lemma io_step_get_bh [io_steps]: "io_step w (get_bh bh w)"
  by (simp add: io_step_def get_bh_def)

lemma io_step_brelse [io_steps]: "io_step w (u_brelse bh w)"
  by (simp add: io_step_def u_brelse_def)

lemma io_step_wait [io_steps]: "io_step w (wait_on_buffer k bh w)"
  by (auto simp: io_step_def wait_on_buffer_def Let_def split: option.splits)

lemma io_step_submit [io_steps]: "io_step w (submit_bh_write fua bh w)"
  by (auto simp: io_step_def submit_bh_write_def split: option.splits)

lemma io_step_upd [io_steps]:
  "(\<And>b. bh_jbd (f b) = bh_jbd b \<and> b_private (f b) = b_private b \<and> bh_jbddirty (f b) = bh_jbddirty b \<and>
     b_blocknr (f b) = b_blocknr b \<and> b_data (f b) = b_data b \<and> b_bdev (f b) = b_bdev b) \<Longrightarrow>
   io_step w (upd_bh bh f w)"
  by (simp add: io_step_def)

lemma io_step_write [io_steps]: "io_step w (write_dirty_buffer k bh w)"
proof -
  let ?w = "wait_on_buffer k bh w"
  have "io_step ?w (submit_bh_write False bh (upd_bh bh (\<lambda>b. b\<lparr>bh_dirty := False, bh_lock := True\<rparr>) ?w))"
    by (rule io_step_trans [OF io_step_upd io_step_submit]) simp
  then show ?thesis
    unfolding write_dirty_buffer_def Let_def
    by (auto intro: io_step_wait io_step_trans [OF io_step_wait])
qed

lemma io_step_flush_one [io_steps]: "io_step w (flush_one k bh w)"
  unfolding flush_one_def by (rule io_step_trans [OF io_step_upd io_step_write]) simp

lemma io_step_release_one [io_steps]: "io_step w (release_one bh w)"
  unfolding release_one_def by (rule io_step_trans [OF io_step_upd io_step_brelse]) simp

lemma io_step_fold: "(\<And>x w. io_step w (f x w)) \<Longrightarrow> io_step w (fold f xs w)"
  by (induction xs arbitrary: w) (auto intro: io_step_trans)

lemma io_step_flush_batch [io_steps]: "io_step w (u_flush_batch k w batch)"
  unfolding u_flush_batch_def by (blast intro: io_step_trans io_step_fold io_steps)

lemma get_brelse_sel [simp]:
  "iolog (get_bh bh w) = iolog w" "iolog (u_brelse bh w) = iolog w"
  "bh_lock (bhs (get_bh bh w) b) = bh_lock (bhs w b)" "bh_lock (bhs (u_brelse bh w) b) = bh_lock (bhs w b)"
  "bh_dirty (bhs (get_bh bh w) b) = bh_dirty (bhs w b)" "bh_dirty (bhs (u_brelse bh w) b) = bh_dirty (bhs w b)"
  "bh_jwrite (bhs (get_bh bh w) b) = bh_jwrite (bhs w b)" "bh_jwrite (bhs (u_brelse bh w) b) = bh_jwrite (bhs w b)"
  by (simp_all add: get_bh_def u_brelse_def)

text \<open>What the operations do to the bits that direct the loops.\<close>

lemma wait_sel [simp]:
  "bh_lock (bhs (wait_on_buffer k bh w) b) = (b \<noteq> bh \<and> bh_lock (bhs w b))"
  "bh_dirty (bhs (wait_on_buffer k bh w) b) = bh_dirty (bhs w b)"
  "bh_jwrite (bhs (wait_on_buffer k bh w) b) = bh_jwrite (bhs w b)"
  by (auto simp: wait_on_buffer_def Let_def split: option.splits)

lemma wait_logs: "\<exists>es. logs w es (wait_on_buffer k bh w)"
  by (auto simp: wait_on_buffer_def logs_def Let_def split: option.splits)

lemma flush_one_sel:
  "b \<noteq> bh \<Longrightarrow> bhs (flush_one k bh w) b = bhs w b"
  "bh_jwrite (bhs (flush_one k bh w) b) = bh_jwrite (bhs w b)"
  "\<not> bh_dirty (bhs (flush_one k bh w) bh)"
  by (auto simp: flush_one_def write_dirty_buffer_def submit_bh_write_def wait_on_buffer_def Let_def
      split: option.splits)

lemma flush_one_logs:
  "\<exists>es. logs w es (flush_one k bh w) \<and>
     (bh_dirty (bhs w bh) \<longrightarrow> b_bdev (bhs w bh) = Some d \<longrightarrow>
        SubmitWrite d (b_blocknr (bhs w bh)) (b_data (bhs w bh)) False \<in> set es)"
proof -
  define w0 where "w0 = upd_bh bh (\<lambda>b. b\<lparr>b_blocktype := B_BLOCKTYPE_NORMAL, b_delayed_write := False\<rparr>) w"
  define w1 where "w1 = wait_on_buffer k bh w0"
  have io: "io_step w0 w1" "bh_dirty (bhs w1 bh) = bh_dirty (bhs w0 bh)"
    by (simp_all add: w1_def io_steps)
  have sel: "bh_dirty (bhs w0 bh) = bh_dirty (bhs w bh)" "b_bdev (bhs w0 bh) = b_bdev (bhs w bh)"
    "b_blocknr (bhs w0 bh) = b_blocknr (bhs w bh)" "b_data (bhs w0 bh) = b_data (bhs w bh)" "iolog w0 = iolog w"
    by (simp_all add: w0_def)
  obtain es where es: "logs w0 es w1" using wait_logs w1_def by metis
  let ?out = "case b_bdev (bhs w bh) of
    None \<Rightarrow> [] | Some d \<Rightarrow> [SubmitWrite d (b_blocknr (bhs w bh)) (b_data (bhs w bh)) False]"
  have "iolog (flush_one k bh w) = iolog w1 @ (if bh_dirty (bhs w bh) then ?out else [])"
    using io sel by (simp add: flush_one_def write_dirty_buffer_def Let_def submit_bh_write_def io_step_def
        flip: w0_def w1_def split: option.splits)
  then show ?thesis
    using es sel by (intro exI [of _ "es @ (if bh_dirty (bhs w bh) then ?out else [])"])
      (auto simp: logs_def split: option.splits)
qed

lemma fold_flush_one:
  fixes w :: world and k :: kernel_env
  assumes "distinct batch"
  defines "w' \<equiv> fold (flush_one k) batch w"
  shows "b \<notin> set batch \<Longrightarrow> bhs w' b = bhs w b"
    and "b \<in> set batch \<Longrightarrow> \<not> bh_dirty (bhs w' b)"
    and "\<exists>es. logs w es w' \<and> (\<forall>b\<in>set batch. bh_dirty (bhs w b) \<longrightarrow> b_bdev (bhs w b) = Some d \<longrightarrow>
        SubmitWrite d (b_blocknr (bhs w b)) (b_data (bhs w b)) False \<in> set es)"
  using assms(1) unfolding w'_def
proof (induction batch arbitrary: w)
  case (Cons x batch)
  {
    case 1
    then show ?case using Cons.IH(1) by (simp add: flush_one_sel)
  next
    case 2
    then show ?case
      using Cons.IH(1,2) flush_one_sel(3) [of k x w] by (cases "b = x") auto
  next
    case 3
    let ?w = "flush_one k x w"
    obtain es where es: "logs w es ?w" "bh_dirty (bhs w x) \<longrightarrow> b_bdev (bhs w x) = Some d \<longrightarrow>
        SubmitWrite d (b_blocknr (bhs w x)) (b_data (bhs w x)) False \<in> set es"
      using flush_one_logs by metis
    obtain es' where es': "logs ?w es' (fold (flush_one k) batch ?w)"
      "\<forall>b\<in>set batch. bh_dirty (bhs ?w b) \<longrightarrow> b_bdev (bhs ?w b) = Some d \<longrightarrow>
        SubmitWrite d (b_blocknr (bhs ?w b)) (b_data (bhs ?w b)) False \<in> set es'"
      using Cons.IH(3) [of ?w] 3 by auto
    have "bhs ?w b = bhs w b" if "b \<in> set batch" for b
      using that 3 by (auto intro: flush_one_sel)
    then show ?case
      using logs_trans [OF es(1) es'(1)] es(2) es'(2) by (intro exI [of _ "es @ es'"]) auto
  }
qed (auto simp: logs_def)

lemma fold_release_one:
  "iolog (fold release_one batch w) = iolog w"
  "b \<notin> set batch \<Longrightarrow> bhs (fold release_one batch w) b = bhs w b"
  "bh_dirty (bhs (fold release_one batch w) b) = bh_dirty (bhs w b)"
  "bh_lock (bhs (fold release_one batch w) b) = bh_lock (bhs w b)"
  by (induction batch arbitrary: w) (auto simp: release_one_def u_brelse_def)

lemma flush_batch_ok:
  fixes w :: world and k :: kernel_env
  assumes "distinct batch"
  defines "w' \<equiv> u_flush_batch k w batch"
  shows "b \<notin> set batch \<Longrightarrow> bhs w' b = bhs w b"
    and "b \<in> set batch \<Longrightarrow> \<not> bh_dirty (bhs w' b)"
    and "\<exists>es. logs w es w' \<and> (\<forall>b\<in>set batch. bh_dirty (bhs w b) \<longrightarrow> b_bdev (bhs w b) = Some d \<longrightarrow>
        SubmitWrite d (b_blocknr (bhs w b)) (b_data (bhs w b)) False \<in> set es)"
  using fold_flush_one(1,2) [OF assms(1), where w = w and k = k] fold_flush_one(3) [OF assms(1), of w k d]
  by (auto simp: w'_def u_flush_batch_def fold_release_one logs_def)

section \<open>Removing a buffer from its checkpoint list\<close>

definition cp_buf :: "world \<Rightarrow> tptr \<Rightarrow> jptr \<Rightarrow> bool" where
  "cp_buf w t jh =
     (attached w jh \<and> b_cp_transaction (jhs w jh) = Some t \<and> b_transaction (jhs w jh) = None \<and>
      b_next_transaction (jhs w jh) = None \<and> b_jlist (jhs w jh) = BJ_None \<and> 0 < b_jcount (jhs w jh) \<and>
      \<not> bh_jbddirty (bhs w (b_bh (jhs w jh))))"

text \<open>A transaction that has nothing but checkpoint buffers left.\<close>

definition cp_finished :: "world \<Rightarrow> tptr \<Rightarrow> bool" where
  "cp_finished w t =
     (let tr = trs w t
      in t_state tr = T_FINISHED \<and> t_buffers tr = [] \<and> t_forget tr = [] \<and> t_iobuf_list tr = [] \<and>
         t_shadow_list tr = [] \<and> t_log_list tr = [] \<and> t_updates tr = 0 \<and>
         j_committing_transaction (jnl w) \<noteq> Some t \<and> j_running_transaction (jnl w) \<noteq> Some t)"

abbreviation cp_list :: "world \<Rightarrow> tptr \<Rightarrow> jptr list" where
  "cp_list w t \<equiv> t_checkpoint_list (trs w t)"

abbreviation io_list :: "world \<Rightarrow> tptr \<Rightarrow> jptr list" where
  "io_list w t \<equiv> t_checkpoint_io_list (trs w t)"

abbreviation buf :: "world \<Rightarrow> jptr \<Rightarrow> buffer_head" where
  "buf w jh \<equiv> bhs w (b_bh (jhs w jh))"

lemma cp_buf_io_step: "io_step w w' \<Longrightarrow> cp_buf w' t jh = cp_buf w t jh"
  by (simp add: io_step_def cp_buf_def attached_def)

lemma cp_finished_io_step: "io_step w w' \<Longrightarrow> cp_finished w' t = cp_finished w t"
  by (simp add: io_step_def cp_finished_def)

text \<open>What a buffer is a copy of: device, block number and contents.\<close>

definition block_of :: "world \<Rightarrow> bptr \<Rightarrow> dev option \<times> u64 \<times> bytes" where
  "block_of w b = (b_bdev (bhs w b), b_blocknr (bhs w b), b_data (bhs w b))"

lemma block_of_io_step: "io_step w w' \<Longrightarrow> block_of w' b = block_of w b"
  by (simp add: io_step_def block_of_def)

text \<open>Dropping the reference the checkpoint list holds.\<close>

lemma put_head_ok:
  assumes "attached w jh" "b_cp_transaction (jhs w jh) = None" "b_transaction (jhs w jh) = None"
    "b_next_transaction (jhs w jh) = None" "b_jlist (jhs w jh) = BJ_None" "0 < b_jcount (jhs w jh)"
  shows "\<exists>w'. jbdbf_journal_put_journal_bf_head w jh = Some w' \<and> jnl w' = jnl w \<and> trs w' = trs w \<and>
    iolog w' = iolog w \<and> jiffies w' = jiffies w \<and> (\<forall>j. j \<noteq> jh \<longrightarrow> jhs w' j = jhs w j) \<and>
    (\<forall>j. b_bh (jhs w' j) = b_bh (jhs w j)) \<and>
    (\<forall>b. b \<noteq> b_bh (jhs w jh) \<longrightarrow> bhs w' b = bhs w b) \<and>
    (\<forall>b. bh_dirty (bhs w' b) = bh_dirty (bhs w b) \<and> bh_lock (bhs w' b) = bh_lock (bhs w b) \<and>
      block_of w' b = block_of w b)"
  using assms
  by (auto simp: jbdbf_journal_put_journal_bf_head_def u_journal_remove_journal_bf_head_def u_brelse_def
      attached_def block_of_def j_assert_def Let_def)

definition removed :: "world \<Rightarrow> tptr \<Rightarrow> jptr \<Rightarrow> world \<Rightarrow> bool" where
  "removed w t jh w' =
     (cp_list w' t = remove1 jh (cp_list w t) \<and> io_list w' t = remove1 jh (io_list w t) \<and>
      cp_finished w' t \<and> t_tid (trs w' t) = t_tid (trs w t) \<and> (\<forall>t'. t' \<noteq> t \<longrightarrow> trs w' t' = trs w t') \<and>
      iolog w' = iolog w \<and> (\<forall>j. j \<noteq> jh \<longrightarrow> jhs w' j = jhs w j) \<and> (\<forall>j. b_bh (jhs w' j) = b_bh (jhs w j)) \<and>
      (\<forall>b. b \<noteq> b_bh (jhs w jh) \<longrightarrow> bhs w' b = bhs w b) \<and>
      (\<forall>b. bh_dirty (bhs w' b) = bh_dirty (bhs w b) \<and> bh_lock (bhs w' b) = bh_lock (bhs w b) \<and>
           block_of w' b = block_of w b))"

definition drop_first :: "tptr \<Rightarrow> journal \<Rightarrow> journal" where
  "drop_first t j = j\<lparr>j_checkpoint_transactions := remove1 t (j_checkpoint_transactions j)\<rparr>"

lemma drop_transaction_ok:
  assumes "cp_finished w t" "cp_list w t = []" "io_list w t = []"
  shows "u_jbdbf_journal_drop_transaction w t = Some (upd_jnl (drop_first t) w)"
proof -
  have "(\<lambda>j. j\<lparr>j_checkpoint_transactions := remove1 t (j_checkpoint_transactions j)\<rparr>) = drop_first t"
    by (simp add: drop_first_def fun_eq_iff)
  then show ?thesis
    using assms
    by (simp add: u_jbdbf_journal_drop_transaction_def cp_finished_def j_assert_def Let_def drop_first_def)
qed

lemma remove_checkpoint_ok:
  assumes buf: "cp_buf w t jh" and on: "jh \<in> set (cp_list w t) \<union> set (io_list w t)" and fin: "cp_finished w t"
  shows "\<exists>w' r. u_jbdbf_journal_remove_checkpoint w jh = Some (w', r) \<and> removed w t jh w' \<and>
    (if cp_list w' t = [] \<and> io_list w' t = [] then r = 1 \<and> jnl w' = drop_first t (jnl w)
     else r = 0 \<and> jnl w' = jnl w)"
proof -
  let ?f = "\<lambda>tr. tr\<lparr>t_checkpoint_list := remove1 jh (t_checkpoint_list tr),
    t_checkpoint_io_list := remove1 jh (t_checkpoint_io_list tr)\<rparr>"
  let ?g = "\<lambda>h. h\<lparr>b_cp_transaction := None\<rparr>"
  define w1 where "w1 = upd_jh jh ?g (upd_tr t ?f w)"
  have cp: "b_cp_transaction (jhs w jh) = Some t" using buf by (simp add: cp_buf_def)
  have unlink: "u_buffer_unlink w jh = Some (upd_tr t ?f w)"
    using cp on by (simp add: u_buffer_unlink_def j_assert_def)
  obtain w2 where w2: "jbdbf_journal_put_journal_bf_head w1 jh = Some w2" "jnl w2 = jnl w1" "trs w2 = trs w1"
    "iolog w2 = iolog w1" "jiffies w2 = jiffies w1" "\<forall>j. j \<noteq> jh \<longrightarrow> jhs w2 j = jhs w1 j"
    "\<forall>j. b_bh (jhs w2 j) = b_bh (jhs w1 j)" "\<forall>b. b \<noteq> b_bh (jhs w1 jh) \<longrightarrow> bhs w2 b = bhs w1 b"
    "\<forall>b. bh_dirty (bhs w2 b) = bh_dirty (bhs w1 b) \<and> bh_lock (bhs w2 b) = bh_lock (bhs w1 b) \<and>
      block_of w2 b = block_of w1 b"
    using put_head_ok [of w1 jh] buf by (auto simp: w1_def cp_buf_def attached_def)
  have fin2: "cp_finished w2 t" using fin w2(2,3) by (simp add: cp_finished_def w1_def Let_def)
  have rem: "removed w t jh w2"
    using w2 fin2 unfolding removed_def w1_def by (auto simp: block_of_def)
  show ?thesis
  proof (cases "cp_list w2 t = [] \<and> io_list w2 t = []")
    case False
    then have "u_jbdbf_journal_remove_checkpoint w jh = Some (w2, 0)"
      using cp unlink w2(1) by (auto simp: u_jbdbf_journal_remove_checkpoint_def w1_def)
    then show ?thesis using False rem w2(2) by (auto simp: w1_def)
  next
    case True
    let ?h = "\<lambda>tr. tr\<lparr>cs_chp_time := jbdbf_time_diff (cs_chp_time tr) (jiffies w2)\<rparr>"
    define w3 where "w3 = (if cs_chp_time (trs w2 t) \<noteq> 0 then upd_tr t ?h w2 else w2)"
    have sel: "jnl w3 = jnl w2" "jhs w3 = jhs w2" "bhs w3 = bhs w2" "iolog w3 = iolog w2"
      "cp_list w3 t = []" "io_list w3 t = []" "t_tid (trs w3 t) = t_tid (trs w2 t)"
      "\<forall>t'. t' \<noteq> t \<longrightarrow> trs w3 t' = trs w2 t'"
      using True by (auto simp: w3_def)
    have fin3: "cp_finished w3 t" using fin2 by (simp add: cp_finished_def w3_def Let_def)
    then have fin4: "cp_finished (upd_jnl (drop_first t) w3) t" by (simp add: cp_finished_def drop_first_def)
    have "u_jbdbf_journal_remove_checkpoint w jh = Some (upd_jnl (drop_first t) w3, 1)"
      using cp unlink w2(1) True fin2 drop_transaction_ok [OF fin3 sel(5,6)]
      by (simp add: u_jbdbf_journal_remove_checkpoint_def cp_finished_def w3_def Let_def flip: w1_def)
    moreover have "removed w t jh (upd_jnl (drop_first t) w3)"
      using rem sel fin4 True unfolding removed_def by (auto simp: block_of_def)
    ultimately show ?thesis using sel w2(2) True by (auto simp: w1_def)
  qed
qed

lemma removed_cp_buf:
  assumes r: "removed w t jh w'" and b: "cp_buf w t j" "cp_buf w t jh" "j \<noteq> jh"
  shows "cp_buf w' t j"
proof -
  have "b_bh (jhs w j) \<noteq> b_bh (jhs w jh)"
    using b attached_inj unfolding cp_buf_def by blast
  then show ?thesis using r b unfolding removed_def cp_buf_def attached_def by auto
qed

section \<open>The invariant of the loops\<close>

definition write_of :: "world \<Rightarrow> dev \<Rightarrow> jptr \<Rightarrow> io_event" where
  "write_of w d jh = SubmitWrite d (b_blocknr (buf w jh)) (b_data (buf w jh)) False"

text \<open>
  The transaction is still the oldest one and has buffers left, or it has none and was
  dropped.
\<close>

definition cp_alive :: "world \<Rightarrow> tptr \<Rightarrow> world \<Rightarrow> bool" where
  "cp_alive w0 t w = (jnl w = jnl w0 \<and> cp_list w t @ io_list w t \<noteq> [])"

definition cp_dropped :: "world \<Rightarrow> tptr \<Rightarrow> world \<Rightarrow> bool" where
  "cp_dropped w0 t w = (jnl w = drop_first t (jnl w0) \<and> cp_list w t = [] \<and> io_list w t = [])"

definition cp_static :: "world \<Rightarrow> tptr \<Rightarrow> world \<Rightarrow> bool" where
  "cp_static w0 t w =
     (t_tid (trs w t) = t_tid (trs w0 t) \<and> (\<forall>t'. t' \<noteq> t \<longrightarrow> trs w t' = trs w0 t') \<and>
      (\<forall>j. b_bh (jhs w j) = b_bh (jhs w0 j)) \<and> (\<forall>b. block_of w b = block_of w0 b))"

definition cp_shape :: "tptr \<Rightarrow> world \<Rightarrow> bptr list \<Rightarrow> bool" where
  "cp_shape t w batch =
     (cp_finished w t \<and> distinct (cp_list w t @ io_list w t) \<and>
      (\<forall>jh\<in>set (cp_list w t) \<union> set (io_list w t). cp_buf w t jh) \<and>
      (\<forall>jh\<in>set (cp_list w t). \<not> bh_jwrite (buf w jh)) \<and>
      distinct batch \<and> set batch \<subseteq> (\<lambda>jh. b_bh (jhs w jh)) ` set (io_list w t))"

text \<open>Every dirty buffer is still to be written or has been submitted.\<close>

definition cp_goal :: "world \<Rightarrow> dev \<Rightarrow> tptr \<Rightarrow> world \<Rightarrow> bptr list \<Rightarrow> io_event list \<Rightarrow> bool" where
  "cp_goal w0 d t w batch es =
     (\<forall>jh\<in>set (cp_list w0 t). bh_dirty (buf w0 jh) \<longrightarrow>
        (jh \<in> set (cp_list w t) \<or> b_bh (jhs w jh) \<in> set batch) \<and> bh_dirty (buf w jh) \<or>
        write_of w0 d jh \<in> set es)"

definition cp_inv :: "world \<Rightarrow> dev \<Rightarrow> tptr \<Rightarrow> world \<Rightarrow> bptr list \<Rightarrow> io_event list \<Rightarrow> bool" where
  "cp_inv w0 d t w batch es =
     (logs w0 es w \<and> (cp_alive w0 t w \<or> cp_dropped w0 t w) \<and> cp_static w0 t w \<and>
      cp_shape t w batch \<and> cp_goal w0 d t w batch es)"

lemmas cp_inv_defs = cp_inv_def cp_alive_def cp_dropped_def cp_static_def cp_shape_def cp_goal_def

definition n_locked :: "world \<Rightarrow> jptr list \<Rightarrow> nat" where
  "n_locked w xs = length (filter (\<lambda>jh. bh_lock (buf w jh)) xs)"

definition cp_left :: "world \<Rightarrow> tptr \<Rightarrow> nat" where
  "cp_left w t = length (cp_list w t) + n_locked w (cp_list w t)"

definition io_left :: "world \<Rightarrow> tptr \<Rightarrow> nat" where
  "io_left w t = length (io_list w t) + n_locked w (io_list w t)"

text \<open>Different buffers of the lists have different buffer heads.\<close>

lemma cp_shape_inj:
  assumes "cp_shape t w batch" "j \<in> set (cp_list w t) \<union> set (io_list w t)"
    "j' \<in> set (cp_list w t) \<union> set (io_list w t)" "b_bh (jhs w j) = b_bh (jhs w j')"
  shows "j = j'"
  using assms attached_inj unfolding cp_shape_def cp_buf_def by blast

lemma cp_shape_batch:
  assumes "cp_shape t w batch" "j \<in> set (cp_list w t)"
  shows "b_bh (jhs w j) \<notin> set batch"
proof
  assume "b_bh (jhs w j) \<in> set batch"
  then obtain j' where "j' \<in> set (io_list w t)" "b_bh (jhs w j) = b_bh (jhs w j')"
    using assms(1) unfolding cp_shape_def by auto
  then show False using cp_shape_inj [OF assms(1), of j j'] assms unfolding cp_shape_def by auto
qed

text \<open>Steps that leave the dirty and jwrite bits alone.\<close>

lemma cp_inv_io_step:
  assumes inv: "cp_inv w0 d t w batch es" and io: "io_step w w'" "logs w es' w'"
    and bits: "\<And>b. bh_dirty (bhs w' b) = bh_dirty (bhs w b)" "\<And>b. bh_jwrite (bhs w' b) = bh_jwrite (bhs w b)"
  shows "cp_inv w0 d t w' batch (es @ es')"
proof -
  have eqs: "jnl w' = jnl w" "trs w' = trs w" "jhs w' = jhs w" using io(1) by (auto simp: io_step_def)
  have "logs w0 (es @ es') w'" using inv io(2) logs_trans by (auto simp: cp_inv_def)
  moreover have "cp_shape t w' batch"
    using inv bits eqs cp_buf_io_step [OF io(1)] cp_finished_io_step [OF io(1)]
    unfolding cp_inv_def cp_shape_def by simp
  moreover have "cp_goal w0 d t w' batch (es @ es')"
    using inv bits eqs unfolding cp_inv_def cp_goal_def by auto
  ultimately show ?thesis
    using inv eqs block_of_io_step [OF io(1)]
    by (simp add: cp_inv_def cp_alive_def cp_dropped_def cp_static_def)
qed

lemma cp_inv_remove:
  assumes inv: "cp_inv w0 d t w batch es" and alive: "cp_alive w0 t w"
    and jh: "jh \<in> set (cp_list w t) \<and> \<not> bh_dirty (buf w jh) \<or> jh \<in> set (io_list w t) \<and> batch = []"
  shows "\<exists>w' r. u_jbdbf_journal_remove_checkpoint w jh = Some (w', r) \<and> cp_inv w0 d t w' batch es \<and>
    removed w t jh w' \<and> (r \<noteq> 0 \<longleftrightarrow> cp_dropped w0 t w')"
proof -
  have sh: "cp_shape t w batch" and st: "cp_static w0 t w" and goal: "cp_goal w0 d t w batch es"
    and lg: "logs w0 es w" using inv by (auto simp: cp_inv_def)
  have on: "jh \<in> set (cp_list w t) \<union> set (io_list w t)" using jh by auto
  have bufs: "cp_buf w t j" if "j \<in> set (cp_list w t) \<union> set (io_list w t)" for j
    using sh that unfolding cp_shape_def by blast
  have dist: "distinct (cp_list w t)" "distinct (io_list w t)" "set (cp_list w t) \<inter> set (io_list w t) = {}"
    using sh by (auto simp: cp_shape_def)
  obtain w' r where w': "u_jbdbf_journal_remove_checkpoint w jh = Some (w', r)" and rem: "removed w t jh w'"
    and res: "if cp_list w' t = [] \<and> io_list w' t = [] then r = 1 \<and> jnl w' = drop_first t (jnl w)
      else r = 0 \<and> jnl w' = jnl w"
    using remove_checkpoint_ok [OF bufs [OF on] on] sh unfolding cp_shape_def by auto
  have lists: "set (cp_list w' t) = set (cp_list w t) - {jh}" "set (io_list w' t) = set (io_list w t) - {jh}"
    "distinct (cp_list w' t)" "distinct (io_list w' t)"
    using rem dist by (auto simp: removed_def)
  have same: "jhs w' j = jhs w j" "bhs w' (b_bh (jhs w j)) = bhs w (b_bh (jhs w j))"
    if "j \<in> set (cp_list w t) \<union> set (io_list w t)" "j \<noteq> jh" for j
    using rem that cp_shape_inj [OF sh that(1) on] unfolding removed_def by auto
  have dirty: "bh_dirty (bhs w' b) = bh_dirty (bhs w b)" "b_bh (jhs w' j) = b_bh (jhs w j)" for b j
    using rem by (auto simp: removed_def)
  have "cp_shape t w' batch"
    unfolding cp_shape_def
  proof (intro conjI ballI)
    show "cp_finished w' t" using rem by (simp add: removed_def)
    show "distinct (cp_list w' t @ io_list w' t)" using lists dist(3) by auto
    show "cp_buf w' t j" if "j \<in> set (cp_list w' t) \<union> set (io_list w' t)" for j
      using removed_cp_buf [OF rem bufs bufs [OF on]] that lists by blast
    show "\<not> bh_jwrite (buf w' j)" if "j \<in> set (cp_list w' t)" for j
      using that same [of j] sh lists unfolding cp_shape_def by auto
    show "distinct batch" using sh by (simp add: cp_shape_def)
    show "set batch \<subseteq> (\<lambda>j. b_bh (jhs w' j)) ` set (io_list w' t)"
    proof -
      have "batch = [] \<or> set (io_list w' t) = set (io_list w t)" using jh lists(2) dist(3) by auto
      then show ?thesis using sh unfolding cp_shape_def dirty by auto
    qed
  qed
  moreover have "cp_goal w0 d t w' batch es"
    using goal jh lists dist(3) unfolding cp_goal_def dirty by auto
  moreover have "cp_static w0 t w'"
    using st rem unfolding cp_static_def removed_def by auto
  moreover have "logs w0 es w'" using lg rem by (simp add: logs_def removed_def)
  moreover have "cp_alive w0 t w' \<and> r = 0 \<and> \<not> cp_dropped w0 t w' \<or> cp_dropped w0 t w' \<and> r \<noteq> 0"
    using alive res unfolding cp_alive_def cp_dropped_def by (auto split: if_splits)
  ultimately show ?thesis using w' rem by (auto simp: cp_inv_def)
qed

lemma cp_inv_flush:
  assumes inv: "cp_inv w0 d t w batch es" and dev: "\<And>j. j \<in> set (cp_list w0 t) \<Longrightarrow> b_bdev (buf w0 j) = Some d"
  shows "\<exists>es'. cp_inv w0 d t (u_flush_batch k w batch) [] (es @ es')"
proof -
  let ?w = "u_flush_batch k w batch"
  have sh: "cp_shape t w batch" and st: "cp_static w0 t w" and goal: "cp_goal w0 d t w batch es"
    and lg: "logs w0 es w" using inv by (auto simp: cp_inv_def)
  have db: "distinct batch" using sh by (simp add: cp_shape_def)
  have io: "io_step w ?w" by (rule io_step_flush_batch)
  have eqs: "jnl ?w = jnl w" "trs ?w = trs w" "jhs ?w = jhs w" using io by (auto simp: io_step_def)
  obtain es' where es': "logs w es' ?w" "\<forall>b\<in>set batch. bh_dirty (bhs w b) \<longrightarrow> b_bdev (bhs w b) = Some d \<longrightarrow>
        SubmitWrite d (b_blocknr (bhs w b)) (b_data (bhs w b)) False \<in> set es'"
    using flush_batch_ok(3) [OF db] by metis
  have same: "bhs ?w b = bhs w b" if "b \<notin> set batch" for b
    using flush_batch_ok(1) [OF db that] .
  have cpb: "bhs ?w (b_bh (jhs w j)) = bhs w (b_bh (jhs w j))" if "j \<in> set (cp_list w t)" for j
    using same cp_shape_batch [OF sh that] .
  have "cp_shape t ?w []"
    using sh cpb cp_buf_io_step [OF io] cp_finished_io_step [OF io] unfolding cp_shape_def eqs by auto
  moreover have "cp_goal w0 d t ?w [] (es @ es')"
    unfolding cp_goal_def
  proof (intro ballI impI)
    fix jh
    assume jh: "jh \<in> set (cp_list w0 t)" "bh_dirty (buf w0 jh)"
    have blk: "block_of w (b_bh (jhs w jh)) = block_of w0 (b_bh (jhs w0 jh))"
      using st by (simp add: cp_static_def)
    consider "jh \<in> set (cp_list w t)" "bh_dirty (buf w jh)" | "b_bh (jhs w jh) \<in> set batch" "bh_dirty (buf w jh)"
      | "write_of w0 d jh \<in> set es"
      using goal jh unfolding cp_goal_def by blast
    then show "(jh \<in> set (cp_list ?w t) \<or> b_bh (jhs ?w jh) \<in> set []) \<and> bh_dirty (buf ?w jh) \<or>
        write_of w0 d jh \<in> set (es @ es')"
    proof cases
      case 2
      then show ?thesis
        using es'(2) blk dev [OF jh(1)] by (auto simp: write_of_def block_of_def)
    qed (auto simp: eqs cpb)
  qed
  ultimately show ?thesis
    using inv logs_trans [OF lg es'(1)] block_of_io_step [OF io]
    by (intro exI [of _ es']) (simp add: cp_inv_def cp_alive_def cp_dropped_def cp_static_def eqs)
qed

lemma cp_inv_queue:
  assumes inv: "cp_inv w0 d t w batch es" and alive: "cp_alive w0 t w"
    and cp: "cp_list w t = jh # xs" and dirty: "bh_dirty (buf w jh)"
  defines "bh \<equiv> b_bh (jhs w jh)"
  defines "w1 \<equiv> upd_bh bh (\<lambda>b. b\<lparr>bh_jwrite := True\<rparr>) (get_bh bh w)"
  shows "\<exists>w2. u_buffer_relink_io w1 jh = Some w2 \<and>
    cp_inv w0 d t (upd_tr t (\<lambda>tr. tr\<lparr>cs_written := cs_written tr + 1\<rparr>) w2) (batch @ [bh]) es \<and>
    cp_list w2 t = xs \<and> (\<forall>j. buf w2 j = buf w j \<or> bh_lock (buf w2 j) = bh_lock (buf w j)) \<and> jhs w2 = jhs w \<and>
    (\<forall>b. bh_lock (bhs w2 b) = bh_lock (bhs w b))"
proof -
  let ?f = "\<lambda>tr. tr\<lparr>cs_written := cs_written tr + 1\<rparr>"
  define w2 where "w2 = upd_tr t (\<lambda>tr. tr\<lparr>t_checkpoint_io_list := jh # t_checkpoint_io_list tr\<rparr>)
    (upd_tr t (\<lambda>tr. tr\<lparr>t_checkpoint_list := remove1 jh (t_checkpoint_list tr)\<rparr>) w1)"
  define w3 where "w3 = upd_tr t ?f w2"
  have sh: "cp_shape t w batch" and st: "cp_static w0 t w" and goal: "cp_goal w0 d t w batch es"
    and lg: "logs w0 es w" using inv by (auto simp: cp_inv_def)
  have io: "io_step w w1" unfolding w1_def by (rule io_step_trans [OF io_step_get_bh io_step_upd]) simp
  have eqs: "jnl w1 = jnl w" "trs w1 = trs w" "jhs w1 = jhs w" "iolog w1 = iolog w"
    using io by (auto simp: io_step_def w1_def)
  have cpt: "b_cp_transaction (jhs w jh) = Some t"
    using sh cp by (auto simp: cp_shape_def cp_buf_def)
  have rel: "u_buffer_relink_io w1 jh = Some w2"
    using cpt cp by (simp add: u_buffer_relink_io_def u_buffer_unlink_first_def j_assert_def eqs w2_def)
  have sel: "jnl w3 = jnl w" "jhs w3 = jhs w" "bhs w3 = bhs w1" "iolog w3 = iolog w"
    "cp_list w3 t = xs" "io_list w3 t = jh # io_list w t" "t_tid (trs w3 t) = t_tid (trs w t)"
    "\<forall>t'. t' \<noteq> t \<longrightarrow> trs w3 t' = trs w t'"
    using cp by (auto simp: w3_def w2_def eqs)
  have bits: "bh_dirty (bhs w1 b) = bh_dirty (bhs w b)" "bh_lock (bhs w1 b) = bh_lock (bhs w b)"
    "b \<noteq> bh \<Longrightarrow> bhs w1 b = bhs w b" for b
    by (auto simp: w1_def get_bh_def)
  have buf: "cp_buf w3 t j = cp_buf w t j" for j
    using cp_buf_io_step [OF io, of t j] by (simp add: cp_buf_def attached_def sel eqs)
  have nb: "bh \<notin> set batch" using cp_shape_batch [OF sh, of jh] cp by (simp add: bh_def)
  have other: "b_bh (jhs w j) \<noteq> bh" if "j \<in> set xs" for j
    using cp_shape_inj [OF sh, of j jh] that cp sh unfolding bh_def cp_shape_def by auto
  have "cp_shape t w3 (batch @ [bh])"
    using sh cp nb other bits(3) buf unfolding cp_shape_def sel
    by (auto simp: cp_finished_def sel w3_def w2_def eqs bh_def Let_def)
  moreover have "cp_goal w0 d t w3 (batch @ [bh]) es"
    using goal cp dirty bits(1) unfolding cp_goal_def sel bh_def by auto
  moreover have "cp_static w0 t w3"
    using st block_of_io_step [OF io] unfolding cp_static_def by (simp add: sel block_of_def)
  ultimately have "cp_inv w0 d t w3 (batch @ [bh]) es"
    using lg alive by (simp add: cp_inv_def cp_alive_def logs_def sel)
  moreover have "cp_list w2 t = xs" "jhs w2 = jhs w" "bhs w2 = bhs w1" using cp by (simp_all add: w2_def eqs)
  ultimately show ?thesis using rel bits(2) by (auto simp: w3_def)
qed

section \<open>The loops end\<close>

lemma n_locked_le:
  assumes "\<And>j. j \<in> set xs \<Longrightarrow> bh_lock (buf w' j) \<Longrightarrow> bh_lock (buf w j)"
  shows "n_locked w' xs \<le> n_locked w xs"
  using assms by (induction xs) (auto simp: n_locked_def)

text \<open>Flushing the batch does not touch the buffers left on the checkpoint list.\<close>

lemma cp_left_flush:
  assumes inv: "cp_inv w0 d t w batch es"
  shows "cp_left (u_flush_batch k w batch) t = cp_left w t"
proof -
  let ?w = "u_flush_batch k w batch"
  have sh: "cp_shape t w batch" "distinct batch" using inv by (auto simp: cp_inv_def cp_shape_def)
  have eqs: "trs ?w = trs w" "jhs ?w = jhs w"
    using io_step_flush_batch [of w k batch] by (auto simp: io_step_def)
  have "filter (\<lambda>j. bh_lock (buf ?w j)) (cp_list w t) = filter (\<lambda>j. bh_lock (buf w j)) (cp_list w t)"
    by (rule filter_cong) (simp_all add: eqs flush_batch_ok(1) [OF sh(2) cp_shape_batch [OF sh(1)]])
  then show ?thesis by (simp add: cp_left_def n_locked_def eqs)
qed

text \<open>One call of \<open>__process_buffer\<close> on the head of the checkpoint list.\<close>

lemma process_buffer_ok:
  assumes inv: "cp_inv w0 d t w batch es" and alive: "cp_alive w0 t w"
    and cp: "cp_list w t = jh # xs" and small: "length batch < JBD2_NR_BATCH"
    and dev: "\<And>j. j \<in> set (cp_list w0 t) \<Longrightarrow> b_bdev (buf w0 j) = Some d"
  shows "\<exists>w' batch' r es'. u_process_buffer k w jh batch t = Some (w', batch', r) \<and>
    cp_inv w0 d t w' batch' es' \<and> length batch' < JBD2_NR_BATCH \<and> r \<in> {0, 1, - EIO} \<and>
    cp_left w' t < cp_left w t \<and> (r = 0 \<longrightarrow> cp_alive w0 t w')"
proof -
  let ?bh = "b_bh (jhs w jh)"
  have sh: "cp_shape t w batch" using inv by (simp add: cp_inv_def)
  have buf: "cp_buf w t jh" using sh cp unfolding cp_shape_def by auto
  have tr: "b_transaction (jhs w jh) = None" "\<not> bh_jbddirty (bhs w ?bh)" using buf by (auto simp: cp_buf_def)
  have nj: "\<not> bh_jwrite (bhs w ?bh)" using sh cp unfolding cp_shape_def by auto
  show ?thesis
  proof (cases "bh_lock (bhs w ?bh)")
    case True
    let ?w = "u_brelse ?bh (wait_on_buffer k ?bh (get_bh ?bh w))"
    have io: "io_step w ?w" by (blast intro: io_step_trans io_steps)
    obtain es1 where "logs w es1 ?w" using wait_logs [of "get_bh ?bh w" k ?bh] by (auto simp: logs_def)
    note inv' = cp_inv_io_step [OF inv io this]
    have eqs: "trs ?w = trs w" "jhs ?w = jhs w" using io by (auto simp: io_step_def)
    have "n_locked ?w xs \<le> n_locked w xs" by (rule n_locked_le) (auto simp: eqs)
    then have "cp_left ?w t < cp_left w t"
      using True cp by (simp add: cp_left_def eqs n_locked_def)
    then show ?thesis
      using True small inv' by (auto simp: u_process_buffer_def Let_def)
  next
    case unlocked: False
    show ?thesis
    proof (cases "bh_dirty (bhs w ?bh)")
      case clean: False
      let ?w = "get_bh ?bh w"
      have logs1: "logs w [] ?w" by (simp add: logs_def)
      have inv1: "cp_inv w0 d t ?w batch es"
        using cp_inv_io_step [OF inv io_step_get_bh logs1] by simp
      have eqs: "trs ?w = trs w" "jhs ?w = jhs w" "jnl ?w = jnl w" by (simp_all add: get_bh_def)
      have "cp_alive w0 t ?w" using alive by (simp add: cp_alive_def eqs)
      then obtain w' r where w': "u_jbdbf_journal_remove_checkpoint ?w jh = Some (w', r)"
        "cp_inv w0 d t w' batch es" "removed ?w t jh w'"
        using cp_inv_remove [OF inv1, of jh] cp clean eqs by auto
      have logs2: "logs w' [] (u_brelse ?bh w')" by (simp add: logs_def)
      have inv2: "cp_inv w0 d t (u_brelse ?bh w') batch es"
        using cp_inv_io_step [OF w'(2) io_step_brelse logs2] by simp
      have l: "cp_list (u_brelse ?bh w') t = xs" "jhs (u_brelse ?bh w') = jhs w'"
        using w'(3) cp by (auto simp: removed_def eqs u_brelse_def)
      have "n_locked (u_brelse ?bh w') xs \<le> n_locked w xs"
        by (rule n_locked_le) (use w'(3) in \<open>auto simp: l removed_def eqs\<close>)
      then have "cp_left (u_brelse ?bh w') t < cp_left w t"
        using l cp by (simp add: cp_left_def n_locked_def)
      then show ?thesis
        using unlocked clean tr w'(1) inv2 small
        by (auto simp: u_process_buffer_def Let_def j_assert_def EIO_def)
    next
      case dirty: True
      let ?w1 = "upd_bh ?bh (\<lambda>b. b\<lparr>bh_jwrite := True\<rparr>) (get_bh ?bh w)"
      obtain w2 where w2: "u_buffer_relink_io ?w1 jh = Some w2"
        "cp_inv w0 d t (upd_tr t (\<lambda>tr. tr\<lparr>cs_written := cs_written tr + 1\<rparr>) w2) (batch @ [?bh]) es"
        "cp_list w2 t = xs" "jhs w2 = jhs w" "\<forall>b. bh_lock (bhs w2 b) = bh_lock (bhs w b)"
        using cp_inv_queue [OF inv alive cp dirty] by auto
      define w3 where "w3 = upd_tr t (\<lambda>tr. tr\<lparr>cs_written := cs_written tr + 1\<rparr>) w2"
      have l: "cp_list w3 t = xs" "jhs w3 = jhs w" "\<forall>b. bh_lock (bhs w3 b) = bh_lock (bhs w b)"
        using w2(3-5) by (auto simp: w3_def)
      have inv3: "cp_inv w0 d t w3 (batch @ [?bh]) es" using w2(2) by (simp add: w3_def)
      have alive3: "cp_alive w0 t w3"
        using inv3 by (auto simp: cp_inv_def cp_shape_def cp_dropped_def)
      have "n_locked w3 xs \<le> n_locked w xs" by (rule n_locked_le) (simp add: l)
      then have left3: "cp_left w3 t < cp_left w t" using l cp by (simp add: cp_left_def n_locked_def)
      have run: "u_process_buffer k w jh batch t =
          (if length (batch @ [?bh]) = JBD2_NR_BATCH then Some (u_flush_batch k w3 (batch @ [?bh]), [], 1)
           else Some (w3, batch @ [?bh], 0))"
        using unlocked dirty tr nj w2(1) by (simp add: u_process_buffer_def Let_def j_assert_def w3_def)
      show ?thesis
      proof (cases "length (batch @ [?bh]) = JBD2_NR_BATCH")
        case False
        then show ?thesis
          using run inv3 left3 alive3 small
          by (intro exI [of _ w3] exI [of _ "batch @ [?bh]"] exI [of _ 0] exI [of _ es]) auto
      next
        case True
        let ?w = "u_flush_batch k w3 (batch @ [?bh])"
        obtain es' where inv4: "cp_inv w0 d t ?w [] (es @ es')" using cp_inv_flush [OF inv3 dev] by blast
        have "cp_left ?w t = cp_left w3 t" by (rule cp_left_flush [OF inv3])
        then show ?thesis
          using run True inv4 left3
          by (intro exI [of _ ?w] exI [of _ "[]"] exI [of _ 1] exI [of _ "es @ es'"])
            (auto simp: JBD2_NR_BATCH_def)
      qed
    qed
  qed
qed

lemma checkpoint_scan_ok:
  assumes dev: "\<And>j. j \<in> set (cp_list w0 t) \<Longrightarrow> b_bdev (buf w0 j) = Some d"
    and "cp_inv w0 d t w batch es" "cp_alive w0 t w" "length batch < JBD2_NR_BATCH" "result \<in> {0, - EIO}"
  shows "\<exists>w' batch' retry result' es'. checkpoint_scan k w t batch result = Some (w', batch', retry, result') \<and>
    cp_inv w0 d t w' batch' es' \<and> result' \<in> {0, - EIO} \<and> (retry = 0 \<longrightarrow> cp_list w' t = [] \<and> cp_alive w0 t w') \<and>
    (cp_left w' t < cp_left w t \<or> retry = 0 \<and> batch' = batch \<and> w' = w)"
  using assms(2-)
proof (induction "cp_left w t" arbitrary: w batch es result rule: less_induct)
  case less
  note scan = checkpoint_scan.simps [of k w t batch result]
  show ?case
  proof (cases "cp_list w t")
    case Nil
    then show ?thesis using scan less.prems by auto
  next
    case (Cons jh xs)
    obtain w1 b1 r es1 where 1: "u_process_buffer k w jh batch t = Some (w1, b1, r)"
      "cp_inv w0 d t w1 b1 es1" "length b1 < JBD2_NR_BATCH" "r \<in> {0, 1, - EIO}" "cp_left w1 t < cp_left w t"
      "r = 0 \<longrightarrow> cp_alive w0 t w1"
      using process_buffer_ok [OF less.prems(1,2) Cons less.prems(3) dev] by metis
    let ?res = "if r < 0 \<and> result = 0 then r else result"
    have res: "?res \<in> {0, - EIO}" using 1(4) less.prems(4) by (auto simp: EIO_def)
    show ?thesis
    proof (cases "r = 0")
      case False
      then show ?thesis using scan Cons 1 res by (auto simp: Let_def)
    next
      case True
      obtain w' b' retry result' es' where "checkpoint_scan k w1 t b1 ?res = Some (w', b', retry, result')"
        "cp_inv w0 d t w' b' es'" "result' \<in> {0, - EIO}" "retry = 0 \<longrightarrow> cp_list w' t = [] \<and> cp_alive w0 t w'"
        "cp_left w' t < cp_left w1 t \<or> retry = 0 \<and> b' = b1 \<and> w' = w1"
        using less.hyps [OF 1(5) 1(2) _ 1(3) res] 1(6) True by auto
      then show ?thesis using scan Cons 1 True by (auto simp: Let_def)
    qed
  qed
qed

lemma first_alive:
  assumes "cp_static w0 t w" "j_checkpoint_transactions (jnl w0) = t # ts" "t \<notin> set ts"
  shows "cp_alive w0 t w \<Longrightarrow> is_first_cp w t (t_tid (trs w0 t))"
    and "cp_dropped w0 t w \<Longrightarrow> \<not> is_first_cp w t (t_tid (trs w0 t))"
  using assms by (auto simp: cp_alive_def cp_dropped_def cp_static_def is_first_cp_def drop_first_def
      dest: hd_in_set)

lemma wait_cp_io_ok:
  assumes ts: "j_checkpoint_transactions (jnl w0) = t # ts" "t \<notin> set ts"
    and "cp_inv w0 d t w [] es" "cp_alive w0 t w" "cp_list w t = []" "ret \<in> {0, - EIO}"
  shows "\<exists>w' ret' es'. wait_cp_io_loop k w t (t_tid (trs w0 t)) restart ret = Some (w', ret') \<and>
    cp_inv w0 d t w' [] es' \<and> cp_dropped w0 t w' \<and> ret' \<in> {0, - EIO}"
  using assms(3-)
proof (induction "io_left w t" arbitrary: w es restart ret rule: less_induct)
  case less
  let ?tid = "t_tid (trs w0 t)"
  have st: "cp_static w0 t w" using less.prems(1) by (simp add: cp_inv_def)
  note first = first_alive(1) [OF st ts less.prems(2)]
  obtain jh ys where io: "io_list w t = jh # ys"
    using less.prems by (cases "io_list w t") (auto simp: cp_alive_def)
  let ?bh = "b_bh (jhs w jh)"
  have eq: "trs (get_bh ?bh w) = trs w" "jhs (get_bh ?bh w) = jhs w" "jnl (get_bh ?bh w) = jnl w"
    by (simp_all add: get_bh_def)
  note loop = wait_cp_io_loop.simps [of k w t ?tid restart ret]
  show ?case
  proof (cases "bh_lock (bhs w ?bh)")
    case True
    let ?w = "u_brelse ?bh (wait_on_buffer k ?bh (get_bh ?bh w))"
    have step: "io_step w ?w" by (blast intro: io_step_trans io_steps)
    obtain es1 where "logs w es1 ?w" using wait_logs [of "get_bh ?bh w" k ?bh] by (auto simp: logs_def)
    note inv' = cp_inv_io_step [OF less.prems(1) step this]
    have eqs: "trs ?w = trs w" "jhs ?w = jhs w" "jnl ?w = jnl w" using step by (auto simp: io_step_def)
    have "n_locked ?w ys \<le> n_locked w ys" by (rule n_locked_le) (auto simp: eqs)
    then have "io_left ?w t < io_left w t" using True io by (simp add: io_left_def eqs n_locked_def)
    from less.hyps [OF this inv', of ret True] show ?thesis
      using loop first io True less.prems by (simp add: eqs eq cp_alive_def Let_def)
  next
    case False
    have logs1: "logs w [] (get_bh ?bh w)" by (simp add: logs_def)
    have inv1: "cp_inv w0 d t (get_bh ?bh w) [] es"
      using cp_inv_io_step [OF less.prems(1) io_step_get_bh logs1] by simp
    have al: "cp_alive w0 t (get_bh ?bh w)" using less.prems(2) by (simp add: cp_alive_def eq)
    obtain w1 r where 1: "u_jbdbf_journal_remove_checkpoint (get_bh ?bh w) jh = Some (w1, r)"
      "cp_inv w0 d t w1 [] es" "removed (get_bh ?bh w) t jh w1" "r \<noteq> 0 \<longleftrightarrow> cp_dropped w0 t w1"
      using cp_inv_remove [OF inv1 al, of jh] io by (auto simp: eq)
    let ?w = "u_brelse ?bh w1"
    have logs2: "logs w1 [] ?w" by (simp add: logs_def)
    have inv2: "cp_inv w0 d t ?w [] es"
      using cp_inv_io_step [OF 1(2) io_step_brelse logs2] by simp
    have same: "trs ?w = trs w1" "jnl ?w = jnl w1" "jhs ?w = jhs w1" by (simp_all add: u_brelse_def)
    have l: "io_list ?w t = ys" "cp_list ?w t = []"
      using 1(3) io less.prems(3) by (simp_all add: removed_def eq same)
    let ?ret = "if bh_write_io_error (bhs (get_bh ?bh w) ?bh) then - EIO else ret"
    have ret: "?ret \<in> {0, - EIO}" using less.prems(4) by auto
    show ?thesis
    proof (cases "r = 0")
      case r: False
      then have "cp_dropped w0 t ?w" using 1(4) by (simp add: cp_dropped_def same)
      then show ?thesis
        using loop first io False 1(1) r inv2 ret by (auto simp: eq Let_def)
    next
      case True
      then have alive: "cp_alive w0 t ?w" using inv2 1(4) by (auto simp: cp_inv_def cp_dropped_def cp_alive_def same)
      have "n_locked ?w ys \<le> n_locked w ys"
        by (rule n_locked_le) (use 1(3) in \<open>auto simp: same removed_def eq\<close>)
      then have "io_left ?w t < io_left w t" using io l by (simp add: io_left_def n_locked_def)
      from less.hyps [OF this inv2 alive l(2) ret, of False] show ?thesis
        using loop first io False 1(1) True by (auto simp: eq Let_def)
    qed
  qed
qed

lemma checkpoint_restart_ok:
  assumes ts: "j_checkpoint_transactions (jnl w0) = t # ts" "t \<notin> set ts"
    and dev: "\<And>j. j \<in> set (cp_list w0 t) \<Longrightarrow> b_bdev (buf w0 j) = Some d"
    and "cp_inv w0 d t w [] es" "result \<in> {0, - EIO}"
  shows "\<exists>w' r es'. checkpoint_restart k w t (t_tid (trs w0 t)) result = Some (w', r) \<and>
    cp_inv w0 d t w' [] es' \<and> cp_dropped w0 t w' \<and> r \<in> {0, - EIO}"
  using assms(4-)
proof (induction "cp_left w t" arbitrary: w es result rule: less_induct)
  case less
  let ?tid = "t_tid (trs w0 t)"
  have st: "cp_static w0 t w" using less.prems(1) by (simp add: cp_inv_def)
  note loop = checkpoint_restart.simps [of k w t ?tid result]
  show ?case
  proof (cases "cp_dropped w0 t w")
    case True
    then show ?thesis using loop first_alive(2) [OF st ts True] less.prems by auto
  next
    case False
    then have alive: "cp_alive w0 t w" using less.prems(1) by (simp add: cp_inv_def)
    note first = first_alive(1) [OF st ts alive]
    have small: "length ([] :: bptr list) < JBD2_NR_BATCH" by (simp add: JBD2_NR_BATCH_def)
    obtain w1 b1 retry r1 es1 where 1: "checkpoint_scan k w t [] result = Some (w1, b1, retry, r1)"
      "cp_inv w0 d t w1 b1 es1" "r1 \<in> {0, - EIO}" "retry = 0 \<longrightarrow> cp_list w1 t = [] \<and> cp_alive w0 t w1"
      "cp_left w1 t < cp_left w t \<or> retry = 0 \<and> b1 = [] \<and> w1 = w"
      using checkpoint_scan_ok [OF dev less.prems(1) alive small less.prems(2)] by blast
    show ?thesis
    proof (cases "retry = 0 \<and> b1 = []")
      case fin: True
      then have inv1: "cp_inv w0 d t w1 [] es1" and al: "cp_list w1 t = []" "cp_alive w0 t w1"
        using 1(2,4) by auto
      have tid: "t_tid (trs w1 t) = ?tid" using inv1 by (simp add: cp_inv_def cp_static_def)
      have "(0::int) \<in> {0, - EIO}" by simp
      from wait_cp_io_ok [OF ts inv1 al(2,1) this, of k True]
      obtain w2 err es2 where "u_wait_cp_io k w1 t = Some (w2, err)" "cp_inv w0 d t w2 [] es2"
        "cp_dropped w0 t w2" "err \<in> {0, - EIO}"
        by (auto simp: u_wait_cp_io_def tid)
      then show ?thesis using loop first 1(1,3) fin by auto
    next
      case again: False
      let ?w = "if b1 \<noteq> [] then u_flush_batch k w1 b1 else w1"
      obtain es2 where inv2: "cp_inv w0 d t ?w [] es2"
        using cp_inv_flush [OF 1(2) dev, of k] 1(2) by (cases "b1 = []") auto
      have "cp_left ?w t = cp_left w1 t" using cp_left_flush [OF 1(2)] by simp
      then have "cp_left ?w t < cp_left w t" using 1(5) again by auto
      from less.hyps [OF this inv2 1(3)] show ?thesis
        using loop first 1(1) again by (auto split: if_splits)
    qed
  qed
qed

section \<open>The whole checkpoint\<close>

text \<open>
  A journal whose oldest transaction t can be checkpointed: it has finished, its buffers
  belong to no other transaction and are buffers of the file system device.
\<close>

definition cp_ready :: "world \<Rightarrow> tptr \<Rightarrow> tptr list \<Rightarrow> bool" where
  "cp_ready w t ts =
     (j_checkpoint_transactions (jnl w) = t # ts \<and> t \<notin> set ts \<and> cp_list w t @ io_list w t \<noteq> [] \<and>
      cp_shape t w [] \<and> (\<forall>j\<in>set (cp_list w t). b_bdev (buf w j) = Some (j_fs_dev (jnl w))))"

lemma cp_ready_inv:
  assumes "cp_ready w t ts"
  shows "cp_inv w (j_fs_dev (jnl w)) t w [] []"
  using assms by (auto simp: cp_ready_def cp_inv_def cp_alive_def logs_def cp_static_def cp_goal_def)

lemma cp_ready_cong:
  assumes "cp_ready w t ts" "jnl w' = jnl w" "jhs w' = jhs w" "bhs w' = bhs w"
    and "cp_list w' t = cp_list w t" "io_list w' t = io_list w t" "cp_finished w' t = cp_finished w t"
  shows "cp_ready w' t ts"
  using assms unfolding cp_ready_def cp_shape_def cp_buf_def attached_def by simp

lemma checkpoint_restart_ready:
  assumes r: "cp_ready w t ts"
  shows "\<exists>w' r es. checkpoint_restart k w t (t_tid (trs w t)) 0 = Some (w', r) \<and> r \<in> {0, - EIO} \<and>
    jnl w' = drop_first t (jnl w) \<and> logs w es w' \<and> (\<forall>t'. t' \<noteq> t \<longrightarrow> trs w' t' = trs w t') \<and>
    (\<forall>j\<in>set (cp_list w t). bh_dirty (buf w j) \<longrightarrow> write_of w (j_fs_dev (jnl w)) j \<in> set es)"
proof -
  let ?d = "j_fs_dev (jnl w)"
  have ts: "j_checkpoint_transactions (jnl w) = t # ts" "t \<notin> set ts"
    and dev: "\<And>j. j \<in> set (cp_list w t) \<Longrightarrow> b_bdev (buf w j) = Some ?d"
    using r by (auto simp: cp_ready_def)
  have "(0::int) \<in> {0, - EIO}" by simp
  from checkpoint_restart_ok [OF ts dev cp_ready_inv [OF r] this]
  obtain w' r es where "checkpoint_restart k w t (t_tid (trs w t)) 0 = Some (w', r)" "r \<in> {0, - EIO}"
    and inv: "cp_inv w ?d t w' [] es" and dr: "cp_dropped w t w'"
    by blast
  moreover have "\<forall>j\<in>set (cp_list w t). bh_dirty (buf w j) \<longrightarrow> write_of w ?d j \<in> set es"
    using inv dr by (auto simp: cp_inv_def cp_goal_def cp_dropped_def)
  moreover have "jnl w' = drop_first t (jnl w)" "logs w es w'" "\<forall>t'. t' \<noteq> t \<longrightarrow> trs w' t' = trs w t'"
    using inv dr by (auto simp: cp_inv_def cp_dropped_def cp_static_def)
  ultimately show ?thesis by blast
qed

fun is_submit :: "io_event \<Rightarrow> bool" where
  "is_submit (SubmitWrite _ _ _ _) = True"
| "is_submit _ = False"

text \<open>Operations on the journal that submit no block and keep the transactions.\<close>

definition quiet :: "world \<Rightarrow> world \<Rightarrow> bool" where
  "quiet w w' =
     ((\<exists>es. iolog w' = iolog w @ es \<and> \<not> list_ex is_submit es) \<and>
      j_checkpoint_transactions (jnl w') = j_checkpoint_transactions (jnl w) \<and>
      needs_checkpoint (jnl w') = needs_checkpoint (jnl w))"

lemma quiet_refl [simp]: "quiet w w"
  by (simp add: quiet_def)

lemma quiet_trans: "quiet w w' \<Longrightarrow> quiet w' w'' \<Longrightarrow> quiet w w''"
  by (force simp: quiet_def)

lemma quiet_upd_jnl:
  "j_checkpoint_transactions (f (jnl w)) = j_checkpoint_transactions (jnl w) \<Longrightarrow>
   needs_checkpoint (f (jnl w)) = needs_checkpoint (jnl w) \<Longrightarrow> quiet w (upd_jnl f w)"
  by (simp add: quiet_def)

lemma quiet_super: "quiet w (jbdbf_journal_update_superblock w b)"
  by (simp add: jbdbf_journal_update_superblock_def quiet_def Let_def)

lemma quiet_abort: "quiet w (jbdbf_journal_abort w errno)"
proof -
  have hard: "quiet w (u_jbdbf_journal_abort_hard w)" for w
    by (simp add: u_jbdbf_journal_abort_hard_def u_jbdbf_log_start_commit_def quiet_def Let_def
        split: option.splits)
  have err: "quiet w (if j_errno (jnl w) = 0 then upd_jnl (\<lambda>j. j\<lparr>j_errno := errno\<rparr>) w else w)"
    by (simp add: quiet_def)
  show ?thesis
    unfolding jbdbf_journal_abort_def u_journal_abort_soft_def Let_def
    using quiet_trans [OF err hard] quiet_trans [OF quiet_trans [OF err hard] quiet_super] by simp
qed

lemma cleanup_quiet:
  assumes "snd (oldest_transaction w) \<noteq> 0"
  shows "\<exists>w' r. jbdbf_cleanup_journal_tail w = Some (w', r) \<and> r \<in> {0, 1} \<and> quiet w w'"
proof -
  obtain tid b where old: "oldest_transaction w = (tid, b)" by fastforce
  have b: "b \<noteq> 0" using assms old by simp
  consider "is_journal_aborted (jnl w)" | "\<not> is_journal_aborted (jnl w)" "j_tail_sequence (jnl w) = tid"
    | "\<not> is_journal_aborted (jnl w)" "j_tail_sequence (jnl w) \<noteq> tid" by blast
  then show ?thesis
  proof cases
    case 1
    then show ?thesis by (simp add: jbdbf_cleanup_journal_tail_def)
  next
    case 2
    then show ?thesis using old b by (simp add: jbdbf_cleanup_journal_tail_def j_assert_def)
  next
    case 3
    define w1 where "w1 = upd_jnl (\<lambda>j. j\<lparr>j_free := j_free j + tail_freed j b, j_tail_sequence := tid, j_tail := b\<rparr>) w"
    define w2 where "w2 = (if j_fs_dev (jnl w) \<noteq> j_dev (jnl w) \<and> j_flags (jnl w) AND JBD2_BARRIER \<noteq> 0
      then log_io (IssueFlush (j_fs_dev (jnl w))) w1 else w1)"
    have "quiet w w1" unfolding w1_def by (rule quiet_upd_jnl) simp_all
    moreover have "quiet w1 w2" by (simp add: w2_def quiet_def)
    ultimately have "quiet w (jbdbf_journal_update_superblock w2 True)"
      using quiet_super quiet_trans by blast
    then show ?thesis
      using cleanup_journal_tail_eq [OF 3(1) old b 3(2)] by (auto simp: w2_def w1_def)
  qed
qed

definition log_starts :: "world \<Rightarrow> tptr list \<Rightarrow> bool" where
  "log_starts w ts =
     (j_head (jnl w) \<noteq> 0 \<and> (\<forall>t\<in>set ts \<union> set_option (j_committing_transaction (jnl w)). t_log_start (trs w t) \<noteq> 0))"

lemma log_starts_oldest:
  assumes "log_starts w ts" "set (j_checkpoint_transactions (jnl w)) \<subseteq> set ts"
  shows "snd (oldest_transaction w) \<noteq> 0"
  using assms by (auto simp: log_starts_def oldest_transaction_def Let_def split: list.splits option.splits)

text \<open>The flush around a checkpoint that is needed for space.\<close>

definition cp_flush :: "journal \<Rightarrow> io_event list" where
  "cp_flush j = (if needs_checkpoint j then [IssueFlush (j_fs_dev j)] else [])"

lemma checkpoint_oldest_ok:
  assumes r: "cp_ready w t ts"
    and due: "needs_checkpoint (jnl w) \<or> time_after_eq (jiffies w) (t_checkpoint_time (trs w t))"
  shows "\<exists>w' r es. checkpoint_oldest k w = Some (w', r) \<and> r \<in> {0, - EIO} \<and> jnl w' = drop_first t (jnl w) \<and>
    iolog w' = iolog w @ cp_flush (jnl w) @ es \<and> list_all cp_event es \<and>
    (\<forall>t'. t' \<noteq> t \<longrightarrow> trs w' t' = trs w t') \<and>
    (\<forall>j\<in>set (cp_list w t). bh_dirty (buf w j) \<longrightarrow> write_of w (j_fs_dev (jnl w)) j \<in> set es)"
proof -
  define w1 where "w1 = (if cs_chp_time (trs w t) = 0 then upd_tr t (\<lambda>tr. tr\<lparr>cs_chp_time := jiffies w\<rparr>) w else w)"
  define w2 where "w2 = (if needs_checkpoint (jnl w) then blkdev_issue_flush (j_fs_dev (jnl w)) w1 else w1)"
  have sel: "jnl w2 = jnl w" "jhs w2 = jhs w" "bhs w2 = bhs w" "cp_list w2 t = cp_list w t"
    "io_list w2 t = io_list w t" "cp_finished w2 t = cp_finished w t" "t_tid (trs w2 t) = t_tid (trs w t)"
    "iolog w2 = iolog w @ cp_flush (jnl w)" "\<forall>t'. t' \<noteq> t \<longrightarrow> trs w2 t' = trs w t'"
    by (auto simp: w2_def w1_def cp_finished_def Let_def blkdev_issue_flush_def cp_flush_def)
  have sel1: "jnl w1 = jnl w" "jiffies w1 = jiffies w" "t_tid (trs w1 t) = t_tid (trs w t)"
    "t_checkpoint_time (trs w1 t) = t_checkpoint_time (trs w t)" by (simp_all add: w1_def)
  have "checkpoint_oldest k w = checkpoint_restart k w2 t (t_tid (trs w2 t)) 0"
    using r due unfolding checkpoint_oldest_def cp_ready_def sel(7)
    by (auto simp: Let_def sel1 w2_def simp flip: w1_def)
  moreover obtain w' r es where "checkpoint_restart k w2 t (t_tid (trs w2 t)) 0 = Some (w', r)" "r \<in> {0, - EIO}"
    "jnl w' = drop_first t (jnl w2)" "logs w2 es w'" "\<forall>t'. t' \<noteq> t \<longrightarrow> trs w' t' = trs w2 t'"
    "\<forall>j\<in>set (cp_list w2 t). bh_dirty (buf w2 j) \<longrightarrow> write_of w2 (j_fs_dev (jnl w2)) j \<in> set es"
    using checkpoint_restart_ready [OF cp_ready_cong [OF r sel(1-6)]] by blast
  moreover have "write_of w2 d j = write_of w d j" for d j by (simp add: write_of_def sel)
  ultimately show ?thesis using sel by (auto simp: logs_def)
qed

text \<open>
  C11.  jbdbf_log_do_checkpoint on the oldest finished transaction, when the log needs space
  or its checkpoint time has come, returns: every dirty buffer of the transaction has been
  submitted for writing and the transaction is no longer to be checkpointed.  If the log
  needs space, the device is flushed before the first and after the last of these writes,
  and no block is submitted after the second flush; the tail of the log and the
  superblock change only then.
\<close>

theorem do_checkpoint_writes_oldest:
  assumes r: "cp_ready w t ts" and "\<not> is_journal_aborted (jnl w)" and "t_log_start (trs w t) \<noteq> 0"
    and "log_starts w ts" and "j_tail_sequence (jnl w) = t_tid (trs w t)"
    and due: "needs_checkpoint (jnl w) \<or> time_after_eq (jiffies w) (t_checkpoint_time (trs w t))"
  shows "\<exists>w' res es post. jbdbf_log_do_checkpoint k w = Some (w', res) \<and> res \<in> {0, - EIO} \<and>
    j_checkpoint_transactions (jnl w') = ts \<and> \<not> needs_checkpoint (jnl w') \<and>
    iolog w' = iolog w @ cp_flush (jnl w) @ es @ cp_flush (jnl w) @ post \<and>
    (\<forall>j\<in>set (cp_list w t). bh_dirty (buf w j) \<longrightarrow> write_of w (j_fs_dev (jnl w)) j \<in> set es) \<and>
    list_all cp_event es \<and> \<not> list_ex is_submit post"
proof -
  let ?d = "j_fs_dev (jnl w)"
  have ts: "j_checkpoint_transactions (jnl w) = t # ts" "t \<notin> set ts" using r by (auto simp: cp_ready_def)
  have first: "jbdbf_cleanup_journal_tail w = Some (w, 1)"
    using assms(2,3,5) ts by (simp add: jbdbf_cleanup_journal_tail_def oldest_transaction_def j_assert_def)
  obtain w1 r1 es where 1: "checkpoint_oldest k w = Some (w1, r1)" "r1 \<in> {0, - EIO}" "jnl w1 = drop_first t (jnl w)"
    "iolog w1 = iolog w @ cp_flush (jnl w) @ es" "list_all cp_event es" "\<forall>t'. t' \<noteq> t \<longrightarrow> trs w1 t' = trs w t'"
    "\<forall>j\<in>set (cp_list w t). bh_dirty (buf w j) \<longrightarrow> write_of w ?d j \<in> set es"
    using checkpoint_oldest_ok [OF r due] by blast
  define w2 where "w2 = (if needs_checkpoint (jnl w1)
    then upd_jnl (\<lambda>j. j\<lparr>needs_checkpoint := False\<rparr>) (blkdev_issue_flush (j_fs_dev (jnl w1)) w1) else w1)"
  have w2: "j_checkpoint_transactions (jnl w2) = ts" "\<not> needs_checkpoint (jnl w2)" "trs w2 = trs w1"
    "iolog w2 = iolog w1 @ cp_flush (jnl w)" "j_committing_transaction (jnl w2) = j_committing_transaction (jnl w)"
    "j_head (jnl w2) = j_head (jnl w)"
    using ts 1(3) by (auto simp: w2_def cp_flush_def blkdev_issue_flush_def drop_first_def)
  have "j_committing_transaction (jnl w) \<noteq> Some t"
    using r by (simp add: cp_ready_def cp_shape_def cp_finished_def Let_def)
  then have "log_starts w2 ts"
    using assms(4) 1(6) ts(2) w2 unfolding log_starts_def by auto
  then have "snd (oldest_transaction w2) \<noteq> 0" by (rule log_starts_oldest) (simp add: w2)
  from cleanup_quiet [OF this] obtain w3 r3 where 3: "jbdbf_cleanup_journal_tail w2 = Some (w3, r3)"
    "r3 \<in> {0, 1}" "quiet w2 w3" by blast
  have "\<exists>w' res. (if r1 < 0 then Some (jbdbf_journal_abort w2 r1, r1) else jbdbf_cleanup_journal_tail w2) =
      Some (w', res) \<and> res \<in> {0, 1, - EIO} \<and> quiet w2 w'"
    using 3 1(2) quiet_abort by auto
  then obtain w' res where 4: "(if r1 < 0 then Some (jbdbf_journal_abort w2 r1, r1) else jbdbf_cleanup_journal_tail w2) =
      Some (w', res)" "res \<in> {0, 1, - EIO}" "quiet w2 w'" by blast
  have run: "jbdbf_log_do_checkpoint k w = Some (w', if res < 0 then res else 0)"
    unfolding jbdbf_log_do_checkpoint_def using first 1(1) 4(1)
    by (cases "r1 < 0") (auto simp: Let_def simp flip: w2_def)
  obtain post where "iolog w' = iolog w2 @ post" "\<not> list_ex is_submit post"
    "j_checkpoint_transactions (jnl w') = ts" "\<not> needs_checkpoint (jnl w')"
    using 4(3) w2 by (auto simp: quiet_def)
  then show ?thesis
    using run 4(2) 1(4,5,7) w2(4) by (auto simp: EIO_def)
qed

definition ex_cp_world :: world where
  "ex_cp_world = zero_world\<lparr>
     jnl := ex_log_journal\<lparr>j_checkpoint_transactions := [3], j_tail_sequence := 7, j_fs_dev := 2,
       j_dev := 2, needs_checkpoint := True\<rparr>,
     trs := (\<lambda>_. zero_transaction)(3 := zero_transaction\<lparr>t_tid := 7, t_log_start := 6,
       t_state := T_FINISHED, t_checkpoint_list := [4]\<rparr>),
     jhs := (\<lambda>_. zero_jh)(4 := zero_jh\<lparr>b_bh := 5, b_jcount := 1, b_cp_transaction := Some 3\<rparr>),
     bhs := (\<lambda>_. zero_bh)(5 := zero_bh\<lparr>b_blocknr := 40, b_data := [9], b_bdev := Some 2, b_count := 1,
       bh_jbd := True, b_private := Some 4, bh_dirty := True\<rparr>)\<rparr>"

lemmas ex_cp_defs = ex_cp_world_def ex_log_journal_def zero_defs

theorem do_checkpoint_writes_oldest_witness:
  "\<exists>w' res es post. jbdbf_log_do_checkpoint ex_log_env ex_cp_world = Some (w', res) \<and>
    j_checkpoint_transactions (jnl w') = [] \<and> \<not> needs_checkpoint (jnl w') \<and>
    iolog w' = [IssueFlush 2] @ es @ [IssueFlush 2] @ post \<and>
    SubmitWrite 2 40 [9] False \<in> set es \<and> \<not> list_ex is_submit post"
proof -
  have ready: "cp_ready ex_cp_world 3 []"
    by (simp add: cp_ready_def cp_shape_def cp_finished_def cp_buf_def attached_def ex_cp_defs)
  have ab: "\<not> is_journal_aborted (jnl ex_cp_world)"
    by (simp add: is_journal_aborted_def ex_cp_defs)
  have starts: "t_log_start (trs ex_cp_world 3) \<noteq> 0" "log_starts ex_cp_world []"
    by (simp_all add: log_starts_def ex_cp_defs)
  have seq: "j_tail_sequence (jnl ex_cp_world) = t_tid (trs ex_cp_world 3)" by (simp add: ex_cp_defs)
  have due: "needs_checkpoint (jnl ex_cp_world) \<or>
      time_after_eq (jiffies ex_cp_world) (t_checkpoint_time (trs ex_cp_world 3))" by (simp add: ex_cp_defs)
  have sel: "cp_list ex_cp_world 3 = [4]" "bh_dirty (buf ex_cp_world 4)" "j_fs_dev (jnl ex_cp_world) = 2"
    "write_of ex_cp_world 2 4 = SubmitWrite 2 40 [9] False" "cp_flush (jnl ex_cp_world) = [IssueFlush 2]"
    "iolog ex_cp_world = []"
    by (simp_all add: write_of_def cp_flush_def ex_cp_defs)
  show ?thesis
    using do_checkpoint_writes_oldest [OF ready ab starts seq due, of ex_log_env] unfolding sel
    by (elim exE conjE, intro exI conjI) (assumption | simp add: sel)+
qed

lemma cleanup_idle:
  assumes "j_checkpoint_transactions (jnl w) = t # ts" "t_log_start (trs w t) \<noteq> 0"
    and "is_journal_aborted (jnl w) \<or> j_tail_sequence (jnl w) = t_tid (trs w t)"
  shows "jbdbf_cleanup_journal_tail w = Some (w, 1)"
  using assms by (auto simp: jbdbf_cleanup_journal_tail_def oldest_transaction_def j_assert_def)

lemma cleanup_moves_tail:
  assumes "j_checkpoint_transactions (jnl w) = t # ts" "t_log_start (trs w t) \<noteq> 0"
    and "\<not> is_journal_aborted (jnl w)" "j_tail_sequence (jnl w) \<noteq> t_tid (trs w t)"
  shows "\<exists>w'. jbdbf_cleanup_journal_tail w = Some (w', 0) \<and> quiet w w' \<and> bhs w' = bhs w \<and> jhs w' = jhs w \<and> trs w' = trs w"
proof -
  have old: "oldest_transaction w = (t_tid (trs w t), t_log_start (trs w t))"
    using assms(1) by (simp add: oldest_transaction_def)
  from cleanup_quiet [of w] old assms(2) obtain w' r where "jbdbf_cleanup_journal_tail w = Some (w', r)" "quiet w w'"
    by auto
  then show ?thesis
    using cleanup_journal_tail_eq [OF assms(3) old assms(2,4)]
    by (auto simp: jbdbf_journal_update_superblock_def Let_def)
qed

text \<open>
  C12.  While the log does not need space and the checkpoint time of the oldest transaction
  has not come, jbdbf_log_do_checkpoint returns 0 without submitting a block: the buffers and
  the transactions to checkpoint are as before.  It may only bring the recorded tail of the log up to date; if
  that is so already, or the journal is aborted, nothing is flushed and the journal is unchanged.
\<close>

theorem do_checkpoint_waits:
  assumes "j_checkpoint_transactions (jnl w) = t # ts" and "\<not> needs_checkpoint (jnl w)"
    and "\<not> time_after_eq (jiffies w) (t_checkpoint_time (trs w t))" and "t_log_start (trs w t) \<noteq> 0"
  shows "\<exists>w' es. jbdbf_log_do_checkpoint k w = Some (w', 0) \<and>
    iolog w' = iolog w @ es \<and> \<not> list_ex is_submit es \<and> bhs w' = bhs w \<and> jhs w' = jhs w \<and>
    j_checkpoint_transactions (jnl w') = t # ts \<and> cp_list w' t = cp_list w t \<and> io_list w' t = io_list w t \<and>
    (is_journal_aborted (jnl w) \<or> j_tail_sequence (jnl w) = t_tid (trs w t) \<longrightarrow> es = [] \<and> jnl w' = jnl w)"
proof (cases "is_journal_aborted (jnl w) \<or> j_tail_sequence (jnl w) = t_tid (trs w t)")
  case True
  define w1 where "w1 = (if cs_chp_time (trs w t) = 0 then upd_tr t (\<lambda>tr. tr\<lparr>cs_chp_time := jiffies w\<rparr>) w else w)"
  have sel: "jnl w1 = jnl w" "t_tid (trs w1 t) = t_tid (trs w t)" "t_log_start (trs w1 t) = t_log_start (trs w t)"
    "iolog w1 = iolog w" "bhs w1 = bhs w" "jhs w1 = jhs w" "jiffies w1 = jiffies w"
    "t_checkpoint_time (trs w1 t) = t_checkpoint_time (trs w t)" "cp_list w1 t = cp_list w t" "io_list w1 t = io_list w t"
    by (simp_all add: w1_def)
  have "checkpoint_oldest k w = Some (w1, 0)"
    using assms(1-3) by (simp add: checkpoint_oldest_def Let_def sel flip: w1_def)
  moreover have "jbdbf_cleanup_journal_tail w = Some (w, 1)" "jbdbf_cleanup_journal_tail w1 = Some (w1, 1)"
    using assms(1,4) True by (auto simp: sel intro!: cleanup_idle)
  ultimately have "jbdbf_log_do_checkpoint k w = Some (w1, 0)"
    using assms(2) by (simp add: jbdbf_log_do_checkpoint_def sel Let_def)
  then show ?thesis using sel assms(1) by (intro exI [of _ w1] exI [of _ "[]"]) simp
next
  case False
  then obtain w' where w': "jbdbf_cleanup_journal_tail w = Some (w', 0)" "quiet w w'" "bhs w' = bhs w" "jhs w' = jhs w"
      "trs w' = trs w"
    using cleanup_moves_tail [OF assms(1,4)] by blast
  then have "jbdbf_log_do_checkpoint k w = Some (w', 0)" by (simp add: jbdbf_log_do_checkpoint_def)
  then show ?thesis using w' False assms(1) by (auto simp: quiet_def)
qed

theorem do_checkpoint_waits_witness:
  "\<exists>w'. jbdbf_log_do_checkpoint ex_log_env
      (upd_tr 3 (\<lambda>tr. tr\<lparr>t_checkpoint_time := 30000\<rparr>) (upd_jnl (\<lambda>j. j\<lparr>needs_checkpoint := False\<rparr>) ex_cp_world)) =
      Some (w', 0) \<and> iolog w' = [] \<and> bh_dirty (bhs w' 5) \<and> j_checkpoint_transactions (jnl w') = [3]"
proof -
  let ?w = "upd_tr 3 (\<lambda>tr. tr\<lparr>t_checkpoint_time := 30000\<rparr>) (upd_jnl (\<lambda>j. j\<lparr>needs_checkpoint := False\<rparr>) ex_cp_world)"
  have h: "j_checkpoint_transactions (jnl ?w) = 3 # []" "\<not> needs_checkpoint (jnl ?w)"
    "j_tail_sequence (jnl ?w) = t_tid (trs ?w 3)" "t_log_start (trs ?w 3) \<noteq> 0"
    "iolog ?w = []" "bh_dirty (bhs ?w 5)"
    by (simp_all add: ex_cp_defs)
  have "\<not> time_after_eq (0 :: u64) 30000" by code_simp
  then have t: "\<not> time_after_eq (jiffies ?w) (t_checkpoint_time (trs ?w 3))" by (simp add: ex_cp_defs)
  show ?thesis
    using do_checkpoint_waits [OF h(1,2) t h(4), of ex_log_env] h(1,3,5,6) by (metis append_Nil)
qed

end
