(* ===== verification/Circular_Lists.thy ===== *)
theory Circular_Lists
  imports Checkpoint
begin

text \<open>
  The circular doubly linked lists of the journal.  Buffers are linked through
  b_tnext/b_tprev on the lists of a transaction, through b_cpnext/b_cpprev on its checkpoint
  lists, and transactions through t_cpnext/t_cpprev on j_checkpoint_transactions; a list is a
  pointer to its first element.  The other theories use lists of addresses.  This theory
  shows that the pointer code implements them: every sequence of insertions and removals
  on the pointers yields the list that the same sequence yields on lists of addresses, and
  leaves all other lists alone.
\<close>

section \<open>The pointer code\<close>

text \<open>The two link fields of all objects.  NULL is None in the list head.\<close>

record links =
  nxt :: "nat \<Rightarrow> nat"
  prv :: "nat \<Rightarrow> nat"

definition set_nxt :: "nat \<Rightarrow> nat \<Rightarrow> links \<Rightarrow> links" where
  "set_nxt x y l = l\<lparr>nxt := (nxt l)(x := y)\<rparr>"

definition set_prv :: "nat \<Rightarrow> nat \<Rightarrow> links \<Rightarrow> links" where
  "set_prv x y l = l\<lparr>prv := (prv l)(x := y)\<rparr>"

text \<open>Insertion at the tail: \<open>__blist_add_buffer\<close>.\<close>

definition blist_add_ptr :: "links \<Rightarrow> nat option \<Rightarrow> nat \<Rightarrow> links \<times> nat option" where
  "blist_add_ptr l lst jh =
     (case lst of
        None \<Rightarrow> (set_nxt jh jh (set_prv jh jh l), Some jh)
      | Some first \<Rightarrow>
          (let final = prv l first;
               l = set_prv jh final l;
               l = set_nxt jh first l;
               l = set_prv first jh l;
               l = set_nxt final jh l
           in (l, lst)))"

text \<open>Removal: \<open>__blist_del_buffer\<close>.\<close>

definition blist_del_ptr :: "links \<Rightarrow> nat option \<Rightarrow> nat \<Rightarrow> links \<times> nat option" where
  "blist_del_ptr l lst jh =
     (let lst = (if lst = Some jh then if nxt l jh = jh then None else Some (nxt l jh) else lst);
          l = set_nxt (prv l jh) (nxt l jh) l;
          l = set_prv (nxt l jh) (prv l jh) l
      in (l, lst))"

text \<open>
  Insertion at the head, as in \<open>__jbdbf_journal_insert_checkpoint\<close> and \<open>__buffer_relink_io\<close>.
\<close>

definition cp_insert_ptr :: "links \<Rightarrow> nat option \<Rightarrow> nat \<Rightarrow> links \<times> nat option" where
  "cp_insert_ptr l lst jh =
     (case lst of
        None \<Rightarrow> (set_nxt jh jh (set_prv jh jh l), Some jh)
      | Some first \<Rightarrow>
          (let l = set_nxt jh first l;
               l = set_prv jh (prv l first) l;
               l = set_nxt (prv l jh) jh l;
               l = set_prv (nxt l jh) jh l
           in (l, Some jh)))"

text \<open>
  Removal by \<open>__buffer_unlink_first\<close>; \<open>__buffer_unlink\<close> repeats the update of the head for the
  second list, and \<open>__jbdbf_journal_drop_transaction\<close> does the same to the transactions.
\<close>

definition cp_unlink_ptr :: "links \<Rightarrow> nat option \<Rightarrow> nat \<Rightarrow> links \<times> nat option" where
  "cp_unlink_ptr l lst jh =
     (let l = set_prv (nxt l jh) (prv l jh) l;
          l = set_nxt (prv l jh) (nxt l jh) l;
          lst = (if lst = Some jh then if nxt l jh = jh then None else Some (nxt l jh) else lst)
      in (l, lst))"

text \<open>\<open>__buffer_relink_io\<close>, on t_checkpoint_list and t_checkpoint_io_list.\<close>

definition relink_io_ptr :: "links \<Rightarrow> nat option \<Rightarrow> nat option \<Rightarrow> nat \<Rightarrow> links \<times> nat option \<times> nat option" where
  "relink_io_ptr l cp io jh =
     (let (l, cp) = cp_unlink_ptr l cp jh; (l, io) = cp_insert_ptr l io jh in (l, cp, io))"

section \<open>Representation\<close>

fun linked :: "links \<Rightarrow> nat list \<Rightarrow> bool" where
  "linked l (x # y # xs) = (nxt l x = y \<and> prv l y = x \<and> linked l (y # xs))"
| "linked l _ = True"

definition circ :: "links \<Rightarrow> nat option \<Rightarrow> nat list \<Rightarrow> bool" where
  "circ l lst xs =
     (case xs of [] \<Rightarrow> lst = None
      | x # _ \<Rightarrow> lst = Some x \<and> distinct xs \<and> linked l (xs @ [x]))"

lemma linked_append:
  "linked l (xs @ y # ys) \<longleftrightarrow> linked l (xs @ [y]) \<and> linked l (y # ys)"
proof (induction xs)
  case Nil
  then show ?case by (cases ys) auto
next
  case (Cons x xs)
  then show ?case by (cases xs) auto
qed

lemma linked_snoc: "xs \<noteq> [] \<Longrightarrow> linked l (xs @ [y]) \<longleftrightarrow> linked l xs \<and> nxt l (last xs) = y \<and> prv l y = last xs"
  by (induction l xs rule: linked.induct) auto

lemma linked_Cons: "xs \<noteq> [] \<Longrightarrow> linked l (x # xs) \<longleftrightarrow> nxt l x = hd xs \<and> prv l (hd xs) = x \<and> linked l xs"
  by (cases xs) auto

text \<open>A chain only depends on the forward links of all but its last element, and backward.\<close>

lemma linked_cong:
  assumes "\<And>x. x \<in> set (butlast xs) \<Longrightarrow> nxt l' x = nxt l x"
    and "\<And>x. x \<in> set (tl xs) \<Longrightarrow> prv l' x = prv l x"
  shows "linked l' xs = linked l xs"
  using assms by (induction l xs rule: linked.induct) auto

lemma circ_Nil [simp]: "circ l lst [] \<longleftrightarrow> lst = None"
  by (simp add: circ_def)

lemma circ_nonempty:
  "xs \<noteq> [] \<Longrightarrow> circ l lst xs \<longleftrightarrow> lst = Some (hd xs) \<and> distinct xs \<and> linked l xs \<and>
     nxt l (last xs) = hd xs \<and> prv l (hd xs) = last xs"
  by (cases xs) (auto simp: circ_def linked_snoc simp flip: append_Cons)

lemma circ_distinct: "circ l lst xs \<Longrightarrow> distinct xs"
  by (auto simp: circ_def split: list.splits)

lemma circ_cong:
  assumes "\<And>x. x \<in> set xs \<Longrightarrow> nxt l' x = nxt l x \<and> prv l' x = prv l x"
  shows "circ l' lst xs = circ l lst xs"
proof (cases xs)
  case (Cons y ys)
  have "linked l' (xs @ [y]) = linked l (xs @ [y])"
    using assms Cons by (intro linked_cong) auto
  then show ?thesis using Cons by (simp add: circ_def)
qed simp

text \<open>The links of an element in the middle of a chain.\<close>

lemma circ_mid:
  assumes "circ l lst (as @ x # bs)"
  shows "nxt l x = hd (bs @ as @ [x])" "prv l x = last (x # bs @ as)"
proof -
  have ne: "as @ x # bs \<noteq> []" by simp
  note c = assms [unfolded circ_nonempty [OF ne]]
  have "linked l (as @ [x])" "linked l (x # bs)" using c linked_append [of l as x bs] by auto
  then show "nxt l x = hd (bs @ as @ [x])" "prv l x = last (x # bs @ as)"
    using c linked_snoc [of as l x] linked_Cons [of bs l x]
    by (cases as; cases bs; auto simp: last_append split: if_splits)+
qed

section \<open>The operations implement lists\<close>

lemma circ_insert:
  assumes c: "circ l lst xs" and new: "j \<notin> set xs" and ne: "xs \<noteq> []"
  defines "l' \<equiv> l\<lparr>nxt := (nxt l)(j := hd xs, last xs := j), prv := (prv l)(j := last xs, hd xs := j)\<rparr>"
  shows "circ l' lst (xs @ [j])" and "circ l' (Some j) (j # xs)"
proof -
  note cs = c [unfolded circ_nonempty [OF ne]]
  have ends: "hd xs \<noteq> j" "last xs \<noteq> j" using new ne by auto
  have d: "last xs \<notin> set (butlast xs)" using cs ne by (cases xs rule: rev_cases) auto
  have h: "hd xs \<notin> set (tl xs)" using cs ne by (cases xs) auto
  have "linked l' xs = linked l xs"
  proof (rule linked_cong)
    fix x
    show "x \<in> set (butlast xs) \<Longrightarrow> nxt l' x = nxt l x"
      using d new by (auto simp: l'_def dest: in_set_butlastD)
    show "x \<in> set (tl xs) \<Longrightarrow> prv l' x = prv l x"
      using h new ne by (auto simp: l'_def dest: list.set_sel(2))
  qed
  then show "circ l' lst (xs @ [j])" "circ l' (Some j) (j # xs)"
    using cs ne new ends
    by (auto simp: circ_nonempty linked_snoc linked_Cons l'_def)
qed

lemma circ_single: "circ (set_nxt j j (set_prv j j l)) (Some j) [j]"
  by (simp add: circ_def set_nxt_def set_prv_def)

lemma circ_remove:
  assumes c: "circ l lst (as @ j # bs)"
  defines "p \<equiv> last (j # bs @ as)" and "n \<equiv> hd (bs @ as @ [j])"
  defines "l' \<equiv> l\<lparr>nxt := (nxt l)(p := n), prv := (prv l)(n := p)\<rparr>"
  shows "circ l' (if lst = Some j then if n = j then None else Some n else lst) (as @ bs)"
proof (cases "as @ bs = []")
  case True
  then show ?thesis using c by (simp add: circ_def n_def)
next
  case False
  have ne: "as @ j # bs \<noteq> []" by simp
  note cs = c [unfolded circ_nonempty [OF ne]]
  have dist: "distinct (as @ bs)" "j \<notin> set as" "j \<notin> set bs" "set as \<inter> set bs = {}" using cs by auto
  have as: "linked l' as = linked l as"
  proof (rule linked_cong)
    fix x
    assume "x \<in> set (butlast as)"
    then have "x \<noteq> p" using dist by (cases as rule: rev_cases) (auto simp: p_def last_append)
    then show "nxt l' x = nxt l x" by (simp add: l'_def)
  next
    fix x
    assume "x \<in> set (tl as)"
    then have "x \<noteq> n" using dist by (cases as; cases bs) (auto simp: n_def)
    then show "prv l' x = prv l x" by (simp add: l'_def)
  qed
  have bs: "linked l' bs = linked l bs"
  proof (rule linked_cong)
    fix x
    assume "x \<in> set (butlast bs)"
    then have "x \<noteq> p"
      using dist by (cases bs rule: rev_cases; cases as rule: rev_cases) (auto simp: p_def last_append)
    then show "nxt l' x = nxt l x" by (simp add: l'_def)
  next
    fix x
    assume "x \<in> set (tl bs)"
    then have "x \<noteq> n" using dist by (cases bs) (auto simp: n_def)
    then show "prv l' x = prv l x" by (simp add: l'_def)
  qed
  have parts: "linked l as" "linked l bs"
    using cs linked_append [of l as j bs] linked_snoc [of as l j] linked_Cons [of bs l j]
    by (cases "as = []"; cases "bs = []"; auto)+
  have "linked l' (as @ bs) \<and> nxt l' (last (as @ bs)) = hd (as @ bs) \<and> prv l' (hd (as @ bs)) = last (as @ bs)"
  proof (cases "as = [] \<or> bs = []")
    case True
    then show ?thesis
      using False as bs parts by (auto simp: l'_def p_def n_def)
  next
    case both: False
    have ends: "p = last as" "n = hd bs" using both by (simp_all add: p_def n_def)
    have "nxt l (last bs) = hd as" "prv l (hd as) = last bs" using cs both by auto
    moreover have "last bs \<noteq> p" "hd as \<noteq> n"
      using both dist unfolding ends by (metis disjoint_iff last_in_set, metis disjoint_iff hd_in_set)
    moreover have "linked l' (as @ bs)"
    proof -
      obtain b bs' where b: "bs = b # bs'" using both by (cases bs) auto
      have "linked l' (as @ [b])"
        using as parts both by (simp add: linked_snoc l'_def ends b)
      then show ?thesis using bs parts by (simp add: b linked_append [of l' as b bs'])
    qed
    ultimately show ?thesis using both by (simp add: l'_def)
  qed
  moreover have "(if lst = Some j then if n = j then None else Some n else lst) = Some (hd (as @ bs))"
    using cs False dist by (cases as; cases bs) (auto simp: n_def)
  ultimately show ?thesis using False dist by (simp add: circ_nonempty)
qed

text \<open>What the four routines do to the links, in terms of the represented list.\<close>

lemma blist_add_ptr_eq:
  assumes "circ l lst xs" "j \<notin> set xs" "xs \<noteq> []"
  shows "blist_add_ptr l lst j =
    (l\<lparr>nxt := (nxt l)(j := hd xs, last xs := j), prv := (prv l)(j := last xs, hd xs := j)\<rparr>, lst)"
  using assms by (auto simp: circ_nonempty blist_add_ptr_def Let_def set_nxt_def set_prv_def)

lemma cp_insert_ptr_eq:
  assumes "circ l lst xs" "j \<notin> set xs" "xs \<noteq> []"
  shows "cp_insert_ptr l lst j =
    (l\<lparr>nxt := (nxt l)(j := hd xs, last xs := j), prv := (prv l)(j := last xs, hd xs := j)\<rparr>, Some j)"
proof -
  have "hd xs \<noteq> j" "last xs \<noteq> j" using assms by auto
  then show ?thesis
    using assms by (auto simp: circ_nonempty cp_insert_ptr_def Let_def set_nxt_def set_prv_def)
qed

lemma del_ptr_eq:
  assumes "circ l lst (as @ j # bs)"
  defines "p \<equiv> last (j # bs @ as)" and "n \<equiv> hd (bs @ as @ [j])"
  defines "r \<equiv> (l\<lparr>nxt := (nxt l)(p := n), prv := (prv l)(n := p)\<rparr>,
     if lst = Some j then if n = j then None else Some n else lst)"
  shows "blist_del_ptr l lst j = r" and "cp_unlink_ptr l lst j = r"
proof -
  have nj: "nxt l j = n" "prv l j = p" using circ_mid [OF assms(1)] by (simp_all add: n_def p_def)
  have "p = j \<longleftrightarrow> n = j"
    using circ_distinct [OF assms(1)] by (cases as; cases bs) (auto simp: p_def n_def last_append)
  then show "blist_del_ptr l lst j = r" "cp_unlink_ptr l lst j = r"
    using nj by (auto simp: blist_del_ptr_def cp_unlink_ptr_def set_nxt_def set_prv_def Let_def r_def)
qed

section \<open>Sequences of operations\<close>

datatype list_op = Insert nat | Remove nat

fun op_elem :: "list_op \<Rightarrow> nat" where
  "op_elem (Insert x) = x"
| "op_elem (Remove x) = x"

text \<open>Running operations with given insertion and removal routines.\<close>

fun run_op :: "('s \<Rightarrow> nat \<Rightarrow> 's) \<Rightarrow> ('s \<Rightarrow> nat \<Rightarrow> 's) \<Rightarrow> list_op \<Rightarrow> 's \<Rightarrow> 's" where
  "run_op ins del (Insert x) s = ins s x"
| "run_op ins del (Remove x) s = del s x"

text \<open>Only elements off the list are inserted, and only elements on it removed.\<close>

fun ops_ok :: "(nat list \<Rightarrow> nat \<Rightarrow> nat list) \<Rightarrow> list_op list \<Rightarrow> nat list \<Rightarrow> bool" where
  "ops_ok ins [] xs = True"
| "ops_ok ins (Insert x # ops) xs = (x \<notin> set xs \<and> ops_ok ins ops (ins xs x))"
| "ops_ok ins (Remove x # ops) xs = (x \<in> set xs \<and> ops_ok ins ops (remove1 x xs))"

locale circular_list =
  fixes add del :: "links \<Rightarrow> nat option \<Rightarrow> nat \<Rightarrow> links \<times> nat option"
    and ins :: "nat list \<Rightarrow> nat \<Rightarrow> nat list"
  assumes add_impl: "circ l lst xs \<Longrightarrow> x \<notin> set xs \<Longrightarrow> circ (fst (add l lst x)) (snd (add l lst x)) (ins xs x)"
    and del_impl: "circ l lst xs \<Longrightarrow> x \<in> set xs \<Longrightarrow>
      circ (fst (del l lst x)) (snd (del l lst x)) (remove1 x xs)"
    and add_frame: "circ l lst xs \<Longrightarrow> x \<notin> set xs \<Longrightarrow> y \<notin> insert x (set xs) \<Longrightarrow>
      nxt (fst (add l lst x)) y = nxt l y \<and> prv (fst (add l lst x)) y = prv l y"
    and del_frame: "circ l lst xs \<Longrightarrow> x \<in> set xs \<Longrightarrow> y \<notin> set xs \<Longrightarrow>
      nxt (fst (del l lst x)) y = nxt l y \<and> prv (fst (del l lst x)) y = prv l y"
    and ins_set: "set (ins xs x) = insert x (set xs)"
begin

abbreviation padd :: "links \<times> nat option \<Rightarrow> nat \<Rightarrow> links \<times> nat option" where
  "padd s x \<equiv> add (fst s) (snd s) x"

abbreviation pdel :: "links \<times> nat option \<Rightarrow> nat \<Rightarrow> links \<times> nat option" where
  "pdel s x \<equiv> del (fst s) (snd s) x"

lemma run_impl:
  assumes "circ (fst s) (snd s) xs" "ops_ok ins ops xs"
  defines "s' \<equiv> fold (run_op padd pdel) ops s"
  shows "circ (fst s') (snd s') (fold (run_op ins (\<lambda>xs x. remove1 x xs)) ops xs)"
  using assms(1,2) unfolding s'_def
proof (induction ops arbitrary: s xs)
  case (Cons a ops)
  show ?case
  proof (cases a)
    case (Insert x)
    then show ?thesis using Cons.prems Cons.IH [OF add_impl [OF Cons.prems(1), of x]] by simp
  next
    case (Remove x)
    then show ?thesis using Cons.prems Cons.IH [OF del_impl [OF Cons.prems(1), of x]] by simp
  qed
qed simp

lemma run_frame:
  assumes "circ (fst s) (snd s) xs" "ops_ok ins ops xs" "y \<notin> set xs" "y \<notin> op_elem ` set ops"
  defines "s' \<equiv> fold (run_op padd pdel) ops s"
  shows "nxt (fst s') y = nxt (fst s) y \<and> prv (fst s') y = prv (fst s) y"
  using assms(1-4) unfolding s'_def
proof (induction ops arbitrary: s xs)
  case (Cons a ops)
  show ?case
  proof (cases a)
    case (Insert x)
    then show ?thesis
      using Cons.prems Cons.IH [OF add_impl [OF Cons.prems(1), of x]] add_frame [OF Cons.prems(1), of x y]
      by (simp add: ins_set)
  next
    case (Remove x)
    have "y \<notin> set (remove1 x xs)" using Cons.prems(3) by (meson notin_set_remove1)
    then show ?thesis
      using Remove Cons.prems Cons.IH [OF del_impl [OF Cons.prems(1), of x]] del_frame [OF Cons.prems(1), of x y]
      by simp
  qed
qed simp

lemma run_other:
  assumes "circ (fst s) (snd s) xs" "ops_ok ins ops xs" "circ (fst s) other ys"
    and "set ys \<inter> set xs = {}" "set ys \<inter> op_elem ` set ops = {}"
  shows "circ (fst (fold (run_op padd pdel) ops s)) other ys"
proof -
  have "circ (fst (fold (run_op padd pdel) ops s)) other ys = circ (fst s) other ys"
    using assms(4,5) run_frame [OF assms(1,2)] by (intro circ_cong) blast
  then show ?thesis using assms(3) by simp
qed

end

lemma remove_decomp:
  assumes "circ l lst xs" "x \<in> set xs"
  obtains as bs where "xs = as @ x # bs" "remove1 x xs = as @ bs"
proof -
  obtain as bs where "xs = as @ x # bs" "x \<notin> set as" using assms(2) by (meson split_list_first)
  then show ?thesis using that by (simp add: remove1_append)
qed

lemma del_ptr_impl:
  assumes c: "circ l lst xs" and x: "x \<in> set xs"
  shows "circ (fst (blist_del_ptr l lst x)) (snd (blist_del_ptr l lst x)) (remove1 x xs)"
    and "cp_unlink_ptr l lst x = blist_del_ptr l lst x"
    and "y \<notin> set xs \<Longrightarrow> nxt (fst (blist_del_ptr l lst x)) y = nxt l y \<and> prv (fst (blist_del_ptr l lst x)) y = prv l y"
proof -
  obtain as bs where xs: "xs = as @ x # bs" and r: "remove1 x xs = as @ bs"
    using remove_decomp [OF c x] .
  note c' = c [unfolded xs]
  show "circ (fst (blist_del_ptr l lst x)) (snd (blist_del_ptr l lst x)) (remove1 x xs)"
    using circ_remove [OF c'] del_ptr_eq(1) [OF c'] r by simp
  show "cp_unlink_ptr l lst x = blist_del_ptr l lst x"
    using del_ptr_eq [OF c'] by simp
  have "last (x # bs @ as) \<in> set xs" "hd (bs @ as @ [x]) \<in> set xs"
    using last_in_set [of "x # bs @ as"] hd_in_set [of "bs @ as @ [x]"] by (auto simp: xs)
  then show "y \<notin> set xs \<Longrightarrow> nxt (fst (blist_del_ptr l lst x)) y = nxt l y \<and> prv (fst (blist_del_ptr l lst x)) y = prv l y"
    using del_ptr_eq(1) [OF c'] by auto
qed

text \<open>The lists of a transaction grow at the tail, checkpoint lists at the head.\<close>

interpretation blist: circular_list blist_add_ptr blist_del_ptr "\<lambda>xs x. xs @ [x]"
proof unfold_locales
  fix l lst xs x y
  assume c: "circ l lst xs"
  {
    assume x: "x \<notin> set xs"
    show "circ (fst (blist_add_ptr l lst x)) (snd (blist_add_ptr l lst x)) (xs @ [x])"
      using c x circ_insert(1) [OF c x] blist_add_ptr_eq [OF c x]
      by (cases "xs = []") (auto simp: blist_add_ptr_def circ_single)
    assume "y \<notin> insert x (set xs)"
    then show "nxt (fst (blist_add_ptr l lst x)) y = nxt l y \<and> prv (fst (blist_add_ptr l lst x)) y = prv l y"
      using c x blist_add_ptr_eq [OF c x]
      by (cases "xs = []") (auto simp: blist_add_ptr_def set_nxt_def set_prv_def)
  }
qed (auto simp: del_ptr_impl)

interpretation cplist: circular_list cp_insert_ptr cp_unlink_ptr "\<lambda>xs x. x # xs"
proof unfold_locales
  fix l lst xs x y
  assume c: "circ l lst xs"
  {
    assume x: "x \<notin> set xs"
    show "circ (fst (cp_insert_ptr l lst x)) (snd (cp_insert_ptr l lst x)) (x # xs)"
      using c x circ_insert(2) [OF c x] cp_insert_ptr_eq [OF c x]
      by (cases "xs = []") (auto simp: cp_insert_ptr_def circ_single)
    assume "y \<notin> insert x (set xs)"
    then show "nxt (fst (cp_insert_ptr l lst x)) y = nxt l y \<and> prv (fst (cp_insert_ptr l lst x)) y = prv l y"
      using c x cp_insert_ptr_eq [OF c x]
      by (cases "xs = []") (auto simp: cp_insert_ptr_def set_nxt_def set_prv_def)
  }
qed (auto simp: del_ptr_impl)

text \<open>
  C9.  Any sequence of \<open>__blist_add_buffer\<close> and \<open>__blist_del_buffer\<close> calls on the pointers, in which
  a buffer is only added when off the list and only deleted when on it, leaves a circular
  list with exactly the buffers and the order that appending and removing gives on lists of
  addresses, and every other circular list with none of these buffers is as it was.
\<close>

theorem blist_ops_refine:
  fixes ops :: "list_op list" and s :: "links \<times> nat option"
  assumes "circ (fst s) (snd s) xs" and "ops_ok (\<lambda>xs x. xs @ [x]) ops xs"
  defines "s' \<equiv> fold (run_op (\<lambda>s. blist_add_ptr (fst s) (snd s)) (\<lambda>s. blist_del_ptr (fst s) (snd s))) ops s"
  shows "circ (fst s') (snd s') (fold (run_op u_blist_add_buffer u_blist_del_buffer) ops xs) \<and>
    (\<forall>other ys. circ (fst s) other ys \<and> set ys \<inter> set xs = {} \<and> set ys \<inter> op_elem ` set ops = {} \<longrightarrow>
       circ (fst s') other ys)"
proof -
  have eq: "u_blist_add_buffer = (\<lambda>xs x. xs @ [x])" "u_blist_del_buffer = (\<lambda>xs x. remove1 x xs)"
    by (auto simp: u_blist_add_buffer_def u_blist_del_buffer_def fun_eq_iff)
  show ?thesis
    using blist.run_impl [OF assms(1,2)] blist.run_other [OF assms(1,2)] unfolding s'_def eq by blast
qed

definition ex_links :: links where
  "ex_links = \<lparr>nxt = (\<lambda>_. 0)(1 := 2, 2 := 1, 7 := 7), prv = (\<lambda>_. 0)(1 := 2, 2 := 1, 7 := 7)\<rparr>"

theorem blist_ops_refine_witness:
  "let s' = fold (run_op (\<lambda>s. blist_add_ptr (fst s) (snd s)) (\<lambda>s. blist_del_ptr (fst s) (snd s)))
      [Insert 3, Remove 1, Insert 4] (ex_links, Some 1)
   in circ (fst s') (snd s') [2, 3, 4] \<and> circ (fst s') (Some 7) [7]"
proof -
  have c: "circ (fst (ex_links, Some 1)) (snd (ex_links, Some 1)) [1, 2]" "circ (fst (ex_links, Some 1)) (Some 7) [7]"
    by (simp_all add: circ_def ex_links_def)
  have ok: "ops_ok (\<lambda>xs x. xs @ [x]) [Insert 3, Remove 1, Insert 4] [1, 2]" by simp
  show ?thesis
    using blist_ops_refine [OF c(1) ok] c(2)
    by (simp add: Let_def u_blist_add_buffer_def u_blist_del_buffer_def)
qed

text \<open>
  C10.  \<open>__buffer_relink_io\<close> on the pointers takes the buffer out of the checkpoint list, wherever
  it is, and makes it the head of the list of buffers under I/O; both stay circular lists.
\<close>

theorem relink_io_refines:
  assumes "circ l cp xs" and "circ l io ys" and "x \<in> set xs" and "set xs \<inter> set ys = {}"
  shows "case relink_io_ptr l cp io x of (l', cp', io') \<Rightarrow>
    circ l' cp' (remove1 x xs) \<and> circ l' io' (x # ys)"
proof -
  define r where "r = cp_unlink_ptr l cp x"
  define q where "q = cp_insert_ptr (fst r) io x"
  have x: "x \<notin> set ys" "x \<notin> set (remove1 x xs)"
    using assms circ_distinct [OF assms(1)] by auto
  have cp: "circ (fst r) (snd r) (remove1 x xs)"
    using cplist.del_impl [OF assms(1,3)] by (simp add: r_def)
  have io: "circ (fst r) io ys"
    using assms cplist.del_frame [OF assms(1,3)] circ_cong [of ys "fst r" l io] by (auto simp: r_def)
  have "circ (fst q) (snd q) (x # ys)"
    using cplist.add_impl [OF io x(1)] by (simp add: q_def)
  moreover have "circ (fst q) (snd r) (remove1 x xs)"
  proof -
    have "y \<notin> insert x (set ys)" if "y \<in> set (remove1 x xs)" for y
      using that x assms(4) notin_set_remove1 [of y xs x] by auto
    then show ?thesis
      using cp cplist.add_frame [OF io x(1)] circ_cong [of "remove1 x xs" "fst q" "fst r" "snd r"]
      by (auto simp: q_def)
  qed
  ultimately show ?thesis
    by (simp add: relink_io_ptr_def Let_def split_beta flip: r_def q_def)
qed

theorem relink_io_refines_witness:
  "case relink_io_ptr ex_links (Some 1) (Some 7) 2 of (l', cp', io') \<Rightarrow>
    circ l' cp' [1] \<and> circ l' io' [2, 7]"
proof -
  have c: "circ ex_links (Some 1) [1, 2]" "circ ex_links (Some 7) [7]"
    by (simp_all add: circ_def ex_links_def)
  show ?thesis using relink_io_refines [OF c, of 2] by simp
qed

end
