(* ===== verification/Handles.thy ===== *)
theory Handles
  imports Checkpoint
begin

text \<open>
  Handles and transactions, transaction.c: starting, extending, restarting and stopping a
  handle, the barrier against updates, and forcing a commit.  A thread that sleeps goes on
  in the world the other threads have produced until it wakes up.  The counters of a
  transaction (int and atomic_t in C) are integers.
\<close>

section \<open>Transactions\<close>

definition is_handle_aborted :: "world \<Rightarrow> hptr \<Rightarrow> bool" where
  "is_handle_aborted w h = (h_aborted (hds w h) \<or> is_journal_aborted (jnl w))"

text \<open>time_after(a, b)\<close>

definition time_after :: "u64 \<Rightarrow> u64 \<Rightarrow> bool" where
  "time_after a b = (sint (b - a) < 0)"

text \<open>
  jbdbf_get_transaction on a transaction that kzalloc has just returned.  The commit timer
  is not modelled.
\<close>

definition jbdbf_get_transaction :: "kernel_env \<Rightarrow> world \<Rightarrow> world option" where
  "jbdbf_get_transaction k w =
     (let t = t_next w; j = jnl w;
          tr = zero_transaction\<lparr>t_state := T_RUNNING, t_start_time := k_ktime k w,
            t_tid := j_transaction_bf_sequence j, t_expires := jiffies w + j_commit_interval j,
            t_updates := 0, t_outstanding_credits := 0, t_handle_count := 0, t_inode_list := [],
            t_data_tag_list := [], t_num_dirty_blocks := 0, t_durable_commit := 0,
            t_max_wait := 0, t_start := jiffies w\<rparr>
      in do { j_assert (j_running_transaction j = None);
              let w = upd_jnl (\<lambda>j. j\<lparr>j_transaction_bf_sequence := j_transaction_bf_sequence j + 1,
                                      j_running_transaction := Some t\<rparr>) w;
              Some ((upd_tr t (\<lambda>_. tr) w)\<lparr>t_next := t + 1\<rparr>) })"

definition update_t_max_wait :: "kernel_env \<Rightarrow> tptr \<Rightarrow> u64 \<Rightarrow> world \<Rightarrow> world" where
  "update_t_max_wait k t ts w =
     (if k_enable_debug k \<and> time_after (t_start (trs w t)) ts
      then let ts = jbdbf_time_diff ts (t_start (trs w t))
           in if ts > t_max_wait (trs w t) then upd_tr t (\<lambda>tr. tr\<lparr>t_max_wait := ts\<rparr>) w else w
      else w)"

section \<open>Starting a handle\<close>

text \<open>
  The code of start_this_handle from the label repeat; fresh says whether new_transaction
  has been allocated.  With an allocation flag that excludes \<open>__GFP_FS\<close> a failed allocation is
  retried.
\<close>

partial_function (option) start_repeat ::
  "kernel_env \<Rightarrow> bool \<Rightarrow> u64 \<Rightarrow> hptr \<Rightarrow> int \<Rightarrow> world \<Rightarrow> bool \<Rightarrow> (world \<times> int) option" where
  "start_repeat k gfp_fs ts h nblocks w fresh =
     (let j = jnl w
      in do { j_assert (j_flags j AND JBD2_UNMOUNT = 0);
              if is_journal_aborted j \<or> j_errno j \<noteq> 0 \<and> j_flags j AND JBD2_ACK_ERR = 0
              then Some (w, - EROFS)
              else if j_barrier_count j \<noteq> 0
              then start_repeat k gfp_fs ts h nblocks (k_sleep k Wait_Barrier w) fresh
              else case j_running_transaction j of
                None \<Rightarrow>
                  (if \<not> fresh
                   then if k_kzalloc_ok k then start_repeat k gfp_fs ts h nblocks w True
                        else if gfp_fs then Some (w, - ENOMEM)
                        else start_repeat k gfp_fs ts h nblocks w False
                   else do { w \<leftarrow> jbdbf_get_transaction k w;
                             start_repeat k gfp_fs ts h nblocks w False })
              | Some t \<Rightarrow>
                  (if t_state (trs w t) = T_LOCKED
                   then start_repeat k gfp_fs ts h nblocks (k_sleep k Wait_Locked w) fresh
                   else let needed = t_outstanding_credits (trs w t) + nblocks;
                            w1 = upd_tr t (\<lambda>tr. tr\<lparr>t_outstanding_credits := t_outstanding_credits tr + nblocks\<rparr>) w;
                            w0 = upd_tr t (\<lambda>tr. tr\<lparr>t_outstanding_credits := t_outstanding_credits tr - nblocks\<rparr>) w1
                        in if needed > j_max_transaction_buffers j
                           then let tid = t_tid (trs w0 t);
                                    w0 = (if \<not> tid_geq (j_commit_request j) tid
                                          then fst (jbdbf_log_start_commit w0 tid) else w0)
                                in start_repeat k gfp_fs ts h nblocks (k_sleep k Wait_Locked w0) fresh
                           else if u_jbdbf_log_space_left (jnl w1) < jbd_space_needed w1
                           then do { w0 \<leftarrow> (if u_jbdbf_log_space_left (jnl w0) < jbd_space_needed w0
                                            then u_jbdbf_log_wait_for_space k w0 else Some w0);
                                     start_repeat k gfp_fs ts h nblocks w0 fresh }
                           else let w = update_t_max_wait k t ts w1;
                                    w = upd_hd h (\<lambda>hd. hd\<lparr>h_transaction := Some t\<rparr>) w;
                                    w = upd_tr t (\<lambda>tr. tr\<lparr>t_updates := t_updates tr + 1,
                                                           t_handle_count := t_handle_count tr + 1\<rparr>) w
                                in Some (w, 0)) })"

text \<open>The label alloc_transaction comes before the first test of the journal state.\<close>

partial_function (option) alloc_transaction :: "kernel_env \<Rightarrow> bool \<Rightarrow> world \<Rightarrow> (int + bool) option" where
  "alloc_transaction k gfp_fs w =
     (if j_running_transaction (jnl w) = None
      then if k_kzalloc_ok k then Some (Inr True)
           else if gfp_fs then Some (Inl (- ENOMEM)) else alloc_transaction k gfp_fs w
      else Some (Inr False))"

definition start_this_handle :: "kernel_env \<Rightarrow> bool \<Rightarrow> world \<Rightarrow> hptr \<Rightarrow> (world \<times> int) option" where
  "start_this_handle k gfp_fs w h =
     (let nblocks = h_buffer_credits (hds w h)
      in if nblocks > j_max_transaction_buffers (jnl w) then Some (w, - ENOSPC)
         else do { r \<leftarrow> alloc_transaction k gfp_fs w;
                   case r of
                     Inl err \<Rightarrow> Some (w, err)
                   | Inr fresh \<Rightarrow> start_repeat k gfp_fs (jiffies w) h nblocks w fresh })"

definition new_handle :: "kernel_env \<Rightarrow> int \<Rightarrow> world \<Rightarrow> world \<times> hptr option" where
  "new_handle k nblocks w =
     (if \<not> k_alloc_ok k w then (w, None)
      else let h = h_next w
           in ((upd_hd h (\<lambda>_. zero_handle\<lparr>h_buffer_credits := nblocks, h_ref := 1\<rparr>) w)\<lparr>h_next := h + 1\<rparr>,
               Some h))"

text \<open>
  The handle, or an error: the value ERR_PTR.  There is one journal here, so the test for a NULL journal
  is left out, and of the assertion on the journal of the current handle only the access to its transaction remains.
\<close>

definition jbdbf__journal_start :: "kernel_env \<Rightarrow> bool \<Rightarrow> int \<Rightarrow> world \<Rightarrow> (world \<times> (int + hptr)) option" where
  "jbdbf__journal_start k gfp_fs nblocks w =
     (case journal_info w of
        Some h \<Rightarrow> do { _ \<leftarrow> h_transaction (hds w h);
                         Some (upd_hd h (\<lambda>hd. hd\<lparr>h_ref := h_ref hd + 1\<rparr>) w, Inr h) }
      | None \<Rightarrow>
          (case new_handle k nblocks w of
             (w, None) \<Rightarrow> Some (w, Inl (- ENOMEM))
           | (w, Some h) \<Rightarrow>
               do { (w, err) \<leftarrow> start_this_handle k gfp_fs (w\<lparr>journal_info := Some h\<rparr>) h;
                    Some (if err < 0 then (w\<lparr>journal_info := None\<rparr>, Inl err) else (w, Inr h)) }))"

definition jbdbf_journal_start :: "kernel_env \<Rightarrow> int \<Rightarrow> world \<Rightarrow> (world \<times> (int + hptr)) option" where
  "jbdbf_journal_start k nblocks w = jbdbf__journal_start k False nblocks w"

section \<open>Extending and restarting a handle\<close>

definition jbdbf_journal_extend :: "world \<Rightarrow> hptr \<Rightarrow> int \<Rightarrow> (world \<times> int) option" where
  "jbdbf_journal_extend w h nblocks =
     do { t \<leftarrow> h_transaction (hds w h);
          if is_handle_aborted w h then Some (w, - EIO)
          else if t_state (trs w t) \<noteq> T_RUNNING then Some (w, 1)
          else let wanted = t_outstanding_credits (trs w t) + nblocks
               in if wanted > j_max_transaction_buffers (jnl w) then Some (w, 1)
                  else if wanted > u_jbdbf_log_space_left (jnl w) then Some (w, 1)
                  else Some (upd_tr t (\<lambda>tr. tr\<lparr>t_outstanding_credits := t_outstanding_credits tr + nblocks\<rparr>)
                               (upd_hd h (\<lambda>hd. hd\<lparr>h_buffer_credits := h_buffer_credits hd + nblocks\<rparr>) w), 0) }"

definition jbdbf__journal_restart :: "kernel_env \<Rightarrow> bool \<Rightarrow> world \<Rightarrow> hptr \<Rightarrow> int \<Rightarrow> (world \<times> int) option" where
  "jbdbf__journal_restart k gfp_fs w h nblocks =
     do { t \<leftarrow> h_transaction (hds w h);
          if is_handle_aborted w h then Some (w, 0)
          else do { j_assert (t_updates (trs w t) > 0);
                    j_assert (journal_info w = Some h);
                    let w = upd_tr t (\<lambda>tr. tr\<lparr>t_outstanding_credits := t_outstanding_credits tr -
                                                 h_buffer_credits (hds w h),
                                               t_updates := t_updates tr - 1\<rparr>) w;
                    let tid = t_tid (trs w t);
                    let w = (if \<not> tid_geq (j_commit_request (jnl w)) tid
                             then fst (jbdbf_log_start_commit w tid) else w);
                    let w = upd_hd h (\<lambda>hd. hd\<lparr>h_buffer_credits := nblocks\<rparr>) w;
                    start_this_handle k gfp_fs w h } }"

definition jbdbf_journal_restart :: "kernel_env \<Rightarrow> world \<Rightarrow> hptr \<Rightarrow> int \<Rightarrow> (world \<times> int) option" where
  "jbdbf_journal_restart k w h nblocks = jbdbf__journal_restart k False w h nblocks"

section \<open>The barrier against updates\<close>

partial_function (option) wait_no_updates :: "kernel_env \<Rightarrow> world \<Rightarrow> world option" where
  "wait_no_updates k w =
     (case j_running_transaction (jnl w) of
        None \<Rightarrow> Some w
      | Some t \<Rightarrow> if t_updates (trs w t) = 0 then Some w
                  else wait_no_updates k (k_sleep k Wait_Updates w))"

definition jbdbf_journal_lock_updates :: "kernel_env \<Rightarrow> world \<Rightarrow> world option" where
  "jbdbf_journal_lock_updates k w =
     wait_no_updates k (upd_jnl (\<lambda>j. j\<lparr>j_barrier_count := j_barrier_count j + 1\<rparr>) w)"

definition jbdbf_journal_unlock_updates :: "world \<Rightarrow> world option" where
  "jbdbf_journal_unlock_updates w =
     do { j_assert (j_barrier_count (jnl w) \<noteq> 0);
          Some (upd_jnl (\<lambda>j. j\<lparr>j_barrier_count := j_barrier_count j - 1\<rparr>) w) }"

section \<open>Stopping a handle\<close>

text \<open>Batching of synchronous handles: how long to sleep before the commit is requested.\<close>

definition sync_batching :: "kernel_env \<Rightarrow> hptr \<Rightarrow> tptr \<Rightarrow> world \<Rightarrow> world" where
  "sync_batching k h t w =
     (if h_sync (hds w h) \<and> j_last_sync_writer (jnl w) \<noteq> k_pid k
      then let w = upd_jnl (\<lambda>j. j\<lparr>j_last_sync_writer := k_pid k\<rparr>) w;
               trans_time = k_ktime k w - t_start_time (trs w t);
               commit_time = max (j_average_commit_time (jnl w)) (ucast (1000 * j_min_batch_time (jnl w)));
               commit_time = min commit_time (ucast (1000 * j_max_batch_time (jnl w)))
           in if trans_time < commit_time then k_sleep k Wait_Batch w else w
      else w)"

definition jbdbf_journal_stop :: "kernel_env \<Rightarrow> world \<Rightarrow> hptr \<Rightarrow> (world \<times> int) option" where
  "jbdbf_journal_stop k w h =
     do { t \<leftarrow> h_transaction (hds w h);
          j_assert (journal_info w = Some h);
          j_assert (is_handle_aborted w h \<or> t_updates (trs w t) > 0);
          let err = (if is_handle_aborted w h then - EIO else 0);
          let w = upd_hd h (\<lambda>hd. hd\<lparr>h_ref := h_ref hd - 1\<rparr>) w;
          if h_ref (hds w h) > 0 then Some (w, err)
          else do { let w = sync_batching k h t w;
                    let hd = hds w h;
                    let w = (if h_sync hd then upd_tr t (\<lambda>tr. tr\<lparr>t_synchronous_commit := True\<rparr>) w else w);
                    let w = w\<lparr>journal_info := None\<rparr>;
                    let w = upd_tr t (\<lambda>tr. tr\<lparr>t_outstanding_credits := t_outstanding_credits tr -
                                                h_buffer_credits hd\<rparr>) w;
                    let must = (h_sync hd \<or> t_outstanding_credits (trs w t) > j_max_transaction_buffers (jnl w) \<or>
                                time_after_eq (jiffies w) (t_expires (trs w t)));
                    let w = (if must
                             then if h_durable_commit hd
                                  then fst (jbdbf_log_start_optfs_commit w (t_tid (trs w t)) DSYNC_COMMIT)
                                  else fst (jbdbf_log_start_commit w (t_tid (trs w t)))
                             else w);
                    let wait_for_commit = (must \<and> (h_sync hd \<and> \<not> k_memalloc k \<or> h_durable_commit hd));
                    let tid = t_tid (trs w t);
                    let w = upd_tr t (\<lambda>tr. tr\<lparr>t_updates := t_updates tr - 1\<rparr>) w;
                    if wait_for_commit then jbdbf_log_wait_commit k w tid else Some (w, err) } }"

definition jbdbf_journal_force_commit :: "kernel_env \<Rightarrow> world \<Rightarrow> (world \<times> int) option" where
  "jbdbf_journal_force_commit k w =
     do { (w, r) \<leftarrow> jbdbf_journal_start k 1 w;
          case r of
            Inl err \<Rightarrow> Some (w, err)
          | Inr h \<Rightarrow> jbdbf_journal_stop k (upd_hd h (\<lambda>hd. hd\<lparr>h_sync := True\<rparr>) w) h }"

definition jbdbf_journal_force_dsync_commit :: "kernel_env \<Rightarrow> world \<Rightarrow> (world \<times> int) option" where
  "jbdbf_journal_force_dsync_commit k w =
     do { (w, r) \<leftarrow> jbdbf_journal_start k 1 w;
          case r of
            Inl err \<Rightarrow> Some (w, err)
          | Inr h \<Rightarrow> jbdbf_journal_stop k (upd_hd h (\<lambda>hd. hd\<lparr>h_sync := True, h_durable_commit := True\<rparr>) w) h }"

end
