(* ===== verification/Handles_Correct.thy ===== *)
theory Handles_Correct
  imports Handles
begin

text \<open>
  Handles: what a started handle can rely on, the exact accounting of the credits, nesting, and
  how a later request for an ordinary commit takes the place of one for a durable commit.
\<close>

section \<open>Starting\<close>

text \<open>
  What can happen to the world before start_this_handle admits a handle: the thread sleeps, it asks for
  the commit of a full transaction, it waits for space in the log, or it opens a new transaction.
\<close>

inductive delay :: "kernel_env \<Rightarrow> world \<Rightarrow> world \<Rightarrow> bool" for k where
  sleep: "delay k w (k_sleep k reason w)"
| request: "delay k w (fst (jbdbf_log_start_commit w tid))"
| space: "u_jbdbf_log_wait_for_space k w = Some w' \<Longrightarrow> delay k w w'"
| open_new: "j_running_transaction (jnl w) = None \<Longrightarrow> jbdbf_get_transaction k w = Some w' \<Longrightarrow> delay k w w'"

text \<open>The world w in which the handle h with n credits is admitted to transaction t, and the world w' it gives.\<close>

definition admitted :: "int \<Rightarrow> hptr \<Rightarrow> tptr \<Rightarrow> world \<Rightarrow> world \<Rightarrow> bool" where
  "admitted n h t w w' \<longleftrightarrow>
     j_running_transaction (jnl w) = Some t \<and> t_state (trs w t) \<noteq> T_LOCKED \<and>
     j_barrier_count (jnl w) = 0 \<and> \<not> is_journal_aborted (jnl w) \<and>
     jnl w' = jnl w \<and> h_transaction (hds w' h) = Some t \<and> (\<forall>x. x \<noteq> h \<longrightarrow> hds w' x = hds w x) \<and>
     t_outstanding_credits (trs w' t) = t_outstanding_credits (trs w t) + n \<and>
     t_updates (trs w' t) = t_updates (trs w t) + 1 \<and>
     t_handle_count (trs w' t) = t_handle_count (trs w t) + 1 \<and>
     t_state (trs w' t) = t_state (trs w t) \<and> (\<forall>x. x \<noteq> t \<longrightarrow> trs w' x = trs w x) \<and>
     t_outstanding_credits (trs w' t) \<le> j_max_transaction_buffers (jnl w') \<and>
     jbd_space_needed w' \<le> u_jbdbf_log_space_left (jnl w')"

lemma jbd_space_needed_cong:
  "jnl w' = jnl w \<Longrightarrow> (\<And>t. t_outstanding_credits (trs w' t) = t_outstanding_credits (trs w t)) \<Longrightarrow>
   jbd_space_needed w' = jbd_space_needed w"
  by (simp add: jbd_space_needed_def Let_def split: option.split)

lemma update_t_max_wait_sel [simp]:
  "jnl (update_t_max_wait k t ts w) = jnl w" "hds (update_t_max_wait k t ts w) = hds w"
  "t_outstanding_credits (trs (update_t_max_wait k t ts w) x) = t_outstanding_credits (trs w x)"
  "t_state (trs (update_t_max_wait k t ts w) x) = t_state (trs w x)"
  "t_updates (trs (update_t_max_wait k t ts w) x) = t_updates (trs w x)"
  "t_handle_count (trs (update_t_max_wait k t ts w) x) = t_handle_count (trs w x)"
  by (simp_all add: update_t_max_wait_def Let_def)

lemma update_t_max_wait_other [simp]: "x \<noteq> t \<Longrightarrow> trs (update_t_max_wait k t ts w) x = trs w x"
  by (simp add: update_t_max_wait_def Let_def)

abbreviation reserve :: "tptr \<Rightarrow> int \<Rightarrow> world \<Rightarrow> world" where
  "reserve t n \<equiv> upd_tr t (\<lambda>tr. tr\<lparr>t_outstanding_credits := t_outstanding_credits tr + n\<rparr>)"

lemma unreserve [simp]:
  "upd_tr t (\<lambda>tr. tr\<lparr>t_outstanding_credits := t_outstanding_credits tr - n\<rparr>) (reserve t n w) = w"
  by (simp add: upd_tr_def)

lemma admitted_enter:
  assumes "j_running_transaction (jnl w) = Some t" "t_state (trs w t) \<noteq> T_LOCKED"
    "t_outstanding_credits (trs w t) + n \<le> j_max_transaction_buffers (jnl w)"
    "jbd_space_needed (reserve t n w) \<le> u_jbdbf_log_space_left (jnl w)" "j_barrier_count (jnl w) = 0"
    "\<not> is_journal_aborted (jnl w)"
  shows "admitted n h t w (upd_tr t (\<lambda>tr. tr\<lparr>t_updates := t_updates tr + 1, t_handle_count := t_handle_count tr + 1\<rparr>)
    (upd_hd h (\<lambda>hd. hd\<lparr>h_transaction := Some t\<rparr>) (update_t_max_wait k t ts (reserve t n w))))"
    (is "admitted n h t w ?w'")
proof -
  have "jbd_space_needed ?w' = jbd_space_needed (reserve t n w)" by (rule jbd_space_needed_cong) simp_all
  then show ?thesis using assms by (simp add: admitted_def)
qed

lemma start_repeat_admits:
  assumes "start_repeat k gfp_fs ts h nblocks w fresh = Some r"
  shows "snd r = 0 \<longrightarrow> (\<exists>w0 t. (delay k)\<^sup>*\<^sup>* w w0 \<and> admitted nblocks h t w0 (fst r))"
  using assms
proof (rule start_repeat.raw_induct [rotated, where P = "\<lambda>k gfp_fs ts h nblocks w fresh r.
    snd r = 0 \<longrightarrow> (\<exists>w0 t. (delay k)\<^sup>*\<^sup>* w w0 \<and> admitted nblocks h t w0 (fst r))"], goal_cases)
  case (1 f k gfp_fs ts h nblocks w fresh r)
  note IH = 1(1) and body = 1(2)
  have steps: ?case if "(delay k)\<^sup>*\<^sup>* w w1" "f k gfp_fs ts h nblocks w1 b = Some r" for w1 b
    using IH [OF that(2)] rtranclp_trans [OF that(1)] by blast
  have step: ?case if "delay k w w1" "f k gfp_fs ts h nblocks w1 b = Some r" for w1 b
    using steps [OF r_into_rtranclp, of w1 b] that by blast
  have again: ?case if "f k gfp_fs ts h nblocks w b = Some r" for b using IH [OF that] .
  let ?err = "is_journal_aborted (jnl w) \<or> j_errno (jnl w) \<noteq> 0 \<and> j_flags (jnl w) AND JBD2_ACK_ERR = 0"
  consider (error) "?err" | (barrier) "\<not> ?err" "j_barrier_count (jnl w) \<noteq> 0"
    | (none) "\<not> ?err" "j_barrier_count (jnl w) = 0" "j_running_transaction (jnl w) = None"
    | (running) t where "\<not> ?err" "j_barrier_count (jnl w) = 0" "j_running_transaction (jnl w) = Some t"
    by fastforce
  then show ?case
  proof cases
    case error
    then have "r = (w, - EROFS)" using body by (auto simp: Let_def split: Option.bind_splits)
    then show ?thesis by (simp add: errno_defs)
  next
    case barrier
    then have "f k gfp_fs ts h nblocks (k_sleep k Wait_Barrier w) fresh = Some r"
      using body by (simp only: Let_def if_True if_False simp_thms bind_eq_Some_conv) blast
    then show ?thesis by (rule step [OF delay.sleep])
  next
    case none
    show ?thesis
    proof (cases fresh)
      case True
      then obtain w1 where "jbdbf_get_transaction k w = Some w1" "f k gfp_fs ts h nblocks w1 False = Some r"
        using body none by (auto simp: Let_def split: Option.bind_splits)
      then show ?thesis using step [OF delay.open_new [OF none(3)]] by blast
    next
      case False
      then have "r = (w, - ENOMEM) \<or> f k gfp_fs ts h nblocks w True = Some r \<or> f k gfp_fs ts h nblocks w False = Some r"
        using body none by (auto simp: Let_def split: Option.bind_splits if_splits)
      then show ?thesis using again by (auto simp: errno_defs)
    qed
  next
    case (running t)
    let ?w0 = "if \<not> tid_geq (j_commit_request (jnl w)) (t_tid (trs w t)) then fst (jbdbf_log_start_commit w (t_tid (trs w t))) else w"
    show ?thesis
    proof (cases "t_state (trs w t) = T_LOCKED \<or> t_outstanding_credits (trs w t) + nblocks > j_max_transaction_buffers (jnl w) \<or>
        u_jbdbf_log_space_left (jnl (reserve t nblocks w)) < jbd_space_needed (reserve t nblocks w)")
      case True
      with running body have "f k gfp_fs ts h nblocks (k_sleep k Wait_Locked w) fresh = Some r \<or>
          f k gfp_fs ts h nblocks (k_sleep k Wait_Locked ?w0) fresh = Some r \<or>
          f k gfp_fs ts h nblocks w fresh = Some r \<or>
          (\<exists>w1. u_jbdbf_log_wait_for_space k w = Some w1 \<and> f k gfp_fs ts h nblocks w1 fresh = Some r)"
        by (auto simp: Let_def split: if_splits Option.bind_splits)
      moreover have "(delay k)\<^sup>*\<^sup>* w (k_sleep k Wait_Locked ?w0)"
        by (auto intro: converse_rtranclp_into_rtranclp delay.sleep delay.request)
      ultimately show ?thesis using step steps again delay.sleep delay.space by blast
    next
      case enter: False
      have "r = (upd_tr t (\<lambda>tr. tr\<lparr>t_updates := t_updates tr + 1, t_handle_count := t_handle_count tr + 1\<rparr>)
          (upd_hd h (\<lambda>hd. hd\<lparr>h_transaction := Some t\<rparr>) (update_t_max_wait k t ts (reserve t nblocks w))), 0)"
        using body running enter by (auto simp: Let_def split: Option.bind_splits)
      then show ?thesis
        using admitted_enter [of w t nblocks h k ts] running enter by auto
    qed
  qed
qed

lemma alloc_transaction_error: "alloc_transaction k gfp_fs w = Some r \<Longrightarrow> r \<noteq> Inl 0"
  by (erule alloc_transaction.raw_induct [rotated, where P = "\<lambda>k gfp_fs w r. r \<noteq> Inl 0"])
    (auto simp: errno_defs split: if_splits)

text \<open>
  C17: a handle that start_this_handle admits, whatever the other threads did while it slept, is
  admitted to the running transaction of the world it found after its last delay: that transaction is not locked, no
  barrier is up and the journal is not aborted.  The handle adds exactly its credits to those of the transaction,
  one update and one handle, and changes no other transaction or handle; what it reserved on failed attempts has been
  given back.  The credits are then within the limit for one transaction, and the log has
  the space for them and for the committing transaction.
\<close>

theorem start_this_handle_admits:
  assumes "start_this_handle k gfp_fs w h = Some (w', 0)"
  shows "\<exists>w0 t. (delay k)\<^sup>*\<^sup>* w w0 \<and> admitted (h_buffer_credits (hds w h)) h t w0 w'"
proof -
  from assms obtain fresh where
    "start_repeat k gfp_fs (jiffies w) h (h_buffer_credits (hds w h)) w fresh = Some (w', 0)"
    by (auto simp: start_this_handle_def Let_def errno_defs split: if_splits Option.bind_splits sum.splits
        dest: alloc_transaction_error)
  from start_repeat_admits [OF this] show ?thesis by simp
qed

text \<open>The journal and the transaction into which a handle can be admitted at once.\<close>

definition room_for :: "world \<Rightarrow> tptr \<Rightarrow> int \<Rightarrow> bool" where
  "room_for w t n = (j_running_transaction (jnl w) = Some t \<and> t_state (trs w t) = T_RUNNING \<and>
     j_flags (jnl w) AND JBD2_UNMOUNT = 0 \<and> \<not> is_journal_aborted (jnl w) \<and> j_errno (jnl w) = 0 \<and>
     j_barrier_count (jnl w) = 0 \<and> 0 \<le> t_outstanding_credits (trs w t) \<and>
     t_outstanding_credits (trs w t) + n \<le> j_max_transaction_buffers (jnl w) \<and>
     j_committing_transaction (jnl w) \<noteq> Some t \<and> jbd_space_needed w \<le> u_jbdbf_log_space_left (jnl w))"

lemma jbd_space_needed_credits:
  "j_committing_transaction (jnl w) \<noteq> Some t \<Longrightarrow> jbd_space_needed (upd_tr t f w) = jbd_space_needed w"
  by (auto simp: jbd_space_needed_def Let_def split: option.split)

lemma start_this_handle_room:
  assumes "room_for w t (h_buffer_credits (hds w h))"
  shows "start_this_handle k gfp_fs w h =
    Some (upd_tr t (\<lambda>tr. tr\<lparr>t_updates := t_updates tr + 1, t_handle_count := t_handle_count tr + 1\<rparr>)
      (upd_hd h (\<lambda>hd. hd\<lparr>h_transaction := Some t\<rparr>) (update_t_max_wait k t (jiffies w)
        (upd_tr t (\<lambda>tr. tr\<lparr>t_outstanding_credits := t_outstanding_credits tr + h_buffer_credits (hds w h)\<rparr>) w))), 0)"
proof -
  let ?n = "h_buffer_credits (hds w h)"
  have "alloc_transaction k gfp_fs w = Some (Inr False)"
    using assms by (subst alloc_transaction.simps) (simp add: room_for_def)
  moreover have "start_repeat k gfp_fs (jiffies w) h ?n w False =
    Some (upd_tr t (\<lambda>tr. tr\<lparr>t_updates := t_updates tr + 1, t_handle_count := t_handle_count tr + 1\<rparr>)
      (upd_hd h (\<lambda>hd. hd\<lparr>h_transaction := Some t\<rparr>) (update_t_max_wait k t (jiffies w)
        (upd_tr t (\<lambda>tr. tr\<lparr>t_outstanding_credits := t_outstanding_credits tr + ?n\<rparr>) w))), 0)"
    using assms by (subst start_repeat.simps) (simp add: room_for_def Let_def jbd_space_needed_credits)
  ultimately show ?thesis using assms by (simp add: start_this_handle_def room_for_def Let_def)
qed

text \<open>
  C18: when the running transaction has room for a handle, starting it returns at once, and
  stopping it again (it is not synchronous and the transaction is not due) gives all its
  credits back: the transaction has the credits and updates it had before, and counts one more
  handle.
\<close>

theorem start_stop_credits:
  assumes "room_for w t n" "0 \<le> n" "journal_info w = None" "k_alloc_ok k w"
    "0 \<le> t_updates (trs w t)" "\<not> time_after_eq (jiffies w) (t_expires (trs w t))"
  shows "\<exists>h w1 w2. jbdbf_journal_start k n w = Some (w1, Inr h) \<and> h_buffer_credits (hds w1 h) = n \<and>
    t_outstanding_credits (trs w1 t) = t_outstanding_credits (trs w t) + n \<and>
    t_updates (trs w1 t) = t_updates (trs w t) + 1 \<and> journal_info w1 = Some h \<and>
    jbdbf_journal_stop k w1 h = Some (w2, 0) \<and> journal_info w2 = None \<and>
    t_outstanding_credits (trs w2 t) = t_outstanding_credits (trs w t) \<and>
    t_updates (trs w2 t) = t_updates (trs w t) \<and> t_handle_count (trs w2 t) = t_handle_count (trs w t) + 1 \<and>
    jnl w2 = jnl w"
proof -
  define h where "h = h_next w"
  define w0 where "w0 = (upd_hd h (\<lambda>_. zero_handle\<lparr>h_buffer_credits := n, h_ref := 1\<rparr>) w)\<lparr>h_next := h + 1, journal_info := Some h\<rparr>"
  have w0: "hds w0 h = zero_handle\<lparr>h_buffer_credits := n, h_ref := 1\<rparr>" "jnl w0 = jnl w" "trs w0 = trs w" "jiffies w0 = jiffies w"
      "journal_info w0 = Some h"
    by (simp_all add: w0_def)
  have "room_for w0 t (h_buffer_credits (hds w0 h))"
    using assms(1) w0 jbd_space_needed_cong [of w0 w] by (simp add: room_for_def)
  note start = start_this_handle_room [OF this]
  define w1 where "w1 = upd_tr t (\<lambda>tr. tr\<lparr>t_updates := t_updates tr + 1, t_handle_count := t_handle_count tr + 1\<rparr>)
      (upd_hd h (\<lambda>hd. hd\<lparr>h_transaction := Some t\<rparr>) (update_t_max_wait k t (jiffies w0)
        (upd_tr t (\<lambda>tr. tr\<lparr>t_outstanding_credits := t_outstanding_credits tr + n\<rparr>) w0)))"
  have w1: "hds w1 h = zero_handle\<lparr>h_buffer_credits := n, h_ref := 1, h_transaction := Some t\<rparr>" "jnl w1 = jnl w"
      "t_outstanding_credits (trs w1 t) = t_outstanding_credits (trs w t) + n" "t_updates (trs w1 t) = t_updates (trs w t) + 1"
      "t_handle_count (trs w1 t) = t_handle_count (trs w t) + 1" "t_expires (trs w1 t) = t_expires (trs w t)"
      "jiffies w1 = jiffies w" "journal_info w1 = Some h"
    by (simp_all add: w1_def w0 zero_defs) (simp_all add: update_t_max_wait_def w0 Let_def)
  have st: "jbdbf_journal_start k n w = Some (w1, Inr h)"
    using assms(3,4) start by (simp add: jbdbf_journal_start_def jbdbf__journal_start_def new_handle_def Let_def w0 zero_defs
        flip: h_def w0_def w1_def) (simp add: w0_def w1_def zero_defs)
  have "\<not> is_handle_aborted w1 h" using assms(1) w1 by (simp add: is_handle_aborted_def room_for_def zero_defs)
  moreover have "\<not> t_outstanding_credits (trs w t) > j_max_transaction_buffers (jnl w)"
    using assms(1,2) by (simp add: room_for_def)
  ultimately have "\<exists>w2. jbdbf_journal_stop k w1 h = Some (w2, 0) \<and> journal_info w2 = None \<and>
    t_outstanding_credits (trs w2 t) = t_outstanding_credits (trs w t) \<and>
    t_updates (trs w2 t) = t_updates (trs w t) \<and> t_handle_count (trs w2 t) = t_handle_count (trs w t) + 1 \<and>
    jnl w2 = jnl w"
    using assms(5,6) w1 by (simp add: jbdbf_journal_stop_def sync_batching_def Let_def zero_defs)
  with st w1 show ?thesis by (auto simp: zero_defs)
qed

definition ex_handle_world :: world where
  "ex_handle_world = zero_world\<lparr>jnl := zero_journal\<lparr>j_running_transaction := Some 2, j_free := 4096,
       j_max_transaction_buffers := 1024\<rparr>,
     trs := (\<lambda>_. zero_transaction)(2 := zero_transaction\<lparr>t_state := T_RUNNING, t_expires := 500, t_outstanding_credits := 20,
       t_updates := 1\<rparr>)\<rparr>"

lemma ex_handle_room: "room_for ex_handle_world 2 8"
proof -
  have "u_jbdbf_log_space_left (jnl ex_handle_world) = 3556"
    by (simp add: ex_handle_world_def zero_defs u_jbdbf_log_space_left_def MIN_LOG_RESERVED_BLOCKS_def Let_def)
  then show ?thesis
    by (simp add: room_for_def) (simp add: ex_handle_world_def zero_defs is_journal_aborted_def jbd_space_needed_def)
qed

lemma ex_handle_expires: "\<not> time_after_eq (jiffies ex_handle_world) (t_expires (trs ex_handle_world 2))"
  by (simp add: ex_handle_world_def zero_defs time_after_eq_def)

lemma ex_handle_sel:
  "journal_info ex_handle_world = None" "k_alloc_ok quiet_kernel ex_handle_world" "t_updates (trs ex_handle_world 2) = 1"
  by (simp_all add: ex_handle_world_def quiet_kernel_def zero_defs)

theorem start_stop_credits_witness:
  "\<exists>h w1 w2. jbdbf_journal_start quiet_kernel 8 ex_handle_world = Some (w1, Inr h) \<and> h_buffer_credits (hds w1 h) = 8 \<and>
    t_outstanding_credits (trs w1 2) = t_outstanding_credits (trs ex_handle_world 2) + 8 \<and>
    t_updates (trs w1 2) = t_updates (trs ex_handle_world 2) + 1 \<and> journal_info w1 = Some h \<and>
    jbdbf_journal_stop quiet_kernel w1 h = Some (w2, 0) \<and> journal_info w2 = None \<and>
    t_outstanding_credits (trs w2 2) = t_outstanding_credits (trs ex_handle_world 2) \<and>
    t_updates (trs w2 2) = t_updates (trs ex_handle_world 2) \<and>
    t_handle_count (trs w2 2) = t_handle_count (trs ex_handle_world 2) + 1 \<and> jnl w2 = jnl ex_handle_world"
  using start_stop_credits [OF ex_handle_room _ _ _ _ ex_handle_expires] ex_handle_sel by simp

definition ex_start_world :: world where
  "ex_start_world = upd_hd 7 (\<lambda>_. zero_handle\<lparr>h_buffer_credits := 8, h_ref := 1\<rparr>) ex_handle_world"

lemma ex_start_room: "room_for ex_start_world 2 (h_buffer_credits (hds ex_start_world 7))"
proof -
  have "jbd_space_needed ex_start_world = jbd_space_needed ex_handle_world"
    by (rule jbd_space_needed_cong) (simp_all add: ex_start_world_def)
  then show ?thesis using ex_handle_room by (simp add: room_for_def ex_start_world_def zero_defs)
qed

theorem start_this_handle_admits_witness:
  "\<exists>w' w0 t. start_this_handle quiet_kernel True ex_start_world 7 = Some (w', 0) \<and>
     (delay quiet_kernel)\<^sup>*\<^sup>* ex_start_world w0 \<and> admitted 8 7 t w0 w'"
proof -
  have "h_buffer_credits (hds ex_start_world 7) = 8" by (simp add: ex_start_world_def)
  moreover obtain w' where "start_this_handle quiet_kernel True ex_start_world 7 = Some (w', 0)"
    using start_this_handle_room [OF ex_start_room] by blast
  ultimately show ?thesis using start_this_handle_admits [of quiet_kernel True ex_start_world 7 w'] by auto
qed

section \<open>Nesting\<close>

text \<open>
  C19: starting a handle inside another one only takes a reference to it, without reserving
  anything, and the matching stop drops it again and leaves the world as it was; the error -EIO
  says that the handle is aborted.
\<close>

theorem nested_start_stop:
  assumes "journal_info w = Some h" "h_transaction (hds w h) = Some t" "0 < h_ref (hds w h)"
    "is_handle_aborted w h \<or> 0 < t_updates (trs w t)"
  shows "\<exists>w1. jbdbf_journal_start k n w = Some (w1, Inr h) \<and> trs w1 = trs w \<and> jnl w1 = jnl w \<and>
    jbdbf_journal_stop k w1 h = Some (w, if is_handle_aborted w h then - EIO else 0)"
proof -
  let ?w1 = "upd_hd h (\<lambda>hd. hd\<lparr>h_ref := h_ref hd + 1\<rparr>) w"
  have "upd_hd h (\<lambda>hd. hd\<lparr>h_ref := h_ref hd - 1\<rparr>) ?w1 = w" by (simp add: upd_hd_def)
  moreover have "is_handle_aborted ?w1 h = is_handle_aborted w h" by (simp add: is_handle_aborted_def)
  ultimately have "jbdbf_journal_stop k ?w1 h = Some (w, if is_handle_aborted w h then - EIO else 0)"
    using assms by (simp add: jbdbf_journal_stop_def Let_def)
  then show ?thesis
    using assms(1,2) by (simp add: jbdbf_journal_start_def jbdbf__journal_start_def)
qed

theorem nested_start_stop_witness:
  "\<exists>w1. jbdbf_journal_start quiet_kernel 9 (zero_world\<lparr>journal_info := Some 7,
      hds := (\<lambda>_. zero_handle\<lparr>h_transaction := Some 2, h_ref := 1\<rparr>),
      trs := (\<lambda>_. zero_transaction\<lparr>t_updates := 1\<rparr>)\<rparr>) = Some (w1, Inr 7)"
  using nested_start_stop [of "zero_world\<lparr>journal_info := Some 7,
      hds := (\<lambda>_. zero_handle\<lparr>h_transaction := Some 2, h_ref := 1\<rparr>), trs := (\<lambda>_. zero_transaction\<lparr>t_updates := 1\<rparr>)\<rparr>" 7 2 quiet_kernel 9]
  by auto

section \<open>Durable commits\<close>

text \<open>
  C20: a process that asks for a durable commit of the running transaction loses it to the next
  ordinary handle that stops when the commit interval of the transaction is over: that handle
  requests the commit again, and the commit is then not durable.
\<close>

theorem expired_stop_drops_durable:
  assumes "j_running_transaction (jnl w) = Some t" "h_transaction (hds w h) = Some t" "journal_info w = Some h"
    "h_ref (hds w h) = 1" "\<not> h_sync (hds w h)" "\<not> h_durable_commit (hds w h)" "\<not> is_handle_aborted w h"
    "0 < t_updates (trs w t)" "t_durable_commit (trs w t) = DSYNC_COMMIT"
    "time_after_eq (jiffies w) (t_expires (trs w t))"
  shows "\<exists>w'. jbdbf_journal_stop k w h = Some (w', 0) \<and> j_running_transaction (jnl w') = Some t \<and>
    j_commit_request (jnl w') = t_tid (trs w t) \<and> t_durable_commit (trs w' t) = OSYNC_COMMIT"
  using assms
  by (simp add: jbdbf_journal_stop_def sync_batching_def jbdbf_log_start_commit_def u_jbdbf_log_start_commit_def
      Let_def)

theorem expired_stop_drops_durable_witness:
  "\<exists>w'. jbdbf_journal_stop quiet_kernel (zero_world\<lparr>journal_info := Some 7, jiffies := 900,
      jnl := zero_journal\<lparr>j_running_transaction := Some 2, j_commit_request := 41\<rparr>,
      hds := (\<lambda>_. zero_handle\<lparr>h_transaction := Some 2, h_ref := 1\<rparr>),
      trs := (\<lambda>_. zero_transaction\<lparr>t_updates := 1, t_tid := 41, t_expires := 500, t_durable_commit := DSYNC_COMMIT\<rparr>)\<rparr>) 7 =
      Some (w', 0) \<and> t_durable_commit (trs w' 2) = OSYNC_COMMIT"
proof -
  let ?w = "zero_world\<lparr>journal_info := Some 7, jiffies := 900,
      jnl := zero_journal\<lparr>j_running_transaction := Some 2, j_commit_request := 41\<rparr>,
      hds := (\<lambda>_. zero_handle\<lparr>h_transaction := Some 2, h_ref := 1\<rparr>),
      trs := (\<lambda>_. zero_transaction\<lparr>t_updates := 1, t_tid := 41, t_expires := 500, t_durable_commit := DSYNC_COMMIT\<rparr>)\<rparr>"
  have "\<exists>w'. jbdbf_journal_stop quiet_kernel ?w 7 = Some (w', 0) \<and> j_running_transaction (jnl w') = Some 2 \<and>
    j_commit_request (jnl w') = t_tid (trs ?w 2) \<and> t_durable_commit (trs w' 2) = OSYNC_COMMIT"
    by (rule expired_stop_drops_durable)
      (simp_all add: zero_defs is_handle_aborted_def is_journal_aborted_def time_after_eq_def)
  then show ?thesis by blast
qed

end
