(* ===== verification/Access.thy ===== *)
theory Access
  imports Handles Revoke
begin

text \<open>
  Buffers and the running transaction, transaction.c: write, create and undo access, marking
  metadata and data dirty, forgetting and unmapping buffers, and the inodes of a
  transaction; and the parts of revoke.c that record and cancel a revoke.  Buffer triggers
  are not modelled: ext4bf sets none.
\<close>

section \<open>The buffer cache\<close>

definition put_bh :: "bptr \<Rightarrow> world \<Rightarrow> world" where
  "put_bh bh w = upd_bh bh (\<lambda>b. b\<lparr>b_count := b_count b - 1\<rparr>) w"

text \<open>\<open>__find_get_block\<close>: the buffer of a block, if the cache has one.\<close>

definition u_find_get_block :: "dev \<Rightarrow> u64 \<Rightarrow> world \<Rightarrow> world \<times> bptr option" where
  "u_find_get_block d blocknr w =
     (case bcache w d blocknr of None \<Rightarrow> (w, None) | Some bh \<Rightarrow> (get_bh bh w, Some bh))"

text \<open>\<open>__bforget\<close>: the buffer is clean and loses a reference.\<close>

definition u_bforget :: "bptr \<Rightarrow> world \<Rightarrow> world" where
  "u_bforget bh w = u_brelse bh (clear_dirty bh w)"

section \<open>Cancelling a revoke\<close>

definition jbdbf_journal_cancel_revoke :: "world \<Rightarrow> jptr \<Rightarrow> (world \<times> int) option" where
  "jbdbf_journal_cancel_revoke w jh =
     (let bh = b_bh (jhs w jh); b = bhs w bh;
          need_cancel = (if bh_revokevalid b then bh_revoked b else True);
          w = upd_bh bh (\<lambda>b. b\<lparr>bh_revokevalid := True, bh_revoked := False\<rparr>) w
      in do { (w, did_revoke) \<leftarrow>
                (if need_cancel
                 then do { record \<leftarrow> find_revoke_record (jnl w) (b_blocknr b);
                           case record of
                             None \<Rightarrow> Some (w, 0)
                           | Some _ \<Rightarrow>
                               do { table \<leftarrow> cur_revoke (jnl w);
                                    Some (upd_jnl (set_cur_revoke (table_delete table (b_blocknr b))) w, 1) } }
                 else Some (w, 0));
              record \<leftarrow> find_revoke_record (jnl w) (b_blocknr b);
              j_assert (record = None);
              if need_cancel
              then do { d \<leftarrow> b_bdev b;
                        case u_find_get_block d (b_blocknr b) w of
                          (w, None) \<Rightarrow> Some (w, did_revoke)
                        | (w, Some bh2) \<Rightarrow>
                            Some (u_brelse bh2
                                    (if bh2 \<noteq> bh then upd_bh bh2 (\<lambda>b. b\<lparr>bh_revoked := False\<rparr>) w else w),
                                  did_revoke) }
              else Some (w, did_revoke) })"

section \<open>Write access\<close>

text \<open>A dirty buffer loses its dirty bit to the journal.\<close>

definition take_over_dirty :: "world \<Rightarrow> tptr \<Rightarrow> jptr \<Rightarrow> world option" where
  "take_over_dirty w t jh =
     (let bh = b_bh (jhs w jh); h = jhs w jh
      in if bh_dirty (bhs w bh)
         then do { (case b_transaction h of
                      None \<Rightarrow> Some ()
                    | Some t' \<Rightarrow>
                        do { j_assert (t' = t \<or> j_committing_transaction (jnl w) = Some t');
                             (case b_next_transaction h of None \<Rightarrow> Some () | Some n \<Rightarrow> j_assert (n = t)) });
                   Some (set_jbddirty bh (clear_dirty bh w)) }
         else Some w)"

text \<open>
  do_get_write_access from the label repeat up to the label done or out: the error, and
  whether the code at done runs.  The flag says whether frozen_buffer has been allocated.
\<close>

partial_function (option) write_access_loop ::
  "kernel_env \<Rightarrow> hptr \<Rightarrow> tptr \<Rightarrow> jptr \<Rightarrow> bool \<Rightarrow> world \<Rightarrow> bool \<Rightarrow> (world \<times> bool \<times> int) option" where
  "write_access_loop k h t jh force_copy w frozen =
     do { let w = wait_on_buffer k (b_bh (jhs w jh)) w;
          w \<leftarrow> take_over_dirty w t jh;
          if is_handle_aborted w h then Some (w, False, - EROFS)
          else if b_transaction (jhs w jh) = Some t \<or> b_next_transaction (jhs w jh) = Some t
          then Some (w, True, 0)
          else do {
            let w = upd_jh jh (\<lambda>h. h\<lparr>b_modified := False\<rparr>) w;
            if b_frozen_data (jhs w jh) \<noteq> None
            then do { j_assert (b_next_transaction (jhs w jh) = None);
                      Some (upd_jh jh (\<lambda>h. h\<lparr>b_next_transaction := Some t\<rparr>) w, True, 0) }
            else case b_transaction (jhs w jh) of
              Some t' \<Rightarrow>
                do { j_assert (b_next_transaction (jhs w jh) = None);
                     j_assert (j_committing_transaction (jnl w) = Some t');
                     if b_jlist (jhs w jh) = BJ_Shadow
                     then let w = k_sleep k (Wait_Shadow jh) w
                          in if b_jlist (jhs w jh) = BJ_Shadow then None
                             else write_access_loop k h t jh force_copy w frozen
                     else if b_jlist (jhs w jh) \<noteq> BJ_Forget \<or> force_copy
                     then if \<not> frozen
                          then if k_alloc_ok k w then write_access_loop k h t jh force_copy w True
                               else Some (w, True, - ENOMEM)
                          else Some (upd_jh jh (\<lambda>h. h\<lparr>b_frozen_data := Some (b_data (bhs w (b_bh h))),
                                                       b_next_transaction := Some t\<rparr>) w, True, 0)
                     else Some (upd_jh jh (\<lambda>h. h\<lparr>b_next_transaction := Some t\<rparr>) w, True, 0) }
            | None \<Rightarrow>
                do { j_assert (b_next_transaction (jhs w jh) = None);
                     w \<leftarrow> u_jbdbf_journal_file_buffer w jh t BJ_Reserved;
                     Some (w, True, 0) } } }"

definition do_get_write_access :: "kernel_env \<Rightarrow> world \<Rightarrow> hptr \<Rightarrow> jptr \<Rightarrow> bool \<Rightarrow> (world \<times> int) option" where
  "do_get_write_access k w h jh force_copy =
     (if is_handle_aborted w h then Some (w, - EROFS)
      else do { t \<leftarrow> h_transaction (hds w h);
                (w, at_done, error) \<leftarrow> write_access_loop k h t jh force_copy w False;
                if at_done then do { (w, _) \<leftarrow> jbdbf_journal_cancel_revoke w jh; Some (w, error) }
                else Some (w, error) })"

definition jbdbf_journal_get_write_access :: "kernel_env \<Rightarrow> world \<Rightarrow> hptr \<Rightarrow> bptr \<Rightarrow> (world \<times> int) option" where
  "jbdbf_journal_get_write_access k w h bh =
     do { (w, jh) \<leftarrow> jbdbf_journal_add_journal_bf_head w bh;
          (w, rc) \<leftarrow> do_get_write_access k w h jh False;
          w \<leftarrow> jbdbf_journal_put_journal_bf_head w jh;
          Some (w, rc) }"

definition jbdbf_journal_get_create_access :: "world \<Rightarrow> hptr \<Rightarrow> bptr \<Rightarrow> (world \<times> int) option" where
  "jbdbf_journal_get_create_access w h bh =
     do { t \<leftarrow> h_transaction (hds w h);
          (w, jh) \<leftarrow> jbdbf_journal_add_journal_bf_head w bh;
          (w, err) \<leftarrow>
            (if is_handle_aborted w h then Some (w, - EROFS)
             else do { let x = jhs w jh; let c = j_committing_transaction (jnl w);
                       j_assert (b_transaction x = Some t \<or> b_transaction x = None \<or>
                                 b_transaction x = c \<and> b_jlist x = BJ_Forget);
                       j_assert (b_next_transaction x = None);
                       j_assert (bh_lock (bhs w (b_bh x)));
                       w \<leftarrow> (if b_transaction x = None
                             then u_jbdbf_journal_file_buffer
                                    (upd_jh jh (\<lambda>h. h\<lparr>b_modified := False\<rparr>) (clear_dirty (b_bh x) w)) jh t BJ_Reserved
                             else if b_transaction x = c
                             then Some (upd_jh jh (\<lambda>h. h\<lparr>b_modified := False, b_next_transaction := Some t\<rparr>) w)
                             else Some w);
                       (w, _) \<leftarrow> jbdbf_journal_cancel_revoke w jh;
                       Some (w, 0) });
          w \<leftarrow> jbdbf_journal_put_journal_bf_head w jh;
          Some (w, err) }"

definition jbdbf_journal_get_undo_access :: "kernel_env \<Rightarrow> world \<Rightarrow> hptr \<Rightarrow> bptr \<Rightarrow> (world \<times> int) option" where
  "jbdbf_journal_get_undo_access k w h bh =
     do { (w, jh) \<leftarrow> jbdbf_journal_add_journal_bf_head w bh;
          (w, err) \<leftarrow> do_get_write_access k w h jh True;
          let (w, err) =
            (if err \<noteq> 0 then (w, err)
             else if b_committed_data (jhs w jh) = None
             then if k_alloc_ok k w
                  then (upd_jh jh (\<lambda>h. h\<lparr>b_committed_data := Some (b_data (bhs w bh))\<rparr>) w, 0)
                  else (w, - ENOMEM)
             else (w, 0));
          w \<leftarrow> jbdbf_journal_put_journal_bf_head w jh;
          Some (w, err) }"

section \<open>Dirty metadata and dirty data\<close>

text \<open>The first modification by the transaction takes a credit of the handle.\<close>

definition charge_credit :: "world \<Rightarrow> hptr \<Rightarrow> jptr \<Rightarrow> world option" where
  "charge_credit w h jh =
     (if \<not> b_modified (jhs w jh)
      then do { j_assert (h_buffer_credits (hds w h) > 0);
                Some (upd_hd h (\<lambda>hd. hd\<lparr>h_buffer_credits := h_buffer_credits hd - 1\<rparr>)
                        (upd_jh jh (\<lambda>x. x\<lparr>b_modified := True\<rparr>) w)) }
      else Some w)"

definition jbdbf_journal_dirty_metadata :: "world \<Rightarrow> hptr \<Rightarrow> bptr \<Rightarrow> (world \<times> int) option" where
  "jbdbf_journal_dirty_metadata w h bh =
     do { t \<leftarrow> h_transaction (hds w h);
          if is_handle_aborted w h then Some (w, 0)
          else if \<not> bh_jbd (bhs w bh) then Some (w, - EUCLEAN)
          else do { jh \<leftarrow> b_private (bhs w bh);
                    w \<leftarrow> charge_credit w h jh;
                    if b_transaction (jhs w jh) = Some t \<and> b_jlist (jhs w jh) = BJ_Metadata
                    then Some (w, if b_transaction (jhs w jh) \<noteq> j_running_transaction (jnl w) then - EINVAL else 0)
                    else do { let w = set_jbddirty bh w;
                              if b_transaction (jhs w jh) \<noteq> Some t
                              then Some (w, if b_transaction (jhs w jh) \<noteq> j_committing_transaction (jnl w) \<or>
                                               b_next_transaction (jhs w jh) \<noteq> Some t
                                            then - EINVAL else 0)
                              else do { j_assert (b_frozen_data (jhs w jh) = None);
                                        w \<leftarrow> u_jbdbf_journal_file_buffer w jh t BJ_Metadata;
                                        Some (w, 0) } } } }"

definition jbdbf_journal_dirty_data :: "world \<Rightarrow> hptr \<Rightarrow> bptr \<Rightarrow> (world \<times> int) option" where
  "jbdbf_journal_dirty_data w h bh =
     do { t \<leftarrow> h_transaction (hds w h);
          if is_handle_aborted w h then Some (w, 0)
          else if \<not> bh_jbd (bhs w bh) then Some (w, - EUCLEAN)
          else do { jh \<leftarrow> b_private (bhs w bh);
                    w \<leftarrow> charge_credit w h jh;
                    let w = set_jbddirty bh w;
                    w \<leftarrow> u_jbdbf_journal_file_buffer w jh t BJ_Dirtydata;
                    Some (upd_tr t (\<lambda>tr. tr\<lparr>t_num_dirty_blocks := t_num_dirty_blocks tr + 1\<rparr>) w, 0) } }"

text \<open>jbdbf_journal_release_buffer does nothing.\<close>

definition jbdbf_journal_release_buffer :: "world \<Rightarrow> hptr \<Rightarrow> bptr \<Rightarrow> world" where
  "jbdbf_journal_release_buffer w h bh = w"

section \<open>Writing out dirty data early\<close>

definition release_data :: "bptr \<Rightarrow> world \<Rightarrow> world" where
  "release_data bh w = put_bh bh (upd_bh bh (\<lambda>b. b\<lparr>bh_jwrite := False\<rparr>) w)"

definition u_flush_data_batch :: "kernel_env \<Rightarrow> bptr list \<Rightarrow> world \<Rightarrow> world" where
  "u_flush_data_batch k batch w = fold release_data batch (fold (write_dirty_buffer k) batch w)"

text \<open>The successor of an element on a circular list.\<close>

fun next_of :: "nat list \<Rightarrow> nat \<Rightarrow> nat option" where
  "next_of [] x = None"
| "next_of (y # ys) x =
     (case dropWhile ((\<noteq>) x) (y # ys) of [] \<Rightarrow> None | [_] \<Rightarrow> Some y | _ # z # _ \<Rightarrow> Some z)"

text \<open>Taking a data buffer into the batch, which is flushed when it is full.\<close>

definition batch_data :: "kernel_env \<Rightarrow> bptr \<Rightarrow> world \<Rightarrow> bptr list \<Rightarrow> world \<times> bptr list" where
  "batch_data k bh w batch =
     (if b_blocktype (bhs w bh) = B_BLOCKTYPE_DATA
      then let w = upd_bh bh (\<lambda>b. b\<lparr>bh_jwrite := True\<rparr>) (get_bh bh w); batch = batch @ [bh]
           in if length batch = EXT4BF_DATA_BATCH then (u_flush_data_batch k batch w, []) else (w, batch)
      else (w, batch))"

partial_function (option) writeout_loop :: "kernel_env \<Rightarrow> tptr \<Rightarrow> world \<Rightarrow> jptr \<Rightarrow> bptr list \<Rightarrow> world option" where
  "writeout_loop k t w jh batch =
     (let (w, batch) = batch_data k (b_bh (jhs w jh)) w batch; xs = t_dirty_data_list (trs w t)
      in do { succ \<leftarrow> next_of xs jh;
              if succ = hd xs
              then jbdbf_journal_refile_buffer (if batch \<noteq> [] then u_flush_data_batch k batch w else w) jh
              else do { w \<leftarrow> jbdbf_journal_refile_buffer w jh;
                        writeout_loop k t w succ batch } })"

definition write_out_dirty_blocks :: "kernel_env \<Rightarrow> world \<Rightarrow> world option" where
  "write_out_dirty_blocks k w =
     (case j_running_transaction (jnl w) of
        None \<Rightarrow> Some w
      | Some t \<Rightarrow>
          do { w \<leftarrow> (case t_dirty_data_list (trs w t) of [] \<Rightarrow> Some w | jh # _ \<Rightarrow> writeout_loop k t w jh []);
               Some (upd_tr t (\<lambda>tr. tr\<lparr>t_num_dirty_blocks := 0\<rparr>) w) })"

section \<open>Forgetting a buffer\<close>

definition jbdbf_journal_forget :: "world \<Rightarrow> hptr \<Rightarrow> bptr \<Rightarrow> (world \<times> int) option" where
  "jbdbf_journal_forget w h bh =
     do { t \<leftarrow> h_transaction (hds w h);
          let credit = upd_hd h (\<lambda>hd. hd\<lparr>h_buffer_credits := h_buffer_credits hd + 1\<rparr>);
          if \<not> bh_jbd (bhs w bh) then Some (u_brelse bh w, 0)
          else do { jh \<leftarrow> b_private (bhs w bh);
            if b_committed_data (jhs w jh) \<noteq> None then Some (u_brelse bh w, - EIO)
            else do {
              let was_modified = b_modified (jhs w jh);
              let w = upd_jh jh (\<lambda>x. x\<lparr>b_modified := False\<rparr>) w;
              case b_transaction (jhs w jh) of
                None \<Rightarrow> Some (u_brelse bh w, 0)
              | Some t' \<Rightarrow>
                  if t' = t
                  then do { j_assert (b_frozen_data (jhs w jh) = None);
                            let w = clear_jbddirty bh (clear_dirty bh w);
                            w \<leftarrow> (if b_cp_transaction (jhs w jh) \<noteq> None
                                  then do { w \<leftarrow> u_jbdbf_journal_temp_unlink_buffer w jh;
                                            w \<leftarrow> u_jbdbf_journal_file_buffer w jh t BJ_Forget;
                                            Some (u_brelse bh w) }
                                  else do { w \<leftarrow> u_jbdbf_journal_unfile_buffer w jh;
                                            Some (if \<not> bh_jbd (bhs w bh) then u_bforget bh w else u_brelse bh w) });
                            Some (if was_modified then credit w else w, 0) }
                  else do { j_assert (j_committing_transaction (jnl w) = Some t');
                            case b_next_transaction (jhs w jh) of
                              None \<Rightarrow> Some (u_brelse bh w, 0)
                            | Some n \<Rightarrow>
                                do { j_assert (n = t);
                                     let w = u_brelse bh (upd_jh jh (\<lambda>x. x\<lparr>b_next_transaction := None\<rparr>) w);
                                     Some (if was_modified then credit w else w, 0) } } } } }"

section \<open>Recording a revoke\<close>

text \<open>
  The block is revoked in the current transaction; a buffer passed in is forgotten.  With
  expensive checking, another buffer of the same block must be revoked already if its bit
  can be trusted.
\<close>

text \<open>\<open>jbdbf_journal_revoke\<close> once the journal has the revoke feature.\<close>

definition revoke_body :: "world \<Rightarrow> hptr \<Rightarrow> tptr \<Rightarrow> u64 \<Rightarrow> bptr option \<Rightarrow> (world \<times> int) option" where
  "revoke_body w h t blocknr bh_in =
     do { (w, bh) \<leftarrow>
            (case bh_in of
               None \<Rightarrow> Some (u_find_get_block (j_fs_dev (jnl w)) blocknr w)
             | Some bh \<Rightarrow>
                 (case u_find_get_block (j_fs_dev (jnl w)) blocknr w of
                    (w, None) \<Rightarrow> Some (w, Some bh)
                  | (w, Some bh2) \<Rightarrow>
                      do { j_assert (bh2 \<noteq> bh \<and> bh_revokevalid (bhs w bh2) \<longrightarrow> bh_revoked (bhs w bh2));
                           Some (put_bh bh2 w, Some bh) }));
          (w, err) \<leftarrow>
            (case bh of
               None \<Rightarrow> Some (w, 0)
             | Some bh \<Rightarrow>
                 if bh_revoked (bhs w bh)
                 then Some (if bh_in = None then u_brelse bh w else w, - EIO)
                 else do { let w = upd_bh bh (\<lambda>b. b\<lparr>bh_revoked := True, bh_revokevalid := True\<rparr>) w;
                           if bh_in \<noteq> None
                           then do { (w, _) \<leftarrow> jbdbf_journal_forget w h bh; Some (w, 0) }
                           else Some (u_brelse bh w, 0) });
          if err \<noteq> 0 then Some (w, err)
          else do { (j, err) \<leftarrow> insert_revoke_hash (jnl w) blocknr (t_tid (trs w t));
                    Some (w\<lparr>jnl := j\<rparr>, err) } }"

definition jbdbf_journal_revoke :: "kernel_env \<Rightarrow> world \<Rightarrow> hptr \<Rightarrow> u64 \<Rightarrow> bptr option \<Rightarrow> (world \<times> int) option" where
  "jbdbf_journal_revoke k w h blocknr bh_in =
     do { t \<leftarrow> h_transaction (hds w h);
          (j, ok) \<leftarrow> jbdbf_journal_set_features k (jnl w) 0 0 JBD2_FEATURE_INCOMPAT_REVOKE;
          j_assert ok;
          revoke_body (w\<lparr>jnl := j\<rparr>) h t blocknr bh_in }"

section \<open>Releasing and invalidating the buffers of a page\<close>

definition u_journal_try_to_free_buffer :: "world \<Rightarrow> bptr \<Rightarrow> world option" where
  "u_journal_try_to_free_buffer w bh =
     do { jh \<leftarrow> b_private (bhs w bh);
          if bh_lock (bhs w bh) \<or> bh_dirty (bhs w bh) then Some w
          else if b_next_transaction (jhs w jh) \<noteq> None then Some w
          else if b_cp_transaction (jhs w jh) \<noteq> None \<and> b_transaction (jhs w jh) = None \<and>
                  b_jlist (jhs w jh) = BJ_None
          then map_option fst (u_jbdbf_journal_remove_checkpoint w jh)
          else Some w }"

text \<open>
  try_to_free_buffers of the buffer cache on the buffers of a page that is not under
  writeback: it frees them all unless one is in use, dirty or locked.
\<close>

definition buffer_busy :: "buffer_head \<Rightarrow> bool" where
  "buffer_busy b = (b_count b \<noteq> 0 \<or> bh_dirty b \<or> bh_lock b)"

definition try_to_free_buffers :: "bptr list \<Rightarrow> world \<Rightarrow> world \<times> bool" where
  "try_to_free_buffers page w =
     (if list_ex (\<lambda>bh. buffer_busy (bhs w bh)) page then (w, False)
      else (w\<lparr>bcache := (\<lambda>d b. case bcache w d b of None \<Rightarrow> None
                                 | Some bh \<Rightarrow> if List.member page bh then None else Some bh)\<rparr>, True))"

fun try_to_free_walk :: "world \<Rightarrow> bptr list \<Rightarrow> (world \<times> bool) option" where
  "try_to_free_walk w [] = Some (w, True)"
| "try_to_free_walk w (bh # page) =
     do { (w, jh) \<leftarrow> jbdbf_journal_grab_journal_bf_head w bh;
          case jh of
            None \<Rightarrow> try_to_free_walk w page
          | Some jh \<Rightarrow>
              do { w \<leftarrow> u_journal_try_to_free_buffer w bh;
                   w \<leftarrow> jbdbf_journal_put_journal_bf_head w jh;
                   if bh_jbd (bhs w bh) then Some (w, False) else try_to_free_walk w page } }"

definition jbdbf_journal_try_to_free_buffers :: "world \<Rightarrow> bptr list \<Rightarrow> (world \<times> bool) option" where
  "jbdbf_journal_try_to_free_buffers w page =
     do { (w, ok) \<leftarrow> try_to_free_walk w page;
          Some (if ok then try_to_free_buffers page w else (w, False)) }"

definition u_dispose_buffer :: "world \<Rightarrow> jptr \<Rightarrow> tptr \<Rightarrow> (world \<times> bool) option" where
  "u_dispose_buffer w jh t =
     (if b_cp_transaction (jhs w jh) \<noteq> None
      then do { w \<leftarrow> u_jbdbf_journal_temp_unlink_buffer w jh;
                w \<leftarrow> u_jbdbf_journal_file_buffer (clear_dirty (b_bh (jhs w jh)) w) jh t BJ_Forget;
                Some (w, False) }
      else do { w \<leftarrow> u_jbdbf_journal_unfile_buffer w jh; Some (w, True) })"

text \<open>The code from the label zap_buffer_unlocked on; the bits BH_Req and BH_New are not modelled.\<close>

definition zap_buffer :: "bptr \<Rightarrow> world \<Rightarrow> world option" where
  "zap_buffer bh w =
     do { let w = clear_dirty bh w;
          j_assert (\<not> bh_jbddirty (bhs w bh));
          Some (upd_bh bh (\<lambda>b. b\<lparr>bh_mapped := False, b_bdev := None\<rparr>) w) }"

definition journal_unmap_buffer :: "world \<Rightarrow> bptr \<Rightarrow> (world \<times> bool) option" where
  "journal_unmap_buffer w bh =
     do { (w, jh) \<leftarrow> jbdbf_journal_grab_journal_bf_head w bh;
          case jh of
            None \<Rightarrow> do { w \<leftarrow> zap_buffer bh w; Some (w, True) }
          | Some jh \<Rightarrow>
              (let zap = (\<lambda>w may_free. do { w \<leftarrow> jbdbf_journal_put_journal_bf_head w jh;
                                            w \<leftarrow> zap_buffer bh w; Some (w, may_free) });
                   dispose = (\<lambda>t. do { (w, ret) \<leftarrow> u_dispose_buffer w jh t;
                                       w \<leftarrow> jbdbf_journal_put_journal_bf_head w jh; Some (w, ret) })
               in case b_transaction (jhs w jh) of
                    None \<Rightarrow>
                      (if b_cp_transaction (jhs w jh) = None \<or> \<not> bh_dirty (bhs w bh) then zap w True
                       else case j_running_transaction (jnl w) of
                              Some t \<Rightarrow> dispose t
                            | None \<Rightarrow> (case j_committing_transaction (jnl w) of
                                         Some t \<Rightarrow> dispose t
                                       | None \<Rightarrow> zap (clear_jbddirty bh w) True))
                  | Some t \<Rightarrow>
                      if j_committing_transaction (jnl w) = Some t
                      then do { let w = upd_bh bh (\<lambda>b. b\<lparr>bh_freed := True\<rparr>) w;
                                let w = (if j_running_transaction (jnl w) \<noteq> None \<and> bh_jbddirty (bhs w bh)
                                         then upd_jh jh (\<lambda>x. x\<lparr>b_next_transaction := j_running_transaction (jnl w)\<rparr>) w
                                         else w);
                                w \<leftarrow> jbdbf_journal_put_journal_bf_head w jh;
                                Some (w, False) }
                      else do { j_assert (j_running_transaction (jnl w) = Some t);
                                (w, may_free) \<leftarrow> u_dispose_buffer w jh t;
                                zap w may_free }) }"

text \<open>The buffers of the page, from the given offset on, those before the truncation point left alone.\<close>

fun invalidate_walk :: "kernel_env \<Rightarrow> nat \<Rightarrow> world \<Rightarrow> bptr list \<Rightarrow> nat \<Rightarrow> bool \<Rightarrow> (world \<times> bool) option" where
  "invalidate_walk k offset w [] curr_off may_free = Some (w, may_free)"
| "invalidate_walk k offset w (bh # page) curr_off may_free =
     (let next_off = curr_off + j_blocksize (jnl w)
      in if offset \<le> curr_off
         then do { (w, ret) \<leftarrow> journal_unmap_buffer (wait_on_buffer k bh w) bh;
                   invalidate_walk k offset w page next_off (may_free \<and> ret) }
         else invalidate_walk k offset w page next_off may_free)"

definition jbdbf_journal_invalidatepage :: "kernel_env \<Rightarrow> world \<Rightarrow> bptr list \<Rightarrow> nat \<Rightarrow> world option" where
  "jbdbf_journal_invalidatepage k w page offset =
     (if page = [] then Some w
      else do { (w, may_free) \<leftarrow> invalidate_walk k offset w page 0 True;
                Some (if offset = 0 \<and> may_free then fst (try_to_free_buffers page w) else w) })"

section \<open>Inodes of a transaction\<close>

definition jbdbf_journal_file_inode :: "world \<Rightarrow> hptr \<Rightarrow> iptr \<Rightarrow> (world \<times> int) option" where
  "jbdbf_journal_file_inode w h i =
     do { t \<leftarrow> h_transaction (hds w h);
          if is_handle_aborted w h then Some (w, - EIO)
          else if i_transaction (jis w i) = Some t \<or> i_next_transaction (jis w i) = Some t then Some (w, 0)
          else do { let w = upd_tr t (\<lambda>tr. tr\<lparr>t_need_data_flush := True\<rparr>) w;
                    j_assert (i_next_transaction (jis w i) = None);
                    case i_transaction (jis w i) of
                      Some t' \<Rightarrow>
                        do { j_assert (j_committing_transaction (jnl w) = Some t');
                             Some (upd_ji i (\<lambda>x. x\<lparr>i_next_transaction := Some t\<rparr>) w, 0) }
                    | None \<Rightarrow>
                        Some (upd_tr t (\<lambda>tr. tr\<lparr>t_inode_list := i # t_inode_list tr\<rparr>)
                                (upd_ji i (\<lambda>x. x\<lparr>i_transaction := Some t\<rparr>) w), 0) } }"

definition jbdbf_journal_begin_ordered_truncate :: "kernel_env \<Rightarrow> world \<Rightarrow> iptr \<Rightarrow> u64 \<Rightarrow> world \<times> int" where
  "jbdbf_journal_begin_ordered_truncate k w i new_size =
     (if i_transaction (jis w i) = None then (w, 0)
      else if i_transaction (jis w i) = j_committing_transaction (jnl w)
      then let (w, ret) = k_fdatawrite_from k i new_size w
           in (if ret \<noteq> 0 then jbdbf_journal_abort w ret else w, ret)
      else (w, 0))"

definition jbdbf_journal_init_jbd_inode :: "iptr \<Rightarrow> world \<Rightarrow> world" where
  "jbdbf_journal_init_jbd_inode i w =
     upd_ji i (\<lambda>x. x\<lparr>i_transaction := None, i_next_transaction := None, i_commit_running := False\<rparr>) w"

definition jbdbf_journal_release_jbd_inode :: "kernel_env \<Rightarrow> world \<Rightarrow> iptr \<Rightarrow> world option" where
  "jbdbf_journal_release_jbd_inode k w i =
     (let w = (if i_commit_running (jis w i) then k_sleep k (Wait_Inode i) w else w)
      in if i_commit_running (jis w i) then None
         else case i_transaction (jis w i) of
                None \<Rightarrow> Some w
              | Some t \<Rightarrow>
                  do { j_assert (i \<in> set (t_inode_list (trs w t)));
                       Some (upd_ji i (\<lambda>x. x\<lparr>i_transaction := None\<rparr>)
                               (upd_tr t (\<lambda>tr. tr\<lparr>t_inode_list := remove1 i (t_inode_list tr)\<rparr>) w)) })"

end
