(* ===== verification/Log_Writing.thy ===== *)
theory Log_Writing
  imports Access Recovery
begin

text \<open>
  Building the blocks of the log: descriptor buffers and the copies of metadata buffers
  (journal.c), the tags of a descriptor block (commit.c), and the revoke records of a
  transaction (revoke.c).
\<close>

section \<open>Buffers of log blocks\<close>

text \<open>
  \<open>__getblk\<close>: the buffer of a block, allocated if the cache has none.  The contents of a new
  buffer are not specified; the callers here overwrite all of them.
\<close>

definition u_getblk :: "kernel_env \<Rightarrow> dev \<Rightarrow> u64 \<Rightarrow> world \<Rightarrow> world \<times> bptr option" where
  "u_getblk k d blocknr w =
     (case u_find_get_block d blocknr w of
        (w, Some bh) \<Rightarrow> (w, Some bh)
      | (w, None) \<Rightarrow>
          (if k_getblk_null k d blocknr then (w, None)
           else let bh = bh_next w;
                    b = zero_bh\<lparr>b_blocknr := blocknr, b_bdev := Some d, b_count := 1, bh_mapped := True\<rparr>;
                    w = upd_bh bh (\<lambda>_. b) w
                in (w\<lparr>bh_next := bh + 1, bcache := (bcache w)(d := (bcache w d)(blocknr \<mapsto> bh))\<rparr>, Some bh)))"

definition jbdbf_journal_get_descriptor_buffer :: "kernel_env \<Rightarrow> world \<Rightarrow> (world \<times> jptr option) option" where
  "jbdbf_journal_get_descriptor_buffer k w =
     do { (w, r) \<leftarrow> jbdbf_journal_next_log_block k w;
          case r of
            Inl _ \<Rightarrow> Some (w, None)
          | Inr blocknr \<Rightarrow>
              (case u_getblk k (j_dev (jnl w)) blocknr w of
                 (w, None) \<Rightarrow> Some (w, None)
               | (w, Some bh) \<Rightarrow>
                   do { let w = upd_bh bh (\<lambda>b. b\<lparr>b_data := replicate (j_blocksize (jnl w)) 0, bh_uptodate := True\<rparr>)
                                  (wait_on_buffer k bh w);
                        (w, jh) \<leftarrow> jbdbf_journal_add_journal_bf_head w bh;
                        Some (w, Some jh) }) }"

definition put_header :: "u32 \<Rightarrow> u32 \<Rightarrow> bytes \<Rightarrow> bytes" where
  "put_header blocktype sequence b =
     put_be32 8 sequence (put_be32 4 blocktype (put_be32 0 JBD2_MAGIC_NUMBER b))"

text \<open>The buffer head of a temporary buffer, with a journal head.  Allocating it is retried until it succeeds.\<close>

definition new_copy :: "world \<Rightarrow> (world \<times> bptr \<times> jptr) option" where
  "new_copy w =
     do { let new_bh = bh_next w;
          let w = (upd_bh new_bh (\<lambda>_. zero_bh\<lparr>b_count := 1\<rparr>) w)\<lparr>bh_next := new_bh + 1\<rparr>;
          (w, new_jh) \<leftarrow> jbdbf_journal_add_journal_bf_head w new_bh;
          Some (w, new_bh, new_jh) }"

definition fill_copy :: "bptr \<Rightarrow> jptr \<Rightarrow> u64 \<Rightarrow> bytes \<Rightarrow> world \<Rightarrow> world" where
  "fill_copy new_bh new_jh blocknr data w =
     upd_jh new_jh (\<lambda>h. h\<lparr>b_transaction := None\<rparr>)
       (upd_bh new_bh (\<lambda>b. b\<lparr>b_data := data, b_bdev := Some (j_dev (jnl w)), b_blocknr := blocknr,
                             bh_mapped := True, bh_dirty := True\<rparr>) w)"

text \<open>
  The copy of a metadata buffer that goes to the log: an error, or the new journal head and
  the flags (bit 0: escaped, bit 1: copied out).  The temporary buffer shares the page of the
  frozen copy or of the buffer itself, which nobody modifies while it is on the shadow list,
  so the model gives it the contents.
\<close>

definition jbdbf_journal_write_metadata_buffer ::
    "kernel_env \<Rightarrow> world \<Rightarrow> tptr \<Rightarrow> jptr \<Rightarrow> u64 \<Rightarrow> (world \<times> (int + jptr \<times> int)) option" where
  "jbdbf_journal_write_metadata_buffer k w t jh_in blocknr =
     (let bh_in = b_bh (jhs w jh_in)
      in do { j_assert (bh_jbddirty (bhs w bh_in));
              (w, new_bh, new_jh) \<leftarrow> new_copy w;
              let (done_copy_out, data) = (case b_frozen_data (jhs w jh_in) of
                                             Some f \<Rightarrow> (True, f)
                                           | None \<Rightarrow> (False, b_data (bhs w bh_in)));
              let do_escape = (get_be32 data 0 = JBD2_MAGIC_NUMBER);
              if do_escape \<and> \<not> done_copy_out \<and> \<not> k_alloc_ok k w
              then do { w \<leftarrow> jbdbf_journal_put_journal_bf_head w new_jh; Some (w, Inl (- ENOMEM)) }
              else do {
                let data = (if do_escape then put_be32 0 0 data else data);
                let w = (if do_escape then upd_jh jh_in (\<lambda>h. h\<lparr>b_frozen_data := Some data\<rparr>) w else w);
                w \<leftarrow> u_jbdbf_journal_file_buffer (fill_copy new_bh new_jh blocknr data w) jh_in t BJ_Shadow;
                w \<leftarrow> jbdbf_journal_file_buffer w new_jh t BJ_IO;
                Some (w, Inr (new_jh, (if do_escape then 1 else 0) +
                                      (if done_copy_out \<or> do_escape then 2 else 0))) } })"

definition jbdbf_write_data_buffer :: "world \<Rightarrow> tptr \<Rightarrow> jptr \<Rightarrow> world option" where
  "jbdbf_write_data_buffer w t jh_in = u_jbdbf_journal_file_buffer w jh_in t BJ_Forget"

section \<open>Tags\<close>

text \<open>Only the first word of the checksum field of a tag is written.\<close>

definition write_tag_block :: "nat \<Rightarrow> nat \<Rightarrow> u64 \<Rightarrow> u32 \<Rightarrow> u32 \<Rightarrow> bytes \<Rightarrow> bytes" where
  "write_tag_block tag_bytes tagp block data_checksum block_type b =
     (let b = put_be32 tagp (ucast block) b
      in if tag_bytes > JBD2_TAG_SIZE32
         then put_be32 (tagp + 48) block_type
                (put_be32 (tagp + 16) data_checksum
                   ((put_be32 (tagp + 8) (ucast (drop_bit 1 (drop_bit 31 block))) b)
                      [tagp + 12 := JBD2_CRC32_CHKSUM, tagp + 13 := JBD2_CRC32_CHKSUM_SIZE]))
         else b)"

text \<open>memcpy of a byte string to an offset.\<close>

definition put_bytes :: "nat \<Rightarrow> bytes \<Rightarrow> bytes \<Rightarrow> bytes" where
  "put_bytes off src b = take off b @ src @ drop (off + length src) b"

section \<open>Revoke records\<close>

definition flush_descriptor :: "kernel_env \<Rightarrow> world \<Rightarrow> jptr \<Rightarrow> nat \<Rightarrow> world" where
  "flush_descriptor k w descriptor offset =
     (let bh = b_bh (jhs w descriptor)
      in if is_journal_aborted (jnl w) then put_bh bh w
         else write_dirty_buffer k bh
                (upd_bh bh (\<lambda>b. b\<lparr>b_data := put_be32 12 (of_nat offset) (b_data b), bh_jwrite := True,
                                  bh_dirty := True\<rparr>) w))"

text \<open>
  The state of the loop is the descriptor and the offset of the next record in it.  A
  record is lost if no descriptor can be had, with the state left as it was before the old
  descriptor was flushed.  Writing past the end of the block is None.
\<close>

definition put_record :: "kernel_env \<Rightarrow> world \<Rightarrow> jptr \<Rightarrow> nat \<Rightarrow> u64 \<Rightarrow> (world \<times> jptr option \<times> nat) option" where
  "put_record k w descriptor offset blocknr =
     (let bh = b_bh (jhs w descriptor); len = revoke_record_len (jnl w)
      in do { j_assert (offset + len \<le> length (b_data (bhs w bh)));
              Some (upd_bh bh (\<lambda>b. b\<lparr>b_data := (if len = 8 then put_be64 offset blocknr (b_data b)
                                               else put_be32 offset (ucast blocknr) (b_data b))\<rparr>) w,
                    Some descriptor, offset + len) })"

definition write_one_revoke_record ::
    "kernel_env \<Rightarrow> tptr \<Rightarrow> revoke_record \<Rightarrow> world \<times> jptr option \<times> nat \<Rightarrow> (world \<times> jptr option \<times> nat) option" where
  "write_one_revoke_record k t record = (\<lambda>(w, descriptorp, offsetp).
     if is_journal_aborted (jnl w) then Some (w, descriptorp, offsetp)
     else
       let (w, descriptor) = (case descriptorp of
                                Some d \<Rightarrow> (if offsetp = j_blocksize (jnl w) then (flush_descriptor k w d offsetp, None)
                                          else (w, Some d))
                              | None \<Rightarrow> (w, None))
       in case descriptor of
            Some d \<Rightarrow> put_record k w d offsetp (rr_blocknr record)
          | None \<Rightarrow>
              do { (w, descriptor) \<leftarrow> jbdbf_journal_get_descriptor_buffer k w;
                   case descriptor of
                     None \<Rightarrow> Some (w, descriptorp, offsetp)
                   | Some d \<Rightarrow>
                       do { let w = upd_bh (b_bh (jhs w d))
                                      (\<lambda>b. b\<lparr>b_data := put_header JBD2_REVOKE_BLOCK (t_tid (trs w t)) (b_data b)\<rparr>) w;
                            w \<leftarrow> jbdbf_journal_file_buffer w d t BJ_LogCtl;
                            put_record k w d sizeof_revoke_header (rr_blocknr record) } })"

fun write_revoke_list ::
    "kernel_env \<Rightarrow> tptr \<Rightarrow> revoke_record list \<Rightarrow> world \<times> jptr option \<times> nat \<Rightarrow> (world \<times> jptr option \<times> nat) option" where
  "write_revoke_list k t [] s = Some s"
| "write_revoke_list k t (r # rs) s = do { s \<leftarrow> write_one_revoke_record k t r s; write_revoke_list k t rs s }"

text \<open>The table that is not current is written chain by chain and left empty.\<close>

definition jbdbf_journal_write_revoke_records :: "kernel_env \<Rightarrow> world \<Rightarrow> tptr \<Rightarrow> world option" where
  "jbdbf_journal_write_revoke_records k w t =
     (let i = (if j_revoke (jnl w) = Some 0 then 1 else 0)
      in do { table \<leftarrow> j_revoke_table (jnl w) i;
              (w, descriptor, offset) \<leftarrow>
                write_revoke_list k t (concat (take (hash_size table) (hash_table table))) (w, None, 0);
              let w = upd_jnl (\<lambda>j. j\<lparr>j_revoke_table := (j_revoke_table j)(i \<mapsto> table_clear table)\<rparr>) w;
              Some (case descriptor of None \<Rightarrow> w | Some d \<Rightarrow> flush_descriptor k w d offset) })"

end
