(* ===== verification/Commit.thy ===== *)
theory Commit
  imports Log_Writing
begin

text \<open>
  Committing the running transaction, commit.c.  The phases of
  jbdbf_journal_commit_transaction are one definition each, in the order of the code: locking
  the transaction, issuing the dirty data, the data of the inodes, the revoke records, the
  metadata, waiting for data, log copies and control blocks, the commit record, the buffers
  left to checkpoint, and the end of the transaction.  Statistics and the freeing of the pages of
  truncated files are not modelled.
\<close>

section \<open>The commit record\<close>

definition put_commit_header :: "journal \<Rightarrow> u32 \<Rightarrow> u64 \<times> u32 \<Rightarrow> u32 \<Rightarrow> bytes \<Rightarrow> bytes" where
  "put_commit_header j tid now crc32_sum b =
     (let b = put_be32 56 (snd now) (put_be64 48 (fst now) (put_header JBD2_COMMIT_BLOCK tid b))
      in if JBD2_HAS_COMPAT_FEATURE j JBD2_FEATURE_COMPAT_CHECKSUM
         then put_be32 16 crc32_sum (b[12 := JBD2_CRC32_CHKSUM, 13 := JBD2_CRC32_CHKSUM_SIZE])
         else b)"

text \<open>A locked buffer, clean and up to date, is submitted.\<close>

definition submit_log_buffer :: "kernel_env \<Rightarrow> bool \<Rightarrow> bptr \<Rightarrow> world \<Rightarrow> world" where
  "submit_log_buffer k fua bh w =
     submit_bh_write fua bh
       (upd_bh bh (\<lambda>b. b\<lparr>bh_dirty := False, bh_uptodate := True, bh_lock := True\<rparr>) (wait_on_buffer k bh w))"

definition journal_submit_commit_record ::
    "kernel_env \<Rightarrow> world \<Rightarrow> tptr \<Rightarrow> u32 \<Rightarrow> (world \<times> bptr option \<times> int) option" where
  "journal_submit_commit_record k w t crc32_sum =
     (let now = k_now k w
      in if is_journal_aborted (jnl w) then Some (w, None, 0)
         else do { (w, descriptor) \<leftarrow> jbdbf_journal_get_descriptor_buffer k w;
                   Some (case descriptor of
                           None \<Rightarrow> (w, None, 1)
                         | Some d \<Rightarrow>
                             (let bh = b_bh (jhs w d);
                                  w = upd_bh bh (\<lambda>b. b\<lparr>b_data := put_commit_header (jnl w) (t_tid (trs w t)) now
                                                                  crc32_sum (b_data b)\<rparr>) w;
                                  fua = (j_flags (jnl w) AND JBD2_BARRIER \<noteq> 0 \<and>
                                         \<not> JBD2_HAS_INCOMPAT_FEATURE (jnl w) JBD2_FEATURE_INCOMPAT_ASYNC_COMMIT)
                              in (submit_log_buffer k fua bh w, Some bh, 0))) })"

definition journal_wait_on_commit_record :: "kernel_env \<Rightarrow> world \<Rightarrow> bptr \<Rightarrow> (world \<times> int) option" where
  "journal_wait_on_commit_record k w bh =
     do { let w = wait_on_buffer k bh (clear_dirty bh w);
          let ret = (if bh_uptodate (bhs w bh) then 0 else - EIO);
          let w = put_bh bh w;
          jh \<leftarrow> b_private (bhs w bh);
          w \<leftarrow> jbdbf_journal_put_journal_bf_head w jh;
          Some (w, ret) }"

section \<open>Data of the inodes\<close>

definition set_running :: "iptr \<Rightarrow> bool \<Rightarrow> world \<Rightarrow> world" where
  "set_running i v = upd_ji i (\<lambda>x. x\<lparr>i_commit_running := v\<rparr>)"

fun submit_inodes :: "kernel_env \<Rightarrow> tptr \<Rightarrow> iptr list \<Rightarrow> world \<Rightarrow> int \<Rightarrow> (world \<times> int) option" where
  "submit_inodes k t [] w ret = Some (w, ret)"
| "submit_inodes k t (i # is) w ret =
     (let (w, err) = k_writepages k i (set_running i True w)
      in do { j_assert (i_transaction (jis w i) = Some t);
              submit_inodes k t is (set_running i False w) (if ret = 0 then err else ret) })"

definition journal_submit_data_buffers :: "kernel_env \<Rightarrow> world \<Rightarrow> tptr \<Rightarrow> (world \<times> int) option" where
  "journal_submit_data_buffers k w t = submit_inodes k t (t_inode_list (trs w t)) w 0"

fun wait_inodes :: "kernel_env \<Rightarrow> iptr list \<Rightarrow> world \<Rightarrow> int \<Rightarrow> world \<times> int" where
  "wait_inodes k [] w ret = (w, ret)"
| "wait_inodes k (i # is) w ret =
     (let (w, err) = k_fdatawait k i (set_running i True w)
      in wait_inodes k is (set_running i False w) (if err \<noteq> 0 \<and> ret = 0 then err else ret))"

definition refile_inode :: "tptr \<Rightarrow> iptr \<Rightarrow> world \<Rightarrow> world" where
  "refile_inode t i w =
     (let w = upd_tr t (\<lambda>tr. tr\<lparr>t_inode_list := remove1 i (t_inode_list tr)\<rparr>) w
      in case i_next_transaction (jis w i) of
           Some n \<Rightarrow> upd_tr n (\<lambda>tr. tr\<lparr>t_inode_list := i # t_inode_list tr\<rparr>)
                       (upd_ji i (\<lambda>x. x\<lparr>i_transaction := Some n, i_next_transaction := None\<rparr>) w)
         | None \<Rightarrow> upd_ji i (\<lambda>x. x\<lparr>i_transaction := None\<rparr>) w)"

definition journal_finish_inode_data_buffers :: "kernel_env \<Rightarrow> world \<Rightarrow> tptr \<Rightarrow> world \<times> int" where
  "journal_finish_inode_data_buffers k w t =
     (let (w, ret) = wait_inodes k (t_inode_list (trs w t)) w 0
      in (fold (refile_inode t) (t_inode_list (trs w t)) w, ret))"

section \<open>Locking the transaction\<close>

definition jbdbf_checksum_data :: "u32 \<Rightarrow> bptr \<Rightarrow> world \<Rightarrow> u32" where
  "jbdbf_checksum_data crc32_sum bh w = dzat_checksum (b_data (bhs w bh)) (j_blocksize (jnl w))"

definition wait_for_updates :: "kernel_env \<Rightarrow> tptr \<Rightarrow> world \<Rightarrow> world option" where
  "wait_for_updates k t w =
     (let w = (if t_updates (trs w t) \<noteq> 0 then k_sleep k Wait_Updates w else w)
      in if t_updates (trs w t) \<noteq> 0 then None else Some w)"

partial_function (option) drop_reserved :: "tptr \<Rightarrow> world \<Rightarrow> world option" where
  "drop_reserved t w =
     (case t_reserved_list (trs w t) of
        [] \<Rightarrow> Some w
      | jh # _ \<Rightarrow>
          do { w \<leftarrow> jbdbf_journal_refile_buffer (upd_jh jh (\<lambda>h. h\<lparr>b_committed_data := None\<rparr>) w) jh;
               drop_reserved t w })"

text \<open>Up to the end of phase 1: the transaction and whether its commit is to be durable.\<close>

definition commit_lock :: "kernel_env \<Rightarrow> world \<Rightarrow> (world \<times> tptr \<times> bool) option" where
  "commit_lock k w =
     do { let w = (if j_flags (jnl w) AND JBD2_FLUSHED \<noteq> 0 then jbdbf_journal_update_superblock w True else w);
          t \<leftarrow> j_running_transaction (jnl w);
          j_assert (j_committing_transaction (jnl w) = None);
          j_assert (t_state (trs w t) = T_RUNNING);
          let durable_commit = (t_durable_commit (trs w t) = DSYNC_COMMIT);
          w \<leftarrow> wait_for_updates k t (upd_tr t (\<lambda>tr. tr\<lparr>t_state := T_LOCKED\<rparr>) w);
          j_assert (t_outstanding_credits (trs w t) \<le> j_max_transaction_buffers (jnl w));
          w \<leftarrow> drop_reserved t w;
          (w, _) \<leftarrow> u_jbdbf_journal_clean_checkpoint_list w;
          j \<leftarrow> jbdbf_journal_switch_revoke_table (jnl w);
          let w = upd_tr t (\<lambda>tr. tr\<lparr>t_state := T_FLUSH, t_log_start := j_head j\<rparr>)
                    (w\<lparr>jnl := j\<lparr>j_committing_transaction := Some t, j_running_transaction := None\<rparr>\<rparr>);
          Some (w, t, durable_commit) }"

section \<open>Issuing dirty data\<close>

definition release_issued :: "bptr \<Rightarrow> world \<Rightarrow> world" where
  "release_issued bh w = u_brelse bh (upd_bh bh (\<lambda>b. b\<lparr>bh_jwrite := False\<rparr>) w)"

text \<open>\<open>__flush_data_batch\<close> of commit.c, which drops the references with \<open>__brelse\<close>.\<close>

definition commit_flush_batch :: "kernel_env \<Rightarrow> bptr list \<Rightarrow> world \<Rightarrow> world" where
  "commit_flush_batch k batch w = fold release_issued batch (fold (write_dirty_buffer k) batch w)"

definition issue_data :: "kernel_env \<Rightarrow> bptr \<Rightarrow> world \<Rightarrow> bptr list \<Rightarrow> world \<times> bptr list" where
  "issue_data k bh w batch =
     (if b_blocktype (bhs w bh) = B_BLOCKTYPE_DATA
      then let w = upd_bh bh (\<lambda>b. b\<lparr>bh_jwrite := True\<rparr>) (get_bh bh w); batch = batch @ [bh]
           in if length batch = EXT4BF_DATA_BATCH then (commit_flush_batch k batch w, []) else (w, batch)
      else (w, batch))"

text \<open>Blocks of other types are refiled at once, data blocks once they have been waited for.\<close>

partial_function (option) issue_loop :: "kernel_env \<Rightarrow> tptr \<Rightarrow> world \<Rightarrow> jptr \<Rightarrow> bptr list \<Rightarrow> world option" where
  "issue_loop k t w jh batch =
     (let bh = b_bh (jhs w jh); (w, batch) = issue_data k bh w batch; xs = t_dirty_data_list (trs w t);
          refile = (\<lambda>w. if b_blocktype (bhs w bh) \<noteq> B_BLOCKTYPE_DATA then jbdbf_journal_refile_buffer w jh else Some w)
      in do { succ \<leftarrow> next_of xs jh;
              if succ = hd xs then refile (if batch \<noteq> [] then commit_flush_batch k batch w else w)
              else do { w \<leftarrow> refile w; issue_loop k t w succ batch } })"

definition issue_dirty_data :: "kernel_env \<Rightarrow> tptr \<Rightarrow> world \<Rightarrow> world option" where
  "issue_dirty_data k t w =
     (case t_dirty_data_list (trs w t) of [] \<Rightarrow> Some w | jh # _ \<Rightarrow> issue_loop k t w jh [])"

section \<open>Writing the metadata\<close>

text \<open>
  The local variables of the loop.  The pointers tagp and tag are an offset in a buffer.  The code
  does not initialise blocknr and flags: reading blocknr before it is assigned is None, and flags,
  which every commit with data tags reads first, has a value the environment determines.
\<close>

record commit_state =
  c_world :: world
  c_descriptor :: "jptr option"
  c_wbuf :: "bptr list"
  c_bh :: bptr
  c_tagp :: nat
  c_tag :: "(bptr \<times> nat) option"
  c_space_left :: int
  c_first_tag :: bool
  c_flags :: int
  c_blocknr :: "u64 option"
  c_crc32_sum :: u32

text \<open>A tag, followed by the UUID of the journal if it is the first one of the block.\<close>

definition put_tag :: "u64 \<Rightarrow> u32 \<Rightarrow> u32 \<Rightarrow> commit_state \<Rightarrow> commit_state option" where
  "put_tag block data_checksum block_type s =
     (let w = c_world s; bh = c_bh s; tag_bytes = journal_tag_bytes (jnl w); tagp = c_tagp s
      in do { let tag_flag = (if c_flags s mod 2 = 1 then JBD2_FLAG_ESCAPE else 0) OR
                             (if c_first_tag s then 0 else JBD2_FLAG_SAME_UUID);
              let uuid = (if c_first_tag s then j_uuid (jnl w) else []);
              j_assert (tagp + tag_bytes + length uuid \<le> length (b_data (bhs w bh)));
              let w = upd_bh bh (\<lambda>b. b\<lparr>b_data := put_bytes (tagp + tag_bytes) uuid
                        (put_be32 (tagp + 4) tag_flag
                          (write_tag_block tag_bytes tagp block data_checksum block_type (b_data b)))\<rparr>) w;
              Some (s\<lparr>c_world := w, c_tag := Some (bh, tagp), c_tagp := tagp + tag_bytes + length uuid,
                      c_space_left := c_space_left s - int (tag_bytes + length uuid), c_first_tag := False\<rparr>) })"

definition tag_room :: "commit_state \<Rightarrow> bool" where
  "tag_room s = (c_space_left s \<ge> int (journal_tag_bytes (jnl (c_world s)) + 16))"

text \<open>The tags of the data blocks of the transaction; the flag says whether all of them fitted.\<close>

fun put_data_tags :: "tptr \<Rightarrow> data_tag list \<Rightarrow> commit_state \<Rightarrow> (commit_state \<times> bool) option" where
  "put_data_tags t [] s = Some (s, True)"
| "put_data_tags t (entry # rest) s =
     (if \<not> tag_room s then Some (s, False)
      else do { s \<leftarrow> put_tag (dt_blocknr entry) (crc32_data_sum entry) T_BLOCKTYPE_NEWLYAPPENDEDDATA s;
                put_data_tags t rest
                  (s\<lparr>c_world := upd_tr t (\<lambda>tr. tr\<lparr>t_data_tag_list := rest\<rparr>) (c_world s)\<rparr>) })"

text \<open>
  A new descriptor block with the data tags.  The flag says whether they all fitted; it is None if
  there is no buffer for the descriptor, and the journal is aborted.
\<close>

definition open_descriptor :: "kernel_env \<Rightarrow> tptr \<Rightarrow> commit_state \<Rightarrow> (commit_state \<times> bool option) option" where
  "open_descriptor k t s =
     do { j_assert (c_wbuf s = []);
          (w, descriptor) \<leftarrow> jbdbf_journal_get_descriptor_buffer k (c_world s);
          case descriptor of
            None \<Rightarrow> Some (s\<lparr>c_world := jbdbf_journal_abort w (- EIO)\<rparr>, None)
          | Some d \<Rightarrow>
              do { let bh = b_bh (jhs w d);
                   let w = upd_bh bh (\<lambda>b. b\<lparr>b_data := put_header JBD2_DESCRIPTOR_BLOCK (t_tid (trs w t)) (b_data b),
                                            bh_jwrite := True, bh_dirty := True\<rparr>) w;
                   w \<leftarrow> jbdbf_journal_file_buffer w d t BJ_LogCtl;
                   (s, fitted) \<leftarrow> put_data_tags t (t_data_tag_list (trs w t))
                     (s\<lparr>c_world := w, c_descriptor := Some d, c_wbuf := [bh], c_bh := bh, c_tagp := sizeof_header,
                        c_space_left := int (j_blocksize (jnl w)) - int sizeof_header, c_first_tag := True\<rparr>);
                   Some (s, Some fitted) } }"

text \<open>The code at the label start_journal_io.\<close>

definition submit_one :: "kernel_env \<Rightarrow> bptr \<Rightarrow> world \<times> u32 \<Rightarrow> world \<times> u32" where
  "submit_one k bh = (\<lambda>(w, crc32_sum).
     (submit_log_buffer k False bh w,
      if JBD2_HAS_COMPAT_FEATURE (jnl w) JBD2_FEATURE_COMPAT_CHECKSUM then jbdbf_checksum_data crc32_sum bh w
      else crc32_sum))"

definition start_journal_io :: "kernel_env \<Rightarrow> commit_state \<Rightarrow> commit_state" where
  "start_journal_io k s =
     (let (w, crc32_sum) = fold (submit_one k) (c_wbuf s) (c_world s, c_crc32_sum s)
      in s\<lparr>c_world := w, c_crc32_sum := crc32_sum, c_descriptor := None, c_wbuf := []\<rparr>)"

text \<open>The last tag that was set up is marked as the end of the descriptor.\<close>

definition mark_last_tag :: "commit_state \<Rightarrow> commit_state option" where
  "mark_last_tag s =
     do { (bh, tag) \<leftarrow> c_tag s;
          Some (s\<lparr>c_world := upd_bh bh (\<lambda>b. b\<lparr>b_data := put_be32 (tag + 4)
                    (get_be32 (b_data b) (tag + 4) OR JBD2_FLAG_LAST_TAG) (b_data b)\<rparr>) (c_world s)\<rparr>) }"

text \<open>The code at the label done_with_tags.\<close>

definition done_with_tags :: "kernel_env \<Rightarrow> tptr \<Rightarrow> commit_state \<Rightarrow> commit_state option" where
  "done_with_tags k t s =
     (let w = c_world s
      in if length (c_wbuf s) = j_wbufsize (jnl w) \<or> t_buffers (trs w t) = [] \<or> \<not> tag_room s
         then map_option (start_journal_io k) (mark_last_tag s)
         else Some s)"

text \<open>
  One metadata buffer.  After a failed jbdbf_journal_next_log_block the code goes on, with the
  block number of the buffer before.
\<close>

definition log_buffer :: "kernel_env \<Rightarrow> tptr \<Rightarrow> jptr \<Rightarrow> commit_state \<Rightarrow> commit_state option" where
  "log_buffer k t jh s =
     do { (w, r) \<leftarrow> jbdbf_journal_next_log_block k (c_world s);
          let (w, s) = (case r of
                          Inl err \<Rightarrow> (jbdbf_journal_abort w err, s)
                        | Inr blocknr \<Rightarrow> (w, s\<lparr>c_blocknr := Some blocknr\<rparr>));
          blocknr \<leftarrow> c_blocknr s;
          let w = upd_tr t (\<lambda>tr. tr\<lparr>t_outstanding_credits := t_outstanding_credits tr - 1\<rparr>) w;
          let bh = b_bh (jhs w jh);
          let w = upd_bh bh (\<lambda>b. b\<lparr>bh_jwrite := True\<rparr>) (get_bh bh w);
          (w, r) \<leftarrow> jbdbf_journal_write_metadata_buffer k w t jh blocknr;
          case r of
            Inl err \<Rightarrow> Some (s\<lparr>c_world := jbdbf_journal_abort w err, c_flags := err\<rparr>)
          | Inr (new_jh, flags) \<Rightarrow>
              do { let new_bh = b_bh (jhs w new_jh);
                   let w = upd_bh new_bh (\<lambda>b. b\<lparr>bh_jwrite := True\<rparr>) w;
                   s \<leftarrow> put_tag (b_blocknr (bhs w bh)) 0
                          (if b_blocktype (bhs w bh) = B_BLOCKTYPE_DATA then T_BLOCKTYPE_OVERWRITTENDATA
                           else T_BLOCKTYPE_NOTDATA)
                          (s\<lparr>c_world := w, c_flags := flags, c_wbuf := c_wbuf s @ [new_bh]\<rparr>);
                   done_with_tags k t s } }"

text \<open>One iteration of the loop over the metadata buffers, for the first one on the list.\<close>

definition commit_buffer :: "kernel_env \<Rightarrow> tptr \<Rightarrow> jptr \<Rightarrow> commit_state \<Rightarrow> commit_state option" where
  "commit_buffer k t jh s =
     (let w = c_world s
      in if is_journal_aborted (jnl w)
         then do { w \<leftarrow> jbdbf_journal_refile_buffer (clear_jbddirty (b_bh (jhs w jh)) w) jh;
                   let s = s\<lparr>c_world := w\<rparr>;
                   Some (if t_buffers (trs w t) = [] then start_journal_io k s else s) }
         else do { (s, fitted) \<leftarrow> (if c_descriptor s = None then open_descriptor k t s else Some (s, Some True));
                   case fitted of
                     None \<Rightarrow> Some s
                   | Some f \<Rightarrow> (if f then log_buffer k t jh s else done_with_tags k t s) })"

partial_function (option) commit_loop :: "kernel_env \<Rightarrow> tptr \<Rightarrow> commit_state \<Rightarrow> commit_state option" where
  "commit_loop k t s =
     (case t_buffers (trs (c_world s) t) of
        [] \<Rightarrow> Some s
      | jh # _ \<Rightarrow> do { s \<leftarrow> commit_buffer k t jh s; commit_loop k t s })"

definition write_metadata :: "kernel_env \<Rightarrow> tptr \<Rightarrow> world \<Rightarrow> (world \<times> u32) option" where
  "write_metadata k t w =
     do { s \<leftarrow> commit_loop k t \<lparr>c_world = w, c_descriptor = None, c_wbuf = [], c_bh = 0, c_tagp = 0, c_tag = None,
                 c_space_left = 0, c_first_tag = False, c_flags = k_indeterminate k, c_blocknr = None, c_crc32_sum = - 1\<rparr>;
          Some (c_world s, c_crc32_sum s) }"

section \<open>Waiting for the writes\<close>

text \<open>
  The lists are emptied from their tails.  A buffer under I/O is waited for and looked at again.
\<close>

partial_function (option) wait_for_data :: "kernel_env \<Rightarrow> tptr \<Rightarrow> world \<Rightarrow> int \<Rightarrow> (world \<times> int) option" where
  "wait_for_data k t w err =
     (if t_dirty_data_list (trs w t) = [] then Some (w, err)
      else let jh = last (t_dirty_data_list (trs w t)); bh = b_bh (jhs w jh)
           in if bh_lock (bhs w bh) then wait_for_data k t (wait_on_buffer k bh w) err
              else do { let err = (if bh_uptodate (bhs w bh) then err else - EIO);
                        w \<leftarrow> jbdbf_journal_refile_buffer (upd_bh bh (\<lambda>b. b\<lparr>bh_jwrite := False\<rparr>) w) jh;
                        wait_for_data k t w err })"

text \<open>The temporary buffer is freed; the buffer it shadows goes to the forget list.\<close>

definition end_shadow :: "tptr \<Rightarrow> world \<Rightarrow> world option" where
  "end_shadow t w =
     do { j_assert (t_shadow_list (trs w t) \<noteq> []);
          let jh = last (t_shadow_list (trs w t));
          let bh = b_bh (jhs w jh);
          let w = upd_bh bh (\<lambda>b. b\<lparr>bh_jwrite := False\<rparr>) w;
          j_assert (bh_jbddirty (bhs w bh));
          w \<leftarrow> jbdbf_journal_file_buffer w jh t BJ_Forget;
          Some (u_brelse bh w) }"

partial_function (option) wait_for_iobuf :: "kernel_env \<Rightarrow> tptr \<Rightarrow> world \<Rightarrow> int \<Rightarrow> (world \<times> int) option" where
  "wait_for_iobuf k t w err =
     (if t_iobuf_list (trs w t) = [] then Some (w, err)
      else let jh = last (t_iobuf_list (trs w t)); bh = b_bh (jhs w jh)
           in if bh_lock (bhs w bh) then wait_for_iobuf k t (wait_on_buffer k bh w) err
              else do { let err = (if bh_uptodate (bhs w bh) then err else - EIO);
                        w \<leftarrow> jbdbf_journal_unfile_buffer (upd_bh bh (\<lambda>b. b\<lparr>bh_jwrite := False\<rparr>) w) jh;
                        w \<leftarrow> jbdbf_journal_put_journal_bf_head w jh;
                        let w = u_brelse bh w;
                        j_assert (b_count (bhs w bh) = 0);
                        w \<leftarrow> end_shadow t w;
                        wait_for_iobuf k t w err })"

partial_function (option) wait_for_ctlbuf :: "kernel_env \<Rightarrow> tptr \<Rightarrow> world \<Rightarrow> int \<Rightarrow> (world \<times> int) option" where
  "wait_for_ctlbuf k t w err =
     (if t_log_list (trs w t) = [] then Some (w, err)
      else let jh = last (t_log_list (trs w t)); bh = b_bh (jhs w jh)
           in if bh_lock (bhs w bh) then wait_for_ctlbuf k t (wait_on_buffer k bh w) err
              else do { let err = (if bh_uptodate (bhs w bh) then err else - EIO);
                        w \<leftarrow> jbdbf_journal_unfile_buffer (upd_bh bh (\<lambda>b. b\<lparr>bh_jwrite := False\<rparr>) w) jh;
                        w \<leftarrow> jbdbf_journal_put_journal_bf_head w jh;
                        wait_for_ctlbuf k t (u_brelse bh w) err })"

section \<open>Buffers left to checkpoint\<close>

text \<open>The checkpoint times of a commit, from the clock.\<close>

definition checkpoint_time :: "kernel_env \<Rightarrow> world \<Rightarrow> u64" where
  "checkpoint_time k w = jiffies w + k_msecs_to_jiffies k JBDBF_CHECKPOINT_INTERVAL"

definition delay_write :: "kernel_env \<Rightarrow> bool \<Rightarrow> bptr \<Rightarrow> world \<Rightarrow> world" where
  "delay_write k durable_commit bh w =
     (if durable_commit then w
      else upd_bh bh (\<lambda>b. b\<lparr>b_blocktype := B_BLOCKTYPE_DURABLECHECKPOINT, b_checkpoint_time := checkpoint_time k w,
                            b_delayed_write := True\<rparr>) w)"

definition drop_copies :: "jptr \<Rightarrow> world \<Rightarrow> world" where
  "drop_copies jh w =
     upd_jh jh (\<lambda>h. h\<lparr>b_committed_data := (if b_committed_data h \<noteq> None then b_frozen_data h else None),
                      b_frozen_data := None\<rparr>) w"

definition commit_forget :: "kernel_env \<Rightarrow> bool \<Rightarrow> tptr \<Rightarrow> jptr \<Rightarrow> world \<Rightarrow> world option" where
  "commit_forget k durable_commit t jh w =
     (let bh = b_bh (jhs w jh)
      in do { let w = get_bh bh w;
              j_assert (b_transaction (jhs w jh) = Some t);
              let w = drop_copies jh (delay_write k durable_commit bh w);
              w \<leftarrow> (case b_cp_transaction (jhs w jh) of
                     None \<Rightarrow> Some w
                   | Some c \<Rightarrow> map_option fst (u_jbdbf_journal_remove_checkpoint
                                 (upd_tr c (\<lambda>tr. tr\<lparr>cs_dropped := cs_dropped tr + 1\<rparr>) w) jh));
              let w = (if bh_freed (bhs w bh) \<and> b_next_transaction (jhs w jh) = None
                       then upd_bh bh (\<lambda>b. b\<lparr>bh_freed := False, bh_jbddirty := False\<rparr>) w else w);
              w \<leftarrow> (if bh_jbddirty (bhs w bh)
                    then do { w \<leftarrow> u_jbdbf_journal_insert_checkpoint w jh t;
                              Some (if is_journal_aborted (jnl w) then clear_jbddirty bh w else w) }
                    else do { j_assert (\<not> bh_dirty (bhs w bh)); Some w });
              w \<leftarrow> u_jbdbf_journal_refile_buffer w jh;
              Some (u_brelse bh w) })"

partial_function (option) forget_loop :: "kernel_env \<Rightarrow> bool \<Rightarrow> tptr \<Rightarrow> world \<Rightarrow> world option" where
  "forget_loop k durable_commit t w =
     (case t_forget (trs w t) of
        [] \<Rightarrow> Some w
      | jh # _ \<Rightarrow> do { w \<leftarrow> commit_forget k durable_commit t jh w; forget_loop k durable_commit t w })"

section \<open>The end of the transaction\<close>

definition commit_finish :: "kernel_env \<Rightarrow> tptr \<Rightarrow> u64 \<Rightarrow> world \<Rightarrow> world option" where
  "commit_finish k t start_time w =
     do { j_assert (t_state (trs w t) = T_COMMIT_JFLUSH);
          let w = upd_tr t (\<lambda>tr. tr\<lparr>t_start := jiffies w, t_state := T_FINISHED\<rparr>) w;
          j_assert (j_committing_transaction (jnl w) = Some t);
          let commit_time = k_ktime k w - start_time;
          let w = upd_jnl (\<lambda>j. j\<lparr>j_commit_sequence := t_tid (trs w t), j_committing_transaction := None,
                    j_average_commit_time := (if j_average_commit_time j \<noteq> 0
                                              then (commit_time + j_average_commit_time j * 3) div 4
                                              else commit_time)\<rparr>) w;
          w \<leftarrow> (if t_checkpoint_list (trs w t) = [] \<and> t_checkpoint_io_list (trs w t) = []
                then u_jbdbf_journal_drop_transaction w t
                else Some (upd_jnl (\<lambda>j. j\<lparr>j_checkpoint_transactions := j_checkpoint_transactions j @ [t]\<rparr>) w));
          Some (k_commit_callback k t w) }"

section \<open>The whole commit\<close>

text \<open>Phase 2: data blocks, data of inodes and revoke records.\<close>

definition commit_data :: "kernel_env \<Rightarrow> tptr \<Rightarrow> world \<Rightarrow> world option" where
  "commit_data k t w =
     do { w \<leftarrow> issue_dirty_data k t w;
          (w, err) \<leftarrow> journal_submit_data_buffers k w t;
          jbdbf_journal_write_revoke_records k (if err \<noteq> 0 then jbdbf_journal_abort w err else w) t }"

definition finish_inode_data :: "kernel_env \<Rightarrow> tptr \<Rightarrow> world \<Rightarrow> world" where
  "finish_inode_data k t w =
     (let (w, err) = journal_finish_inode_data_buffers k w t
      in if err \<noteq> 0 \<and> j_flags (jnl w) AND JBD2_ABORT_ON_SYNCDATA_ERR \<noteq> 0 then jbdbf_journal_abort w err else w)"

abbreviation async_commit :: "world \<Rightarrow> bool" where
  "async_commit w \<equiv> JBD2_HAS_INCOMPAT_FEATURE (jnl w) JBD2_FEATURE_INCOMPAT_ASYNC_COMMIT"

definition submit_record :: "kernel_env \<Rightarrow> tptr \<Rightarrow> u32 \<Rightarrow> world \<Rightarrow> (world \<times> bptr option \<times> int) option" where
  "submit_record k t crc32_sum w =
     do { (w, cbh, err) \<leftarrow> journal_submit_commit_record k w t crc32_sum;
          Some (if err \<noteq> 0 then u_jbdbf_journal_abort_hard w else w, cbh, err) }"

text \<open>From the metadata to the end of phase 4: the commit block, if it is written already, and the error.\<close>

definition commit_write :: "kernel_env \<Rightarrow> tptr \<Rightarrow> world \<Rightarrow> (world \<times> u32 \<times> bptr option \<times> int) option" where
  "commit_write k t w =
     do { let w = upd_tr t (\<lambda>tr. tr\<lparr>t_state := T_COMMIT\<rparr>) w;
          j_assert (t_nr_buffers (trs w t) \<le> t_outstanding_credits (trs w t));
          (w, crc32_sum) \<leftarrow> write_metadata k t w;
          (w, err) \<leftarrow> wait_for_data k t (finish_inode_data k t w) 0;
          j_assert (t_state (trs w t) = T_COMMIT);
          let w = upd_tr t (\<lambda>tr. tr\<lparr>t_state := T_COMMIT_DFLUSH\<rparr>) w;
          let w = (if t_need_data_flush (trs w t) \<and> j_fs_dev (jnl w) \<noteq> j_dev (jnl w) \<and>
                      j_flags (jnl w) AND JBD2_BARRIER \<noteq> 0
                   then blkdev_issue_flush (j_fs_dev (jnl w)) w else w);
          (w, cbh, err) \<leftarrow> (if async_commit w then submit_record k t crc32_sum w else Some (w, None, err));
          (w, err) \<leftarrow> wait_for_iobuf k t w err;
          j_assert (t_shadow_list (trs w t) = []);
          (w, err) \<leftarrow> wait_for_ctlbuf k t w err;
          Some (if err \<noteq> 0 then jbdbf_journal_abort w err else w, crc32_sum, cbh, err) }"

text \<open>Phase 5: the commit record.\<close>

definition commit_record ::
    "kernel_env \<Rightarrow> bool \<Rightarrow> tptr \<Rightarrow> u32 \<Rightarrow> bptr option \<Rightarrow> int \<Rightarrow> world \<Rightarrow> world option" where
  "commit_record k durable_commit t crc32_sum cbh err w =
     do { j_assert (t_state (trs w t) = T_COMMIT_DFLUSH);
          let w = upd_tr t (\<lambda>tr. tr\<lparr>t_state := T_COMMIT_JFLUSH\<rparr>) w;
          (w, cbh, err) \<leftarrow> (if async_commit w then Some (w, cbh, err) else submit_record k t crc32_sum w);
          (w, err) \<leftarrow> (case cbh of None \<Rightarrow> Some (w, err) | Some bh \<Rightarrow> journal_wait_on_commit_record k w bh);
          let w = (if async_commit w \<and> j_flags (jnl w) AND JBD2_BARRIER \<noteq> 0 \<or> durable_commit
                   then blkdev_issue_flush (j_dev (jnl w)) w else w);
          Some (if err \<noteq> 0 then jbdbf_journal_abort w err else w) }"

definition lists_done :: "transaction \<Rightarrow> bool" where
  "lists_done tr = (t_inode_list tr = [] \<and> t_buffers tr = [] \<and> t_checkpoint_list tr = [] \<and>
     t_iobuf_list tr = [] \<and> t_shadow_list tr = [] \<and> t_log_list tr = [])"

definition jbdbf_journal_commit_transaction :: "kernel_env \<Rightarrow> world \<Rightarrow> world option" where
  "jbdbf_journal_commit_transaction k w =
     do { (w, t, durable_commit) \<leftarrow> commit_lock k w;
          let start_time = k_ktime k w;
          w \<leftarrow> commit_data k t w;
          (w, crc32_sum, cbh, err) \<leftarrow> commit_write k t w;
          w \<leftarrow> commit_record k durable_commit t crc32_sum cbh err w;
          j_assert (lists_done (trs w t));
          let w = upd_tr t (\<lambda>tr. tr\<lparr>t_checkpoint_time := (if durable_commit then jiffies w
                                                              else checkpoint_time k w)\<rparr>) w;
          w \<leftarrow> forget_loop k durable_commit t w;
          commit_finish k t start_time w }"

end
