(* ===== verification/Frames.thy ===== *)
theory Frames
  imports Buffers
begin

text \<open>
  What the operations on journal heads and transaction lists leave alone: contents, place and I/O
  state of every buffer, the buffers the journal heads belong to, the journal, the clock and the
  I/O issued so far.
\<close>

section \<open>The frame relation\<close>

definition same_buffer :: "buffer_head \<Rightarrow> buffer_head \<Rightarrow> bool" where
  "same_buffer b b' = (b_data b' = b_data b \<and> b_blocknr b' = b_blocknr b \<and> b_bdev b' = b_bdev b \<and>
     b_blocktype b' = b_blocktype b \<and> bh_lock b' = bh_lock b \<and> bh_uptodate b' = bh_uptodate b \<and>
     bh_revoked b' = bh_revoked b \<and> bh_revokevalid b' = bh_revokevalid b)"

definition frame :: "world \<Rightarrow> world \<Rightarrow> bool" where
  "frame w w' = ((\<forall>b. same_buffer (bhs w b) (bhs w' b)) \<and> (\<forall>x. b_bh (jhs w' x) = b_bh (jhs w x)) \<and>
     jnl w' = jnl w \<and> iolog w' = iolog w \<and> jiffies w' = jiffies w \<and> bcache w' = bcache w \<and>
     bh_next w' = bh_next w \<and> jh_next w' = jh_next w \<and> jis w' = jis w)"

lemma same_buffer_refl [simp]: "same_buffer b b"
  by (simp add: same_buffer_def)

lemma frame_refl [simp]: "frame w w"
  by (simp add: frame_def)

lemma frame_trans: "frame w w' \<Longrightarrow> frame w' w'' \<Longrightarrow> frame w w''"
  by (simp add: frame_def same_buffer_def)

lemma frame_bh:
  assumes "frame w w'"
  shows "b_data (bhs w' b) = b_data (bhs w b)" "b_blocknr (bhs w' b) = b_blocknr (bhs w b)"
    "b_bdev (bhs w' b) = b_bdev (bhs w b)" "b_blocktype (bhs w' b) = b_blocktype (bhs w b)"
    "bh_lock (bhs w' b) = bh_lock (bhs w b)" "bh_uptodate (bhs w' b) = bh_uptodate (bhs w b)"
    "bh_revoked (bhs w' b) = bh_revoked (bhs w b)" "bh_revokevalid (bhs w' b) = bh_revokevalid (bhs w b)"
  using assms by (simp_all add: frame_def same_buffer_def)

lemma frame_sel:
  assumes "frame w w'"
  shows "b_bh (jhs w' x) = b_bh (jhs w x)" "jnl w' = jnl w" "iolog w' = iolog w" "jiffies w' = jiffies w"
    "bcache w' = bcache w" "bh_next w' = bh_next w" "jh_next w' = jh_next w" "jis w' = jis w"
  using assms by (simp_all add: frame_def)

text \<open>
  The relation is an equivalence, so an update that keeps the frame can be dropped on either side
  of it; the simplifier does so.
\<close>

lemma frame_sym: "frame w w' \<Longrightarrow> frame w' w"
  by (simp add: frame_def same_buffer_def)

lemma frame_left: "frame w w' \<Longrightarrow> frame w' x = frame w x"
  by (blast intro: frame_trans frame_sym)

lemma frame_right: "frame w w' \<Longrightarrow> frame x w' = frame x w"
  by (blast intro: frame_trans frame_sym)

lemma frame_upd_bh: "(\<And>b. same_buffer b (f b)) \<Longrightarrow> frame w (upd_bh bh f w)"
  by (simp add: frame_def)

lemma frame_upd_jh: "(\<And>h. b_bh (f h) = b_bh h) \<Longrightarrow> frame w (upd_jh jh f w)"
  by (simp add: frame_def)

lemma frame_upd_tr: "frame w (upd_tr t f w)"
  by (simp add: frame_def)

lemma frame_upd_hd: "frame w (upd_hd h f w)"
  by (simp add: frame_def)

lemma frame_bits:
  "frame w (clear_jbddirty bh w)" "frame w (set_jbddirty bh w)" "frame w (clear_dirty bh w)"
  "frame w (mark_buffer_dirty bh w)" "frame w (get_bh bh w)" "frame w (u_brelse bh w)"
  unfolding dirty_bit_defs get_bh_def u_brelse_def
  by (auto intro!: frame_upd_bh simp: same_buffer_def)

lemma frame_jh_fields:
  "frame w (upd_jh jh (\<lambda>h. h\<lparr>b_jlist := l\<rparr>) w)" "frame w (upd_jh jh (\<lambda>h. h\<lparr>b_transaction := t\<rparr>) w)"
  "frame w (upd_jh jh (\<lambda>h. h\<lparr>b_transaction := t, b_next_transaction := n\<rparr>) w)"
  "frame w (upd_jh jh (\<lambda>h. h\<lparr>b_jcount := f h\<rparr>) w)"
  "frame w (upd_jh jh (\<lambda>h. h\<lparr>b_frozen_data := fd, b_committed_data := cd\<rparr>) w)"
  "frame w (upd_jh jh (\<lambda>h. h\<lparr>b_committed_data := cd\<rparr>) w)"
  "frame w (upd_jh jh (\<lambda>h. h\<lparr>b_modified := m\<rparr>) w)"
  "frame w (upd_jh jh (\<lambda>h. h\<lparr>b_next_transaction := n\<rparr>) w)"
  by (rule frame_upd_jh, simp)+

lemma frame_bh_fields:
  "frame w (upd_bh bh (\<lambda>b. b\<lparr>bh_jwrite := v\<rparr>) w)"
  "frame w (upd_bh bh (\<lambda>b. b\<lparr>b_private := p, bh_jbd := v\<rparr>) w)"
  by (rule frame_upd_bh, simp add: same_buffer_def)+

lemmas frame_updates = frame_upd_tr frame_upd_hd frame_bits frame_jh_fields frame_bh_fields
lemmas frame_drop [simp] = frame_updates [THEN frame_left] frame_updates [THEN frame_right]

section \<open>Journal heads\<close>

lemma grab_frame: "jbdbf_journal_grab_journal_bf_head w bh = Some (w', r) \<Longrightarrow> frame w w'"
  by (auto simp: jbdbf_journal_grab_journal_bf_head_def split: if_splits Option.bind_splits)

lemma remove_head_frame: "u_journal_remove_journal_bf_head w bh = Some w' \<Longrightarrow> frame w w'"
  by (auto simp: u_journal_remove_journal_bf_head_def Let_def split: Option.bind_splits)

lemma put_head_frame: "jbdbf_journal_put_journal_bf_head w jh = Some w' \<Longrightarrow> frame w w'"
  by (auto simp: jbdbf_journal_put_journal_bf_head_def Let_def
      dest!: remove_head_frame split: if_splits Option.bind_splits)

section \<open>Lists\<close>

lemma temp_unlink_frame: "u_jbdbf_journal_temp_unlink_buffer w jh = Some w' \<Longrightarrow> frame w w'"
  by (auto simp: u_jbdbf_journal_temp_unlink_buffer_def Let_def split: if_splits Option.bind_splits)

lemma unfile_frame: "u_jbdbf_journal_unfile_buffer w jh = Some w' \<Longrightarrow> frame w w'"
  by (auto simp: u_jbdbf_journal_unfile_buffer_def split: Option.bind_splits
      dest!: temp_unlink_frame put_head_frame intro: frame_trans)

lemma jbd_unfile_frame: "jbdbf_journal_unfile_buffer w jh = Some w' \<Longrightarrow> frame w w'"
  by (auto simp: jbdbf_journal_unfile_buffer_def Let_def split: Option.bind_splits dest!: unfile_frame)

lemma take_dirty_frame: "take_dirty bh w = (w', d) \<Longrightarrow> frame w w'"
  by (auto simp: take_dirty_def split: if_splits)

lemma file_frame: "u_jbdbf_journal_file_buffer w jh t l = Some w' \<Longrightarrow> frame w w'"
proof -
  assume f: "u_jbdbf_journal_file_buffer w jh t l = Some w'"
  show ?thesis
  proof (cases "b_transaction (jhs w jh) \<noteq> None \<and> b_jlist (jhs w jh) = l")
    case True
    then show ?thesis using f by (auto simp: u_jbdbf_journal_file_buffer_def Let_def)
  next
    case False
    obtain w1 d where d: "(if l \<in> {BJ_Metadata, BJ_Reserved, BJ_Shadow, BJ_Forget}
      then take_dirty (b_bh (jhs w jh)) w else (w, False)) = (w1, d)" by fastforce
    have "frame w w1" using d by (auto split: if_splits dest: take_dirty_frame)
    moreover obtain w2 where w2: "(if b_transaction (jhs w jh) \<noteq> None then u_jbdbf_journal_temp_unlink_buffer w1 jh
        else map_option fst (jbdbf_journal_grab_journal_bf_head w1 (b_bh (jhs w jh)))) = Some w2"
      using f unfolding u_jbdbf_journal_file_buffer_def Let_def d if_not_P [OF False]
      by (auto split: Option.bind_splits)
    then have "frame w1 w2" by (auto split: if_splits dest: temp_unlink_frame grab_frame)
    moreover have "frame w2 w'"
      using f unfolding u_jbdbf_journal_file_buffer_def Let_def d if_not_P [OF False] prod.case w2
      by (auto split: if_splits)
    ultimately show ?thesis by (blast intro: frame_trans)
  qed
qed

lemma jbd_file_frame: "jbdbf_journal_file_buffer w jh t l = Some w' \<Longrightarrow> frame w w'"
  by (simp add: jbdbf_journal_file_buffer_def file_frame)

lemma refile_frame: "u_jbdbf_journal_refile_buffer w jh = Some w' \<Longrightarrow> frame w w'"
  by (auto simp: u_jbdbf_journal_refile_buffer_def Let_def split: option.splits Option.bind_splits
      dest!: unfile_frame temp_unlink_frame file_frame intro: frame_trans)

lemma jbd_refile_frame: "jbdbf_journal_refile_buffer w jh = Some w' \<Longrightarrow> frame w w'"
  by (auto simp: jbdbf_journal_refile_buffer_def Let_def split: Option.bind_splits dest!: refile_frame)

lemmas list_frames = grab_frame put_head_frame temp_unlink_frame unfile_frame jbd_unfile_frame file_frame
  jbd_file_frame refile_frame jbd_refile_frame

end
