(* ===== verification/Log_Encoding.thy ===== *)
theory Log_Encoding
  imports Commit Frames Log_Format
begin

text \<open>
  What the commit writes to the log is what recovery reads back: the tags of a descriptor block,
  the records of a revoke block, and the escaped copy of a metadata block.
\<close>

section \<open>Reads that do not see a write\<close>

definition agree :: "nat \<Rightarrow> bytes \<Rightarrow> bytes \<Rightarrow> bool" where
  "agree n b b' = (\<forall>i < n. b ! i = b' ! i)"

lemma agree_refl [simp]: "agree n b b"
  by (simp add: agree_def)

lemma agree_trans: "agree n a b \<Longrightarrow> agree n b c \<Longrightarrow> agree n a c"
  by (simp add: agree_def)

lemma agree_le: "agree n b b' \<Longrightarrow> m \<le> n \<Longrightarrow> agree m b b'"
  by (simp add: agree_def)

lemma agree_put_be32 [simp]: "n \<le> off \<Longrightarrow> agree n (put_be32 off v b) b' = agree n b b'"
  by (simp add: agree_def put_be32_def)

lemma agree_put_be64 [simp]: "n \<le> off \<Longrightarrow> agree n (put_be64 off v b) b' = agree n b b'"
  by (simp add: put_be64_def)

lemma agree_update [simp]: "n \<le> off \<Longrightarrow> agree n (b[off := v]) b' = agree n b b'"
  by (simp add: agree_def)

lemma agree_put_bytes [simp]:
  "n \<le> off \<Longrightarrow> off \<le> length b \<Longrightarrow> agree n (put_bytes off src b) b' = agree n b b'"
  by (simp add: agree_def put_bytes_def nth_append)

lemma get_be32_agree: "agree n b b' \<Longrightarrow> off + 4 \<le> n \<Longrightarrow> get_be32 b off = get_be32 b' off"
  by (simp add: agree_def get_be32_def)

lemma get_be64_agree: "agree n b b' \<Longrightarrow> off + 8 \<le> n \<Longrightarrow> get_be64 b off = get_be64 b' off"
  using get_be32_agree [of n b b' off] get_be32_agree [of n b b' "off + 4"] by (simp add: get_be64_def)

lemma length_put_bytes [simp]: "off + length src \<le> length b \<Longrightarrow> length (put_bytes off src b) = length b"
  by (simp add: put_bytes_def)

lemma get_be32_update_other [layout_simps]:
  "i < off \<or> off + 4 \<le> i \<Longrightarrow> get_be32 (b[i := v]) off = get_be32 b off"
  by (auto simp: get_be32_def)

lemma length_write_tag_block [simp]: "length (write_tag_block n tagp block csum ty b) = length b"
  by (simp add: write_tag_block_def Let_def)

lemma tag_at_agree: "agree n b b' \<Longrightarrow> p + JBD2_TAG_SIZE64 \<le> n \<Longrightarrow> tag_at b p = tag_at b' p"
  by (simp add: tag_at_def read_tag_block_def tag_flags_def read_tag_checksum_def read_tag_type_def size_defs
      get_be32_agree Let_def)

section \<open>One tag\<close>

lemma tag_block_halves:
  "ucast (ucast (block :: u64) :: u32) OR push_bit 32 (ucast (ucast (drop_bit 1 (drop_bit 31 block)) :: u32)) = block"
  using be64_halves [of block] by (simp add: or.commute)

definition tag_image :: "bytes \<Rightarrow> u32 \<Rightarrow> nat \<Rightarrow> u64 \<Rightarrow> u32 \<Rightarrow> u32 \<Rightarrow> bytes \<Rightarrow> bytes" where
  "tag_image uuid flags tagp block csum ty b =
     put_bytes (tagp + JBD2_TAG_SIZE64) uuid
       (put_be32 (tagp + 4) flags (write_tag_block JBD2_TAG_SIZE64 tagp block csum ty b))"

lemma tag_at_image:
  assumes "tagp + JBD2_TAG_SIZE64 + length uuid \<le> length b"
  shows "tag_at (tag_image uuid flags tagp block csum ty b) tagp =
    \<lparr>lt_block = block, lt_flags = flags, lt_sum = csum, lt_type = ty\<rparr>"
proof -
  let ?b = "put_be32 (tagp + 4) flags (write_tag_block JBD2_TAG_SIZE64 tagp block csum ty b)"
  have len: "tagp + 52 \<le> length b" using assms by (simp add: size_defs)
  have "agree (tagp + JBD2_TAG_SIZE64) (tag_image uuid flags tagp block csum ty b) ?b"
    using assms by (simp add: tag_image_def)
  then have "tag_at (tag_image uuid flags tagp block csum ty b) tagp = tag_at ?b tagp"
    by (rule tag_at_agree) simp
  also have "\<dots> = \<lparr>lt_block = block, lt_flags = flags, lt_sum = csum, lt_type = ty\<rparr>"
    using len by (simp add: tag_at_def read_tag_block_def tag_flags_def read_tag_checksum_def read_tag_type_def
        write_tag_block_def size_defs Let_def layout_simps) (rule tag_block_halves [simplified])
  finally show ?thesis .
qed

lemma tag_image_agree:
  "n \<le> tagp \<Longrightarrow> tagp + JBD2_TAG_SIZE64 + length uuid \<le> length b \<Longrightarrow>
   agree n (tag_image uuid flags tagp block csum ty b) b"
  by (simp add: tag_image_def write_tag_block_def size_defs Let_def)

lemma length_tag_image [simp]:
  "tagp + JBD2_TAG_SIZE64 + length uuid \<le> length b \<Longrightarrow>
   length (tag_image uuid flags tagp block csum ty b) = length b"
  by (simp add: tag_image_def)

section \<open>The tags of a descriptor block\<close>

text \<open>The given tags stand one after the other from p to q, none of them marked as the last.\<close>

fun laid :: "journal \<Rightarrow> bytes \<Rightarrow> nat \<Rightarrow> log_tag list \<Rightarrow> nat \<Rightarrow> bool" where
  "laid j b p [] q = (p = q)"
| "laid j b p (t # ts) q =
     (p + JBD2_TAG_SIZE64 \<le> q \<and> tag_at b p = t \<and> lt_flags t AND JBD2_FLAG_LAST_TAG = 0 \<and>
      laid j b (next_tagp j b p) ts q)"

lemma next_tagp_agree: "agree n b b' \<Longrightarrow> p + JBD2_TAG_SIZE64 \<le> n \<Longrightarrow> next_tagp j b p = next_tagp j b' p"
  by (simp add: next_tagp_def tag_flags_def size_defs get_be32_agree)

lemma laid_le: "laid j b p ts q \<Longrightarrow> p \<le> q"
  by (cases ts) auto

lemma laid_agree: "agree q b b' \<Longrightarrow> laid j b p ts q = laid j b' p ts q"
proof (induction ts arbitrary: p)
  case (Cons t ts)
  show ?case
    using Cons tag_at_agree [of q b b' p] next_tagp_agree [of q b b' p j] by (auto simp: Cons)
qed simp

lemma laid_snoc:
  "laid j b p ts q \<Longrightarrow> tag_at b q = t \<Longrightarrow> lt_flags t AND JBD2_FLAG_LAST_TAG = 0 \<Longrightarrow>
   laid j b p (ts @ [t]) (next_tagp j b q)"
proof (induction ts arbitrary: p)
  case Nil
  then show ?case by (simp add: next_tagp_def journal_tag_bytes_def)
next
  case (Cons u us)
  then have "q \<le> next_tagp j b q" by (simp add: next_tagp_def)
  with Cons show ?case by auto
qed

lemma laid_tags_from:
  assumes "laid j b p ts q" "q + JBD2_TAG_SIZE64 \<le> j_blocksize j"
    "lt_flags (tag_at b q) AND JBD2_FLAG_LAST_TAG \<noteq> 0"
  shows "tags_from j b p = ts @ [tag_at b q]"
  using assms
proof (induction ts arbitrary: p)
  case Nil
  then show ?case by (subst tags_from.simps) (simp add: journal_tag_bytes_def tag_at_def)
next
  case (Cons t ts)
  have "p + JBD2_TAG_SIZE64 \<le> j_blocksize j" using Cons.prems by auto
  moreover have "tag_flags b p AND JBD2_FLAG_LAST_TAG = 0" using Cons.prems(1) by (auto simp: tag_at_def)
  ultimately show ?case
    using Cons by (subst tags_from.simps) (auto simp: journal_tag_bytes_def)
qed

lemma or_and_absorb: "(x OR m) AND m = (m :: 'a::len word)"
  by (rule bit_word_eqI) (auto simp: bit_simps)

text \<open>A tag the commit asks for: the flags of the copy, the block, its checksum and its type.\<close>

type_synonym tag_request = "int \<times> u64 \<times> u32 \<times> u32"

fun req_tag :: "bool \<Rightarrow> tag_request \<Rightarrow> log_tag" where
  "req_tag first (flags, block, csum, ty) =
     \<lparr>lt_block = block,
      lt_flags = (if flags mod 2 = 1 then JBD2_FLAG_ESCAPE else 0) OR (if first then 0 else JBD2_FLAG_SAME_UUID),
      lt_sum = csum, lt_type = ty\<rparr>"

fun plain_tags :: "tag_request list \<Rightarrow> log_tag list" where
  "plain_tags [] = []"
| "plain_tags (r # rs) = req_tag True r # map (req_tag False) rs"

definition set_last :: "log_tag \<Rightarrow> log_tag" where
  "set_last t = t\<lparr>lt_flags := lt_flags t OR JBD2_FLAG_LAST_TAG\<rparr>"

definition expected_tags :: "tag_request list \<Rightarrow> log_tag list" where
  "expected_tags reqs = butlast (plain_tags reqs) @ [set_last (last (plain_tags reqs))]"

fun put_tags :: "tag_request list \<Rightarrow> commit_state \<Rightarrow> commit_state option" where
  "put_tags [] s = Some s"
| "put_tags ((flags, block, csum, ty) # reqs) s =
     do { s \<leftarrow> put_tag block csum ty (s\<lparr>c_flags := flags\<rparr>); put_tags reqs s }"

abbreviation desc_data :: "commit_state \<Rightarrow> bytes" where
  "desc_data s \<equiv> b_data (bhs (c_world s) (c_bh s))"

text \<open>The state of the writer after it has written the given tags.\<close>

definition writing :: "commit_state \<Rightarrow> log_tag list \<Rightarrow> bool" where
  "writing s ts =
     (let j = jnl (c_world s); b = desc_data s
      in length b = j_blocksize j \<and> length (j_uuid j) = 16 \<and> (c_first_tag s \<longleftrightarrow> ts = []) \<and>
         c_tagp s \<le> j_blocksize j \<and> laid j b sizeof_header ts (c_tagp s) \<and>
         (ts \<noteq> [] \<longrightarrow> (\<exists>q. c_tag s = Some (c_bh s, q) \<and> laid j b sizeof_header (butlast ts) q \<and>
                           tag_at b q = last ts \<and> q + JBD2_TAG_SIZE64 \<le> c_tagp s)))"

lemma req_tag_flags:
  "lt_flags (req_tag first r) AND JBD2_FLAG_LAST_TAG = 0"
  "lt_flags (req_tag first r) AND JBD2_FLAG_SAME_UUID = 0 \<longleftrightarrow> first"
  by (cases r; simp add: JBD2_FLAG_ESCAPE_def JBD2_FLAG_SAME_UUID_def JBD2_FLAG_LAST_TAG_def)+

text \<open>What a tag changes: the contents of the descriptor from the position of the tag on.\<close>

definition tag_step :: "commit_state \<Rightarrow> commit_state \<Rightarrow> bool" where
  "tag_step s s' = (jnl (c_world s') = jnl (c_world s) \<and> c_bh s' = c_bh s \<and>
     agree sizeof_header (desc_data s') (desc_data s))"

lemma tag_step_refl [simp]: "tag_step s s"
  by (simp add: tag_step_def)

lemma tag_step_trans: "tag_step s s' \<Longrightarrow> tag_step s' s'' \<Longrightarrow> tag_step s s''"
  by (auto simp: tag_step_def intro: agree_trans)

lemma put_tag_writing:
  assumes wr: "writing s ts" and room: "c_tagp s + JBD2_TAG_SIZE64 + (if ts = [] then 16 else 0) \<le> j_blocksize (jnl (c_world s))"
  shows "\<exists>s'. put_tag block csum ty (s\<lparr>c_flags := flags\<rparr>) = Some s' \<and>
    writing s' (ts @ [req_tag (ts = []) (flags, block, csum, ty)]) \<and> tag_step s s' \<and>
    c_tagp s' = c_tagp s + JBD2_TAG_SIZE64 + (if ts = [] then 16 else 0) \<and>
    c_space_left s' + int (c_tagp s') = c_space_left s + int (c_tagp s) \<and> c_flags s' = flags"
proof -
  let ?j = "jnl (c_world s)" and ?b = "desc_data s" and ?p = "c_tagp s"
  let ?t = "req_tag (ts = []) (flags, block, csum, ty)"
  let ?uuid = "if ts = [] then j_uuid ?j else []"
  define b' where "b' = tag_image ?uuid (lt_flags ?t) ?p block csum ty ?b"
  have w: "length ?b = j_blocksize ?j" "length (j_uuid ?j) = 16" "c_first_tag s \<longleftrightarrow> ts = []"
      "laid ?j ?b sizeof_header ts ?p"
    using wr by (auto simp: writing_def Let_def)
  have fit: "?p + JBD2_TAG_SIZE64 + length ?uuid \<le> length ?b" using room w by (auto split: if_splits)
  have t: "tag_at b' ?p = ?t" unfolding b'_def by (subst tag_at_image [OF fit]) simp
  have ag: "agree ?p b' ?b" unfolding b'_def by (rule tag_image_agree [OF _ fit]) simp
  have laid: "laid ?j b' sizeof_header ts ?p" using w(4) laid_agree [OF ag] by simp
  have "tag_flags b' ?p AND JBD2_FLAG_SAME_UUID = 0 \<longleftrightarrow> ts = []"
    using t req_tag_flags(2) [of "ts = []" "(flags, block, csum, ty)"] by (auto simp: tag_at_def)
  then have nt: "next_tagp ?j b' ?p = ?p + JBD2_TAG_SIZE64 + (if ts = [] then 16 else 0)"
    by (simp add: next_tagp_def journal_tag_bytes_def)
  have snoc: "laid ?j b' sizeof_header (ts @ [?t]) (next_tagp ?j b' ?p)"
    by (rule laid_snoc [OF laid t req_tag_flags(1)])
  define s' where "s' = s\<lparr>c_flags := flags, c_world := upd_bh (c_bh s) (\<lambda>b. b\<lparr>b_data := b'\<rparr>) (c_world s),
     c_tag := Some (c_bh s, ?p), c_tagp := ?p + JBD2_TAG_SIZE64 + length ?uuid,
     c_space_left := c_space_left s - int (JBD2_TAG_SIZE64 + length ?uuid), c_first_tag := False\<rparr>"
  have put: "put_tag block csum ty (s\<lparr>c_flags := flags\<rparr>) = Some s'"
    using fit w(3) by (auto simp: put_tag_def journal_tag_bytes_def Let_def s'_def b'_def tag_image_def upd_bh_def fun_upd_def)
  have sp: "c_space_left s' + int (c_tagp s') = c_space_left s + int (c_tagp s)" "c_flags s' = flags"
    by (simp_all add: s'_def)
  have d': "c_bh s' = c_bh s" "b_data (bhs (c_world s') (c_bh s)) = b'" "jnl (c_world s') = ?j" "c_tag s' = Some (c_bh s, ?p)"
      "c_tagp s' = ?p + JBD2_TAG_SIZE64 + (if ts = [] then 16 else 0)" "\<not> c_first_tag s'"
    using w(2) by (simp_all add: s'_def)
  have "length b' = j_blocksize ?j" using w(1) fit by (simp add: b'_def)
  then have "writing s' (ts @ [?t])"
    unfolding writing_def Let_def d' using w(2) snoc nt laid t room d'(6) by (simp del: req_tag.simps)
  moreover have "tag_step s s'"
    using d' agree_le [OF ag laid_le [OF w(4)]] by (simp add: tag_step_def)
  ultimately show ?thesis using put d' sp by blast
qed

lemma put_tags_writing:
  assumes "writing s ts" "ts \<noteq> []" "c_tagp s + JBD2_TAG_SIZE64 * length reqs \<le> j_blocksize (jnl (c_world s))"
  shows "\<exists>s'. put_tags reqs s = Some s' \<and> writing s' (ts @ map (req_tag False) reqs) \<and> tag_step s s'"
  using assms
proof (induction reqs arbitrary: s ts)
  case Nil
  then show ?case by auto
next
  case (Cons r reqs)
  obtain flags block csum ty where r: "r = (flags, block, csum, ty)" by (cases r) auto
  obtain s1 where s1: "put_tag block csum ty (s\<lparr>c_flags := flags\<rparr>) = Some s1"
      "writing s1 (ts @ [req_tag False r])" "tag_step s s1" "c_tagp s1 = c_tagp s + JBD2_TAG_SIZE64"
    using put_tag_writing [OF Cons.prems(1), of block csum ty flags] Cons.prems(2,3) r by auto
  have "c_tagp s1 + JBD2_TAG_SIZE64 * length reqs \<le> j_blocksize (jnl (c_world s1))"
    using Cons.prems(3) s1(3,4) by (simp add: tag_step_def)
  then obtain s' where "put_tags reqs s1 = Some s'"
      "writing s' ((ts @ [req_tag False r]) @ map (req_tag False) reqs)" "tag_step s1 s'"
    using Cons.IH [OF s1(2)] by auto
  then show ?case using s1 r by (auto intro: tag_step_trans)
qed

lemma mark_last_writing:
  assumes wr: "writing s (ts @ [t])"
  shows "\<exists>s'. mark_last_tag s = Some s' \<and> tag_step s s' \<and>
    tags_from (jnl (c_world s')) (desc_data s') sizeof_header = ts @ [set_last t]"
proof -
  let ?j = "jnl (c_world s)" and ?b = "desc_data s"
  obtain q where q: "c_tag s = Some (c_bh s, q)" "laid ?j ?b sizeof_header ts q" "tag_at ?b q = t"
      "q + JBD2_TAG_SIZE64 \<le> c_tagp s" "c_tagp s \<le> j_blocksize ?j" "length ?b = j_blocksize ?j"
    using wr by (auto simp: writing_def Let_def)
  define b' where "b' = put_be32 (q + 4) (get_be32 ?b (q + 4) OR JBD2_FLAG_LAST_TAG) ?b"
  define s' where "s' = s\<lparr>c_world := upd_bh (c_bh s) (\<lambda>b. b\<lparr>b_data := b'\<rparr>) (c_world s)\<rparr>"
  have m: "mark_last_tag s = Some s'"
    using q(1) by (simp add: mark_last_tag_def s'_def b'_def upd_bh_def fun_upd_def)
  have d': "desc_data s' = b'" "jnl (c_world s') = ?j" "c_bh s' = c_bh s" by (simp_all add: s'_def)
  have ag: "agree q b' ?b" by (simp add: b'_def)
  have "q + 52 \<le> length ?b" using q by (simp add: size_defs)
  then have t': "tag_at b' q = set_last t"
    unfolding q(3) [symmetric] by (simp add: b'_def tag_at_def set_last_def read_tag_block_def tag_flags_def
        read_tag_checksum_def read_tag_type_def size_defs Let_def layout_simps)
  have "lt_flags (tag_at b' q) AND JBD2_FLAG_LAST_TAG \<noteq> 0"
    unfolding t' by (simp add: set_last_def or_and_absorb) (simp add: JBD2_FLAG_LAST_TAG_def)
  then have "tags_from ?j b' sizeof_header = ts @ [set_last t]"
    using laid_tags_from [of ?j b' sizeof_header ts q] q laid_agree [OF ag] t' by simp
  moreover have "tag_step s s'" using d' agree_le [OF ag laid_le [OF q(2)]] by (simp add: tag_step_def)
  ultimately show ?thesis using m d' by auto
qed

text \<open>
  C13: the tags that the commit puts into a descriptor block, the last of them marked as the last, are
  read back by recovery as the same sequence of tags, with the escape flag of an escaped copy, the
  same-UUID flag on every tag but the first, and the header of the block untouched, whenever they
  fit into the block.
\<close>

theorem descriptor_tags_roundtrip:
  assumes "length (desc_data s) = j_blocksize (jnl (c_world s))" "length (j_uuid (jnl (c_world s))) = 16"
    "c_tagp s = sizeof_header" "c_first_tag s" "reqs \<noteq> []"
    "sizeof_header + 16 + JBD2_TAG_SIZE64 * length reqs \<le> j_blocksize (jnl (c_world s))"
  shows "\<exists>s1 s'. put_tags reqs s = Some s1 \<and> mark_last_tag s1 = Some s' \<and>
    tags_from (jnl (c_world s')) (desc_data s') sizeof_header = expected_tags reqs \<and>
    agree sizeof_header (desc_data s') (desc_data s)"
proof -
  obtain r rs where reqs: "reqs = r # rs" using assms(5) by (cases reqs) auto
  obtain flags block csum ty where r: "r = (flags, block, csum, ty)" by (cases r) auto
  have "writing s []" using assms by (simp add: writing_def Let_def)
  moreover have "c_tagp s + JBD2_TAG_SIZE64 + 16 \<le> j_blocksize (jnl (c_world s))"
    using assms(3,6) reqs by simp
  ultimately obtain s0 where s0: "put_tag block csum ty (s\<lparr>c_flags := flags\<rparr>) = Some s0"
      "writing s0 [req_tag True r]" "tag_step s s0" "c_tagp s0 = c_tagp s + JBD2_TAG_SIZE64 + 16"
    using put_tag_writing [of s "[]" block csum ty flags] r by auto
  have "c_tagp s0 + JBD2_TAG_SIZE64 * length rs \<le> j_blocksize (jnl (c_world s0))"
    using assms(3,6) reqs s0(3,4) by (simp add: tag_step_def)
  then obtain s1 where s1: "put_tags rs s0 = Some s1" "writing s1 (plain_tags reqs)" "tag_step s0 s1"
    using put_tags_writing [OF s0(2)] reqs by auto
  have "plain_tags reqs = butlast (plain_tags reqs) @ [last (plain_tags reqs)]" using reqs by simp
  then obtain s' where s': "mark_last_tag s1 = Some s'" "tag_step s1 s'"
      "tags_from (jnl (c_world s')) (desc_data s') sizeof_header = expected_tags reqs"
    using mark_last_writing [of s1 "butlast (plain_tags reqs)" "last (plain_tags reqs)"] s1(2)
    by (auto simp: expected_tags_def)
  have "tag_step s s'" by (rule tag_step_trans [OF tag_step_trans [OF s0(3) s1(3)] s'(2)])
  moreover have "put_tags reqs s = Some s1" using s0(1) s1(1) reqs r by simp
  ultimately show ?thesis using s' unfolding tag_step_def by blast
qed

definition ex_desc_state :: commit_state where
  "ex_desc_state =
     \<lparr>c_world = zero_world\<lparr>jnl := zero_journal\<lparr>j_blocksize := 256, j_uuid := replicate 16 7\<rparr>,
        bhs := (\<lambda>_. zero_bh\<lparr>b_data := replicate 256 0\<rparr>)\<rparr>,
      c_descriptor = Some 3, c_wbuf = [5], c_bh = 5, c_tagp = 12, c_tag = None, c_space_left = 244,
      c_first_tag = True, c_flags = 0, c_blocknr = None, c_crc32_sum = 0\<rparr>"

theorem descriptor_tags_roundtrip_witness:
  "\<exists>s1 s'. put_tags [(1, 0x123456789, 0, 0), (2, 9, 1, 2)] ex_desc_state = Some s1 \<and> mark_last_tag s1 = Some s' \<and>
    tags_from (jnl (c_world s')) (desc_data s') sizeof_header = expected_tags [(1, 0x123456789, 0, 0), (2, 9, 1, 2)] \<and>
    agree sizeof_header (desc_data s') (desc_data ex_desc_state)"
  by (rule descriptor_tags_roundtrip) (simp_all add: ex_desc_state_def zero_defs size_defs)

section \<open>The copy of a metadata block\<close>

lemma unescape_escape:
  assumes "length data = n" "4 \<le> n" "flags AND JBD2_FLAG_ESCAPE \<noteq> 0 \<longleftrightarrow> get_be32 data 0 = JBD2_MAGIC_NUMBER"
  shows "unescape n flags (if get_be32 data 0 = JBD2_MAGIC_NUMBER then put_be32 0 0 data else data) = data"
  using assms put_get_be32 [of 0 data] by (auto simp: unescape_def Let_def put_put_be32)

lemma req_tag_escape:
  "lt_flags (req_tag first (flags, block, csum, ty)) AND JBD2_FLAG_ESCAPE \<noteq> 0 \<longleftrightarrow> flags mod 2 = 1"
  by (simp add: JBD2_FLAG_ESCAPE_def JBD2_FLAG_SAME_UUID_def)

text \<open>The contents that are logged: the frozen copy if there is one.\<close>

definition logged_data :: "world \<Rightarrow> jptr \<Rightarrow> bytes" where
  "logged_data w jh = (case b_frozen_data (jhs w jh) of Some f \<Rightarrow> f | None \<Rightarrow> b_data (bhs w (b_bh (jhs w jh))))"

lemma new_copy_ok:
  "\<exists>w1. new_copy w = Some (w1, bh_next w, jh_next w) \<and> jnl w1 = jnl w \<and> trs w1 = trs w \<and> iolog w1 = iolog w \<and>
     b_bh (jhs w1 (jh_next w)) = bh_next w \<and> (\<forall>x. x \<noteq> jh_next w \<longrightarrow> jhs w1 x = jhs w x) \<and>
     (\<forall>b. b \<noteq> bh_next w \<longrightarrow> bhs w1 b = bhs w b)"
  by (simp add: new_copy_def jbdbf_journal_add_journal_bf_head_def zero_bh_def zero_jh_def get_bh_def Let_def)

lemma write_metadata_copy:
  assumes r: "jbdbf_journal_write_metadata_buffer k w t jh blocknr = Some (w', Inr (new_jh, flags))"
    and fresh: "b_bh (jhs w jh) \<noteq> bh_next w" "jh \<noteq> jh_next w"
  shows "b_bh (jhs w' new_jh) = bh_next w" "b_blocknr (bhs w' (bh_next w)) = blocknr"
    "b_bdev (bhs w' (bh_next w)) = Some (j_dev (jnl w))"
    "b_data (bhs w' (bh_next w)) = (if get_be32 (logged_data w jh) 0 = JBD2_MAGIC_NUMBER
       then put_be32 0 0 (logged_data w jh) else logged_data w jh)"
    "flags mod 2 = 1 \<longleftrightarrow> get_be32 (logged_data w jh) 0 = JBD2_MAGIC_NUMBER"
proof -
  obtain w1 where w1: "new_copy w = Some (w1, bh_next w, jh_next w)" "jnl w1 = jnl w"
      "b_bh (jhs w1 (jh_next w)) = bh_next w" "jhs w1 jh = jhs w jh"
      "bhs w1 (b_bh (jhs w jh)) = bhs w (b_bh (jhs w jh))"
    using new_copy_ok [of w] fresh by auto
  let ?esc = "get_be32 (logged_data w jh) 0 = JBD2_MAGIC_NUMBER"
  let ?data = "if ?esc then put_be32 0 0 (logged_data w jh) else logged_data w jh"
  let ?w2 = "fill_copy (bh_next w) (jh_next w) blocknr ?data
    (if ?esc then upd_jh jh (\<lambda>h. h\<lparr>b_frozen_data := Some ?data\<rparr>) w1 else w1)"
  have "(\<exists>w3. u_jbdbf_journal_file_buffer ?w2 jh t BJ_Shadow = Some w3 \<and>
      jbdbf_journal_file_buffer w3 (jh_next w) t BJ_IO = Some w') \<and> new_jh = jh_next w \<and> (flags mod 2 = 1 \<longleftrightarrow> ?esc)"
    using r w1 by (cases "b_frozen_data (jhs w jh)")
      (auto simp: jbdbf_journal_write_metadata_buffer_def logged_data_def Let_def split: Option.bind_splits if_splits)
  then have fr: "frame ?w2 w'" and nj: "new_jh = jh_next w" "flags mod 2 = 1 \<longleftrightarrow> ?esc"
    by (blast intro: frame_trans [OF file_frame jbd_file_frame])+
  have "b_bh (jhs ?w2 (jh_next w)) = bh_next w" "b_data (bhs ?w2 (bh_next w)) = ?data"
      "b_blocknr (bhs ?w2 (bh_next w)) = blocknr" "b_bdev (bhs ?w2 (bh_next w)) = Some (j_dev (jnl w))"
    using w1 fresh by (simp_all add: fill_copy_def)
  then show "b_bh (jhs w' new_jh) = bh_next w" "b_blocknr (bhs w' (bh_next w)) = blocknr"
    "b_bdev (bhs w' (bh_next w)) = Some (j_dev (jnl w))" "b_data (bhs w' (bh_next w)) = ?data" "flags mod 2 = 1 \<longleftrightarrow> ?esc"
    using frame_bh [OF fr, of "bh_next w"] frame_sel(1) [OF fr, of "jh_next w"] nj by simp_all
qed

text \<open>
  C14: the copy of a metadata block that goes to the log never starts with the magic number of a
  control block, and replaying it under the flags that the commit records for it in its tag gives
  the contents that were to be logged (the frozen copy, if the buffer has one).  The copy is a
  buffer of its own for the given log block.
\<close>

theorem metadata_copy_replays:
  assumes "jbdbf_journal_write_metadata_buffer k w t jh blocknr = Some (w', Inr (new_jh, flags))"
    and "b_bh (jhs w jh) \<noteq> bh_next w" "jh \<noteq> jh_next w"
    and "length (logged_data w jh) = j_blocksize (jnl w)" "4 \<le> j_blocksize (jnl w)"
  shows "let b = bhs w' (b_bh (jhs w' new_jh)) in
    b_blocknr b = blocknr \<and> b_bdev b = Some (j_dev (jnl w)) \<and> get_be32 (b_data b) 0 \<noteq> JBD2_MAGIC_NUMBER \<and>
    unescape (j_blocksize (jnl w)) (lt_flags (req_tag first (flags, block, csum, ty))) (b_data b) = logged_data w jh"
proof -
  note c = write_metadata_copy [OF assms(1,2,3)]
  have "lt_flags (req_tag first (flags, block, csum, ty)) AND JBD2_FLAG_ESCAPE \<noteq> 0 \<longleftrightarrow>
      get_be32 (logged_data w jh) 0 = JBD2_MAGIC_NUMBER"
    using c(5) req_tag_escape by metis
  note u = unescape_escape [OF assms(4,5) this]
  have "get_be32 (put_be32 0 0 (logged_data w jh)) 0 = 0"
    using assms(4,5) by (simp add: layout_simps)
  moreover have "JBD2_MAGIC_NUMBER \<noteq> 0" by (simp add: JBD2_MAGIC_NUMBER_def)
  ultimately show ?thesis
    using c(1-4) u by (auto simp: Let_def simp del: req_tag.simps)
qed

definition ex_copy_world :: world where
  "ex_copy_world = zero_world\<lparr>jnl := zero_journal\<lparr>j_blocksize := 8, j_dev := 4\<rparr>,
     trs := (\<lambda>_. zero_transaction)(2 := zero_transaction\<lparr>t_buffers := [5], t_nr_buffers := 1\<rparr>),
     jhs := (\<lambda>_. zero_jh)(5 := zero_jh\<lparr>b_bh := 3, b_jcount := 1, b_transaction := Some 2, b_jlist := BJ_Metadata\<rparr>),
     bhs := (\<lambda>_. zero_bh)(3 := zero_bh\<lparr>b_data := [0xc0, 0x3b, 0x39, 0x98, 1, 2, 3, 4], b_count := 1, bh_jbd := True,
       b_private := Some 5, bh_jbddirty := True, b_bdev := Some 4, b_blocknr := 77\<rparr>),
     bh_next := 10, jh_next := 20\<rparr>"

lemma ex_copy_result:
  "\<exists>w'. jbdbf_journal_write_metadata_buffer quiet_kernel ex_copy_world 2 5 33 = Some (w', Inr (20, 3))"
proof -
  have "(case jbdbf_journal_write_metadata_buffer quiet_kernel ex_copy_world 2 5 33 of
      Some (_, Inr (jh, flags)) \<Rightarrow> jh = 20 \<and> flags = 3 | _ \<Rightarrow> False)"
    by code_simp
  then show ?thesis by (auto split: option.splits sum.splits prod.splits) (metis sum.exhaust surj_pair)
qed

theorem metadata_copy_replays_witness:
  "\<exists>w'. jbdbf_journal_write_metadata_buffer quiet_kernel ex_copy_world 2 5 33 = Some (w', Inr (20, 3)) \<and>
    (let b = bhs w' (b_bh (jhs w' 20)) in
     b_blocknr b = 33 \<and> b_bdev b = Some 4 \<and> get_be32 (b_data b) 0 \<noteq> JBD2_MAGIC_NUMBER \<and>
     unescape 8 (lt_flags (req_tag True (3, 77, 0, 0))) (b_data b) = [0xc0, 0x3b, 0x39, 0x98, 1, 2, 3, 4])"
proof -
  obtain w' where w': "jbdbf_journal_write_metadata_buffer quiet_kernel ex_copy_world 2 5 33 = Some (w', Inr (20, 3))"
    using ex_copy_result by blast
  have ld: "logged_data ex_copy_world 5 = [0xc0, 0x3b, 0x39, 0x98, 1, 2, 3, 4]"
    by (simp add: logged_data_def ex_copy_world_def zero_defs)
  have j: "j_blocksize (jnl ex_copy_world) = 8" "j_dev (jnl ex_copy_world) = 4" "bh_next ex_copy_world = 10"
      "jh_next ex_copy_world = 20" "b_bh (jhs ex_copy_world 5) = 3"
    by (simp_all add: ex_copy_world_def)
  show ?thesis
    using w' metadata_copy_replays [OF w', of True 77 0 0] unfolding ld j by auto
qed

section \<open>Revoke blocks\<close>

definition rec_at :: "bytes \<Rightarrow> nat \<Rightarrow> nat \<Rightarrow> u64" where
  "rec_at b len p = (if len = 4 then ucast (get_be32 b p) else get_be64 b p)"

lemma records_from_list:
  assumes "0 < len" "\<forall>i < length xs. rec_at b len (p + i * len) = xs ! i"
  shows "records_from b len (int (p + length xs * len)) p = xs"
  using assms(2)
proof (induction xs arbitrary: p)
  case Nil
  then show ?case using assms(1) by (subst records_from.simps) simp
next
  case (Cons x xs)
  have x: "rec_at b len p = x" using Cons.prems by fastforce
  have "\<forall>i < length xs. rec_at b len (p + len + i * len) = xs ! i"
  proof (intro allI impI)
    fix i assume "i < length xs"
    then show "rec_at b len (p + len + i * len) = xs ! i"
      using Cons.prems [THEN spec, of "Suc i"] by (simp add: add.assoc)
  qed
  note IH = Cons.IH [OF this]
  have c: "int (p + len) \<le> int (p + length (x # xs) * len) \<and> len > 0" using assms(1) by simp
  have "records_from b len (int (p + length (x # xs) * len)) p =
      rec_at b len p # records_from b len (int (p + length (x # xs) * len)) (p + len)"
    by (simp only: records_from.simps [of b len _ p] if_P [OF c] rec_at_def)
  also have "p + length (x # xs) * len = p + len + length xs * len" by simp
  finally show ?case using IH x by (simp add: add.assoc)
qed

definition put_rec :: "nat \<Rightarrow> nat \<Rightarrow> u64 \<Rightarrow> bytes \<Rightarrow> bytes" where
  "put_rec len off x b = (if len = 8 then put_be64 off x b else put_be32 off (ucast x) b)"

lemma rec_at_put_same:
  assumes "len = 8 \<or> len = 4 \<and> unat x < 2 ^ 32" "off + len \<le> length b"
  shows "rec_at (put_rec len off x b) len off = x"
proof -
  have "len = 4 \<Longrightarrow> ucast (ucast x :: u32) = x"
    using assms(1) by (simp add: word_unat_eq_iff unsigned_ucast_eq unsigned_take_bit_eq take_bit_nat_eq_self)
  then show ?thesis using assms by (auto simp: rec_at_def put_rec_def layout_simps)
qed

lemma put_rec_agree: "n \<le> off \<Longrightarrow> agree n (put_rec len off x b) b"
  by (simp add: put_rec_def)

lemma length_put_rec [simp]: "length (put_rec len off x b) = length b"
  by (simp add: put_rec_def)

lemma rec_at_agree: "agree n b b' \<Longrightarrow> len = 8 \<or> len = 4 \<Longrightarrow> p + len \<le> n \<Longrightarrow> rec_at b len p = rec_at b' len p"
  by (auto simp: rec_at_def get_be32_agree get_be64_agree)

lemma rec_at_count:
  "sizeof_revoke_header \<le> p \<Longrightarrow> rec_at (put_be32 12 c b) len p = rec_at b len p"
  by (simp add: rec_at_def size_defs layout_simps)

text \<open>The blocks written so far stand one after the other behind the header.\<close>

definition recorded :: "nat \<Rightarrow> bytes \<Rightarrow> u64 list \<Rightarrow> bool" where
  "recorded len b xs = (\<forall>i < length xs. rec_at b len (sizeof_revoke_header + i * len) = xs ! i)"

lemma recorded_snoc:
  assumes "recorded len b xs" "len = 8 \<or> len = 4 \<and> unat x < 2 ^ 32"
    "sizeof_revoke_header + length xs * len + len \<le> length b"
  shows "recorded len (put_rec len (sizeof_revoke_header + length xs * len) x b) (xs @ [x])"
proof -
  let ?p = "sizeof_revoke_header + length xs * len"
  have "rec_at (put_rec len ?p x b) len (sizeof_revoke_header + i * len) = xs ! i" if "i < length xs" for i
  proof -
    have "Suc i * len \<le> length xs * len" using that by (intro mult_le_mono1) simp
    then have "sizeof_revoke_header + i * len + len \<le> ?p" by simp
    then show ?thesis
      using assms(1,2) that rec_at_agree [OF put_rec_agree [of ?p ?p len x b]] by (auto simp: recorded_def)
  qed
  then show ?thesis
    using rec_at_put_same [OF assms(2,3)] by (auto simp: recorded_def nth_append less_Suc_eq)
qed

lemma write_revoke_list_records:
  assumes "b_bh (jhs w d) = bh" "length (b_data (bhs w bh)) = j_blocksize (jnl w)" "\<not> is_journal_aborted (jnl w)"
    "len = revoke_record_len (jnl w)" "off = sizeof_revoke_header + length xs * len"
    "off + len * length rs \<le> j_blocksize (jnl w)" "recorded len (b_data (bhs w bh)) xs"
    "len = 8 \<or> (\<forall>r \<in> set rs. unat (rr_blocknr r) < 2 ^ 32)"
  shows "\<exists>b'. write_revoke_list k t rs (w, Some d, off) =
      Some (upd_bh bh (\<lambda>b. b\<lparr>b_data := b'\<rparr>) w, Some d, off + len * length rs) \<and>
    length b' = j_blocksize (jnl w) \<and> recorded len b' (xs @ map rr_blocknr rs) \<and> agree 12 b' (b_data (bhs w bh))"
  using assms
proof (induction rs arbitrary: w off xs)
  case Nil
  have "upd_bh bh (\<lambda>b. b\<lparr>b_data := b_data (bhs w bh)\<rparr>) w = w" by (simp add: upd_bh_def)
  with Nil show ?case by (intro exI [of _ "b_data (bhs w bh)"]) simp
next
  case (Cons r rs)
  have len: "len = 8 \<or> len = 4" using Cons.prems(4) by (simp add: revoke_record_len_def split: if_splits)
  let ?b = "put_rec len off (rr_blocknr r) (b_data (bhs w bh))"
  let ?w = "upd_bh bh (\<lambda>b. b\<lparr>b_data := ?b\<rparr>) w"
  have one: "write_one_revoke_record k t r (w, Some d, off) = Some (?w, Some d, off + len)"
    using Cons.prems len
    by (auto simp: write_one_revoke_record_def put_record_def put_rec_def Let_def upd_bh_def fun_upd_def)
  have rec: "recorded len ?b (xs @ [rr_blocknr r])"
    using recorded_snoc [OF Cons.prems(7), of "rr_blocknr r"] Cons.prems(2,5,6,8) len by auto
  have agr: "agree 12 ?b (b_data (bhs w bh))"
    by (rule put_rec_agree) (simp add: Cons.prems(5) size_defs)
  have "off + len = sizeof_revoke_header + length (xs @ [rr_blocknr r]) * len" using Cons.prems(5) by simp
  then obtain b' where b': "write_revoke_list k t rs (?w, Some d, off + len) =
      Some (upd_bh bh (\<lambda>b. b\<lparr>b_data := b'\<rparr>) ?w, Some d, off + len + len * length rs)"
      "length b' = j_blocksize (jnl w)" "recorded len b' ((xs @ [rr_blocknr r]) @ map rr_blocknr rs)" "agree 12 b' ?b"
    using Cons.IH [of ?w "off + len" "xs @ [rr_blocknr r]"] Cons.prems rec by auto
  moreover have "upd_bh bh (\<lambda>b. b\<lparr>b_data := b'\<rparr>) ?w = upd_bh bh (\<lambda>b. b\<lparr>b_data := b'\<rparr>) w"
    by (simp add: upd_bh_def)
  ultimately show ?case using one agree_trans [OF b'(4) agr] by (auto simp: algebra_simps)
qed

text \<open>
  C15: revoke records written into a revoke block and flushed are submitted to the log as one block
  which recovery scans without reading outside of it, and in which it finds exactly these records,
  in the order in which they were written.
\<close>

theorem revoke_block_roundtrip:
  assumes d: "b_bh (jhs w d) = bh" "length (b_data (bhs w bh)) = j_blocksize (jnl w)" "b_bdev (bhs w bh) = Some dv"
      "\<not> bh_lock (bhs w bh)"
    and j: "\<not> is_journal_aborted (jnl w)" "j_blocksize (jnl w) < 2 ^ 31"
    and fit: "sizeof_revoke_header + revoke_record_len (jnl w) * length rs \<le> j_blocksize (jnl w)"
      "revoke_record_len (jnl w) = 8 \<or> (\<forall>r \<in> set rs. unat (rr_blocknr r) < 2 ^ 32)"
  shows "\<exists>w1 off data. write_revoke_list k t rs (w, Some d, sizeof_revoke_header) = Some (w1, Some d, off) \<and>
    iolog (flush_descriptor k w1 d off) = iolog w @ [SubmitWrite dv (b_blocknr (bhs w bh)) data False] \<and>
    agree 12 data (b_data (bhs w bh)) \<and> sint (get_be32 data 12) \<le> int (length data) \<and>
    revoke_list (jnl w) data = map rr_blocknr rs"
proof -
  let ?len = "revoke_record_len (jnl w)"
  have "recorded ?len (b_data (bhs w bh)) []" by (simp add: recorded_def)
  then obtain b' where b': "write_revoke_list k t rs (w, Some d, sizeof_revoke_header) =
      Some (upd_bh bh (\<lambda>b. b\<lparr>b_data := b'\<rparr>) w, Some d, sizeof_revoke_header + ?len * length rs)"
      "length b' = j_blocksize (jnl w)" "recorded ?len b' (map rr_blocknr rs)" "agree 12 b' (b_data (bhs w bh))"
    using write_revoke_list_records [OF d(1,2) j(1) refl, of sizeof_revoke_header "[]" rs k t] fit by auto
  define off where "off = sizeof_revoke_header + ?len * length rs"
  define data where "data = put_be32 12 (of_nat off) b'"
  have "off < 2 ^ 31" using fit(1) j(2) by (simp add: off_def)
  then have so: "sint (of_nat off :: u32) = int off"
    by (simp add: signed_of_nat signed_take_bit_int_eq_self)
  have "12 + 4 \<le> length b'" using fit(1) b'(2) by (simp add: size_defs)
  then have cnt: "get_be32 data 12 = of_nat off" by (simp add: data_def layout_simps)
  have "0 < ?len" by (simp add: revoke_record_len_def)
  moreover have "rec_at data ?len (sizeof_revoke_header + i * ?len) = map rr_blocknr rs ! i" if "i < length rs" for i
    using b'(3) that by (simp add: data_def rec_at_count recorded_def)
  moreover have "int off = int (sizeof_revoke_header + length (map rr_blocknr rs) * ?len)"
    by (simp add: off_def mult.commute)
  ultimately have "revoke_list (jnl w) data = map rr_blocknr rs"
    using records_from_list [of ?len "map rr_blocknr rs" data sizeof_revoke_header]
    unfolding revoke_list_def cnt so by simp
  moreover have "iolog (flush_descriptor k (upd_bh bh (\<lambda>b. b\<lparr>b_data := b'\<rparr>) w) d off) =
      iolog w @ [SubmitWrite dv (b_blocknr (bhs w bh)) data False]"
    using d j(1) by (simp add: flush_descriptor_def write_dirty_buffer_def wait_on_buffer_def submit_bh_write_def
        Let_def data_def)
  moreover have "off \<le> length data" using fit(1) b'(2) by (simp add: data_def off_def)
  then have "sint (get_be32 data 12) \<le> int (length data)" unfolding cnt so by simp
  moreover have "agree 12 data (b_data (bhs w bh))" using b'(4) by (simp add: data_def)
  ultimately show ?thesis using b'(1) unfolding off_def by blast
qed

definition ex_revoke_world :: world where
  "ex_revoke_world = zero_world\<lparr>jnl := zero_journal\<lparr>j_blocksize := 32\<rparr>,
     jhs := (\<lambda>_. zero_jh)(5 := zero_jh\<lparr>b_bh := 3\<rparr>),
     bhs := (\<lambda>_. zero_bh)(3 := zero_bh\<lparr>b_data := replicate 32 0, b_bdev := Some 4, b_blocknr := 77\<rparr>)\<rparr>"

theorem revoke_block_roundtrip_witness:
  "\<exists>w1 off data. write_revoke_list quiet_kernel 2
      [\<lparr>rr_sequence = 1, rr_blocknr = 1000\<rparr>, \<lparr>rr_sequence = 1, rr_blocknr = 7\<rparr>]
      (ex_revoke_world, Some 5, sizeof_revoke_header) = Some (w1, Some 5, off) \<and>
    iolog (flush_descriptor quiet_kernel w1 5 off) = [] @ [SubmitWrite 4 77 data False] \<and>
    agree 12 data (replicate 32 0) \<and> sint (get_be32 data 12) \<le> int (length data) \<and>
    revoke_list (jnl ex_revoke_world) data = [1000, 7]"
  using revoke_block_roundtrip [of ex_revoke_world 5 3 4 "[\<lparr>rr_sequence = 1, rr_blocknr = 1000\<rparr>, \<lparr>rr_sequence = 1, rr_blocknr = 7\<rparr>]"
      quiet_kernel 2]
  by (simp add: ex_revoke_world_def zero_defs is_journal_aborted_def revoke_record_len_def JBD2_HAS_INCOMPAT_FEATURE_def
      size_defs)

section \<open>Data tags that leave no room for a metadata tag\<close>

lemma writing_upd_tr [simp]: "writing (s\<lparr>c_world := upd_tr t f (c_world s)\<rparr>) ts = writing s ts"
  by (simp add: writing_def)

lemma set_flags_same: "c_flags s = f \<Longrightarrow> s\<lparr>c_flags := f\<rparr> = s"
  by (cases s) simp

lemma put_data_tags_fit:
  assumes "writing s ts" "ts \<noteq> []" "c_flags s = f"
    "c_space_left s + int (c_tagp s) = int (j_blocksize (jnl (c_world s)))"
    "c_tagp s + JBD2_TAG_SIZE64 * length es + 16 \<le> j_blocksize (jnl (c_world s))"
  shows "\<exists>s' ts'. put_data_tags t es s = Some (s', True) \<and> writing s' ts' \<and> ts' \<noteq> [] \<and>
    c_tagp s' = c_tagp s + JBD2_TAG_SIZE64 * length es \<and> jnl (c_world s') = jnl (c_world s)"
  using assms
proof (induction es arbitrary: s ts)
  case Nil
  then show ?case by auto
next
  case (Cons e es)
  have room: "tag_room s" using Cons.prems(4,5) by (simp add: tag_room_def journal_tag_bytes_def)
  obtain s1 where s1: "put_tag (dt_blocknr e) (crc32_data_sum e) T_BLOCKTYPE_NEWLYAPPENDEDDATA s = Some s1"
      "writing s1 (ts @ [req_tag False (f, dt_blocknr e, crc32_data_sum e, T_BLOCKTYPE_NEWLYAPPENDEDDATA)])"
      "jnl (c_world s1) = jnl (c_world s)" "c_tagp s1 = c_tagp s + JBD2_TAG_SIZE64"
      "c_space_left s1 + int (c_tagp s1) = c_space_left s + int (c_tagp s)" "c_flags s1 = f"
    using put_tag_writing [OF Cons.prems(1), of "dt_blocknr e" "crc32_data_sum e" T_BLOCKTYPE_NEWLYAPPENDEDDATA f]
      Cons.prems(2,3,5) by (auto simp: set_flags_same tag_step_def)
  let ?s = "s1\<lparr>c_world := upd_tr t (\<lambda>tr. tr\<lparr>t_data_tag_list := es\<rparr>) (c_world s1)\<rparr>"
  have "\<exists>s' ts'. put_data_tags t es ?s = Some (s', True) \<and> writing s' ts' \<and> ts' \<noteq> [] \<and>
      c_tagp s' = c_tagp ?s + JBD2_TAG_SIZE64 * length es \<and> jnl (c_world s') = jnl (c_world ?s)"
    by (rule Cons.IH [of _ "ts @ [req_tag False (f, dt_blocknr e, crc32_data_sum e, T_BLOCKTYPE_NEWLYAPPENDEDDATA)]"])
      (use s1 Cons.prems in auto)
  then show ?case using s1 room by auto
qed

text \<open>
  C16: with 2 KiB blocks, 38 data tags fit into a descriptor block by the test the commit makes
  before each of them, and the metadata tag that follows without such a test does not: it would be
  written past the end of the block.
\<close>

theorem data_tags_leave_no_room:
  assumes "length (desc_data s) = 2048" "j_blocksize (jnl (c_world s)) = 2048" "length (j_uuid (jnl (c_world s))) = 16"
    "c_tagp s = sizeof_header" "c_first_tag s" "c_space_left s = 2048 - int sizeof_header" "c_flags s = f"
    "length es = 38"
  shows "\<exists>s'. put_data_tags t es s = Some (s', True) \<and> put_tag block csum ty s' = None"
proof -
  obtain e es' where es: "es = e # es'" using assms(8) by (cases es) auto
  have wr: "writing s []" using assms by (simp add: writing_def size_defs)
  have room: "tag_room s" using assms by (simp add: tag_room_def journal_tag_bytes_def size_defs)
  obtain s1 where s1: "put_tag (dt_blocknr e) (crc32_data_sum e) T_BLOCKTYPE_NEWLYAPPENDEDDATA s = Some s1"
      "writing s1 [req_tag True (f, dt_blocknr e, crc32_data_sum e, T_BLOCKTYPE_NEWLYAPPENDEDDATA)]"
      "jnl (c_world s1) = jnl (c_world s)" "c_tagp s1 = sizeof_header + JBD2_TAG_SIZE64 + 16"
      "c_space_left s1 + int (c_tagp s1) = 2048" "c_flags s1 = f"
    using put_tag_writing [OF wr, of "dt_blocknr e" "crc32_data_sum e" T_BLOCKTYPE_NEWLYAPPENDEDDATA f] assms
    by (auto simp: set_flags_same tag_step_def size_defs)
  let ?s = "s1\<lparr>c_world := upd_tr t (\<lambda>tr. tr\<lparr>t_data_tag_list := es'\<rparr>) (c_world s1)\<rparr>"
  have "\<exists>s' ts'. put_data_tags t es' ?s = Some (s', True) \<and> writing s' ts' \<and> ts' \<noteq> [] \<and>
      c_tagp s' = c_tagp ?s + JBD2_TAG_SIZE64 * length es' \<and> jnl (c_world s') = jnl (c_world ?s)"
    by (rule put_data_tags_fit [of _ "[req_tag True (f, dt_blocknr e, crc32_data_sum e, T_BLOCKTYPE_NEWLYAPPENDEDDATA)]"])
      (use s1 assms es in \<open>auto simp: size_defs\<close>)
  then obtain s' ts' where s': "put_data_tags t es s = Some (s', True)" "writing s' ts'" "ts' \<noteq> []"
      "c_tagp s' = 2004" "jnl (c_world s') = jnl (c_world s)"
    using s1 room es assms(8) by (auto simp: size_defs)
  then have "put_tag block csum ty s' = None"
    using assms(2) by (auto simp: put_tag_def writing_def Let_def journal_tag_bytes_def size_defs split: Option.bind_splits)
  with s' show ?thesis by blast
qed

theorem data_tags_leave_no_room_witness:
  "\<exists>s'. put_data_tags 2 (replicate 38 \<lparr>dt_blocknr = 9, crc32_data_sum = 1\<rparr>)
      (ex_desc_state\<lparr>c_world := zero_world\<lparr>jnl := zero_journal\<lparr>j_blocksize := 2048, j_uuid := replicate 16 7\<rparr>,
         bhs := (\<lambda>_. zero_bh\<lparr>b_data := replicate 2048 0\<rparr>)\<rparr>, c_space_left := 2036, c_flags := 0\<rparr>) =
      Some (s', True) \<and> put_tag 3 0 0 s' = None"
  by (rule data_tags_leave_no_room) (simp_all add: ex_desc_state_def zero_defs size_defs)

end
