(* ===== verification/Access_Correct.thy ===== *)
theory Access_Correct
  imports Log_Encoding Buffer_Lists
begin

text \<open>
  Buffers in the running transaction: the revoke bits of buffers agree with the revoke table, the
  data of a committing transaction survives write access, credits are charged once, and what
  becomes of a data block that is written twice.
\<close>

section \<open>Revoke bits\<close>

lemma forget_frame: "jbdbf_journal_forget w h bh = Some (w', err) \<Longrightarrow> frame w w'"
  by (auto simp: jbdbf_journal_forget_def u_bforget_def Let_def
      split: if_splits option.splits Option.bind_splits dest!: temp_unlink_frame file_frame unfile_frame intro: frame_trans)

text \<open>
  The revoke table of the running transaction is well-formed, and the revoked bit of a buffer of the
  file system, where it is valid, says whether the table has a record of the block.  Each block
  has at most one buffer, the one the buffer cache finds.
\<close>

definition fs_buffer :: "world \<Rightarrow> bptr \<Rightarrow> bool" where
  "fs_buffer w bh = (b_bdev (bhs w bh) = Some (j_fs_dev (jnl w)))"

definition revoke_sync :: "world \<Rightarrow> revoke_table \<Rightarrow> bool" where
  "revoke_sync w table = (cur_revoke (jnl w) = Some table \<and> table_wf table \<and>
     (\<forall>bh. fs_buffer w bh \<and> bh_revokevalid (bhs w bh) \<longrightarrow>
        (bh_revoked (bhs w bh) \<longleftrightarrow> table_find table (b_blocknr (bhs w bh)) \<noteq> None)))"

definition one_buffer :: "world \<Rightarrow> bool" where
  "one_buffer w = ((\<forall>bh bh'. fs_buffer w bh \<and> fs_buffer w bh' \<and> b_blocknr (bhs w bh) = b_blocknr (bhs w bh') \<longrightarrow> bh = bh') \<and>
     (\<forall>blocknr bh. bcache w (j_fs_dev (jnl w)) blocknr = Some bh \<longrightarrow> fs_buffer w bh \<and> b_blocknr (bhs w bh) = blocknr) \<and>
     (\<forall>bh. fs_buffer w bh \<longrightarrow> bcache w (j_fs_dev (jnl w)) (b_blocknr (bhs w bh)) = Some bh))"

lemma cur_revoke_replace [simp]:
  "cur_revoke j = Some t \<Longrightarrow> cur_revoke (set_cur_revoke t' j) = Some t'"
  "j_fs_dev (set_cur_revoke t' j) = j_fs_dev j"
  by (auto simp: cur_revoke_def set_cur_revoke_def split: option.splits Option.bind_splits)

lemma same_count [simp]:
  "\<exists>c. b\<lparr>bh_revokevalid := v, bh_revoked := r\<rparr> = b\<lparr>bh_revokevalid := v, bh_revoked := r, b_count := c\<rparr>"
  by (rule exI [of _ "b_count b"]) simp

lemma cancel_revoke_ok:
  assumes sync: "revoke_sync w table" and one: "one_buffer w" and bh: "b_bh (jhs w jh) = bh" "fs_buffer w bh"
  shows "\<exists>w' r c. jbdbf_journal_cancel_revoke w jh = Some (w', r) \<and>
    bhs w' = (bhs w)(bh := (bhs w bh)\<lparr>bh_revokevalid := True, bh_revoked := False, b_count := c\<rparr>) \<and>
    jhs w' = jhs w \<and> trs w' = trs w \<and> hds w' = hds w \<and> bcache w' = bcache w \<and> iolog w' = iolog w \<and>
    (jnl w' = jnl w \<and> table_find table (b_blocknr (bhs w bh)) = None \<or>
     jnl w' = set_cur_revoke (table_delete table (b_blocknr (bhs w bh))) (jnl w))"
proof -
  let ?blk = "b_blocknr (bhs w bh)"
  have cur: "cur_revoke (jnl w) = Some table" "table_wf table" using sync by (auto simp: revoke_sync_def)
  have dev: "b_bdev (bhs w bh) = Some (j_fs_dev (jnl w))" using bh by (simp add: fs_buffer_def)
  have cached: "bcache w (j_fs_dev (jnl w)) ?blk = Some bh" using one bh(2) by (simp add: one_buffer_def)
  have bits: "bh_revokevalid (bhs w bh) \<Longrightarrow> bh_revoked (bhs w bh) \<longleftrightarrow> table_find table ?blk \<noteq> None"
    using sync bh(2) by (simp add: revoke_sync_def)
  show ?thesis
  proof (cases "table_find table ?blk")
    case None
    then show ?thesis
      using cur bits dev cached bh(1)
      by (auto simp: jbdbf_journal_cancel_revoke_def find_revoke_record_def u_find_get_block_def get_bh_def u_brelse_def
          Let_def fun_eq_iff)
  next
    case (Some r)
    have "table_find (table_delete table ?blk) ?blk = None" using cur(2) by (simp add: table_find_delete)
    then show ?thesis
      using Some cur bits dev cached bh(1)
      by (auto simp: jbdbf_journal_cancel_revoke_def find_revoke_record_def u_find_get_block_def get_bh_def u_brelse_def
          Let_def fun_eq_iff)
  qed
qed

text \<open>Steps that leave the revoke state alone.\<close>

definition revoke_frame :: "world \<Rightarrow> world \<Rightarrow> bool" where
  "revoke_frame w w' = ((\<forall>bh. b_bdev (bhs w' bh) = b_bdev (bhs w bh) \<and> b_blocknr (bhs w' bh) = b_blocknr (bhs w bh) \<and>
       bh_revoked (bhs w' bh) = bh_revoked (bhs w bh) \<and> bh_revokevalid (bhs w' bh) = bh_revokevalid (bhs w bh)) \<and>
     bcache w' = bcache w \<and> cur_revoke (jnl w') = cur_revoke (jnl w) \<and> j_fs_dev (jnl w') = j_fs_dev (jnl w))"

lemma frame_revoke_frame: "frame w w' \<Longrightarrow> revoke_frame w w'"
  by (simp add: revoke_frame_def frame_bh frame_sel)

lemma revoke_frame_trans: "revoke_frame w w' \<Longrightarrow> revoke_frame w' w'' \<Longrightarrow> revoke_frame w w''"
  by (simp add: revoke_frame_def)

lemma revoke_frame_sync:
  assumes "revoke_frame w w'"
  shows "revoke_sync w' table = revoke_sync w table" "one_buffer w' = one_buffer w"
  using assms by (simp_all add: revoke_frame_def revoke_sync_def one_buffer_def fs_buffer_def)

lemma revoke_frame_refs [simp]:
  "revoke_frame w (get_bh bh w)" "revoke_frame w (u_brelse bh w)" "revoke_frame w (put_bh bh w)"
  by (auto simp: revoke_frame_def get_bh_def u_brelse_def put_bh_def)

lemma find_get_block_revoke_frame: "u_find_get_block d blk w = (w', r) \<Longrightarrow> revoke_frame w w' \<and> r = bcache w d blk"
  by (auto simp: u_find_get_block_def split: option.splits) (simp add: revoke_frame_def)

lemma get_superblock_same:
  "journal_get_superblock k j = Some (j', err) \<Longrightarrow> cur_revoke j' = cur_revoke j \<and> j_fs_dev j' = j_fs_dev j"
  by (cases "read_superblock k j")
    (auto simp: journal_get_superblock_def journal_fail_superblock_def read_superblock_def cur_revoke_def Let_def
      split: if_splits option.splits)

lemma set_features_same:
  assumes "jbdbf_journal_set_features k j a b c = Some (j', ok)"
  shows "cur_revoke j' = cur_revoke j \<and> j_fs_dev j' = j_fs_dev j"
proof -
  obtain j1 used where u: "jbdbf_journal_check_used_features k j a b c = Some (j1, used)"
      and j': "cur_revoke j' = cur_revoke j1 \<and> j_fs_dev j' = j_fs_dev j1"
    using assms by (auto simp: jbdbf_journal_set_features_def cur_revoke_def split: Option.bind_splits if_splits)
  have "cur_revoke j1 = cur_revoke j \<and> j_fs_dev j1 = j_fs_dev j"
    using u by (auto simp: jbdbf_journal_check_used_features_def split: if_splits Option.bind_splits dest: get_superblock_same)
  with j' show ?thesis by simp
qed

lemma one_buffer_cong:
  assumes "\<And>bh. b_bdev (bhs w' bh) = b_bdev (bhs w bh)" "\<And>bh. b_blocknr (bhs w' bh) = b_blocknr (bhs w bh)"
    "bcache w' = bcache w" "j_fs_dev (jnl w') = j_fs_dev (jnl w)"
  shows "one_buffer w' = one_buffer w"
  by (simp add: one_buffer_def fs_buffer_def assms)

lemma one_bufferD:
  "one_buffer w \<Longrightarrow> fs_buffer w bh \<Longrightarrow> fs_buffer w bh' \<Longrightarrow> b_blocknr (bhs w bh) = b_blocknr (bhs w bh') \<Longrightarrow> bh = bh'"
  "one_buffer w \<Longrightarrow> bcache w (j_fs_dev (jnl w)) blocknr = Some bh \<Longrightarrow> fs_buffer w bh \<and> b_blocknr (bhs w bh) = blocknr"
  "one_buffer w \<Longrightarrow> fs_buffer w bh \<Longrightarrow> bcache w (j_fs_dev (jnl w)) (b_blocknr (bhs w bh)) = Some bh"
  unfolding one_buffer_def by blast+

text \<open>Recording a block and marking the buffer it has, if it has one.\<close>

lemma sync_record:
  assumes sync: "revoke_sync w table" and one: "one_buffer w" and new: "table_find table blk = None"
    and w': "w' = w\<lparr>jnl := set_cur_revoke (table_insert table blk seq) (jnl w)\<rparr>"
    and other: "bcache w (j_fs_dev (jnl w)) blk = None"
  shows "revoke_sync w' (table_insert table blk seq)"
proof -
  have "b_blocknr (bhs w bh) \<noteq> blk" if "fs_buffer w bh" for bh
    using one_bufferD(3) [OF one that] other by auto
  then show ?thesis
    using sync new by (auto simp: revoke_sync_def w' fs_buffer_def table_wf_insert table_find_insert)
qed

lemma sync_record_buffer:
  assumes sync: "revoke_sync w table" and one: "one_buffer w" and new: "table_find table blk = None"
    and bh: "bcache w (j_fs_dev (jnl w)) blk = Some bh"
    and w': "revoke_frame (upd_bh bh (\<lambda>b. b\<lparr>bh_revoked := True, bh_revokevalid := True\<rparr>) w) w1"
    and j: "w' = w1\<lparr>jnl := set_cur_revoke (table_insert table blk seq) (jnl w1)\<rparr>"
  shows "revoke_sync w' (table_insert table blk seq) \<and> one_buffer w'"
proof -
  let ?w0 = "upd_bh bh (\<lambda>b. b\<lparr>bh_revoked := True, bh_revokevalid := True\<rparr>) w"
  have bh': "fs_buffer w bh" "b_blocknr (bhs w bh) = blk" using one_bufferD(2) [OF one bh] by auto
  have other: "b_blocknr (bhs w b) \<noteq> blk" if "fs_buffer w b" "b \<noteq> bh" for b
    using one_bufferD(1) [OF one that(1) bh'(1)] bh'(2) that(2) by auto
  have cur: "cur_revoke (jnl w1) = Some table" using w' sync by (simp add: revoke_frame_def revoke_sync_def)
  have "one_buffer w'"
    using one by (subst one_buffer_cong [of w' w]) (use w' in \<open>auto simp: revoke_frame_def j upd_bh_def\<close>)
  moreover have "revoke_sync w' (table_insert table blk seq)"
    using sync w' other bh' new cur
    by (auto simp: revoke_sync_def j fs_buffer_def revoke_frame_def table_wf_insert table_find_insert upd_bh_def)
  ultimately show ?thesis by simp
qed

lemma revoke_body_uncached:
  assumes "revoke_body w h t blk None = Some (w', err)" "bcache w (j_fs_dev (jnl w)) blk = None"
    and "cur_revoke (jnl w) = Some table"
  shows "err = 0 \<and> w' = w\<lparr>jnl := set_cur_revoke (table_insert table blk (t_tid (trs w t))) (jnl w)\<rparr>"
  using assms by (auto simp: revoke_body_def u_find_get_block_def insert_revoke_hash_def)

lemma revoke_frame_bits:
  "revoke_frame w w' \<Longrightarrow>
   revoke_frame (upd_bh bh (\<lambda>b. b\<lparr>bh_revoked := r, bh_revokevalid := v\<rparr>) w)
     (upd_bh bh (\<lambda>b. b\<lparr>bh_revoked := r, bh_revokevalid := v\<rparr>) w')"
  by (simp add: revoke_frame_def upd_bh_def)

lemma revoke_body_cached:
  assumes run: "revoke_body w h t blk bh_in = Some (w', err)" and bh: "bcache w (j_fs_dev (jnl w)) blk = Some bh"
    and cur: "cur_revoke (jnl w) = Some table" and b_in: "bh_in = None \<or> bh_in = Some bh"
  shows "err \<noteq> 0 \<and> revoke_frame w w' \<or>
    (\<exists>w2. err = 0 \<and> revoke_frame (upd_bh bh (\<lambda>b. b\<lparr>bh_revoked := True, bh_revokevalid := True\<rparr>) w) w2 \<and>
       w' = w2\<lparr>jnl := set_cur_revoke (table_insert table blk (t_tid (trs w2 t))) (jnl w2)\<rparr>)"
proof -
  let ?m = "upd_bh bh (\<lambda>b. b\<lparr>bh_revoked := True, bh_revokevalid := True\<rparr>)"
  define w1 where "w1 = (if bh_in = None then get_bh bh w else put_bh bh (get_bh bh w))"
  have f1: "revoke_frame w w1" by (simp add: w1_def revoke_frame_trans [OF revoke_frame_refs(1) revoke_frame_refs(3)])
  show ?thesis
  proof (cases "bh_revoked (bhs w1 bh)")
    case True
    have "w' = (if bh_in = None then u_brelse bh w1 else w1) \<and> err = - EIO"
      using run bh b_in True
      by (auto simp: revoke_body_def u_find_get_block_def w1_def j_assert_def EIO_def split: if_splits)
    then show ?thesis using f1 by (auto simp: EIO_def intro: revoke_frame_trans)
  next
    case False
    define rest where "rest w2 = do { (j, err) \<leftarrow> insert_revoke_hash (jnl w2) blk (t_tid (trs w2 t));
        Some (w2\<lparr>jnl := j\<rparr>, err) }" for w2 :: world
    have "bh_in = None \<and> rest (u_brelse bh (?m w1)) = Some (w', err) \<or>
        (\<exists>w2 e. jbdbf_journal_forget (?m w1) h bh = Some (w2, e) \<and> rest w2 = Some (w', err))"
      using run bh b_in False
      by (auto simp: revoke_body_def u_find_get_block_def w1_def j_assert_def rest_def [symmetric] Let_def
          split: if_splits Option.bind_splits)
    then obtain w2 where w2: "revoke_frame (?m w1) w2" and ins: "rest w2 = Some (w', err)"
      by (blast intro: revoke_frame_refs(2) frame_revoke_frame [OF forget_frame])
    have "cur_revoke (jnl w2) = Some table" using w2 f1 cur by (simp add: revoke_frame_def)
    then have "err = 0 \<and> w' = w2\<lparr>jnl := set_cur_revoke (table_insert table blk (t_tid (trs w2 t))) (jnl w2)\<rparr>"
      using ins by (auto simp: rest_def insert_revoke_hash_def)
    moreover have "revoke_frame (?m w) w2" using revoke_frame_trans [OF revoke_frame_bits [OF f1] w2] .
    ultimately show ?thesis by blast
  qed
qed

text \<open>
  C21.  Revoking a block of the file system (\<open>jbdbf_journal_revoke\<close>) keeps the revoke bits of the
  buffers and the revoke table of the running transaction in agreement: a success adds exactly the
  record of the block, with the number of the running transaction; a failure, reported for a
  buffer that is revoked already, leaves the table as it was.
\<close>

theorem revoke_keeps_sync:
  assumes sync: "revoke_sync w table" and one: "one_buffer w" and new: "table_find table blk = None"
    and cached: "\<And>bh. bh_in = Some bh \<Longrightarrow> bcache w (j_fs_dev (jnl w)) blk = Some bh"
    and run: "jbdbf_journal_revoke k w h blk bh_in = Some (w', err)" and t: "h_transaction (hds w h) = Some t"
  shows "one_buffer w' \<and> (if err = 0 then revoke_sync w' (table_insert table blk (t_tid (trs w' t)))
    else revoke_sync w' table)"
proof -
  obtain j where j: "jbdbf_journal_set_features k (jnl w) 0 0 JBD2_FEATURE_INCOMPAT_REVOKE = Some (j, True)"
    using run t by (auto simp: jbdbf_journal_revoke_def j_assert_def split: Option.bind_splits if_splits)
  let ?w1 = "w\<lparr>jnl := j\<rparr>"
  have same: "cur_revoke j = cur_revoke (jnl w)" "j_fs_dev j = j_fs_dev (jnl w)"
    using set_features_same [OF j] by auto
  have frame: "revoke_frame w ?w1" by (simp add: revoke_frame_def same)
  have sync1: "revoke_sync ?w1 table" and one1: "one_buffer ?w1"
    using sync one by (simp_all only: revoke_frame_sync [OF frame])
  have run1: "revoke_body ?w1 h t blk bh_in = Some (w', err)"
    using run t j by (simp add: revoke_body_def jbdbf_journal_revoke_def j_assert_def)
  show ?thesis
  proof (cases "bcache w (j_fs_dev (jnl w)) blk")
    case None
    have "err = 0 \<and> w' = ?w1\<lparr>jnl := set_cur_revoke (table_insert table blk (t_tid (trs w t))) (jnl ?w1)\<rparr>"
      using revoke_body_uncached [of ?w1 h t blk w' err table] run1 None cached same sync1
      by (cases bh_in) (auto simp: revoke_sync_def)
    then show ?thesis
      using sync_record [OF sync1 one1 new refl] None one_buffer_cong [of w' ?w1] one1 by (simp add: same)
  next
    case (Some bh)
    then have b_in: "bh_in = None \<or> bh_in = Some bh" using cached by (cases bh_in) auto
    consider "err \<noteq> 0" "revoke_frame ?w1 w'"
      | w2 where "err = 0" "revoke_frame (upd_bh bh (\<lambda>b. b\<lparr>bh_revoked := True, bh_revokevalid := True\<rparr>) ?w1) w2"
        "w' = w2\<lparr>jnl := set_cur_revoke (table_insert table blk (t_tid (trs w2 t))) (jnl w2)\<rparr>"
      using revoke_body_cached [OF run1 _ _ b_in, of table] Some same sync1 by (auto simp: revoke_sync_def)
    then show ?thesis
    proof cases
      case 1
      then show ?thesis using sync1 one1 by (simp add: revoke_frame_sync [OF 1(2)])
    next
      case 2
      show ?thesis
        using sync_record_buffer [OF sync1 one1 new _ 2(2) 2(3)] Some 2 by (simp add: same)
    qed
  qed
qed

text \<open>
  C22.  Cancelling the revoke of a block that is written again (\<open>jbdbf_journal_cancel_revoke\<close>) does
  not fail its assertions, leaves no record of the block in the table of the running transaction
  and every other record as it was, and keeps the bits of the buffers in agreement with the table.
\<close>

theorem cancel_revoke_keeps_sync:
  assumes sync: "revoke_sync w table" and one: "one_buffer w" and bh: "fs_buffer w (b_bh (jhs w jh))"
  shows "\<exists>w' r table'. jbdbf_journal_cancel_revoke w jh = Some (w', r) \<and> one_buffer w' \<and> revoke_sync w' table' \<and>
    (\<forall>blk. table_find table' blk =
       (if blk = b_blocknr (bhs w (b_bh (jhs w jh))) then None else table_find table blk))"
proof -
  let ?bh = "b_bh (jhs w jh)" and ?blk = "b_blocknr (bhs w (b_bh (jhs w jh)))"
  obtain w' r c where run: "jbdbf_journal_cancel_revoke w jh = Some (w', r)"
    and bhs: "bhs w' = (bhs w)(?bh := (bhs w ?bh)\<lparr>bh_revokevalid := True, bh_revoked := False, b_count := c\<rparr>)"
    and bc: "bcache w' = bcache w"
    and j: "jnl w' = jnl w \<and> table_find table ?blk = None \<or>
     jnl w' = set_cur_revoke (table_delete table ?blk) (jnl w)"
    using cancel_revoke_ok [OF sync one refl bh] by auto
  have cur: "cur_revoke (jnl w) = Some table" "table_wf table" using sync by (auto simp: revoke_sync_def)
  obtain table' where t': "cur_revoke (jnl w') = Some table'" "table_wf table'" "j_fs_dev (jnl w') = j_fs_dev (jnl w)"
    and find: "\<And>blk. table_find table' blk = (if blk = ?blk then None else table_find table blk)"
    using j cur by (fastforce simp: table_wf_delete table_find_delete)
  have fs: "fs_buffer w' b = fs_buffer w b" for b by (subst (1) fs_buffer_def) (simp add: bhs t'(3) fs_buffer_def)
  have place: "b_blocknr (bhs w' b) = b_blocknr (bhs w b)" "b_bdev (bhs w' b) = b_bdev (bhs w b)" for b
    by (subst bhs, simp)+
  have one': "one_buffer w'" using one_buffer_cong [of w' w] place bc t'(3) one by simp
  have "bh_revoked (bhs w' b) \<longleftrightarrow> table_find table' (b_blocknr (bhs w b)) \<noteq> None"
    if "fs_buffer w b" "bh_revokevalid (bhs w' b)" for b
  proof (cases "b = ?bh")
    case True
    then show ?thesis by (subst bhs) (simp add: find)
  next
    case False
    then have bits: "bhs w' b = bhs w b" by (subst bhs) simp
    have "b_blocknr (bhs w b) \<noteq> ?blk" using one_bufferD(1) [OF one that(1) bh] False by blast
    then show ?thesis using sync that by (simp add: bits find revoke_sync_def)
  qed
  then have "revoke_sync w' table'" using t' by (simp add: revoke_sync_def fs place)
  then show ?thesis using run one' find by blast
qed

section \<open>Copy-out of committing data\<close>

text \<open>What waiting for a buffer and taking over its dirty bit leave alone.\<close>

definition access_frame :: "world \<Rightarrow> world \<Rightarrow> bool" where
  "access_frame w w' = (jhs w' = jhs w \<and> trs w' = trs w \<and> hds w' = hds w \<and> jnl w' = jnl w \<and> bcache w' = bcache w \<and>
     (\<forall>bh. b_data (bhs w' bh) = b_data (bhs w bh) \<and> b_bdev (bhs w' bh) = b_bdev (bhs w bh) \<and>
       b_blocknr (bhs w' bh) = b_blocknr (bhs w bh) \<and> bh_revoked (bhs w' bh) = bh_revoked (bhs w bh) \<and>
       bh_revokevalid (bhs w' bh) = bh_revokevalid (bhs w bh) \<and> bh_jbd (bhs w' bh) = bh_jbd (bhs w bh) \<and>
       b_private (bhs w' bh) = b_private (bhs w bh)))"

lemma access_frame_wait: "access_frame w (wait_on_buffer k bh w)"
  by (simp add: access_frame_def wait_on_buffer_def Let_def split: option.split)

text \<open>Who may own a buffer when write access to it is asked for.\<close>

definition may_access :: "world \<Rightarrow> tptr \<Rightarrow> jptr \<Rightarrow> bool" where
  "may_access w t jh =
     ((b_transaction (jhs w jh) = None \<or> b_transaction (jhs w jh) = Some t \<or>
       b_transaction (jhs w jh) = j_committing_transaction (jnl w)) \<and>
      (b_next_transaction (jhs w jh) = None \<or> b_next_transaction (jhs w jh) = Some t))"

lemma take_over_ok:
  assumes "may_access w t jh"
  obtains w' where "take_over_dirty (wait_on_buffer k bh w) t jh = Some w'" "access_frame w w'"
proof -
  let ?w = "wait_on_buffer k bh w"
  have f: "access_frame w ?w" by (rule access_frame_wait)
  have m: "may_access ?w t jh" using assms f by (simp add: may_access_def access_frame_def)
  have "\<exists>w'. take_over_dirty ?w t jh = Some w' \<and> access_frame ?w w'"
    using m by (cases "b_next_transaction (jhs ?w jh)")
      (auto simp: take_over_dirty_def may_access_def access_frame_def j_assert_def dirty_bit_defs Let_def split: option.splits)
  then show ?thesis using f that by (auto simp: access_frame_def)
qed

text \<open>A buffer with data of the committing transaction that has not gone to the log yet.\<close>

definition uncommitted :: "world \<Rightarrow> tptr \<Rightarrow> jptr \<Rightarrow> bool" where
  "uncommitted w t jh = (\<exists>c. b_transaction (jhs w jh) = Some c \<and> c \<noteq> t \<and> j_committing_transaction (jnl w) = Some c \<and>
     b_next_transaction (jhs w jh) = None \<and> b_frozen_data (jhs w jh) = None \<and> b_jlist (jhs w jh) \<notin> {BJ_Shadow, BJ_Forget})"

lemma uncommitted_access: "uncommitted w t jh \<Longrightarrow> may_access w t jh"
  by (auto simp: uncommitted_def may_access_def)

lemma copy_out_first:
  assumes "uncommitted w t jh" "\<not> is_handle_aborted w h" "\<And>w. k_alloc_ok k w"
  obtains w0 where "access_frame w w0"
    "write_access_loop k h t jh fc w False = write_access_loop k h t jh fc (upd_jh jh (\<lambda>h. h\<lparr>b_modified := False\<rparr>) w0) True"
proof -
  obtain w0 where w0: "take_over_dirty (wait_on_buffer k (b_bh (jhs w jh)) w) t jh = Some w0" "access_frame w w0"
    using take_over_ok [OF uncommitted_access [OF assms(1)]] .
  have "uncommitted w0 t jh" "\<not> is_handle_aborted w0 h"
    using w0(2) assms(1,2) by (auto simp: uncommitted_def access_frame_def is_handle_aborted_def)
  then have "write_access_loop k h t jh fc w False =
      write_access_loop k h t jh fc (upd_jh jh (\<lambda>h. h\<lparr>b_modified := False\<rparr>) w0) True"
    using assms(3) w0(1) by (subst write_access_loop.simps) (auto simp: uncommitted_def j_assert_def)
  then show ?thesis using that w0(2) by blast
qed

lemma copy_out_last:
  assumes "uncommitted w t jh" "\<not> is_handle_aborted w h"
  obtains w0 where "access_frame w w0"
    "write_access_loop k h t jh fc w True =
       Some (upd_jh jh (\<lambda>h. h\<lparr>b_modified := False, b_frozen_data := Some (b_data (bhs w (b_bh h))),
         b_next_transaction := Some t\<rparr>) w0, True, 0)"
proof -
  obtain w0 where w0: "take_over_dirty (wait_on_buffer k (b_bh (jhs w jh)) w) t jh = Some w0" "access_frame w w0"
    using take_over_ok [OF uncommitted_access [OF assms(1)]] .
  have "uncommitted w0 t jh" "\<not> is_handle_aborted w0 h" "b_data (bhs w0 b) = b_data (bhs w b)" for b
    using w0(2) assms(1,2) by (auto simp: uncommitted_def access_frame_def is_handle_aborted_def)
  then have "write_access_loop k h t jh fc w True =
      Some (upd_jh jh (\<lambda>h. h\<lparr>b_modified := False, b_frozen_data := Some (b_data (bhs w (b_bh h))),
         b_next_transaction := Some t\<rparr>) w0, True, 0)"
    using w0(1) by (subst write_access_loop.simps) (auto simp: uncommitted_def j_assert_def upd_jh_def)
  then show ?thesis using that w0(2) by blast
qed

lemma access_frame_revoke_frame: "access_frame w w' \<Longrightarrow> revoke_frame w w'"
  by (simp add: access_frame_def revoke_frame_def)

lemma revoke_frame_jh [simp]: "revoke_frame w (upd_jh jh f w') = revoke_frame w w'"
  by (simp add: revoke_frame_def)

text \<open>The journal head stays attached through the reference the function takes.\<close>

lemma get_write_access_eq:
  assumes "attached w jh" "b_bh (jhs w jh) = bh"
    and "do_get_write_access k (upd_jh jh (\<lambda>h. h\<lparr>b_jcount := b_jcount h + 1\<rparr>) w) h jh False = Some (w', e)"
    and "1 < b_jcount (jhs w' jh)"
  shows "jbdbf_journal_get_write_access k w h bh = Some (upd_jh jh (\<lambda>h. h\<lparr>b_jcount := b_jcount h - 1\<rparr>) w', e)"
  using assms by (auto simp: jbdbf_journal_get_write_access_def jbdbf_journal_add_journal_bf_head_def attached_def
      jbdbf_journal_put_journal_bf_head_def j_assert_def Let_def)

lemma do_get_write_access_eq:
  assumes "h_transaction (hds w h) = Some t" "\<not> is_handle_aborted w h"
    and "write_access_loop k h t jh fc w False = Some (w1, True, e)" "jbdbf_journal_cancel_revoke w1 jh = Some (w2, r)"
  shows "do_get_write_access k w h jh fc = Some (w2, e)"
  using assms by (simp add: do_get_write_access_def)

lemma do_get_write_access_copies:
  assumes t: "h_transaction (hds w h) = Some t" "\<not> is_handle_aborted w h" "\<And>w. k_alloc_ok k w"
    and u: "uncommitted w t jh" and sync: "revoke_sync w table" "one_buffer w" "fs_buffer w (b_bh (jhs w jh))"
  shows "\<exists>w'. do_get_write_access k w h jh fc = Some (w', 0) \<and> trs w' = trs w \<and>
    jhs w' = (jhs w)(jh := (jhs w jh)\<lparr>b_modified := False, b_frozen_data := Some (b_data (bhs w (b_bh (jhs w jh)))),
         b_next_transaction := Some t\<rparr>) \<and>
    (\<forall>b. b_data (bhs w' b) = b_data (bhs w b))"
proof -
  obtain w0 where w0: "access_frame w w0" and l0: "write_access_loop k h t jh fc w False =
      write_access_loop k h t jh fc (upd_jh jh (\<lambda>h. h\<lparr>b_modified := False\<rparr>) w0) True"
    using copy_out_first [OF u t(2,3)] .
  let ?w1 = "upd_jh jh (\<lambda>h. h\<lparr>b_modified := False\<rparr>) w0"
  have "uncommitted ?w1 t jh" "\<not> is_handle_aborted ?w1 h"
    using u w0 t(2) by (auto simp: uncommitted_def access_frame_def is_handle_aborted_def)
  then obtain w2 where w2: "access_frame ?w1 w2" and l1: "write_access_loop k h t jh fc ?w1 True =
      Some (upd_jh jh (\<lambda>h. h\<lparr>b_modified := False, b_frozen_data := Some (b_data (bhs ?w1 (b_bh h))),
         b_next_transaction := Some t\<rparr>) w2, True, 0)" by (rule copy_out_last)
  let ?w3 = "upd_jh jh (\<lambda>h. h\<lparr>b_modified := False, b_frozen_data := Some (b_data (bhs ?w1 (b_bh h))),
         b_next_transaction := Some t\<rparr>) w2"
  have fr: "revoke_frame w ?w3"
    using w0 w2 by (simp add: access_frame_def revoke_frame_def)
  have bh: "fs_buffer ?w3 (b_bh (jhs ?w3 jh))" using sync(3) w0 w2 by (simp add: fs_buffer_def access_frame_def)
  have s3: "revoke_sync ?w3 table" "one_buffer ?w3" using sync(1,2) by (simp_all only: revoke_frame_sync [OF fr])
  obtain w' r c where w': "jbdbf_journal_cancel_revoke ?w3 jh = Some (w', r)" "trs w' = trs ?w3" "jhs w' = jhs ?w3"
    "bhs w' = (bhs ?w3)(b_bh (jhs ?w3 jh) := (bhs ?w3 (b_bh (jhs ?w3 jh)))\<lparr>bh_revokevalid := True, bh_revoked := False,
      b_count := c\<rparr>)"
    using cancel_revoke_ok [OF s3 refl bh] by blast
  have "do_get_write_access k w h jh fc = Some (w', 0)"
    using do_get_write_access_eq [OF t(1,2) _ w'(1)] l0 l1 by simp
  then show ?thesis using w' w0 w2 by (simp add: access_frame_def)
qed

text \<open>
  C23.  Write access to a metadata buffer that the committing transaction has not logged yet
  (\<open>jbdbf_journal_get_write_access\<close>, the copy-out branch of \<open>do_get_write_access\<close>) succeeds, puts
  the buffer down for the running transaction, and saves its contents: whatever the new owner
  writes into the buffer, the commit logs the contents the buffer had before.
\<close>

theorem write_access_copies_out:
  assumes "attached w jh" "b_bh (jhs w jh) = bh" "0 < b_jcount (jhs w jh)"
    and "h_transaction (hds w h) = Some t" "\<not> is_handle_aborted w h" "\<And>w. k_alloc_ok k w"
    and "uncommitted w t jh" "revoke_sync w table" "one_buffer w" "fs_buffer w bh"
  shows "\<exists>w'. jbdbf_journal_get_write_access k w h bh = Some (w', 0) \<and> trs w' = trs w \<and>
    jhs w' jh = (jhs w jh)\<lparr>b_modified := False, b_frozen_data := Some (b_data (bhs w bh)), b_next_transaction := Some t\<rparr> \<and>
    b_data (bhs w' bh) = b_data (bhs w bh) \<and>
    (\<forall>new. logged_data (upd_bh bh (\<lambda>b. b\<lparr>b_data := new\<rparr>) w') jh = logged_data w jh)"
proof -
  let ?w = "upd_jh jh (\<lambda>h. h\<lparr>b_jcount := b_jcount h + 1\<rparr>) w"
  have fr: "revoke_frame w ?w" by (simp add: revoke_frame_def)
  have "\<exists>w'. do_get_write_access k ?w h jh False = Some (w', 0) \<and> trs w' = trs ?w \<and>
    jhs w' = (jhs ?w)(jh := (jhs ?w jh)\<lparr>b_modified := False, b_frozen_data := Some (b_data (bhs ?w (b_bh (jhs ?w jh)))),
         b_next_transaction := Some t\<rparr>) \<and> (\<forall>b. b_data (bhs w' b) = b_data (bhs ?w b))"
    by (rule do_get_write_access_copies)
      (use assms in \<open>simp_all add: revoke_frame_sync [OF fr] uncommitted_def is_handle_aborted_def fs_buffer_def\<close>)
  then obtain w' where w': "do_get_write_access k ?w h jh False = Some (w', 0)" "trs w' = trs w"
    "jhs w' = (jhs ?w)(jh := (jhs ?w jh)\<lparr>b_modified := False, b_frozen_data := Some (b_data (bhs w bh)),
         b_next_transaction := Some t\<rparr>)" "b_data (bhs w' bh) = b_data (bhs w bh)"
    using assms(2) by auto
  have "b_frozen_data (jhs w jh) = None" using assms(7) by (auto simp: uncommitted_def)
  moreover have "jbdbf_journal_get_write_access k w h bh =
      Some (upd_jh jh (\<lambda>h. h\<lparr>b_jcount := b_jcount h - 1\<rparr>) w', 0)"
    by (rule get_write_access_eq [OF assms(1,2) w'(1)]) (use assms(3) w'(3) in simp)
  ultimately show ?thesis using w' assms(2) by (simp add: logged_data_def)
qed

section \<open>Dirty metadata and rewritten data\<close>

lemma charge_credit_ok:
  assumes "b_modified (jhs w jh) \<or> 0 < h_buffer_credits (hds w h)"
  obtains w' where "charge_credit w h jh = Some w'" "jhs w' = (jhs w)(jh := (jhs w jh)\<lparr>b_modified := True\<rparr>)"
    "hds w' = (hds w)(h := (hds w h)\<lparr>h_buffer_credits :=
       h_buffer_credits (hds w h) - (if b_modified (jhs w jh) then 0 else 1)\<rparr>)"
    "trs w' = trs w" "bhs w' = bhs w" "jnl w' = jnl w"
proof (cases "b_modified (jhs w jh)")
  case True
  then have "(jhs w jh)\<lparr>b_modified := True\<rparr> = jhs w jh" by (cases "jhs w jh") simp
  then show ?thesis using that [of w] True by (simp add: charge_credit_def fun_upd_idem)
next
  case False
  then show ?thesis using that assms by (simp add: charge_credit_def)
qed

lemma file_buffer_hds: "u_jbdbf_journal_file_buffer w jh t l = Some w' \<Longrightarrow> hds w' = hds w"
  by (auto simp: u_jbdbf_journal_file_buffer_def u_jbdbf_journal_temp_unlink_buffer_def jbdbf_journal_grab_journal_bf_head_def
      take_dirty_def dirty_bit_defs Let_def split: if_splits Option.bind_splits option.splits jlist.splits)

lemma filed_owned:
  assumes f: "filed w jh t l w'" and own: "b_transaction (jhs w jh) = Some t" "b_jlist (jhs w jh) \<noteq> l"
  shows "jhs w' = (jhs w)(jh := (jhs w jh)\<lparr>b_jlist := l\<rparr>)"
    "t_list l' (trs w' t') = remove1 jh (t_list l' (trs w t')) @ (if t' = t \<and> l' = l then [jh] else [])"
proof -
  have e: "(jhs w jh)\<lparr>b_transaction := Some t, b_jlist := l\<rparr> = (jhs w jh)\<lparr>b_jlist := l\<rparr>"
    using own(1) by (cases "jhs w jh") simp
  have "jhs w' = (jhs w)(jh := (jhs w jh)\<lparr>b_transaction := Some t, b_jlist := l\<rparr>)"
    using f own(1) by (simp add: filed_def)
  then show "jhs w' = (jhs w)(jh := (jhs w jh)\<lparr>b_jlist := l\<rparr>)" by (simp only: e)
  have "placed w jh \<noteq> Some (t, l)" using own by (auto simp: placed_def)
  then show "t_list l' (trs w' t') = remove1 jh (t_list l' (trs w t')) @ (if t' = t \<and> l' = l then [jh] else [])"
    using f by (simp add: filed_def)
qed

lemma dirty_metadata_ok:
  assumes wf: "lists_wf w" and att: "attached w jh" "b_bh (jhs w jh) = bh"
    and own: "b_transaction (jhs w jh) = Some t" "b_frozen_data (jhs w jh) = None" "j_running_transaction (jnl w) = Some t"
    and h: "h_transaction (hds w h) = Some t" "\<not> is_handle_aborted w h"
      "b_modified (jhs w jh) \<or> 0 < h_buffer_credits (hds w h)"
  shows "\<exists>w'. jbdbf_journal_dirty_metadata w h bh = Some (w', 0) \<and> lists_wf w' \<and> attached w' jh \<and> jnl w' = jnl w \<and>
    jhs w' = (jhs w)(jh := (jhs w jh)\<lparr>b_modified := True, b_jlist := BJ_Metadata\<rparr>) \<and>
    hds w' = (hds w)(h := (hds w h)\<lparr>h_buffer_credits :=
       h_buffer_credits (hds w h) - (if b_modified (jhs w jh) then 0 else 1)\<rparr>) \<and>
    (\<forall>l'. t_list l' (trs w' t) = (if b_jlist (jhs w jh) = BJ_Metadata then t_list l' (trs w t)
       else remove1 jh (t_list l' (trs w t)) @ (if l' = BJ_Metadata then [jh] else [])))"
proof -
  obtain w1 where c: "charge_credit w h jh = Some w1" "jhs w1 = (jhs w)(jh := (jhs w jh)\<lparr>b_modified := True\<rparr>)"
    "hds w1 = (hds w)(h := (hds w h)\<lparr>h_buffer_credits :=
       h_buffer_credits (hds w h) - (if b_modified (jhs w jh) then 0 else 1)\<rparr>)"
    "trs w1 = trs w" "bhs w1 = bhs w" "jnl w1 = jnl w"
    using charge_credit_ok [OF h(3)] .
  have start: "bh_jbd (bhs w bh)" "b_private (bhs w bh) = Some jh" using att by (simp_all add: attached_def)
  show ?thesis
  proof (cases "b_jlist (jhs w jh) = BJ_Metadata")
    case True
    have "jbdbf_journal_dirty_metadata w h bh = Some (w1, 0)"
      using start c own h(1,2) True by (simp add: jbdbf_journal_dirty_metadata_def)
    moreover have e: "(jhs w jh)\<lparr>b_modified := True, b_jlist := BJ_Metadata\<rparr> = (jhs w jh)\<lparr>b_modified := True\<rparr>"
      using True by (cases "jhs w jh") simp
    have "jhs w1 = (jhs w)(jh := (jhs w jh)\<lparr>b_modified := True, b_jlist := BJ_Metadata\<rparr>)" by (simp only: c(2) e)
    moreover have "lists_wf w1" by (rule lists_wf_cong [OF wf]) (simp_all add: c)
    moreover have "attached w1 jh" using att c by (simp add: attached_def)
    ultimately show ?thesis using c True by (auto simp only: if_True simp_thms)
  next
    case False
    let ?w2 = "set_jbddirty bh w1"
    have wf2: "lists_wf ?w2" by (rule lists_wf_cong [OF wf]) (simp_all add: c set_jbddirty_def)
    have att2: "attached ?w2 jh" using att c by (simp add: attached_def set_jbddirty_def)
    have own2: "b_transaction (jhs ?w2 jh) = Some t" "b_jlist (jhs ?w2 jh) \<noteq> BJ_Metadata"
      using own c False by (simp_all add: set_jbddirty_def)
    obtain w' where w': "u_jbdbf_journal_file_buffer ?w2 jh t BJ_Metadata = Some w'" "filed ?w2 jh t BJ_Metadata w'"
      using file_buffer_ok [OF wf2 att2, of BJ_Metadata t] own2 by auto
    have "jbdbf_journal_dirty_metadata w h bh = Some (w', 0)"
      using start c own h(1,2) False w'(1) by (simp add: jbdbf_journal_dirty_metadata_def set_jbddirty_def j_assert_def)
    moreover have "hds w' = hds w1" using file_buffer_hds [OF w'(1)] by (simp add: set_jbddirty_def)
    moreover have "attached w' jh" using w'(2) att2 by (simp add: filed_def attached_def)
    moreover have "lists_wf w'" "jnl w' = jnl w" using w'(2) c(6) by (simp_all add: filed_def set_jbddirty_def)
    ultimately show ?thesis
      using filed_owned [OF w'(2) own2] c False by (simp add: set_jbddirty_def)
  qed
qed

text \<open>
  C24.  Declaring a buffer dirty metadata (\<open>jbdbf_journal_dirty_metadata\<close>) charges the handle one
  credit and puts the buffer on the metadata list of the running transaction; declaring it again
  in the same transaction charges nothing and leaves the lists as they are.
\<close>

theorem dirty_metadata_charges_once:
  assumes "lists_wf w" "attached w jh" "b_bh (jhs w jh) = bh"
    and "b_transaction (jhs w jh) = Some t" "b_frozen_data (jhs w jh) = None" "j_running_transaction (jnl w) = Some t"
    and "h_transaction (hds w h) = Some t" "\<not> is_handle_aborted w h" "\<not> b_modified (jhs w jh)"
      "0 < h_buffer_credits (hds w h)"
  shows "\<exists>w1 w2. jbdbf_journal_dirty_metadata w h bh = Some (w1, 0) \<and> jh \<in> set (t_buffers (trs w1 t)) \<and>
    h_buffer_credits (hds w1 h) = h_buffer_credits (hds w h) - 1 \<and>
    jbdbf_journal_dirty_metadata w1 h bh = Some (w2, 0) \<and> hds w2 = hds w1 \<and> jhs w2 = jhs w1 \<and>
    (\<forall>l. t_list l (trs w2 t) = t_list l (trs w1 t))"
proof -
  obtain w1 where w1: "jbdbf_journal_dirty_metadata w h bh = Some (w1, 0)" "lists_wf w1" "jnl w1 = jnl w" "attached w1 jh"
    "jhs w1 = (jhs w)(jh := (jhs w jh)\<lparr>b_modified := True, b_jlist := BJ_Metadata\<rparr>)"
    "hds w1 = (hds w)(h := (hds w h)\<lparr>h_buffer_credits := h_buffer_credits (hds w h) - 1\<rparr>)"
    using dirty_metadata_ok [of w jh bh t h] assms by auto
  have "jh \<in> set (t_list BJ_Metadata (trs w1 t))"
    using lists_wf_mem [OF w1(2), of jh BJ_Metadata t] w1(5) assms(4) by simp
  moreover obtain w2 where "jbdbf_journal_dirty_metadata w1 h bh = Some (w2, 0)"
    "jhs w2 = (jhs w1)(jh := (jhs w1 jh)\<lparr>b_modified := True, b_jlist := BJ_Metadata\<rparr>)"
    "hds w2 = (hds w1)(h := (hds w1 h)\<lparr>h_buffer_credits := h_buffer_credits (hds w1 h) - (if b_modified (jhs w1 jh) then 0 else 1)\<rparr>)"
    and l: "\<And>l. t_list l (trs w2 t) = (if b_jlist (jhs w1 jh) = BJ_Metadata then t_list l (trs w1 t)
       else remove1 jh (t_list l (trs w1 t)) @ (if l = BJ_Metadata then [jh] else []))"
    using dirty_metadata_ok [OF w1(2,4), of bh t h] assms w1(3,5,6) by (auto simp: is_handle_aborted_def)
  moreover from this have "jhs w2 = jhs w1" "hds w2 = hds w1" by (simp_all add: w1(5,6))
  moreover have "t_list l (trs w2 t) = t_list l (trs w1 t)" for l using l [of l] by (simp add: w1(5))
  moreover have "h_buffer_credits (hds w1 h) = h_buffer_credits (hds w h) - 1" by (simp add: w1(6))
  ultimately show ?thesis using w1(1) unfolding t_buffers_list by blast
qed

text \<open>
  Write access to a buffer the running transaction has already: nothing moves, and nothing is
  charged.
\<close>

lemma write_access_owned:
  assumes t: "h_transaction (hds w h) = Some t" "\<not> is_handle_aborted w h" and att: "attached w jh" "b_bh (jhs w jh) = bh"
    and own: "b_transaction (jhs w jh) = Some t" "b_next_transaction (jhs w jh) = None" "0 < b_jcount (jhs w jh)"
    and sync: "revoke_sync w table" "one_buffer w" "fs_buffer w bh"
  shows "\<exists>w'. jbdbf_journal_get_write_access k w h bh = Some (w', 0) \<and> trs w' = trs w \<and> jhs w' = jhs w \<and>
    hds w' = hds w \<and> attached w' jh \<and> j_running_transaction (jnl w') = j_running_transaction (jnl w) \<and> j_flags (jnl w') = j_flags (jnl w)"
proof -
  let ?w = "upd_jh jh (\<lambda>h. h\<lparr>b_jcount := b_jcount h + 1\<rparr>) w"
  have "may_access ?w t jh" using own by (simp add: may_access_def)
  then obtain w0 where w0: "take_over_dirty (wait_on_buffer k (b_bh (jhs ?w jh)) ?w) t jh = Some w0" "access_frame ?w w0"
    by (rule take_over_ok)
  have ab: "\<not> is_handle_aborted w0 h" "h_transaction (hds ?w h) = Some t" "\<not> is_handle_aborted ?w h"
    using t w0(2) by (simp_all add: is_handle_aborted_def access_frame_def)
  have loop: "write_access_loop k h t jh False ?w False = Some (w0, True, 0)"
    using w0 ab own by (subst write_access_loop.simps) (auto simp: access_frame_def)
  have fr: "revoke_frame w w0" using w0(2) by (simp add: access_frame_def revoke_frame_def)
  have s0: "revoke_sync w0 table" "one_buffer w0" using sync(1,2) by (simp_all only: revoke_frame_sync [OF fr])
  have bh0: "b_bh (jhs w0 jh) = bh" "fs_buffer w0 bh" using sync(3) w0(2) att(2) by (auto simp: access_frame_def fs_buffer_def)
  obtain w1 r c where w1: "jbdbf_journal_cancel_revoke w0 jh = Some (w1, r)"
    "bhs w1 = (bhs w0)(bh := (bhs w0 bh)\<lparr>bh_revokevalid := True, bh_revoked := False, b_count := c\<rparr>)"
    "jhs w1 = jhs w0" "trs w1 = trs w0" "hds w1 = hds w0"
    "jnl w1 = jnl w0 \<or> (\<exists>T. jnl w1 = set_cur_revoke T (jnl w0))"
    using cancel_revoke_ok [OF s0 bh0] by blast
  have "do_get_write_access k ?w h jh False = Some (w1, 0)"
    by (rule do_get_write_access_eq [OF ab(2,3) loop w1(1)])
  then have "jbdbf_journal_get_write_access k w h bh = Some (upd_jh jh (\<lambda>h. h\<lparr>b_jcount := b_jcount h - 1\<rparr>) w1, 0)"
    by (rule get_write_access_eq [OF att]) (use w1(3) w0(2) own(3) in \<open>simp add: access_frame_def\<close>)
  moreover have "j_running_transaction (jnl w1) = j_running_transaction (jnl w) \<and> j_flags (jnl w1) = j_flags (jnl w)"
    using w1(6) w0(2) by (auto simp: access_frame_def set_cur_revoke_def split: option.splits)
  moreover have "jhs (upd_jh jh (\<lambda>h. h\<lparr>b_jcount := b_jcount h - 1\<rparr>) w1) = jhs w"
    using w1(3) w0(2) by (simp add: access_frame_def)
  ultimately show ?thesis using w1 w0(2) att by (simp add: access_frame_def attached_def)
qed

text \<open>
  C25.  A newly allocated data block that is written again in the same transaction, when it is no
  longer new, is journalled: write access (\<open>jbdbf_journal_get_write_access\<close>) and
  \<open>jbdbf_journal_dirty_metadata\<close> succeed without a further credit and move the buffer from the list
  of data to write in place to the list of blocks to log; the other data blocks keep their order.
\<close>

theorem rewritten_data_is_logged:
  assumes "lists_wf w" "attached w jh" "b_bh (jhs w jh) = bh" "0 < b_jcount (jhs w jh)"
    and "b_transaction (jhs w jh) = Some t" "b_jlist (jhs w jh) = BJ_Dirtydata" "b_modified (jhs w jh)"
      "b_next_transaction (jhs w jh) = None" "b_frozen_data (jhs w jh) = None"
    and "j_running_transaction (jnl w) = Some t" "h_transaction (hds w h) = Some t" "\<not> is_handle_aborted w h"
    and "revoke_sync w table" "one_buffer w" "fs_buffer w bh"
  shows "\<exists>w1 w2. jbdbf_journal_get_write_access k w h bh = Some (w1, 0) \<and>
    jbdbf_journal_dirty_metadata w1 h bh = Some (w2, 0) \<and> lists_wf w2 \<and>
    t_dirty_data_list (trs w2 t) = remove1 jh (t_dirty_data_list (trs w t)) \<and> jh \<notin> set (t_dirty_data_list (trs w2 t)) \<and>
    t_buffers (trs w2 t) = t_buffers (trs w t) @ [jh] \<and> h_buffer_credits (hds w2 h) = h_buffer_credits (hds w h)"
proof -
  obtain w1 where w1: "jbdbf_journal_get_write_access k w h bh = Some (w1, 0)" "trs w1 = trs w" "jhs w1 = jhs w"
    "hds w1 = hds w" "attached w1 jh" "j_running_transaction (jnl w1) = Some t" "j_flags (jnl w1) = j_flags (jnl w)"
    using write_access_owned [OF assms(11,12,2,3,5,8,4,13,14,15), of k] assms(10) by auto
  have "lists_wf w1" by (rule lists_wf_cong [OF assms(1)]) (simp_all add: w1)
  moreover have "\<not> is_handle_aborted w1 h" using assms(12) w1(4,7) by (simp add: is_handle_aborted_def is_journal_aborted_def)
  ultimately obtain w2 where w2: "jbdbf_journal_dirty_metadata w1 h bh = Some (w2, 0)" "lists_wf w2"
    "hds w2 = (hds w1)(h := (hds w1 h)\<lparr>h_buffer_credits := h_buffer_credits (hds w1 h) - (if b_modified (jhs w1 jh) then 0 else 1)\<rparr>)"
    "\<And>l. t_list l (trs w2 t) = (if b_jlist (jhs w1 jh) = BJ_Metadata then t_list l (trs w1 t)
       else remove1 jh (t_list l (trs w1 t)) @ (if l = BJ_Metadata then [jh] else []))"
    using dirty_metadata_ok [of w1 jh bh t h] assms(3,5,7,9,11) w1(3-6) by auto
  have "jh \<notin> set (t_buffers (trs w t))" using lists_wf_mem [OF assms(1), of jh BJ_Metadata t] assms(6) by simp
  moreover have "jh \<notin> set (remove1 jh (t_dirty_data_list (trs w t)))"
    using lists_wf_distinct [OF assms(1), of BJ_Dirtydata t] by simp
  ultimately show ?thesis
    using w1(1-4) w2(1-3) w2(4) [of BJ_Metadata] w2(4) [of BJ_Dirtydata] assms(6,7) by (simp add: remove1_idem)
qed

section \<open>An example\<close>

text \<open>
  Buffer 9 with journal head 5 holds block 77 of the file system and is on list l of transaction
  tr; transaction 1 is committing and transaction 2 is running, with handle 7.
\<close>

definition ex_table :: revoke_table where
  "ex_table = \<lparr>hash_size = 1, hash_shift = 0, hash_table = [[]]\<rparr>"

definition ex_access :: "tptr \<Rightarrow> jlist \<Rightarrow> bool \<Rightarrow> world" where
  "ex_access tr l m = zero_world\<lparr>
     jnl := zero_journal\<lparr>j_running_transaction := Some 2, j_committing_transaction := Some 1, j_fs_dev := 6,
       j_revoke := Some 0, j_revoke_table := [0 \<mapsto> ex_table], j_format_version := 2,
       j_superblock := zero_superblock\<lparr>s_feature_incompat := JBD2_FEATURE_INCOMPAT_REVOKE\<rparr>\<rparr>,
     jhs := (\<lambda>_. zero_jh)(5 := zero_jh\<lparr>b_bh := 9, b_jcount := 1, b_transaction := Some tr, b_jlist := l, b_modified := m\<rparr>),
     bhs := (\<lambda>_. zero_bh)(9 := zero_bh\<lparr>bh_jbd := True, b_private := Some 5, b_bdev := Some 6, b_blocknr := 77,
       b_data := [1, 2]\<rparr>),
     bcache := (\<lambda>d blk. if d = 6 \<and> blk = 77 then Some 9 else None),
     hds := (\<lambda>_. zero_handle\<lparr>h_transaction := Some 2, h_buffer_credits := 3\<rparr>),
     trs := (\<lambda>_. zero_transaction)(tr := upd_t_list l (\<lambda>_. [5]) zero_transaction)\<rparr>"

lemma ex_table_wf: "table_wf ex_table" "table_find ex_table b = None"
proof -
  show wf: "table_wf ex_table" by (simp add: table_wf_def ex_table_def chain_ok_def exI [of _ "0 :: nat"])
  have "revoke_hash ex_table b = 0" using revoke_hash_bound [of ex_table 0 b] by (simp add: ex_table_def)
  then show "table_find ex_table b = None" by (simp add: table_find_def ex_table_def)
qed

lemma ex_access_sel [simp]:
  "jhs (ex_access tr l m) 5 = zero_jh\<lparr>b_bh := 9, b_jcount := 1, b_transaction := Some tr, b_jlist := l, b_modified := m\<rparr>"
  "hds (ex_access tr l m) h = zero_handle\<lparr>h_transaction := Some 2, h_buffer_credits := 3\<rparr>"
  "j_running_transaction (jnl (ex_access tr l m)) = Some 2" "j_committing_transaction (jnl (ex_access tr l m)) = Some 1"
  "j_fs_dev (jnl (ex_access tr l m)) = 6" "bcache (ex_access tr l m) 6 77 = Some 9"
  "b_data (bhs (ex_access tr l m) 9) = [1, 2]" "b_blocknr (bhs (ex_access tr l m) 9) = 77"
  "\<not> is_handle_aborted (ex_access tr l m) h"
  by (simp_all add: ex_access_def is_handle_aborted_def is_journal_aborted_def zero_defs)

lemma ex_access_ok: "revoke_sync (ex_access tr l m) ex_table" "one_buffer (ex_access tr l m)"
  "fs_buffer (ex_access tr l m) 9" "attached (ex_access tr l m) 5"
  by (auto simp: revoke_sync_def one_buffer_def fs_buffer_def attached_def cur_revoke_def ex_table_wf ex_access_def zero_defs
      split: if_splits)

lemma ex_access_wf: "l \<noteq> BJ_None \<Longrightarrow> l \<noteq> BJ_Metadata \<Longrightarrow> lists_wf (ex_access tr l m)"
proof -
  assume l: "l \<noteq> BJ_None" "l \<noteq> BJ_Metadata"
  have tl: "t_list l' (trs (ex_access tr l m) t) = (if t = tr \<and> l' = l then [5] else [])" for t l'
    using l by (cases l; cases l') (auto simp: ex_access_def zero_transaction_def t_list.simps)
  have "t_nr_buffers (trs (ex_access tr l m) t) = 0" for t
    using l by (cases l) (auto simp: ex_access_def zero_transaction_def)
  then show ?thesis
    unfolding lists_wf_def tl using l by (auto simp: ex_access_def zero_defs)
qed

theorem revoke_keeps_sync_witness:
  "\<exists>w'. jbdbf_journal_revoke quiet_kernel (ex_access 2 BJ_Dirtydata True) 7 55 None = Some (w', 0) \<and>
     revoke_sync w' (table_insert ex_table 55 (t_tid (trs w' 2)))"
proof -
  let ?w = "ex_access 2 BJ_Dirtydata True"
  obtain w' where "jbdbf_journal_revoke quiet_kernel ?w 7 55 None = Some (w', 0)"
    by (simp add: JBD2_FEATURE_INCOMPAT_REVOKE_def jbdbf_journal_revoke_def revoke_body_def jbdbf_journal_set_features_def jbdbf_journal_check_used_features_def
        u_find_get_block_def insert_revoke_hash_def cur_revoke_def ex_access_def zero_defs j_assert_def)
  then show ?thesis
    using revoke_keeps_sync [OF ex_access_ok(1,2) ex_table_wf(2)] by fastforce
qed

theorem cancel_revoke_keeps_sync_witness:
  "\<exists>w' r. jbdbf_journal_cancel_revoke (ex_access 2 BJ_Dirtydata True) 5 = Some (w', r) \<and> one_buffer w'"
  using cancel_revoke_keeps_sync [OF ex_access_ok(1,2), of 2 BJ_Dirtydata True 5] ex_access_ok(3) by auto

theorem write_access_copies_out_witness:
  "\<exists>w'. jbdbf_journal_get_write_access quiet_kernel (ex_access 1 BJ_Metadata True) 7 9 = Some (w', 0) \<and>
     logged_data (upd_bh 9 (\<lambda>b. b\<lparr>b_data := [8, 9]\<rparr>) w') 5 = [1, 2]"
proof -
  let ?w = "ex_access 1 BJ_Metadata True"
  have "uncommitted ?w 2 5" by (simp add: uncommitted_def zero_jh_def)
  moreover have "logged_data ?w 5 = [1, 2]" by (simp add: logged_data_def zero_jh_def)
  moreover have "k_alloc_ok quiet_kernel w" for w by (simp add: quiet_kernel_def)
  ultimately show ?thesis
    using write_access_copies_out [OF ex_access_ok(4) _ _ _ _ _ _ ex_access_ok(1,2,3), of 1 BJ_Metadata True 7 2 quiet_kernel]
    by fastforce
qed

theorem dirty_metadata_charges_once_witness:
  "\<exists>w1. jbdbf_journal_dirty_metadata (ex_access 2 BJ_Reserved False) 7 9 = Some (w1, 0) \<and>
     5 \<in> set (t_buffers (trs w1 2)) \<and> h_buffer_credits (hds w1 7) = 2"
  using dirty_metadata_charges_once [OF ex_access_wf ex_access_ok(4), of BJ_Reserved 2 False 9 2 7]
  by (auto simp: zero_jh_def zero_handle_def)

theorem rewritten_data_is_logged_witness:
  "\<exists>w1 w2. jbdbf_journal_get_write_access quiet_kernel (ex_access 2 BJ_Dirtydata True) 7 9 = Some (w1, 0) \<and>
     jbdbf_journal_dirty_metadata w1 7 9 = Some (w2, 0) \<and> 5 \<notin> set (t_dirty_data_list (trs w2 2))"
  using rewritten_data_is_logged [OF ex_access_wf ex_access_ok(4) _ _ _ _ _ _ _ _ _ _ ex_access_ok(1,2,3), of BJ_Dirtydata 2 True 2 7 quiet_kernel]
  by (auto simp: zero_jh_def zero_handle_def)

end
