(* ===== verification/Journal_Load.thy ===== *)
theory Journal_Load
  imports Commit
begin

text \<open>
  The life of a journal, journal.c: creating the in-memory journal, loading and wiping the one
  on disk, the journal thread, flushing and destroying it.  Freezing for suspend, the
  statistics files and the timer that wakes the thread are not modelled.
\<close>

section \<open>Creating a journal\<close>

definition JBD2_DEFAULT_MAX_COMMIT_AGE :: u64 where "JBD2_DEFAULT_MAX_COMMIT_AGE = 5"
definition JOURNAL_REVOKE_DEFAULT_HASH :: nat where "JOURNAL_REVOKE_DEFAULT_HASH = 256"
definition JBD2_MAX_SLABS :: nat where "JBD2_MAX_SLABS = 8"

text \<open>
  The argument alloc says of each allocation, in order, whether it succeeds: the journal, the two
  tables with their arrays, and the array j_wbuf.
\<close>

definition journal_init_common :: "kernel_env \<Rightarrow> (nat \<Rightarrow> bool) \<Rightarrow> journal option option" where
  "journal_init_common k alloc =
     (if \<not> alloc 0 then Some None
      else do { let j = zero_journal\<lparr>j_commit_interval := k_msecs_to_jiffies k 1000 * JBD2_DEFAULT_MAX_COMMIT_AGE,
                          j_min_batch_time := 0, j_max_batch_time := 15000, j_flags := JBD2_ABORT\<rparr>;
                (j, err) \<leftarrow> jbdbf_journal_init_revoke (alloc 1, alloc 2) (alloc 3, alloc 4) j JOURNAL_REVOKE_DEFAULT_HASH;
                Some (if err \<noteq> 0 then None else Some j) })"

definition init_wbuf :: "journal \<Rightarrow> journal" where
  "init_wbuf j = j\<lparr>j_wbufsize := j_blocksize j div JBD2_TAG_SIZE64\<rparr>"

definition jbdbf_journal_init_dev ::
    "kernel_env \<Rightarrow> (nat \<Rightarrow> bool) \<Rightarrow> dev \<Rightarrow> dev \<Rightarrow> u64 \<Rightarrow> u32 \<Rightarrow> nat \<Rightarrow> journal option option" where
  "jbdbf_journal_init_dev k alloc bdev fs_dev start len blocksize =
     do { r \<leftarrow> journal_init_common k alloc;
          Some (case r of
                  None \<Rightarrow> None
                | Some j \<Rightarrow>
                    (let j = init_wbuf (j\<lparr>j_blocksize := blocksize, j_dev := bdev, j_fs_dev := fs_dev, j_maxlen := len\<rparr>)
                     in if \<not> alloc 5 \<or> k_getblk_null k bdev start then None
                        else Some (j\<lparr>j_sb_buffer := True\<rparr>))) }"

definition jbdbf_journal_init_inode ::
    "kernel_env \<Rightarrow> (nat \<Rightarrow> bool) \<Rightarrow> dev \<Rightarrow> u64 \<Rightarrow> nat \<Rightarrow> world \<Rightarrow> (world \<times> journal option) option" where
  "jbdbf_journal_init_inode k alloc bdev i_size blocksize_bits w =
     do { r \<leftarrow> journal_init_common k alloc;
          Some (case r of
                  None \<Rightarrow> (w, None)
                | Some j \<Rightarrow>
                    (let j = init_wbuf (j\<lparr>j_dev := bdev, j_fs_dev := bdev, j_inode := True,
                                           j_maxlen := ucast (drop_bit blocksize_bits i_size),
                                           j_blocksize := 2 ^ blocksize_bits\<rparr>)
                     in if \<not> alloc 5 then (w, None)
                        else case jbdbf_journal_bmap k (w\<lparr>jnl := j\<rparr>) 0 of
                               (w', Inl _) \<Rightarrow> (w'\<lparr>jnl := jnl w\<rparr>, None)
                             | (w', Inr blocknr) \<Rightarrow>
                                 (if k_getblk_null k bdev blocknr then (w, None)
                                  else (w, Some (j\<lparr>j_sb_buffer := True\<rparr>))))) }"

section \<open>The journal thread\<close>

definition jbdbf_journal_start_thread :: "kernel_env \<Rightarrow> world \<Rightarrow> world \<times> int" where
  "jbdbf_journal_start_thread k w =
     (let err = k_kthread_run k w
      in if err \<noteq> 0 then (w, err) else (upd_jnl (\<lambda>j. j\<lparr>j_task := True\<rparr>) w, 0))"

definition journal_kill_thread :: "kernel_env \<Rightarrow> world \<Rightarrow> world option" where
  "journal_kill_thread k w =
     (let w = upd_jnl (\<lambda>j. j\<lparr>j_flags := j_flags j OR JBD2_UNMOUNT\<rparr>) w;
          w = (if j_task (jnl w) then k_sleep k Wait_Thread w else w)
      in if j_task (jnl w) then None else Some w)"

definition expired :: "world \<Rightarrow> bool" where
  "expired w = (case j_running_transaction (jnl w) of
                  None \<Rightarrow> False
                | Some t \<Rightarrow> time_after_eq (jiffies w) (t_expires (trs w t)))"

definition request_expired :: "world \<Rightarrow> world" where
  "request_expired w =
     (case j_running_transaction (jnl w) of
        None \<Rightarrow> w
      | Some t \<Rightarrow> (if expired w then upd_jnl (\<lambda>j. j\<lparr>j_commit_request := t_tid (trs w t)\<rparr>) w else w))"

text \<open>One round of the loop of kjournald2; the flag says whether the loop goes on.\<close>

definition kjournald2_round :: "kernel_env \<Rightarrow> world \<Rightarrow> (world \<times> bool) option" where
  "kjournald2_round k w =
     (if j_flags (jnl w) AND JBD2_UNMOUNT \<noteq> 0 then Some (upd_jnl (\<lambda>j. j\<lparr>j_task := False\<rparr>) w, False)
      else if j_commit_sequence (jnl w) \<noteq> j_commit_request (jnl w)
      then do { w \<leftarrow> jbdbf_journal_commit_transaction k w; Some (w, True) }
      else Some (request_expired (if expired w then w else k_sleep k Wait_Commit w), True))"

partial_function (option) kjournald2 :: "kernel_env \<Rightarrow> world \<Rightarrow> world option" where
  "kjournald2 k w = do { (w, more) \<leftarrow> kjournald2_round k w; if more then kjournald2 k w else Some w }"

section \<open>Loading\<close>

definition journal_reset :: "kernel_env \<Rightarrow> world \<Rightarrow> world \<times> int" where
  "journal_reset k w =
     (let sb = j_superblock (jnl w); first = ucast (s_first sb) :: u64; last = ucast (s_maxlen sb)
      in if first + of_nat JBD2_MIN_JOURNAL_BLOCKS > last + 1
         then (upd_jnl journal_fail_superblock w, - EINVAL)
         else jbdbf_journal_start_thread k (jbdbf_journal_update_superblock
                (upd_jnl (\<lambda>j. j\<lparr>j_first := first, j_last := last, j_head := first, j_tail := first,
                   j_free := last - first, j_tail_sequence := j_transaction_bf_sequence j,
                   j_commit_sequence := j_transaction_bf_sequence j - 1,
                   j_commit_request := j_transaction_bf_sequence j - 1,
                   j_max_transaction_buffers := uint (j_maxlen j) div 4\<rparr>) w) True))"

text \<open>
  Whether the slab of a size can be created: page sized blocks need none, and sizes up to 128 KiB
  have one.
\<close>

definition jbdbf_journal_create_slab :: "kernel_env \<Rightarrow> world \<Rightarrow> u32 \<Rightarrow> int" where
  "jbdbf_journal_create_slab k w sz =
     (if sz = 4096 then 0
      else if unat sz > 2 ^ (9 + JBD2_MAX_SLABS) then - EINVAL
      else if k_alloc_ok k w then 0 else - ENOMEM)"

definition jbdbf_journal_load :: "kernel_env \<Rightarrow> world \<Rightarrow> (world \<times> int) option" where
  "jbdbf_journal_load k w =
     do { (j, err) \<leftarrow> load_superblock k (jnl w);
          let w = w\<lparr>jnl := j\<rparr>;
          if err \<noteq> 0 then Some (w, err)
          else if j_format_version j \<ge> 2 \<and>
                  (s_feature_ro_compat (j_superblock j) AND NOT JBD2_KNOWN_ROCOMPAT_FEATURES \<noteq> 0 \<or>
                   s_feature_incompat (j_superblock j) AND NOT JBD2_KNOWN_INCOMPAT_FEATURES \<noteq> 0)
          then Some (w, - EINVAL)
          else let err = jbdbf_journal_create_slab k w (s_blocksize (j_superblock j))
               in if err \<noteq> 0 then Some (w, err)
                  else do { (w, err) \<leftarrow> jbdbf_journal_recover k w;
                            if err \<noteq> 0 then Some (w, - EIO)
                            else if j_failed_commit (jnl w) \<noteq> 0 then Some (w, - EIO)
                            else let (w, err) = journal_reset k w
                                 in if err \<noteq> 0 then Some (w, - EIO)
                                    else Some (upd_jnl (\<lambda>j. j\<lparr>j_flags := (j_flags j AND NOT JBD2_ABORT) OR JBD2_LOADED\<rparr>) w, 0) } }"

definition jbdbf_journal_wipe :: "kernel_env \<Rightarrow> world \<Rightarrow> bool \<Rightarrow> (world \<times> int) option" where
  "jbdbf_journal_wipe k w write =
     do { j_assert (j_flags (jnl w) AND JBD2_LOADED = 0);
          (j, err) \<leftarrow> load_superblock k (jnl w);
          let w = w\<lparr>jnl := j\<rparr>;
          if err \<noteq> 0 then Some (w, err)
          else if j_tail j = 0 then Some (w, err)
          else do { (w, err) \<leftarrow> jbdbf_journal_skip_recovery k w;
                    Some (if write then jbdbf_journal_update_superblock w True else w, err) } }"

section \<open>Flushing and destroying\<close>

text \<open>The loops that checkpoint until no transaction is left; the first one stops at an error.\<close>

partial_function (option) checkpoint_all :: "kernel_env \<Rightarrow> bool \<Rightarrow> world \<Rightarrow> world option" where
  "checkpoint_all k stop_on_error w =
     (if j_checkpoint_transactions (jnl w) = [] then Some w
      else do { (w, err) \<leftarrow> jbdbf_log_do_checkpoint k w;
                if stop_on_error \<and> err \<noteq> 0 then Some w else checkpoint_all k stop_on_error w })"

definition jbdbf_journal_flush :: "kernel_env \<Rightarrow> world \<Rightarrow> (world \<times> int) option" where
  "jbdbf_journal_flush k w =
     do { let (w, trans) = (case j_running_transaction (jnl w) of
                              Some t \<Rightarrow> (fst (u_jbdbf_log_start_commit w (t_tid (trs w t)) DSYNC_COMMIT), Some t)
                            | None \<Rightarrow> (w, j_committing_transaction (jnl w)));
          w \<leftarrow> (case trans of None \<Rightarrow> Some w | Some t \<Rightarrow> map_option fst (jbdbf_log_wait_commit k w (t_tid (trs w t))));
          w \<leftarrow> checkpoint_all k True w;
          if is_journal_aborted (jnl w) then Some (w, - EIO)
          else do { (w, _) \<leftarrow> jbdbf_cleanup_journal_tail w;
                    let old_tail = j_tail (jnl w);
                    let w = jbdbf_journal_update_superblock (upd_jnl (\<lambda>j. j\<lparr>j_tail := 0\<rparr>) w) True;
                    let w = upd_jnl (\<lambda>j. j\<lparr>j_tail := old_tail\<rparr>) w;
                    let j = jnl w;
                    j_assert (j_running_transaction j = None);
                    j_assert (j_committing_transaction j = None);
                    j_assert (j_checkpoint_transactions j = []);
                    j_assert (j_head j = j_tail j);
                    j_assert (j_tail_sequence j = j_transaction_bf_sequence j);
                    Some (w, 0) } }"

definition jbdbf_journal_destroy :: "kernel_env \<Rightarrow> world \<Rightarrow> (world \<times> int) option" where
  "jbdbf_journal_destroy k w =
     do { w \<leftarrow> journal_kill_thread k w;
          w \<leftarrow> (if j_running_transaction (jnl w) \<noteq> None then jbdbf_journal_commit_transaction k w else Some w);
          w \<leftarrow> checkpoint_all k False w;
          j_assert (j_running_transaction (jnl w) = None);
          j_assert (j_committing_transaction (jnl w) = None);
          j_assert (j_checkpoint_transactions (jnl w) = []);
          let (w, err) =
            (if j_sb_buffer (jnl w)
             then if \<not> is_journal_aborted (jnl w)
                  then (jbdbf_journal_update_superblock
                          (upd_jnl (\<lambda>j. j\<lparr>j_tail := 0, j_tail_sequence := j_transaction_bf_sequence j + 1,
                                          j_transaction_bf_sequence := j_transaction_bf_sequence j + 1\<rparr>) w) True, 0)
                  else (w, - EIO)
             else (w, 0));
          j \<leftarrow> (if j_revoke (jnl w) \<noteq> None then jbdbf_journal_destroy_revoke (jnl w) else Some (jnl w));
          Some (w\<lparr>jnl := j\<rparr>, err) }"

end
