(* ===== verification/Commit_Log.thy ===== *)
theory Commit_Log
  imports Log_Encoding Buffer_Lists Recovery_Correct Log_Space
begin

text \<open>
  The metadata phase of a commit writes a log that recovery can read: the blocks that
  write_metadata submits stand at consecutive positions of the ring and form descriptor items
  whose tags and data are those of the metadata buffers of the transaction, in order.
\<close>

section \<open>The disk after a sequence of requests\<close>

fun put_write :: "io_event \<Rightarrow> (dev \<Rightarrow> u64 \<Rightarrow> bytes) \<Rightarrow> dev \<Rightarrow> u64 \<Rightarrow> bytes" where
  "put_write (SubmitWrite d b data fua) disk = disk(d := (disk d)(b := data))"
| "put_write _ disk = disk"

definition disk_after :: "io_event list \<Rightarrow> (dev \<Rightarrow> u64 \<Rightarrow> bytes) \<Rightarrow> dev \<Rightarrow> u64 \<Rightarrow> bytes" where
  "disk_after evs disk = fold put_write evs disk"

lemma disk_after_append [simp]: "disk_after (xs @ ys) disk = disk_after ys (disk_after xs disk)"
  by (simp add: disk_after_def)

lemma disk_after_Nil [simp]: "disk_after [] disk = disk"
  by (simp add: disk_after_def)

text \<open>A block that no request writes keeps its contents.\<close>

lemma disk_after_untouched:
  assumes "\<And>data fua. SubmitWrite d b data fua \<notin> set evs"
  shows "disk_after evs disk d b = disk d b"
  using assms
proof (induction evs arbitrary: disk)
  case (Cons e evs)
  have "put_write e disk d b = disk d b"
  proof (cases e)
    case (SubmitWrite d' b' data fua)
    then have "\<not> (d' = d \<and> b' = b)" using Cons.prems by auto
    then show ?thesis using SubmitWrite by auto
  qed simp_all
  then show ?case using Cons by (simp add: disk_after_def)
qed simp

text \<open>Requests that write nothing.\<close>

definition no_writes :: "io_event list \<Rightarrow> bool" where
  "no_writes evs = (\<forall>d b data fua. SubmitWrite d b data fua \<notin> set evs)"

lemma no_writes_disk: "no_writes evs \<Longrightarrow> disk_after evs disk = disk"
  by (intro ext disk_after_untouched) (simp add: no_writes_def)

text \<open>Writing buffers one after the other.\<close>

definition writes_of :: "dev \<Rightarrow> (u64 \<times> bytes) list \<Rightarrow> io_event list" where
  "writes_of d bs = map (\<lambda>(b, data). SubmitWrite d b data False) bs"

lemma writes_of_Cons: "disk_after (writes_of d ((c, data) # bs)) disk = disk_after (writes_of d bs) (disk(d := (disk d)(c := data)))"
  by (simp add: writes_of_def disk_after_def)

lemma disk_after_other: "b \<notin> fst ` set bs \<Longrightarrow> disk_after (writes_of d bs) disk d b = disk d b"
proof (induction bs arbitrary: disk)
  case (Cons x xs)
  then show ?case by (cases x) (simp add: writes_of_Cons)
qed (simp add: writes_of_def)

lemma disk_after_written:
  "distinct (map fst bs) \<Longrightarrow> (b, data) \<in> set bs \<Longrightarrow> disk_after (writes_of d bs) disk d b = data"
proof (induction bs arbitrary: disk)
  case (Cons x xs)
  obtain c e where x: "x = (c, e)" by (cases x)
  show ?case
  proof (cases "(b, data) = (c, e)")
    case True
    then have "b \<notin> fst ` set xs" using Cons.prems x by simp
    then show ?thesis using True by (simp add: x writes_of_Cons disk_after_other)
  next
    case False
    then show ?thesis using Cons x by (auto simp: writes_of_Cons)
  qed
qed simp

section \<open>The log by index\<close>

text \<open>The address of the i-th block of the log from its head.\<close>

definition log_ix :: "kernel_env \<Rightarrow> journal \<Rightarrow> nat \<Rightarrow> u64" where
  "log_ix k j i = log_addr k j (adv j i (j_head j))"

lemma adv_dist:
  assumes "ring_ok j" "in_ring j p" "n < ring_size j"
  shows "ring_dist j p (adv j n p) = n"
proof -
  have "unat (adv j n p) = (if unat p + n < unat (j_last j) then unat p + n else unat p + n - ring_size j)"
    using wrap_add_nat [OF assms(1,2), of n] wrap_add_adv [OF assms(1,2), of n] assms(3) by simp
  then show ?thesis using assms(2,3) unfolding ring_dist_def in_ring_nat ring_size_def by auto
qed

lemma log_ix_inj:
  assumes "log_space_ok j" "bmap_ok k j" "m < ring_size j" "n < ring_size j" "log_ix k j m = log_ix k j n"
  shows "m = n"
proof -
  have r: "ring_ok j" "in_ring j (j_head j)" using assms(1) by (auto simp: log_space_ok_def)
  have "adv j m (j_head j) = adv j n (j_head j)"
    using assms(5) log_addr_inj [OF assms(2) adv_in_ring [OF r] adv_in_ring [OF r]] unfolding log_ix_def by blast
  then show ?thesis using adv_dist [OF r assms(3)] adv_dist [OF r assms(4)] by metis
qed

text \<open>An item at an index of the log, and a sequence of items from one index to another.\<close>

fun item_ix :: "journal \<Rightarrow> (nat \<Rightarrow> bytes) \<Rightarrow> u32 \<Rightarrow> nat \<Rightarrow> log_item \<Rightarrow> bool" where
  "item_ix j g seq i (LDesc tags datas) =
     (header (g i) seq JBD2_DESCRIPTOR_BLOCK \<and> tags_from j (g i) sizeof_header = tags \<and>
      length datas = length (filter journaled tags) \<and> (\<forall>m < length datas. datas ! m = g (i + Suc m)))"
| "item_ix j g seq i (LRevoke blocks) =
     (header (g i) seq JBD2_REVOKE_BLOCK \<and> sint (get_be32 (g i) 12) \<le> int (length (g i)) \<and> revoke_list j (g i) = blocks)"
| "item_ix j g seq i LCommit = header (g i) seq JBD2_COMMIT_BLOCK"

fun items_ix :: "journal \<Rightarrow> (nat \<Rightarrow> bytes) \<Rightarrow> u32 \<Rightarrow> nat \<Rightarrow> log_item list \<Rightarrow> nat \<Rightarrow> bool" where
  "items_ix j g seq i [] n = (i = n)"
| "items_ix j g seq i (it # its) n = (item_ix j g seq i it \<and> items_ix j g seq (i + item_len it) its n)"

lemma item_len_pos [simp]: "0 < item_len it"
  by (cases it) auto

lemma items_ix_le: "items_ix j g seq i its n \<Longrightarrow> i \<le> n"
  by (induction its arbitrary: i) (auto dest: add_leD1)

lemma item_ix_cong:
  "(\<And>m. m < i + item_len it \<Longrightarrow> g m = g' m) \<Longrightarrow> item_ix j g seq i it = item_ix j g' seq i it"
  by (cases it) auto

lemma items_ix_cong:
  "(\<And>m. m < n \<Longrightarrow> g m = g' m) \<Longrightarrow> items_ix j g seq i its n \<Longrightarrow> items_ix j g' seq i its n"
proof (induction its arbitrary: i)
  case (Cons it its)
  have c: "item_ix j g seq i it" "items_ix j g seq (i + item_len it) its n" using Cons.prems(2) by simp_all
  have "item_ix j g' seq i it" using item_ix_cong [of i it g g' j seq] c(1) Cons.prems(1) items_ix_le [OF c(2)] by simp
  then show ?case using Cons.IH [OF Cons.prems(1) c(2)] by simp
qed simp

lemma items_ix_append:
  "items_ix j g seq i its m \<Longrightarrow> item_ix j g seq m it \<Longrightarrow> items_ix j g seq i (its @ [it]) (m + item_len it)"
  by (induction its arbitrary: i) auto

section \<open>Taking log blocks\<close>

lemma advance_head_sel [simp]:
  "j_dev (advance_head j) = j_dev j" "j_blocksize (advance_head j) = j_blocksize j" "j_uuid (advance_head j) = j_uuid j"
  "j_flags (advance_head j) = j_flags j" "j_first (advance_head j) = j_first j" "j_last (advance_head j) = j_last j"
  "j_inode (advance_head j) = j_inode j" "j_maxlen (advance_head j) = j_maxlen j" "j_tail (advance_head j) = j_tail j"
  "j_wbufsize (advance_head j) = j_wbufsize j" "j_superblock (advance_head j) = j_superblock j"
  "j_format_version (advance_head j) = j_format_version j" "j_fs_dev (advance_head j) = j_fs_dev j"
  by (simp_all add: advance_head_def Let_def)

abbreviation advanced :: "nat \<Rightarrow> journal \<Rightarrow> journal" where
  "advanced n \<equiv> advance_head ^^ n"

lemma advanced_sel [simp]:
  "j_dev (advanced n j) = j_dev j" "j_blocksize (advanced n j) = j_blocksize j" "j_uuid (advanced n j) = j_uuid j"
  "j_flags (advanced n j) = j_flags j" "j_first (advanced n j) = j_first j" "j_last (advanced n j) = j_last j"
  "j_inode (advanced n j) = j_inode j" "j_maxlen (advanced n j) = j_maxlen j" "j_tail (advanced n j) = j_tail j"
  "j_wbufsize (advanced n j) = j_wbufsize j" "j_superblock (advanced n j) = j_superblock j"
  "j_format_version (advanced n j) = j_format_version j" "j_fs_dev (advanced n j) = j_fs_dev j"
  by (induction n) simp_all

lemma geometry_cong:
  assumes "j_first j' = j_first j" "j_last j' = j_last j"
  shows "in_ring j' = in_ring j" "ring_size j' = ring_size j" "adv j' n p = adv j n p"
proof -
  show "in_ring j' = in_ring j" "ring_size j' = ring_size j"
    using assms by (simp_all add: in_ring_def ring_size_def fun_eq_iff)
  have "wrap j' = wrap j" using assms by (simp add: wrap_def fun_eq_iff)
  then show "adv j' n p = adv j n p" by (induction n arbitrary: p) simp_all
qed

lemma advanced_geometry [simp]:
  "in_ring (advanced n j) = in_ring j" "ring_size (advanced n j) = ring_size j" "adv (advanced n j) i p = adv j i p"
  "log_addr k (advanced n j) = log_addr k j" "is_journal_aborted (advanced n j) = is_journal_aborted j"
  "bmap_ok k (advanced n j) = bmap_ok k j"
  using geometry_cong [of "advanced n j" j]
  by (simp_all add: log_addr_def fun_eq_iff is_journal_aborted_def bmap_ok_def)

lemma next_pos_wrap:
  assumes "ring_ok j" "in_ring j p"
  shows "next_pos j p = wrap j (p + 1)"
  using wrap_add_nat [OF assms, of 1] next_pos_nat [OF assms] assms(2) ring_bounds [OF assms(1)]
  by (auto simp: word_unat_eq_iff in_ring_nat ring_size_def)

lemma adv_Suc: "adv j (Suc n) p = wrap j (adv j n p + 1)"
  using adv_add [of j n 1 p] by simp

lemma advanced_ok:
  assumes "log_space_ok j" "n < unat (j_free j)"
  shows "log_space_ok (advanced n j) \<and> unat (j_free (advanced n j)) = unat (j_free j) - n \<and>
    j_head (advanced n j) = adv j n (j_head j)"
  using assms(2)
proof (induction n)
  case (Suc n)
  let ?j = "advanced n j"
  have IH: "log_space_ok ?j" "unat (j_free ?j) = unat (j_free j) - n" "j_head ?j = adv j n (j_head j)"
    using Suc by auto
  have "j_free ?j > 1" using IH(2) Suc.prems by (simp add: word_less_nat_alt)
  note a = advance_head_ok [OF IH(1) this]
  have r: "ring_ok j" "in_ring j (j_head j)" using assms(1) by (auto simp: log_space_ok_def)
  have "j_head (advance_head ?j) = next_pos j (j_head ?j)"
    by (simp add: advance_head_def next_pos_def Let_def)
  also have "\<dots> = adv j (Suc n) (j_head j)"
    unfolding IH(3) adv_Suc by (rule next_pos_wrap [OF r(1) adv_in_ring [OF r]])
  finally show ?case using a(1,4) IH(2) by simp
qed (use assms(1) in simp)

section \<open>Submitting the collected buffers\<close>

text \<open>The parts of the world that writing does not change.\<close>

definition same_log_state :: "world \<Rightarrow> world \<Rightarrow> bool" where
  "same_log_state w w' = (jnl w' = jnl w \<and> trs w' = trs w \<and> jhs w' = jhs w \<and> bcache w' = bcache w \<and>
     bh_next w' = bh_next w \<and> jh_next w' = jh_next w \<and>
     (\<forall>b. b_data (bhs w' b) = b_data (bhs w b) \<and> b_blocknr (bhs w' b) = b_blocknr (bhs w b) \<and>
       b_bdev (bhs w' b) = b_bdev (bhs w b) \<and> bh_jbd (bhs w' b) = bh_jbd (bhs w b) \<and>
       b_private (bhs w' b) = b_private (bhs w b) \<and> bh_jbddirty (bhs w' b) = bh_jbddirty (bhs w b) \<and>
       b_blocktype (bhs w' b) = b_blocktype (bhs w b) \<and> b_count (bhs w' b) = b_count (bhs w b)))"

lemma same_log_state_refl [simp]: "same_log_state w w"
  by (simp add: same_log_state_def)

lemma same_log_state_trans: "same_log_state w w' \<Longrightarrow> same_log_state w' w'' \<Longrightarrow> same_log_state w w''"
  by (simp add: same_log_state_def)

lemma submit_one_ok:
  assumes "\<not> bh_lock (bhs w b)" "b_bdev (bhs w b) = Some d"
  obtains w' c' where "submit_one k b (w, c) = (w', c')" "same_log_state w w'"
    "iolog w' = iolog w @ [SubmitWrite d (b_blocknr (bhs w b)) (b_data (bhs w b)) False]"
    "\<And>x. x \<noteq> b \<Longrightarrow> bhs w' x = bhs w x"
  using assms by (simp add: submit_one_def submit_log_buffer_def submit_bh_write_def wait_on_buffer_def same_log_state_def)

definition written_blocks :: "world \<Rightarrow> bptr list \<Rightarrow> (u64 \<times> bytes) list" where
  "written_blocks w bs = map (\<lambda>b. (b_blocknr (bhs w b), b_data (bhs w b))) bs"

lemma fold_submit_ok:
  assumes "distinct bs" "\<And>b. b \<in> set bs \<Longrightarrow> \<not> bh_lock (bhs w b) \<and> b_bdev (bhs w b) = Some d"
  shows "\<exists>w' c'. fold (submit_one k) bs (w, c) = (w', c') \<and> same_log_state w w' \<and>
    iolog w' = iolog w @ writes_of d (written_blocks w bs)"
  using assms
proof (induction bs arbitrary: w c)
  case (Cons b bs)
  obtain w1 c1 where w1: "submit_one k b (w, c) = (w1, c1)" "same_log_state w w1"
    "iolog w1 = iolog w @ [SubmitWrite d (b_blocknr (bhs w b)) (b_data (bhs w b)) False]"
    "\<And>x. x \<noteq> b \<Longrightarrow> bhs w1 x = bhs w x"
    using submit_one_ok [of w b d k c] Cons.prems(2) by auto
  have rest: "bhs w1 x = bhs w x" if "x \<in> set bs" for x
    by (rule w1(4)) (use that Cons.prems(1) in auto)
  then obtain w' c' where w': "fold (submit_one k) bs (w1, c1) = (w', c')" "same_log_state w1 w'"
    "iolog w' = iolog w1 @ writes_of d (written_blocks w1 bs)"
    using Cons.IH [of w1 c1] Cons.prems by auto
  have "written_blocks w1 bs = written_blocks w bs" using rest by (simp add: written_blocks_def)
  then show ?case
    using w1 w' same_log_state_trans [OF w1(2) w'(2)] by (simp add: writes_of_def written_blocks_def)
qed (simp add: writes_of_def written_blocks_def)

section \<open>What the commit relies on\<close>

text \<open>A block of the log that is not in use has no buffer, or one that no journal head refers to.\<close>

definition free_block :: "world \<Rightarrow> dev \<Rightarrow> u64 \<Rightarrow> bool" where
  "free_block w d b = (\<forall>bh. bcache w d b = Some bh \<longrightarrow> bh < bh_next w \<and> \<not> bh_jbd (bhs w bh) \<and>
     b_bdev (bhs w bh) = Some d \<and> b_blocknr (bhs w bh) = b \<and> 0 \<le> b_count (bhs w bh))"

definition log_base :: "kernel_env \<Rightarrow> tptr \<Rightarrow> world \<Rightarrow> nat \<Rightarrow> world \<Rightarrow> bool" where
  "log_base k t w0 n w = (lists_wf w \<and> (\<forall>jh. jh_next w \<le> jh \<longrightarrow> b_transaction (jhs w jh) = None) \<and>
     jnl w = advanced n (jnl w0) \<and> t_tid (trs w t) = t_tid (trs w0 t) \<and>
     (\<forall>i. n \<le> i \<and> i < ring_size (jnl w0) \<longrightarrow> free_block w (j_dev (jnl w0)) (log_ix k (jnl w0) i)))"

text \<open>A metadata buffer of the transaction that has not been logged yet.\<close>

definition to_log :: "world \<Rightarrow> world \<Rightarrow> jptr \<Rightarrow> bool" where
  "to_log w0 w jh = (let bh = b_bh (jhs w jh) in
     attached w jh \<and> jh < jh_next w \<and> bh < bh_next w \<and> bh_jbddirty (bhs w bh) \<and>
     logged_data w jh = logged_data w0 jh \<and> b_blocknr (bhs w bh) = b_blocknr (bhs w0 (b_bh (jhs w0 jh))))"

text \<open>A buffer that is to be written to index i of the log.\<close>

definition queued_at :: "kernel_env \<Rightarrow> world \<Rightarrow> world \<Rightarrow> nat \<Rightarrow> bptr \<Rightarrow> bool" where
  "queued_at k w0 w i b = (b_bdev (bhs w b) = Some (j_dev (jnl w0)) \<and> b_blocknr (bhs w b) = log_ix k (jnl w0) i \<and>
     \<not> bh_lock (bhs w b) \<and> bh_jbd (bhs w b) \<and> b < bh_next w)"

definition desc_ok :: "tptr \<Rightarrow> world \<Rightarrow> log_tag list \<Rightarrow> commit_state \<Rightarrow> bool" where
  "desc_ok t w0 ts s = (writing s ts \<and> header (desc_data s) (t_tid (trs w0 t)) JBD2_DESCRIPTOR_BLOCK \<and>
     c_tagp s = (if ts = [] then sizeof_header else 28 + 52 * length ts) \<and>
     c_space_left s = int (j_blocksize (jnl w0)) - int (c_tagp s) \<and>
     j_blocksize (jnl (c_world s)) = j_blocksize (jnl w0))"

definition opened :: "kernel_env \<Rightarrow> tptr \<Rightarrow> world \<Rightarrow> nat \<Rightarrow> log_tag list \<Rightarrow> commit_state \<Rightarrow> bool" where
  "opened k t w0 m ts s = (let w = c_world s; bs = c_wbuf s in
     c_descriptor s \<noteq> None \<and> bs \<noteq> [] \<and> hd bs = c_bh s \<and> distinct bs \<and>
     (\<forall>i < length bs. queued_at k w0 w (m + i) (bs ! i)) \<and>
     desc_ok t w0 ts s \<and> Suc (length (filter journaled ts)) = length bs \<and>
     (\<forall>jh \<in> set (t_buffers (trs w t)). b_bh (jhs w jh) \<notin> set bs))"

text \<open>The writes a descriptor stands for, undoing the escaping.\<close>

definition payload :: "nat \<Rightarrow> log_tag list \<Rightarrow> bytes list \<Rightarrow> (u64 \<times> bytes) list" where
  "payload bs ts datas = map (\<lambda>(t, d). (lt_block t, unescape bs (lt_flags t) d)) (zip (filter journaled ts) datas)"

definition last_marked :: "log_tag list \<Rightarrow> log_tag list" where
  "last_marked ts = butlast ts @ [set_last (last ts)]"

lemma set_last_sel [simp]:
  "lt_block (set_last t) = lt_block t" "lt_type (set_last t) = lt_type t" "lt_sum (set_last t) = lt_sum t"
  by (simp_all add: set_last_def)

lemma unescape_set_last: "unescape bs (lt_flags (set_last t)) d = unescape bs (lt_flags t) d"
proof -
  have "JBD2_FLAG_LAST_TAG AND JBD2_FLAG_ESCAPE = 0" by (simp add: JBD2_FLAG_LAST_TAG_def JBD2_FLAG_ESCAPE_def)
  then show ?thesis by (simp add: set_last_def unescape_def bit.conj_disj_distrib2)
qed

lemma last_marked_snoc [simp]: "last_marked (us @ [u]) = us @ [set_last u]"
  by (simp add: last_marked_def)

lemma payload_last_marked:
  assumes "ts \<noteq> []" "length datas = length (filter journaled ts)"
  shows "payload bs (last_marked ts) datas = payload bs ts datas"
    "length (filter journaled (last_marked ts)) = length (filter journaled ts)"
    "map (\<lambda>t. (lt_block t, lt_sum t)) (filter (\<lambda>t. \<not> journaled t) (last_marked ts)) =
     map (\<lambda>t. (lt_block t, lt_sum t)) (filter (\<lambda>t. \<not> journaled t) ts)"
proof -
  obtain us u where ts: "ts = us @ [u]" using assms(1) by (cases ts rule: rev_cases) auto
  show "length (filter journaled (last_marked ts)) = length (filter journaled ts)"
    "map (\<lambda>t. (lt_block t, lt_sum t)) (filter (\<lambda>t. \<not> journaled t) (last_marked ts)) =
     map (\<lambda>t. (lt_block t, lt_sum t)) (filter (\<lambda>t. \<not> journaled t) ts)"
    by (simp_all add: ts)
  show "payload bs (last_marked ts) datas = payload bs ts datas"
  proof (cases "journaled u")
    case True
    then obtain ds d where "datas = ds @ [d]" "length ds = length (filter journaled us)"
      using assms(2) by (cases datas rule: rev_cases) (auto simp: ts)
    then show ?thesis using True by (simp add: payload_def ts unescape_set_last)
  qed (simp add: payload_def ts)
qed

lemma free_block_jnl [simp]: "free_block (upd_jnl f w) = free_block w" "free_block (upd_tr t g w) = free_block w"
  "free_block (upd_jh jh h w) = free_block w"
  by (simp_all add: free_block_def fun_eq_iff)

text \<open>Updates of one buffer that keep its place.\<close>

lemma free_block_upd:
  assumes "\<And>x. bh_jbd (f x) = bh_jbd x \<and> b_bdev (f x) = b_bdev x \<and> b_blocknr (f x) = b_blocknr x \<and> b_count x \<le> b_count (f x)"
  shows "free_block w d c \<Longrightarrow> free_block (upd_bh b f w) d c"
  using assms by (auto simp: free_block_def upd_bh_def intro: order_trans)

lemma lists_wf_upd_bh [simp]: "lists_wf (upd_bh b f w) = lists_wf w"
  by (simp add: lists_wf_def)

lemma log_base_upd:
  assumes "\<And>x. bh_jbd (f x) = bh_jbd x \<and> b_bdev (f x) = b_bdev x \<and> b_blocknr (f x) = b_blocknr x \<and> b_count x \<le> b_count (f x)"
  shows "log_base k t w0 n w \<Longrightarrow> log_base k t w0 n (upd_bh b f w)"
  unfolding log_base_def using free_block_upd [OF assms] by simp

lemma to_log_upd:
  "b_bh (jhs w jh) \<noteq> b \<Longrightarrow> to_log w0 (upd_bh b f w) jh = to_log w0 w jh"
  by (simp add: to_log_def attached_def logged_data_def Let_def split: option.split)

lemma log_base_same: "same_log_state w w' \<Longrightarrow> log_base k t w0 n w \<Longrightarrow> log_base k t w0 n w'"
  unfolding log_base_def using lists_wf_cong [of w w']
  by (simp add: same_log_state_def free_block_def)

lemma to_log_same: "same_log_state w w' \<Longrightarrow> to_log w0 w' jh = to_log w0 w jh"
  by (simp add: same_log_state_def to_log_def attached_def logged_data_def Let_def split: option.split)

text \<open>The contents of the log at an index after some requests.\<close>

definition log_image :: "kernel_env \<Rightarrow> world \<Rightarrow> io_event list \<Rightarrow> nat \<Rightarrow> bytes" where
  "log_image k w0 evs i = disk_after evs (bdata w0) (j_dev (jnl w0)) (log_ix k (jnl w0) i)"

text \<open>Only the first n blocks of the free part of the log are written.\<close>

fun write_below :: "kernel_env \<Rightarrow> world \<Rightarrow> nat \<Rightarrow> io_event \<Rightarrow> bool" where
  "write_below k w0 n (SubmitWrite d b data fua) = (d = j_dev (jnl w0) \<and> (\<exists>i < n. b = log_ix k (jnl w0) i))"
| "write_below k w0 n _ = True"

definition log_writes :: "kernel_env \<Rightarrow> world \<Rightarrow> nat \<Rightarrow> io_event list \<Rightarrow> bool" where
  "log_writes k w0 n evs = list_all (write_below k w0 n) evs"

lemma write_below_mono: "write_below k w0 m e \<Longrightarrow> m \<le> n \<Longrightarrow> write_below k w0 n e"
  by (cases e) (auto intro: less_le_trans)

lemma log_writes_append:
  "log_writes k w0 m evs \<Longrightarrow> m \<le> n \<Longrightarrow> log_writes k w0 n evs' \<Longrightarrow> log_writes k w0 n (evs @ evs')"
  unfolding log_writes_def by (auto simp: list_all_iff intro: write_below_mono)

lemma no_writes_log:
  assumes "no_writes evs"
  shows "log_writes k w0 n evs"
proof -
  have "write_below k w0 n e" if "e \<in> set evs" for e
    using assms that by (cases e) (auto simp: no_writes_def)
  then show ?thesis by (simp add: log_writes_def list_all_iff)
qed

lemma log_image_beyond:
  assumes "log_writes k w0 n evs" "log_space_ok (jnl w0)" "bmap_ok k (jnl w0)" "n \<le> i" "i < ring_size (jnl w0)"
  shows "log_image k w0 evs i = bdata w0 (j_dev (jnl w0)) (log_ix k (jnl w0) i)"
  unfolding log_image_def
proof (rule disk_after_untouched)
  show "SubmitWrite (j_dev (jnl w0)) (log_ix k (jnl w0) i) data fua \<notin> set evs" for data fua
  proof
    assume "SubmitWrite (j_dev (jnl w0)) (log_ix k (jnl w0) i) data fua \<in> set evs"
    then obtain i' where "i' < n" "log_ix k (jnl w0) i = log_ix k (jnl w0) i'"
      using assms(1) by (fastforce simp: log_writes_def list_all_iff)
    then show False using log_ix_inj [OF assms(2,3), of i i'] assms(4,5) by simp
  qed
qed

lemma log_image_writes:
  assumes ok: "log_space_ok (jnl w0)" "bmap_ok k (jnl w0)" and n: "m + length bs \<le> ring_size (jnl w0)"
    and q: "\<And>i. i < length bs \<Longrightarrow> b_blocknr (bhs w (bs ! i)) = log_ix k (jnl w0) (m + i)"
    and evs': "evs' = evs @ writes_of (j_dev (jnl w0)) (written_blocks w bs)"
  shows "i < length bs \<Longrightarrow> log_image k w0 evs' (m + i) = b_data (bhs w (bs ! i))"
    and "i < m \<Longrightarrow> log_image k w0 evs' i = log_image k w0 evs i"
proof -
  have inj: "log_ix k (jnl w0) x = log_ix k (jnl w0) y \<Longrightarrow> x < m + length bs \<Longrightarrow> y < m + length bs \<Longrightarrow> x = y" for x y
    using log_ix_inj [OF ok, of x y] n by simp
  have fst: "map fst (written_blocks w bs) = map (\<lambda>i. log_ix k (jnl w0) (m + i)) [0..<length bs]"
    by (rule nth_equalityI) (simp_all add: written_blocks_def q)
  have "distinct (map fst (written_blocks w bs))"
    unfolding fst distinct_map by (auto intro!: inj_onI dest!: inj)
  then show "log_image k w0 evs' (m + i) = b_data (bhs w (bs ! i))" if "i < length bs"
    using disk_after_written [of "written_blocks w bs" "log_ix k (jnl w0) (m + i)" "b_data (bhs w (bs ! i))"] that q [OF that]
    unfolding log_image_def evs' disk_after_append
    by (metis (no_types, lifting) image_eqI list.set_map nth_mem written_blocks_def)
  have "log_ix k (jnl w0) i \<notin> fst ` set (written_blocks w bs)" if "i < m"
  proof -
    have "fst ` set (written_blocks w bs) = (\<lambda>i. log_ix k (jnl w0) (m + i)) ` {..<length bs}"
      using arg_cong [OF fst, of set] by (simp add: atLeast0LessThan)
    then show ?thesis using that by (auto dest!: inj)
  qed
  then show "log_image k w0 evs' i = log_image k w0 evs i" if "i < m"
    using that unfolding log_image_def evs' disk_after_append by (simp add: disk_after_other)
qed

section \<open>Closing a descriptor\<close>

text \<open>Writing a tag or the last-tag flag changes the contents of the descriptor only.\<close>

definition desc_step :: "commit_state \<Rightarrow> commit_state \<Rightarrow> bool" where
  "desc_step s s' = ((\<exists>d. c_world s' = upd_bh (c_bh s) (\<lambda>b. b\<lparr>b_data := d\<rparr>) (c_world s)) \<and> c_bh s' = c_bh s \<and>
     c_wbuf s' = c_wbuf s \<and> c_descriptor s' = c_descriptor s)"

lemma put_tag_desc: "put_tag block csum ty s = Some s' \<Longrightarrow> desc_step s s'"
  by (auto simp: put_tag_def desc_step_def Let_def upd_bh_def fun_upd_def split: Option.bind_splits)

lemma mark_last_desc:
  assumes "writing s ts" "ts \<noteq> []" "mark_last_tag s = Some s'"
  shows "desc_step s s'"
  using assms by (auto simp: mark_last_tag_def desc_step_def writing_def Let_def upd_bh_def fun_upd_def split: Option.bind_splits)

lemma desc_step_sel:
  assumes "desc_step s s'"
  shows "trs (c_world s') = trs (c_world s)" "jhs (c_world s') = jhs (c_world s)" "jnl (c_world s') = jnl (c_world s)"
    "iolog (c_world s') = iolog (c_world s)" "c_bh s' = c_bh s" "c_wbuf s' = c_wbuf s" "c_descriptor s' = c_descriptor s"
    "log_base k t w0 n (c_world s) \<Longrightarrow> log_base k t w0 n (c_world s')"
    "queued_at k w0 (c_world s') i b = queued_at k w0 (c_world s) i b"
    "b \<noteq> c_bh s \<Longrightarrow> bhs (c_world s') b = bhs (c_world s) b"
    "b_bh (jhs (c_world s) jh) \<noteq> c_bh s \<Longrightarrow> to_log w0 (c_world s') jh = to_log w0 (c_world s) jh"
proof -
  obtain d where d: "c_world s' = upd_bh (c_bh s) (\<lambda>b. b\<lparr>b_data := d\<rparr>) (c_world s)" "c_bh s' = c_bh s"
     "c_wbuf s' = c_wbuf s" "c_descriptor s' = c_descriptor s"
    using assms by (auto simp: desc_step_def)
  show "trs (c_world s') = trs (c_world s)" "jhs (c_world s') = jhs (c_world s)" "jnl (c_world s') = jnl (c_world s)"
    "iolog (c_world s') = iolog (c_world s)" "c_bh s' = c_bh s" "c_wbuf s' = c_wbuf s" "c_descriptor s' = c_descriptor s"
    "queued_at k w0 (c_world s') i b = queued_at k w0 (c_world s) i b"
    "b \<noteq> c_bh s \<Longrightarrow> bhs (c_world s') b = bhs (c_world s) b"
    by (simp_all add: d queued_at_def)
  show "log_base k t w0 n (c_world s) \<Longrightarrow> log_base k t w0 n (c_world s')" unfolding d(1) by (rule log_base_upd) simp_all
  show "to_log w0 (c_world s') jh = to_log w0 (c_world s) jh" if "b_bh (jhs (c_world s) jh) \<noteq> c_bh s"
    unfolding d(1) by (rule to_log_upd [OF that])
qed

lemma header_agree: "agree sizeof_header b b' \<Longrightarrow> header b seq ty = header b' seq ty"
  by (simp add: header_def get_be32_agree size_defs)

definition copies :: "commit_state \<Rightarrow> bytes list" where
  "copies s = map (\<lambda>b. b_data (bhs (c_world s) b)) (tl (c_wbuf s))"

lemma openedD:
  assumes "opened k t w0 m ts s"
  shows "c_wbuf s \<noteq> []" "c_wbuf s ! 0 = c_bh s" "distinct (c_wbuf s)"
    "i < length (c_wbuf s) \<Longrightarrow> queued_at k w0 (c_world s) (m + i) (c_wbuf s ! i)"
    "writing s ts" "header (desc_data s) (t_tid (trs w0 t)) JBD2_DESCRIPTOR_BLOCK"
    "Suc (length (filter journaled ts)) = length (c_wbuf s)"
    "jh \<in> set (t_buffers (trs (c_world s) t)) \<Longrightarrow> b_bh (jhs (c_world s) jh) \<notin> set (c_wbuf s)"
    "jh \<in> set (t_buffers (trs (c_world s) t)) \<Longrightarrow> b_bh (jhs (c_world s) jh) \<noteq> c_bh s"
proof -
  show "c_wbuf s \<noteq> []" "c_wbuf s ! 0 = c_bh s" "distinct (c_wbuf s)"
    "i < length (c_wbuf s) \<Longrightarrow> queued_at k w0 (c_world s) (m + i) (c_wbuf s ! i)"
    "writing s ts" "header (desc_data s) (t_tid (trs w0 t)) JBD2_DESCRIPTOR_BLOCK"
    "Suc (length (filter journaled ts)) = length (c_wbuf s)"
    "jh \<in> set (t_buffers (trs (c_world s) t)) \<Longrightarrow> b_bh (jhs (c_world s) jh) \<notin> set (c_wbuf s)"
    using assms by (auto simp: opened_def desc_ok_def Let_def hd_conv_nth)
  then show "jh \<in> set (t_buffers (trs (c_world s) t)) \<Longrightarrow> b_bh (jhs (c_world s) jh) \<noteq> c_bh s"
    by (metis length_greater_0_conv nth_mem)
qed

text \<open>If the log holds the collected buffers, the descriptor is an item of it.\<close>

lemma opened_item:
  assumes op: "opened k t w0 m ts s" "ts \<noteq> []" and bs: "j_blocksize (jnl (c_world s)) = j_blocksize (jnl w0)"
    and s1: "mark_last_tag s = Some s1"
    and img: "\<And>i. i < length (c_wbuf s) \<Longrightarrow> img (m + i) = b_data (bhs (c_world s1) (c_wbuf s ! i))"
  shows "item_ix (jnl w0) img (t_tid (trs w0 t)) m (LDesc (last_marked ts) (copies s))"
proof -
  note o = openedD [OF op(1)]
  note d = desc_step_sel [OF mark_last_desc [OF o(5) op(2) s1]]
  obtain us u where ts: "ts = us @ [u]" using op(2) by (cases ts rule: rev_cases) auto
  have m: "tag_step s s1" "tags_from (jnl (c_world s1)) (desc_data s1) sizeof_header = last_marked ts"
    using mark_last_writing [of s us u] o(5) ts s1 by auto
  have "length (copies s) = length (filter journaled (last_marked ts))"
    using o(7) by (cases "journaled u") (simp_all add: copies_def ts)
  moreover have "img m = desc_data s1" using img [of 0] o(1,2) d(5) by simp
  moreover have "header (desc_data s1) (t_tid (trs w0 t)) JBD2_DESCRIPTOR_BLOCK"
    using m(1) o(6) header_agree by (auto simp: tag_step_def)
  moreover have "tags_from (jnl w0) (desc_data s1) sizeof_header = last_marked ts"
    using m(2) tags_from_blocksize [of "jnl (c_world s1)" "jnl w0"] bs d(3) by simp
  moreover have "copies s ! i = img (m + Suc i)" if "i < length (copies s)" for i
  proof -
    have i: "Suc i < length (c_wbuf s)" "tl (c_wbuf s) ! i = c_wbuf s ! Suc i" using that by (auto simp: copies_def nth_tl)
    have "c_wbuf s ! Suc i \<noteq> c_bh s"
      using nth_eq_iff_index_eq [OF o(3), of "Suc i" 0] i(1) o(1,2) by auto
    then show ?thesis using img [OF i(1)] d(10) that i(2) by (simp add: copies_def)
  qed
  ultimately show ?thesis by simp
qed

lemma flush_ok:
  assumes base: "log_base k t w0 n (c_world s)" and op: "opened k t w0 m ts s" "ts \<noteq> []" "n = m + length (c_wbuf s)"
    and its: "items_ix (jnl w0) (log_image k w0 evs) (t_tid (trs w0 t)) 0 its m"
    and ok: "log_space_ok (jnl w0)" "bmap_ok k (jnl w0)" "n \<le> ring_size (jnl w0)"
    and evs: "iolog (c_world s) = iolog w0 @ evs"
    and rm: "\<forall>jh \<in> set (t_buffers (trs (c_world s) t)). to_log w0 (c_world s) jh" and lw: "log_writes k w0 m evs"
  shows "\<exists>s' evs'. map_option (start_journal_io k) (mark_last_tag s) = Some s' \<and> c_descriptor s' = None \<and> c_wbuf s' = [] \<and>
    log_base k t w0 n (c_world s') \<and> iolog (c_world s') = iolog w0 @ evs' \<and> trs (c_world s') = trs (c_world s) \<and>
    items_ix (jnl w0) (log_image k w0 evs') (t_tid (trs w0 t)) 0 (its @ [LDesc (last_marked ts) (copies s)]) n \<and>
    (\<forall>jh \<in> set (t_buffers (trs (c_world s) t)). to_log w0 (c_world s') jh) \<and> log_writes k w0 n evs'"
proof -
  let ?bs = "c_wbuf s" and ?dev = "j_dev (jnl w0)"
  note o = openedD [OF op(1)]
  obtain s1 where s1: "mark_last_tag s = Some s1"
    using mark_last_writing [of s "butlast ts" "last ts"] o(5) op(2) by auto
  note d = desc_step_sel [OF mark_last_desc [OF o(5) op(2) s1]]
  have q1: "queued_at k w0 (c_world s1) (m + i) (?bs ! i)" if "i < length ?bs" for i using o(4) [OF that] d(9) by simp
  then have "\<not> bh_lock (bhs (c_world s1) b) \<and> b_bdev (bhs (c_world s1) b) = Some ?dev" if "b \<in> set ?bs" for b
    using that by (auto simp: in_set_conv_nth queued_at_def)
  then obtain w' c' where w': "fold (submit_one k) ?bs (c_world s1, c_crc32_sum s1) = (w', c')" "same_log_state (c_world s1) w'"
    "iolog w' = iolog (c_world s1) @ writes_of ?dev (written_blocks (c_world s1) ?bs)"
    using fold_submit_ok [OF o(3)] by metis
  define s' where "s' = start_journal_io k s1"
  define evs' where "evs' = evs @ writes_of ?dev (written_blocks (c_world s1) ?bs)"
  have s': "c_world s' = w'" "c_descriptor s' = None" "c_wbuf s' = []"
    using w'(1) d(6) by (simp_all add: s'_def start_journal_io_def)
  have n: "m + length ?bs \<le> ring_size (jnl w0)" using op(3) ok(3) by simp
  have place: "\<And>i. i < length ?bs \<Longrightarrow> b_blocknr (bhs (c_world s1) (?bs ! i)) = log_ix k (jnl w0) (m + i)"
    using q1 by (simp add: queued_at_def)
  note img = log_image_writes [OF ok(1,2) n place evs'_def]
  have "j_blocksize (jnl (c_world s)) = j_blocksize (jnl w0)" using base by (simp add: log_base_def)
  from opened_item [OF op(1,2) this s1 img(1)]
  have "item_ix (jnl w0) (log_image k w0 evs') (t_tid (trs w0 t)) m (LDesc (last_marked ts) (copies s))" by simp
  moreover have "items_ix (jnl w0) (log_image k w0 evs') (t_tid (trs w0 t)) 0 its m"
    by (rule items_ix_cong [OF _ its]) (simp add: img(2))
  moreover have "m + item_len (LDesc (last_marked ts) (copies s)) = n" using op(3) o(1) by (simp add: copies_def)
  ultimately have "items_ix (jnl w0) (log_image k w0 evs') (t_tid (trs w0 t)) 0 (its @ [LDesc (last_marked ts) (copies s)]) n"
    using items_ix_append by metis
  moreover have "log_base k t w0 n w'" by (rule log_base_same [OF w'(2)]) (use base d(8) in simp)
  moreover have "\<forall>jh \<in> set (t_buffers (trs (c_world s) t)). to_log w0 w' jh"
    using rm o(9) d(11) to_log_same [OF w'(2)] by simp
  moreover have "iolog w' = iolog w0 @ evs'" using w'(3) d(4) evs by (simp add: evs'_def)
  moreover have "trs w' = trs (c_world s)" using w'(2) d(1) by (simp add: same_log_state_def)
  moreover have "log_writes k w0 n evs'"
  proof -
    have "\<exists>i < n. b_blocknr (bhs (c_world s1) b) = log_ix k (jnl w0) i" if b: "b \<in> set ?bs" for b
    proof -
      obtain i where "i < length ?bs" "b = ?bs ! i" using b by (auto simp: in_set_conv_nth)
      then show ?thesis using place [of i] op(3) by (intro exI [of _ "m + i"]) simp
    qed
    then have "log_writes k w0 n (writes_of ?dev (written_blocks (c_world s1) ?bs))"
      by (simp add: log_writes_def list_all_iff writes_of_def written_blocks_def)
    then show ?thesis unfolding evs'_def using log_writes_append [OF lw] op(3) by simp
  qed
  ultimately show ?thesis using s1(1) s' by (auto simp: s'_def)
qed

section \<open>Tags of data blocks\<close>

text \<open>Steps on the open descriptor that leave everything else in place.\<close>

definition carry :: "kernel_env \<Rightarrow> tptr \<Rightarrow> world \<Rightarrow> commit_state \<Rightarrow> commit_state \<Rightarrow> bool" where
  "carry k t w0 s s' = (let w = c_world s; w' = c_world s' in
     c_wbuf s' = c_wbuf s \<and> c_bh s' = c_bh s \<and> c_descriptor s' = c_descriptor s \<and> iolog w' = iolog w \<and> jhs w' = jhs w \<and>
     t_buffers (trs w' t) = t_buffers (trs w t) \<and> (\<forall>n. log_base k t w0 n w \<longrightarrow> log_base k t w0 n w') \<and>
     (\<forall>i b. queued_at k w0 w i b \<longrightarrow> queued_at k w0 w' i b) \<and> (\<forall>b. b \<noteq> c_bh s \<longrightarrow> b_data (bhs w' b) = b_data (bhs w b)) \<and>
     (\<forall>jh. b_bh (jhs w jh) \<noteq> c_bh s \<longrightarrow> to_log w0 w jh \<longrightarrow> to_log w0 w' jh))"

lemma carryD:
  assumes "carry k t w0 s s'"
  shows "c_wbuf s' = c_wbuf s" "c_bh s' = c_bh s" "c_descriptor s' = c_descriptor s" "iolog (c_world s') = iolog (c_world s)"
    "jhs (c_world s') = jhs (c_world s)" "t_buffers (trs (c_world s') t) = t_buffers (trs (c_world s) t)"
    "log_base k t w0 n (c_world s) \<Longrightarrow> log_base k t w0 n (c_world s')"
    "queued_at k w0 (c_world s) i b \<Longrightarrow> queued_at k w0 (c_world s') i b"
    "b \<noteq> c_bh s \<Longrightarrow> b_data (bhs (c_world s') b) = b_data (bhs (c_world s) b)"
    "b_bh (jhs (c_world s) jh) \<noteq> c_bh s \<Longrightarrow> to_log w0 (c_world s) jh \<Longrightarrow> to_log w0 (c_world s') jh"
  using assms unfolding carry_def Let_def by blast+

lemma carry_refl [simp]: "carry k t w0 s s"
  by (simp add: carry_def Let_def)

lemma carry_trans: "carry k t w0 s s' \<Longrightarrow> carry k t w0 s' s'' \<Longrightarrow> carry k t w0 s s''"
  by (simp add: carry_def Let_def)

lemma desc_step_carry: "desc_step s s' \<Longrightarrow> carry k t w0 s s'"
  using desc_step_sel [of s s'] by (simp add: carry_def Let_def)

lemma t_list_data_tags [simp]: "t_list l (tr\<lparr>t_data_tag_list := ds\<rparr>) = t_list l tr"
  by (cases l) simp_all

lemma data_tags_carry:
  "carry k t w0 s (s\<lparr>c_world := upd_tr t (\<lambda>tr. tr\<lparr>t_data_tag_list := ds\<rparr>) (c_world s)\<rparr>)"
proof -
  let ?f = "\<lambda>tr. tr\<lparr>t_data_tag_list := ds\<rparr>"
  have "lists_wf w \<Longrightarrow> lists_wf (upd_tr t ?f w)" for w
    by (erule lists_wf_cong) simp_all
  then show ?thesis
    by (simp add: carry_def log_base_def free_block_def queued_at_def to_log_def attached_def logged_data_def Let_def
        split: option.split)
qed

lemma desc_ok_upd_tr [simp]:
  "desc_ok t w0 ts (s\<lparr>c_world := upd_tr t' f (c_world s)\<rparr>) = desc_ok t w0 ts s"
  by (simp add: desc_ok_def)

lemma put_tag_ok:
  assumes d: "desc_ok t w0 ts s" and room: "c_tagp s + 52 + (if ts = [] then 16 else 0) \<le> j_blocksize (jnl w0)"
  shows "\<exists>s'. put_tag block csum ty (s\<lparr>c_flags := f\<rparr>) = Some s' \<and>
    desc_ok t w0 (ts @ [req_tag (ts = []) (f, block, csum, ty)]) s' \<and> desc_step s s' \<and> c_flags s' = f"
proof -
  have a: "writing s ts" "c_tagp s = (if ts = [] then sizeof_header else 28 + 52 * length ts)"
    "c_space_left s = int (j_blocksize (jnl w0)) - int (c_tagp s)" "j_blocksize (jnl (c_world s)) = j_blocksize (jnl w0)"
    "header (desc_data s) (t_tid (trs w0 t)) JBD2_DESCRIPTOR_BLOCK"
    using d by (auto simp: desc_ok_def)
  have r: "c_tagp s + JBD2_TAG_SIZE64 + (if ts = [] then 16 else 0) \<le> j_blocksize (jnl (c_world s))"
    using room a(4) by (simp add: size_defs)
  obtain s' where s': "put_tag block csum ty (s\<lparr>c_flags := f\<rparr>) = Some s'"
    "writing s' (ts @ [req_tag (ts = []) (f, block, csum, ty)])" "tag_step s s'"
    "c_tagp s' = c_tagp s + JBD2_TAG_SIZE64 + (if ts = [] then 16 else 0)"
    "c_space_left s' + int (c_tagp s') = c_space_left s + int (c_tagp s)" "c_flags s' = f"
    using put_tag_writing [OF a(1) r, of block csum ty f] by blast
  have "desc_step s s'" using put_tag_desc [OF s'(1)] by (simp add: desc_step_def)
  moreover have "header (desc_data s') (t_tid (trs w0 t)) JBD2_DESCRIPTOR_BLOCK"
    using s'(3) a(5) header_agree by (auto simp: tag_step_def)
  moreover have "c_tagp s' = 28 + 52 * length (ts @ [req_tag (ts = []) (f, block, csum, ty)])"
    using s'(4) a(2) by (simp add: size_defs del: req_tag.simps split: if_splits)
  moreover have "j_blocksize (jnl (c_world s')) = j_blocksize (jnl w0)" using s'(3) a(4) by (simp add: tag_step_def)
  moreover have "c_space_left s' = int (j_blocksize (jnl w0)) - int (c_tagp s')" using s'(5) a(3) by simp
  ultimately show ?thesis
    using s'(1,2,6) unfolding desc_ok_def by (intro exI [of _ s']) (simp del: req_tag.simps)
qed

definition data_tags :: "log_tag list \<Rightarrow> (u64 \<times> u32) list" where
  "data_tags ts = map (\<lambda>t. (lt_block t, lt_sum t)) (filter (\<lambda>t. \<not> journaled t) ts)"

definition entry_pair :: "data_tag \<Rightarrow> u64 \<times> u32" where
  "entry_pair e = (dt_blocknr e, crc32_data_sum e)"

lemma data_tags_append [simp]: "data_tags (ts @ us) = data_tags ts @ data_tags us"
  by (simp add: data_tags_def)

text \<open>
  The data tags that fit are added; block sizes for which a metadata tag fits after data tags
  that fitted, among them 1 KiB and 4 KiB, are the ones where less than a UUID is left over.
\<close>

definition tags_fit :: "nat \<Rightarrow> bool" where
  "tags_fit bs = (1024 \<le> bs \<and> (bs - 28) mod 52 < 16)"

lemma tags_fit_room:
  assumes "tags_fit bs" "28 + 52 * n + 16 \<le> bs"
  shows "28 + 52 * n + 52 \<le> bs"
proof -
  define a r where "a = (bs - 28) div 52" and "r = (bs - 28) mod 52"
  have "bs = 28 + 52 * a + r" "r < 16" using assms(1) by (auto simp: tags_fit_def a_def r_def)
  moreover from this have "n < a" using assms(2) by linarith
  ultimately show ?thesis by linarith
qed

lemma data_tag_req: "data_tags [req_tag first (f, block, csum, T_BLOCKTYPE_NEWLYAPPENDEDDATA)] = [(block, csum)]"
  "filter journaled [req_tag first (f, block, csum, T_BLOCKTYPE_NEWLYAPPENDEDDATA)] = []"
  by (simp_all add: data_tags_def)

lemma tag_room_nat:
  "desc_ok t w0 ts s \<Longrightarrow> tag_room s \<longleftrightarrow> c_tagp s + 68 \<le> j_blocksize (jnl w0)"
  by (auto simp: desc_ok_def tag_room_def journal_tag_bytes_def size_defs)

lemma put_data_tags_ok:
  assumes fit: "tags_fit (j_blocksize (jnl w0))" and d: "desc_ok t w0 ts s"
    and start: "ts \<noteq> [] \<longrightarrow> c_tagp s + 52 \<le> j_blocksize (jnl w0)" and ds: "t_data_tag_list (trs (c_world s) t) = ds"
  shows "\<exists>s' us es rest. put_data_tags t ds s = Some (s', rest = []) \<and> ds = es @ rest \<and> desc_ok t w0 (ts @ us) s' \<and>
    carry k t w0 s s' \<and> filter journaled us = [] \<and> data_tags us = map entry_pair es \<and> length us = length es \<and>
    t_data_tag_list (trs (c_world s') t) = rest \<and> (rest \<noteq> [] \<longrightarrow> \<not> tag_room s') \<and>
    (ts @ us \<noteq> [] \<longrightarrow> c_tagp s' + 52 \<le> j_blocksize (jnl w0))"
  using d start ds
proof (induction ds arbitrary: s ts)
  case Nil
  then show ?case by (intro exI [of _ s] exI [of _ "[]"]) (simp add: data_tags_def)
next
  case (Cons e ds)
  let ?bs = "j_blocksize (jnl w0)"
  show ?case
  proof (cases "tag_room s")
    case False
    then show ?thesis using Cons.prems
      by (intro exI [of _ s] exI [of _ "[]"] exI [of _ "[]"] exI [of _ "e # ds"]) (simp add: data_tags_def)
  next
    case True
    have r: "c_tagp s + 52 + (if ts = [] then 16 else 0) \<le> ?bs" using True tag_room_nat [OF Cons.prems(1)] by auto
    let ?q = "req_tag (ts = []) (c_flags s, dt_blocknr e, crc32_data_sum e, T_BLOCKTYPE_NEWLYAPPENDEDDATA)"
    obtain s1 where s1: "put_tag (dt_blocknr e) (crc32_data_sum e) T_BLOCKTYPE_NEWLYAPPENDEDDATA s = Some s1"
      "desc_ok t w0 (ts @ [?q]) s1" "desc_step s s1"
      using put_tag_ok [OF Cons.prems(1) r, of "dt_blocknr e" "crc32_data_sum e" T_BLOCKTYPE_NEWLYAPPENDEDDATA "c_flags s"]
      by (auto simp del: req_tag.simps)
    let ?s2 = "s1\<lparr>c_world := upd_tr t (\<lambda>tr. tr\<lparr>t_data_tag_list := ds\<rparr>) (c_world s1)\<rparr>"
    have d2: "desc_ok t w0 (ts @ [?q]) ?s2" using s1(2) by simp
    have tp: "c_tagp ?s2 = 28 + 52 * Suc (length ts)" using s1(2) by (simp add: desc_ok_def del: req_tag.simps)
    have "28 + 52 * Suc (length ts) + 16 \<le> ?bs"
      using True tag_room_nat [OF Cons.prems(1)] Cons.prems(1) fit by (auto simp: desc_ok_def tags_fit_def split: if_splits)
    from tags_fit_room [OF fit this] have st: "c_tagp ?s2 + 52 \<le> ?bs" using tp by simp
    obtain s' us es rest where IH: "put_data_tags t ds ?s2 = Some (s', rest = [])" "ds = es @ rest"
      "desc_ok t w0 ((ts @ [?q]) @ us) s'" "carry k t w0 ?s2 s'" "filter journaled us = []" "data_tags us = map entry_pair es"
      "length us = length es" "t_data_tag_list (trs (c_world s') t) = rest" "rest \<noteq> [] \<longrightarrow> \<not> tag_room s'" "c_tagp s' + 52 \<le> ?bs"
      using Cons.IH [OF d2] st by (auto simp del: req_tag.simps)
    have "carry k t w0 s s'"
      using carry_trans [OF carry_trans [OF desc_step_carry [OF s1(3)] data_tags_carry] IH(4)] .
    moreover have "data_tags (?q # us) = map entry_pair (e # es)" "filter journaled (?q # us) = []"
      using IH(5,6) data_tag_req by (simp_all add: data_tags_def entry_pair_def)
    moreover have "put_data_tags t (e # ds) s = Some (s', rest = [])" using True s1(1) IH(1) by simp
    ultimately show ?thesis
      using IH(2,3,7-10) by (intro exI [of _ s'] exI [of _ "?q # us"] exI [of _ "e # es"] exI [of _ rest]) (simp del: req_tag.simps)
  qed
qed

section \<open>Opening a descriptor\<close>

lemma getblk_ok:
  assumes "free_block w d b" "\<not> k_getblk_null k d b"
  obtains w1 bh where "u_getblk k d b w = (w1, Some bh)" "b_bdev (bhs w1 bh) = Some d" "b_blocknr (bhs w1 bh) = b"
    "\<not> bh_jbd (bhs w1 bh)" "0 < b_count (bhs w1 bh)" "bh < bh_next w1" "bh_next w \<le> bh_next w1"
    "jnl w1 = jnl w" "trs w1 = trs w" "jhs w1 = jhs w" "iolog w1 = iolog w" "jh_next w1 = jh_next w"
    "\<forall>x. x \<noteq> bh \<longrightarrow> bhs w1 x = bhs w x" "bcache w1 = (bcache w)(d := (bcache w d)(b \<mapsto> bh))"
    "bh < bh_next w \<longrightarrow> \<not> bh_jbd (bhs w bh) \<and> b_blocknr (bhs w bh) = b"
proof (cases "bcache w d b")
  case None
  show ?thesis
    by (rule that [of "(upd_bh (bh_next w) (\<lambda>_. zero_bh\<lparr>b_blocknr := b, b_bdev := Some d, b_count := 1, bh_mapped := True\<rparr>) w)
        \<lparr>bh_next := bh_next w + 1, bcache := (bcache w)(d := (bcache w d)(b \<mapsto> bh_next w))\<rparr>" "bh_next w"])
      (use None assms(2) in \<open>simp_all add: u_getblk_def u_find_get_block_def Let_def zero_bh_def\<close>)
next
  case (Some bh)
  have "bh < bh_next w" "\<not> bh_jbd (bhs w bh)" "b_bdev (bhs w bh) = Some d" "b_blocknr (bhs w bh) = b" "0 \<le> b_count (bhs w bh)"
    using assms(1) Some by (auto simp: free_block_def)
  then show ?thesis
    by (intro that [of "get_bh bh w" bh])
      (use Some in \<open>simp_all add: u_getblk_def u_find_get_block_def get_bh_def fun_upd_idem\<close>)
qed

lemma add_head_ok:
  assumes "\<not> bh_jbd (bhs w bh)" "0 < b_count (bhs w bh)"
  obtains w' where "jbdbf_journal_add_journal_bf_head w bh = Some (w', jh_next w)" "jh_next w' = Suc (jh_next w)"
    "jhs w' = (jhs w)(jh_next w := zero_jh\<lparr>b_bh := bh, b_jcount := 1\<rparr>)" "trs w' = trs w" "jnl w' = jnl w" "iolog w' = iolog w"
    "bcache w' = bcache w" "bh_next w' = bh_next w" "\<forall>x. x \<noteq> bh \<longrightarrow> bhs w' x = bhs w x"
    "bhs w' bh = (bhs w bh)\<lparr>bh_jbd := True, b_private := Some (jh_next w), b_count := b_count (bhs w bh) + 1\<rparr>"
  using assms by (simp add: jbdbf_journal_add_journal_bf_head_def j_assert_def get_bh_def zero_jh_def Let_def)

lemma wait_no_writes: "\<exists>evs. iolog (wait_on_buffer k b w) = iolog w @ evs \<and> no_writes evs"
  by (auto simp: wait_on_buffer_def Let_def no_writes_def split: option.split)

lemma wait_sel2:
  "jnl (wait_on_buffer k b w) = jnl w" "trs (wait_on_buffer k b w) = trs w" "jhs (wait_on_buffer k b w) = jhs w"
  "bcache (wait_on_buffer k b w) = bcache w" "bh_next (wait_on_buffer k b w) = bh_next w" "jh_next (wait_on_buffer k b w) = jh_next w"
  "x \<noteq> b \<Longrightarrow> bhs (wait_on_buffer k b w) x = bhs w x" "\<not> bh_lock (bhs (wait_on_buffer k b w) b)"
  "b_bdev (bhs (wait_on_buffer k b w) b) = b_bdev (bhs w b)" "b_blocknr (bhs (wait_on_buffer k b w) b) = b_blocknr (bhs w b)"
  "bh_jbd (bhs (wait_on_buffer k b w) b) = bh_jbd (bhs w b)" "b_count (bhs (wait_on_buffer k b w) b) = b_count (bhs w b)"
  by (simp_all add: wait_on_buffer_def Let_def split: option.split)

text \<open>The conditions on the journal and the environment that hold throughout.\<close>

definition log_env_ok :: "kernel_env \<Rightarrow> world \<Rightarrow> bool" where
  "log_env_ok k w0 = (let j = jnl w0 in log_valid k w0 \<and> \<not> is_journal_aborted j \<and> length (j_uuid j) = 16 \<and> tags_fit (j_blocksize j) \<and>
     (\<forall>b. \<not> k_getblk_null k (j_dev j) b) \<and> (\<forall>w. k_alloc_ok k w))"

lemma log_base_next:
  assumes env: "log_env_ok k w0" and base: "log_base k t w0 n w" and n: "Suc n < log_free w0"
  shows "jbdbf_journal_next_log_block k w = Some (upd_jnl advance_head w, Inr (log_ix k (jnl w0) n))"
    "log_base k t w0 (Suc n) (upd_jnl advance_head w)" "free_block w (j_dev (jnl w0)) (log_ix k (jnl w0) n)"
    "n < ring_size (jnl w0)"
proof -
  have v: "log_space_ok (jnl w0)" "bmap_ok k (jnl w0)" using env by (auto simp: log_env_ok_def log_valid_def Let_def)
  have j: "jnl w = advanced n (jnl w0)" using base by (simp add: log_base_def)
  have a: "log_space_ok (advanced n (jnl w0))" "unat (j_free (advanced n (jnl w0))) = log_free w0 - n"
    "j_head (advanced n (jnl w0)) = adv (jnl w0) n (j_head (jnl w0))"
    using advanced_ok [OF v(1), of n] n by (auto simp: log_free_def)
  have "log_valid k w" "1 < log_free w" using a v(2) n by (auto simp: log_valid_def j log_free_def)
  from next_log_block_ok [OF this]
  show "jbdbf_journal_next_log_block k w = Some (upd_jnl advance_head w, Inr (log_ix k (jnl w0) n))"
    by (simp add: j a(3) log_ix_def)
  have "log_free w0 \<le> ring_size (jnl w0)" using v(1) by (auto simp: log_space_ok_def log_free_def)
  then show m: "n < ring_size (jnl w0)" using n by simp
  show "free_block w (j_dev (jnl w0)) (log_ix k (jnl w0) n)" using base m by (simp add: log_base_def)
  have "lists_wf (upd_jnl advance_head w) = lists_wf w" by (simp add: lists_wf_def)
  then show "log_base k t w0 (Suc n) (upd_jnl advance_head w)"
    using base by (auto simp: log_base_def j)
qed

text \<open>A new journal head on a buffer that has none.\<close>

lemma log_base_new_head:
  assumes base: "log_base k t w0 n w" and jhs: "jhs w' = (jhs w)(jh_next w := zero_jh\<lparr>b_bh := bh, b_jcount := c\<rparr>)"
    and sel: "trs w' = trs w" "jnl w' = jnl w" "jh_next w' = Suc (jh_next w)"
    and free: "\<And>i. n \<le> i \<Longrightarrow> i < ring_size (jnl w0) \<Longrightarrow> free_block w' (j_dev (jnl w0)) (log_ix k (jnl w0) i)"
  shows "log_base k t w0 n w'"
proof -
  have b: "lists_wf w" "b_transaction (jhs w (jh_next w)) = None" using base by (auto simp: log_base_def)
  have "lists_wf w'"
    by (rule lists_wf_cong [OF b(1)]) (use b lists_wf_None [OF b] in \<open>simp_all add: jhs sel zero_jh_def\<close>)
  then show ?thesis using base free by (simp add: log_base_def jhs sel zero_jh_def)
qed

lemma to_log_new_head:
  assumes "to_log w0 w jh" "jhs w' = (jhs w)(jh_next w := x)" "b_bh (jhs w jh) \<noteq> bh \<Longrightarrow> bhs w' (b_bh (jhs w jh)) = bhs w (b_bh (jhs w jh))"
    "b_bh (jhs w jh) \<noteq> bh" "jh_next w \<le> jh_next w'" "bh_next w \<le> bh_next w'"
  shows "to_log w0 w' jh"
proof -
  have "jh \<noteq> jh_next w" using assms(1) by (auto simp: to_log_def Let_def)
  then show ?thesis using assms by (simp add: to_log_def attached_def logged_data_def Let_def split: option.splits)
qed

lemma get_descriptor_ok:
  assumes env: "log_env_ok k w0" and base: "log_base k t w0 n w" and n: "Suc n < log_free w0"
  obtains w' bh evs where "jbdbf_journal_get_descriptor_buffer k w = Some (w', Some (jh_next w))"
    "log_base k t w0 (Suc n) w'" "queued_at k w0 w' n bh" "jhs w' = (jhs w)(jh_next w := zero_jh\<lparr>b_bh := bh, b_jcount := 1\<rparr>)"
    "b_data (bhs w' bh) = replicate (j_blocksize (jnl w0)) 0" "b_private (bhs w' bh) = Some (jh_next w)"
    "trs w' = trs w" "iolog w' = iolog w @ evs" "no_writes evs" "jh_next w' = Suc (jh_next w)"
    "\<And>jh. to_log w0 w jh \<Longrightarrow> to_log w0 w' jh \<and> b_bh (jhs w jh) \<noteq> bh"
proof -
  let ?d = "j_dev (jnl w0)" and ?b = "log_ix k (jnl w0) n"
  note nx = log_base_next [OF env base n]
  let ?w1 = "upd_jnl advance_head w"
  have d1: "j_dev (jnl ?w1) = ?d" "j_blocksize (jnl ?w1) = j_blocksize (jnl w0)" using base by (simp_all add: log_base_def)
  have fb: "free_block ?w1 ?d ?b" "\<not> k_getblk_null k ?d ?b" using nx(3) env by (auto simp: log_env_ok_def Let_def)
  obtain w2 bh where g: "u_getblk k ?d ?b ?w1 = (w2, Some bh)" "b_bdev (bhs w2 bh) = Some ?d" "b_blocknr (bhs w2 bh) = ?b"
    "\<not> bh_jbd (bhs w2 bh)" "0 < b_count (bhs w2 bh)" "bh < bh_next w2" "bh_next ?w1 \<le> bh_next w2"
    "jnl w2 = jnl ?w1" "trs w2 = trs ?w1" "jhs w2 = jhs ?w1" "iolog w2 = iolog ?w1" "jh_next w2 = jh_next ?w1"
    "\<forall>x. x \<noteq> bh \<longrightarrow> bhs w2 x = bhs ?w1 x" "bcache w2 = (bcache ?w1)(?d := (bcache ?w1 ?d)(?b \<mapsto> bh))"
    "bh < bh_next ?w1 \<longrightarrow> \<not> bh_jbd (bhs ?w1 bh) \<and> b_blocknr (bhs ?w1 bh) = ?b"
    using getblk_ok [OF fb] .
  let ?z = "\<lambda>b. b\<lparr>b_data := replicate (j_blocksize (jnl w0)) 0, bh_uptodate := True\<rparr>"
  define w3 where "w3 = upd_bh bh ?z (wait_on_buffer k bh w2)"
  have w3: "\<not> bh_jbd (bhs w3 bh)" "0 < b_count (bhs w3 bh)" "\<not> bh_lock (bhs w3 bh)" "b_bdev (bhs w3 bh) = Some ?d" "b_blocknr (bhs w3 bh) = ?b"
    "b_data (bhs w3 bh) = replicate (j_blocksize (jnl w0)) 0" "jh_next w3 = jh_next w" "jhs w3 = jhs w" "trs w3 = trs w" "jnl w3 = jnl ?w1"
    "bh_next w3 = bh_next w2" "bcache w3 = bcache w2" "\<And>x. x \<noteq> bh \<Longrightarrow> bhs w3 x = bhs w x"
    using g by (simp_all add: w3_def wait_sel2)
  obtain evs where evs: "iolog w3 = iolog w @ evs" "no_writes evs"
    using wait_no_writes [of k bh w2] g(11) by (auto simp: w3_def)
  obtain w' where h: "jbdbf_journal_add_journal_bf_head w3 bh = Some (w', jh_next w3)" "jh_next w' = Suc (jh_next w3)"
    "jhs w' = (jhs w3)(jh_next w3 := zero_jh\<lparr>b_bh := bh, b_jcount := 1\<rparr>)" "trs w' = trs w3" "jnl w' = jnl w3" "iolog w' = iolog w3"
    "bcache w' = bcache w3" "bh_next w' = bh_next w3" "\<forall>x. x \<noteq> bh \<longrightarrow> bhs w' x = bhs w3 x"
    "bhs w' bh = (bhs w3 bh)\<lparr>bh_jbd := True, b_private := Some (jh_next w3), b_count := b_count (bhs w3 bh) + 1\<rparr>"
    using add_head_ok [OF w3(1,2)] .
  have other: "x \<noteq> bh \<Longrightarrow> bhs w' x = bhs w x" for x using h(9) w3(13) by simp
  have run: "jbdbf_journal_get_descriptor_buffer k w = Some (w', Some (jh_next w))"
    using nx(1) g(1) h(1) w3(7) d1 g(8) by (simp add: jbdbf_journal_get_descriptor_buffer_def w3_def)
  have "free_block w' ?d (log_ix k (jnl w0) i)" if i: "Suc n \<le> i" "i < ring_size (jnl w0)" for i
  proof -
    have ne: "log_ix k (jnl w0) i \<noteq> ?b" using log_ix_inj [of "jnl w0" k i n] env i nx(4) by (auto simp: log_env_ok_def log_valid_def Let_def)
    have fb: "free_block w ?d (log_ix k (jnl w0) i)" using base i by (simp add: log_base_def)
    have "x \<noteq> bh" if "bcache w ?d (log_ix k (jnl w0) i) = Some x" for x
      using fb that g(15) ne by (auto simp: free_block_def)
    then show ?thesis using fb other ne g(7,14) w3(11,12) h(7,8) by (fastforce simp: free_block_def)
  qed
  then have "log_base k t w0 (Suc n) w'"
    using log_base_new_head [OF nx(2), where w' = w' and bh = bh and c = 1] h w3 by simp
  moreover have "queued_at k w0 w' n bh" using h(8,10) w3(3-5,11) g(6) by (simp add: queued_at_def)
  moreover have "to_log w0 w' jh \<and> b_bh (jhs w jh) \<noteq> bh" if "to_log w0 w jh" for jh
  proof -
    have ne: "b_bh (jhs w jh) \<noteq> bh" using that g(15) by (auto simp: to_log_def attached_def Let_def)
    then show ?thesis using to_log_new_head [OF that _ other ne] h(2,3,8) w3 g(7) by simp
  qed
  ultimately show ?thesis using that [OF run] h w3(6-9) evs by simp
qed

lemma upd_t_list_data_tags [simp]: "t_data_tag_list (upd_t_list l f tr) = t_data_tag_list tr"
  by (cases l; simp)

lemma file_buffer_tr:
  "u_jbdbf_journal_file_buffer w jh t l = Some w' \<Longrightarrow>
   t_tid (trs w' x) = t_tid (trs w x) \<and> t_data_tag_list (trs w' x) = t_data_tag_list (trs w x)"
  by (auto simp: u_jbdbf_journal_file_buffer_def u_jbdbf_journal_temp_unlink_buffer_def jbdbf_journal_grab_journal_bf_head_def
      take_dirty_def dirty_bit_defs Let_def split: if_splits Option.bind_splits option.splits)

lemma file_ok:
  assumes base: "log_base k t w0 n w" and jh: "attached w jh" "jh < jh_next w" "l \<noteq> BJ_None"
    and tr: "b_transaction (jhs w jh) = Some t \<or> b_transaction (jhs w jh) = None"
  obtains w' where "u_jbdbf_journal_file_buffer w jh t l = Some w'" "filed w jh t l w'" "frame w w'" "log_base k t w0 n w'"
    "t_data_tag_list (trs w' t) = t_data_tag_list (trs w t)"
    "\<And>x. x \<noteq> jh \<Longrightarrow> to_log w0 w x \<Longrightarrow> to_log w0 w' x"
proof -
  have wf: "lists_wf w" using base by (simp add: log_base_def)
  obtain w' where w': "u_jbdbf_journal_file_buffer w jh t l = Some w'" "filed w jh t l w'"
    using file_buffer_ok [OF wf jh(1,3) tr] by blast
  note fr = file_frame [OF w'(1)] and trs = file_buffer_tr [OF w'(1)]
  have f: "lists_wf w'" "jhs w' = (jhs w)(jh := (jhs w jh)\<lparr>b_transaction := Some t, b_jlist := l,
        b_jcount := b_jcount (jhs w jh) + (if b_transaction (jhs w jh) = None then 1 else 0)\<rparr>)"
    "\<And>b. b \<noteq> b_bh (jhs w jh) \<Longrightarrow> bhs w' b = bhs w b" "\<And>b. bh_jbd (bhs w' b) = bh_jbd (bhs w b)"
    "\<And>b. b_private (bhs w' b) = b_private (bhs w b)"
    using w'(2) by (auto simp: filed_def)
  have "free_block w' d b" if "free_block w d b" for d b
  proof -
    have "x \<noteq> b_bh (jhs w jh)" if "bcache w d b = Some x" for x
      using \<open>free_block w d b\<close> that jh(1) by (auto simp: free_block_def attached_def)
    then show ?thesis using that f(3) frame_sel [OF fr] by (simp add: free_block_def)
  qed
  then have "log_base k t w0 n w'"
    using base f(1,2) trs frame_sel [OF fr] jh(2) by (auto simp: log_base_def)
  moreover have "to_log w0 w' x" if "x \<noteq> jh" "to_log w0 w x" for x
  proof -
    have "b_bh (jhs w x) \<noteq> b_bh (jhs w jh)" using attached_inj [OF _ jh(1)] that by (auto simp: to_log_def Let_def)
    then show ?thesis using that f frame_sel [OF fr]
      by (simp add: to_log_def attached_def logged_data_def Let_def split: option.splits)
  qed
  ultimately show ?thesis using that [OF w' fr] trs by blast
qed

lemma opened_carry:
  assumes o: "opened k t w0 m ts s" and c: "carry k t w0 s s'" and d: "desc_ok t w0 (ts @ us) s'" "filter journaled us = []"
  shows "opened k t w0 m (ts @ us) s'"
  using o c d by (simp add: opened_def carry_def Let_def)

end
