(* ===== verification/Commit_Loop.thy ===== *)
theory Commit_Loop
  imports Commit_Log
begin

text \<open>
  The loop over the metadata buffers: each iteration keeps the invariant that the log holds
  complete descriptor items up to the open descriptor, and the loop ends with every buffer
  and every data tag in the log.
\<close>

section \<open>Opening a descriptor with the data tags\<close>

lemma writing_start:
  assumes "length (desc_data s) = j_blocksize (jnl (c_world s))" "length (j_uuid (jnl (c_world s))) = 16"
    "c_tagp s = sizeof_header" "c_first_tag s" "sizeof_header \<le> j_blocksize (jnl (c_world s))"
  shows "writing s []"
  using assms by (simp add: writing_def Let_def)

lemma header_put: "12 \<le> length b \<Longrightarrow> header (put_header ty seq b) seq ty"
  by (simp add: header_def put_header_def layout_simps)

lemma length_put_header [simp]: "length (put_header ty seq b) = length b"
  by (simp add: put_header_def)

lemma queued_at_frame:
  "frame w w' \<Longrightarrow> bh_jbd (bhs w' b) = bh_jbd (bhs w b) \<Longrightarrow> queued_at k w0 w' i b = queued_at k w0 w i b"
  by (simp add: queued_at_def frame_bh frame_sel)

lemma filed_buffers:
  assumes "filed w jh t l w'" "l \<noteq> BJ_Metadata" "placed w jh \<noteq> Some (t, l)"
  shows "t_buffers (trs w' t') = remove1 jh (t_buffers (trs w t'))"
  using assms unfolding t_buffers_list filed_def by simp

text \<open>The state between two descriptors.\<close>

definition closed :: "kernel_env \<Rightarrow> tptr \<Rightarrow> world \<Rightarrow> nat \<Rightarrow> commit_state \<Rightarrow> bool" where
  "closed k t w0 n s = (c_descriptor s = None \<and> c_wbuf s = [] \<and> log_base k t w0 n (c_world s) \<and>
     (\<forall>jh \<in> set (t_buffers (trs (c_world s) t)). to_log w0 (c_world s) jh))"

text \<open>The descriptor before any tag is written.\<close>

definition desc_start :: "commit_state \<Rightarrow> world \<Rightarrow> jptr \<Rightarrow> bptr \<Rightarrow> commit_state" where
  "desc_start s w d bh = s\<lparr>c_world := w, c_descriptor := Some d, c_wbuf := [bh], c_bh := bh, c_tagp := sizeof_header,
     c_space_left := int (j_blocksize (jnl w)) - int sizeof_header, c_first_tag := True\<rparr>"

lemma new_descriptor_ok:
  assumes env: "log_env_ok k w0" and cl: "closed k t w0 n s" and n: "Suc n < log_free w0"
  shows "\<exists>w d bh evs. open_descriptor k t s =
      do { (s, fitted) \<leftarrow> put_data_tags t (t_data_tag_list (trs w t)) (desc_start s w d bh); Some (s, Some fitted) } \<and>
    opened k t w0 n [] (desc_start s w d bh) \<and> log_base k t w0 (Suc n) w \<and> iolog w = iolog (c_world s) @ evs \<and> no_writes evs \<and>
    t_data_tag_list (trs w t) = t_data_tag_list (trs (c_world s) t) \<and> t_buffers (trs w t) = t_buffers (trs (c_world s) t) \<and>
    (\<forall>jh \<in> set (t_buffers (trs (c_world s) t)). to_log w0 w jh)"
proof -
  let ?w = "c_world s" and ?bs = "j_blocksize (jnl w0)"
  have c: "c_wbuf s = []" "log_base k t w0 n ?w" "\<And>jh. jh \<in> set (t_buffers (trs ?w t)) \<Longrightarrow> to_log w0 ?w jh"
    using cl by (auto simp: closed_def)
  have env': "1024 \<le> ?bs" "length (j_uuid (jnl w0)) = 16" using env by (auto simp: log_env_ok_def tags_fit_def Let_def)
  obtain w1 bh evs where w1: "jbdbf_journal_get_descriptor_buffer k ?w = Some (w1, Some (jh_next ?w))"
    "log_base k t w0 (Suc n) w1" "queued_at k w0 w1 n bh" "jhs w1 = (jhs ?w)(jh_next ?w := zero_jh\<lparr>b_bh := bh, b_jcount := 1\<rparr>)"
    "b_data (bhs w1 bh) = replicate ?bs 0" "b_private (bhs w1 bh) = Some (jh_next ?w)"
    "trs w1 = trs ?w" "iolog w1 = iolog ?w @ evs" "no_writes evs" "jh_next w1 = Suc (jh_next ?w)"
    "\<And>jh. to_log w0 ?w jh \<Longrightarrow> to_log w0 w1 jh \<and> b_bh (jhs ?w jh) \<noteq> bh"
    using get_descriptor_ok [OF env c(2) n] by metis
  let ?d = "jh_next ?w" and ?hdr = "put_header JBD2_DESCRIPTOR_BLOCK (t_tid (trs w1 t)) (replicate ?bs 0)"
  let ?f = "\<lambda>b. b\<lparr>b_data := put_header JBD2_DESCRIPTOR_BLOCK (t_tid (trs w1 t)) (b_data b), bh_jwrite := True, bh_dirty := True\<rparr>"
  define w2 where "w2 = upd_bh bh ?f w1"
  have base2: "log_base k t w0 (Suc n) w2" unfolding w2_def by (rule log_base_upd [OF _ w1(2)]) simp
  have d2: "attached w2 ?d" "?d < jh_next w2" "b_transaction (jhs w2 ?d) = None" "b_bh (jhs w2 ?d) = bh"
    using w1(3,4,6,10) by (simp_all add: w2_def attached_def queued_at_def zero_jh_def)
  obtain w3 where w3: "u_jbdbf_journal_file_buffer w2 ?d t BJ_LogCtl = Some w3" "filed w2 ?d t BJ_LogCtl w3" "frame w2 w3"
    "log_base k t w0 (Suc n) w3" "t_data_tag_list (trs w3 t) = t_data_tag_list (trs w2 t)"
    "\<And>x. x \<noteq> ?d \<Longrightarrow> to_log w0 w2 x \<Longrightarrow> to_log w0 w3 x"
    using file_ok [OF base2 d2(1,2), of BJ_LogCtl] d2(3) by auto
  let ?s = "desc_start s w3 ?d bh"
  have jn: "jnl w3 = advanced (Suc n) (jnl w0)" using w3(4) by (simp add: log_base_def)
  have data: "b_data (bhs w3 bh) = ?hdr" using frame_bh(1) [OF w3(3)] w1(5) by (simp add: w2_def)
  have bs: "j_blocksize (jnl w3) = ?bs" "length (j_uuid (jnl w3)) = 16" "t_tid (trs w1 t) = t_tid (trs w0 t)"
    using jn env' w1(2) by (simp_all add: log_base_def)
  have dok: "desc_ok t w0 [] ?s"
    using data bs env' header_put [of "replicate ?bs 0"] by (simp add: desc_ok_def desc_start_def writing_def Let_def size_defs)
  have "bh_jbd (bhs w3 bh) = bh_jbd (bhs w2 bh)" "queued_at k w0 w2 n bh"
    using w3(2) w1(3) by (simp_all add: filed_def queued_at_def w2_def)
  then have q: "queued_at k w0 w3 n bh" using queued_at_frame [OF w3(3)] by simp
  have bufs: "t_buffers (trs w3 t) = t_buffers (trs ?w t)"
  proof -
    have "?d \<notin> set (t_buffers (trs ?w t))"
      using c(3) by (auto simp: to_log_def Let_def)
    moreover have "t_buffers (trs w3 t) = remove1 ?d (t_buffers (trs w2 t))"
      by (rule filed_buffers [OF w3(2)]) (simp_all add: placed_def d2(3))
    ultimately show ?thesis using w1(7) by (simp add: w2_def remove1_idem)
  qed
  have tl: "to_log w0 w3 jh \<and> b_bh (jhs w3 jh) \<noteq> bh" if "jh \<in> set (t_buffers (trs ?w t))" for jh
  proof -
    have ne: "jh \<noteq> ?d" using c(3) [OF that] by (auto simp: to_log_def Let_def)
    have "to_log w0 w2 jh" unfolding w2_def using w1(11) [OF c(3) [OF that]] w1(4) ne by (subst to_log_upd) auto
    then show ?thesis using w3(6) ne w1(11) [OF c(3) [OF that]] w1(4) frame_sel(1) [OF w3(3)] by (simp add: w2_def)
  qed
  have sel: "c_world ?s = w3" "c_wbuf ?s = [bh]" "c_bh ?s = bh" "c_descriptor ?s = Some ?d" by (simp_all add: desc_start_def)
  have "opened k t w0 n [] ?s" using dok q tl bufs unfolding opened_def Let_def sel by simp
  moreover have "open_descriptor k t s =
      do { (s, fitted) \<leftarrow> put_data_tags t (t_data_tag_list (trs w3 t)) ?s; Some (s, Some fitted) }"
    using c(1) w1(1) d2(4) w3(1) by (simp add: open_descriptor_def jbdbf_journal_file_buffer_def w2_def desc_start_def j_assert_def)
  moreover have "t_data_tag_list (trs w3 t) = t_data_tag_list (trs ?w t)" "iolog w3 = iolog ?w @ evs"
    using w3(5) w1(7,8) frame_sel(3) [OF w3(3)] by (simp_all add: w2_def)
  moreover have "\<forall>jh \<in> set (t_buffers (trs ?w t)). to_log w0 w3 jh" using tl by blast
  ultimately show ?thesis using w3(4) w1(9) bufs by (intro exI [of _ w3] exI [of _ ?d] exI [of _ bh] exI [of _ evs] conjI)
qed

lemma open_descriptor_ok:
  assumes env: "log_env_ok k w0" and cl: "closed k t w0 n s" and n: "Suc n < log_free w0"
  shows "\<exists>s' us es rest evs. open_descriptor k t s = Some (s', Some (rest = [])) \<and> opened k t w0 n us s' \<and> filter journaled us = [] \<and>
    length (c_wbuf s') = 1 \<and> log_base k t w0 (Suc n) (c_world s') \<and> t_data_tag_list (trs (c_world s) t) = es @ rest \<and>
    data_tags us = map entry_pair es \<and> length us = length es \<and> t_data_tag_list (trs (c_world s') t) = rest \<and>
    (rest \<noteq> [] \<longrightarrow> \<not> tag_room s') \<and>
    c_tagp s' + 52 + (if us = [] then 16 else 0) \<le> j_blocksize (jnl w0) \<and>
    t_buffers (trs (c_world s') t) = t_buffers (trs (c_world s) t) \<and>
    (\<forall>jh \<in> set (t_buffers (trs (c_world s) t)). to_log w0 (c_world s') jh) \<and>
    iolog (c_world s') = iolog (c_world s) @ evs \<and> no_writes evs"
proof -
  let ?bs = "j_blocksize (jnl w0)"
  have fit: "tags_fit ?bs" using env by (auto simp: log_env_ok_def Let_def)
  obtain w d bh evs where nd: "open_descriptor k t s =
      do { (s, fitted) \<leftarrow> put_data_tags t (t_data_tag_list (trs w t)) (desc_start s w d bh); Some (s, Some fitted) }"
    "opened k t w0 n [] (desc_start s w d bh)" "log_base k t w0 (Suc n) w" "iolog w = iolog (c_world s) @ evs" "no_writes evs"
    "t_data_tag_list (trs w t) = t_data_tag_list (trs (c_world s) t)" "t_buffers (trs w t) = t_buffers (trs (c_world s) t)"
    "\<And>jh. jh \<in> set (t_buffers (trs (c_world s) t)) \<Longrightarrow> to_log w0 w jh"
    using new_descriptor_ok [OF env cl n] by (elim exE conjE) (rule that; (assumption | erule (1) bspec))
  let ?s1 = "desc_start s w d bh"
  have s1: "c_world ?s1 = w" "c_wbuf ?s1 = [bh]" by (simp_all add: desc_start_def)
  have d1: "desc_ok t w0 [] ?s1" using nd(2) by (simp add: opened_def Let_def)
  have "[] \<noteq> [] \<longrightarrow> c_tagp ?s1 + 52 \<le> ?bs" "t_data_tag_list (trs (c_world ?s1) t) = t_data_tag_list (trs w t)"
    using s1(1) by simp_all
  note pd = put_data_tags_ok [OF fit d1 this, where k = k, unfolded append_Nil]
  obtain s' us es rest where p: "put_data_tags t (t_data_tag_list (trs w t)) ?s1 = Some (s', rest = [])"
    "t_data_tag_list (trs w t) = es @ rest" "desc_ok t w0 us s'" "carry k t w0 ?s1 s'" "filter journaled us = []"
    "data_tags us = map entry_pair es" "length us = length es" "t_data_tag_list (trs (c_world s') t) = rest"
    "rest \<noteq> [] \<longrightarrow> \<not> tag_room s'" "us \<noteq> [] \<longrightarrow> c_tagp s' + 52 \<le> ?bs"
    using pd by (elim exE conjE) (rule that; assumption)
  have "opened k t w0 n us s'" using opened_carry [OF nd(2) p(4), of us] p(3,5) by simp
  moreover have "c_tagp s' + 52 + (if us = [] then 16 else 0) \<le> ?bs"
    using p(3,10) fit by (auto simp: desc_ok_def tags_fit_def size_defs)
  moreover have c: "c_wbuf s' = [bh]" "log_base k t w0 (Suc n) (c_world s')" "iolog (c_world s') = iolog w"
    "t_buffers (trs (c_world s') t) = t_buffers (trs w t)"
    using carryD [OF p(4)] nd(3) s1 by simp_all
  moreover have "to_log w0 (c_world s') jh" if "jh \<in> set (t_buffers (trs (c_world s) t))" for jh
  proof -
    have "b_bh (jhs w jh) \<noteq> c_bh ?s1" using openedD(9) [OF nd(2), of jh] that nd(7) s1 by simp
    then show ?thesis using carryD(10) [OF p(4), of jh] nd(8) [OF that] s1 by simp
  qed
  moreover have "open_descriptor k t s = Some (s', Some (rest = []))" using nd(1) p(1) by simp
  ultimately show ?thesis using p nd(4-7) by (intro exI [of _ s'] exI [of _ us] exI [of _ es] exI [of _ rest] exI [of _ evs]) simp
qed

section \<open>Copying a buffer to the log\<close>

definition escaped :: "bytes \<Rightarrow> bytes" where
  "escaped data = (if get_be32 data 0 = JBD2_MAGIC_NUMBER then put_be32 0 0 data else data)"

lemma new_copy_base:
  assumes "log_base k t w0 n w"
  obtains w1 where "new_copy w = Some (w1, bh_next w, jh_next w)" "log_base k t w0 n w1"
    "jhs w1 = (jhs w)(jh_next w := zero_jh\<lparr>b_bh := bh_next w, b_jcount := 1\<rparr>)" "trs w1 = trs w" "jnl w1 = jnl w" "iolog w1 = iolog w"
    "jh_next w1 = Suc (jh_next w)" "bh_next w1 = Suc (bh_next w)" "\<forall>x. x \<noteq> bh_next w \<longrightarrow> bhs w1 x = bhs w x"
    "bhs w1 (bh_next w) = zero_bh\<lparr>bh_jbd := True, b_private := Some (jh_next w), b_count := 2\<rparr>" "bcache w1 = bcache w"
proof -
  let ?n = "bh_next w"
  let ?w = "(upd_bh ?n (\<lambda>_. zero_bh\<lparr>b_count := 1\<rparr>) w)\<lparr>bh_next := ?n + 1\<rparr>"
  have "\<not> bh_jbd (bhs ?w ?n)" "0 < b_count (bhs ?w ?n)" by (simp_all add: zero_bh_def)
  then obtain w1 where h: "jbdbf_journal_add_journal_bf_head ?w ?n = Some (w1, jh_next ?w)" "jh_next w1 = Suc (jh_next ?w)"
    "jhs w1 = (jhs ?w)(jh_next ?w := zero_jh\<lparr>b_bh := ?n, b_jcount := 1\<rparr>)" "trs w1 = trs ?w" "jnl w1 = jnl ?w" "iolog w1 = iolog ?w"
    "bcache w1 = bcache ?w" "bh_next w1 = bh_next ?w" "\<forall>x. x \<noteq> ?n \<longrightarrow> bhs w1 x = bhs ?w x"
    "bhs w1 ?n = (bhs ?w ?n)\<lparr>bh_jbd := True, b_private := Some (jh_next ?w), b_count := b_count (bhs ?w ?n) + 1\<rparr>"
    by (rule add_head_ok)
  have "free_block w1 (j_dev (jnl w0)) (log_ix k (jnl w0) i)" if "n \<le> i" "i < ring_size (jnl w0)" for i
  proof -
    have "free_block w (j_dev (jnl w0)) (log_ix k (jnl w0) i)" using assms that by (simp add: log_base_def)
    then show ?thesis using h(7-9) by (auto simp: free_block_def)
  qed
  then have "log_base k t w0 n w1"
    using log_base_new_head [OF assms, where w' = w1 and bh = ?n and c = 1] h by simp
  moreover have "new_copy w = Some (w1, ?n, jh_next w)" using h(1) by (simp add: new_copy_def Let_def)
  ultimately show ?thesis using h by (intro that [of w1]) (simp_all add: zero_bh_def)
qed

lemma log_base_frozen: "log_base k t w0 n (upd_jh jh (\<lambda>h. h\<lparr>b_frozen_data := d\<rparr>) w) = log_base k t w0 n w"
proof -
  let ?w = "upd_jh jh (\<lambda>h. h\<lparr>b_frozen_data := d\<rparr>) w"
  have f: "b_transaction (jhs ?w x) = b_transaction (jhs w x)" "b_jlist (jhs ?w x) = b_jlist (jhs w x)" for x by simp_all
  have "lists_wf ?w = lists_wf w" unfolding lists_wf_def f by simp
  then show ?thesis unfolding log_base_def f by (simp add: free_block_def)
qed

text \<open>The two journal heads before they are filed.\<close>

definition copied :: "world \<Rightarrow> jptr \<Rightarrow> u64 \<Rightarrow> dev \<Rightarrow> world \<Rightarrow> bool" where
  "copied w jh c d w' = (trs w' = trs w \<and> jnl w' = jnl w \<and> iolog w' = iolog w \<and> jh_next w' = Suc (jh_next w) \<and> bh_next w' = Suc (bh_next w) \<and>
     (\<forall>x. x \<noteq> jh \<longrightarrow> x \<noteq> jh_next w \<longrightarrow> jhs w' x = jhs w x) \<and> (\<forall>b. b \<noteq> bh_next w \<longrightarrow> bhs w' b = bhs w b) \<and>
     (\<exists>f. jhs w' jh = (jhs w jh)\<lparr>b_frozen_data := f\<rparr>) \<and>
     jhs w' (jh_next w) = zero_jh\<lparr>b_bh := bh_next w, b_jcount := 1\<rparr> \<and>
     (let b = bhs w' (bh_next w) in b_data b = escaped (logged_data w jh) \<and> b_blocknr b = c \<and> b_bdev b = Some d \<and> \<not> bh_lock b \<and>
       bh_jbd b \<and> b_private b = Some (jh_next w)))"

lemma copy_start:
  assumes base: "log_base k t w0 n w" and lg: "to_log w0 w jh" and alloc: "\<forall>w. k_alloc_ok k w"
  obtains w' flags where "jbdbf_journal_write_metadata_buffer k w t jh c =
      do { w2 \<leftarrow> u_jbdbf_journal_file_buffer w' jh t BJ_Shadow; w3 \<leftarrow> u_jbdbf_journal_file_buffer w2 (jh_next w) t BJ_IO;
           Some (w3, Inr (jh_next w, flags)) }"
    "flags mod 2 = 1 \<longleftrightarrow> get_be32 (logged_data w jh) 0 = JBD2_MAGIC_NUMBER" "log_base k t w0 n w'" "copied w jh c (j_dev (jnl w)) w'"
proof -
  let ?nb = "bh_next w" and ?nj = "jh_next w" and ?d = "logged_data w jh"
  have t: "jh \<noteq> ?nj" "b_bh (jhs w jh) \<noteq> ?nb" "bh_jbddirty (bhs w (b_bh (jhs w jh)))" using lg by (auto simp: to_log_def Let_def)
  obtain w1 where w1: "new_copy w = Some (w1, ?nb, ?nj)" "log_base k t w0 n w1"
    "jhs w1 = (jhs w)(?nj := zero_jh\<lparr>b_bh := ?nb, b_jcount := 1\<rparr>)" "trs w1 = trs w" "jnl w1 = jnl w" "iolog w1 = iolog w"
    "jh_next w1 = Suc ?nj" "bh_next w1 = Suc ?nb" "\<forall>x. x \<noteq> ?nb \<longrightarrow> bhs w1 x = bhs w x"
    "bhs w1 ?nb = zero_bh\<lparr>bh_jbd := True, b_private := Some ?nj, b_count := 2\<rparr>" "bcache w1 = bcache w"
    using new_copy_base [OF base] .
  let ?esc = "get_be32 ?d 0 = JBD2_MAGIC_NUMBER"
  let ?f = "\<lambda>h. h\<lparr>b_frozen_data := Some (put_be32 0 0 ?d)\<rparr>"
  define w2 where "w2 = (if ?esc then upd_jh jh ?f w1 else w1)"
  define w3 where "w3 = fill_copy ?nb ?nj c (escaped ?d) w2"
  define flags where "flags = (if ?esc then 1 else 0) + (if b_frozen_data (jhs w jh) \<noteq> None \<or> ?esc then 2 else (0::int))"
  have same: "jhs w1 jh = jhs w jh" "bhs w1 (b_bh (jhs w jh)) = bhs w (b_bh (jhs w jh))" using w1 t by simp_all
  have run: "jbdbf_journal_write_metadata_buffer k w t jh c =
      do { w2 \<leftarrow> u_jbdbf_journal_file_buffer w3 jh t BJ_Shadow; w3 \<leftarrow> u_jbdbf_journal_file_buffer w2 ?nj t BJ_IO;
           Some (w3, Inr (?nj, flags)) }"
    using t(3) w1(1) same alloc by (cases "b_frozen_data (jhs w jh)")
      (simp_all add: jbdbf_journal_write_metadata_buffer_def jbdbf_journal_file_buffer_def logged_data_def Let_def j_assert_def
        w3_def w2_def flags_def escaped_def)
  have fl: "flags mod 2 = 1 \<longleftrightarrow> ?esc" by (simp add: flags_def)
  have b2: "log_base k t w0 n w2" using w1(2) by (simp add: w2_def log_base_frozen)
  have s2: "trs w2 = trs w" "jnl w2 = jnl w" "iolog w2 = iolog w" "jh_next w2 = Suc ?nj" "bh_next w2 = Suc ?nb" "bhs w2 = bhs w1" "bcache w2 = bcache w"
    "\<And>x. x \<noteq> jh \<Longrightarrow> jhs w2 x = jhs w1 x"
    using w1 by (simp_all add: w2_def)
  have f2: "\<exists>f. jhs w2 jh = (jhs w jh)\<lparr>b_frozen_data := f\<rparr>"
    by (rule exI [of _ "if ?esc then Some (put_be32 0 0 ?d) else b_frozen_data (jhs w jh)"]) (simp add: w2_def same)
  have j3: "jhs w3 = jhs w2"
    using s2(8) [of ?nj] w1(3) t(1) by (auto simp: w3_def fill_copy_def fun_eq_iff zero_jh_def)
  have s3: "trs w3 = trs w2" "jnl w3 = jnl w2" "jh_next w3 = jh_next w2" by (simp_all add: w3_def fill_copy_def)
  have "lists_wf w3 = lists_wf w2" by (simp only: lists_wf_def j3 s3)
  moreover have "free_block w3 e b" if "free_block w2 e b" for e b
    using that s2(6) w1(10) by (auto simp: free_block_def w3_def fill_copy_def)
  ultimately have "log_base k t w0 n w3" using b2 unfolding log_base_def j3 s3 by blast
  moreover have "copied w jh c (j_dev (jnl w)) w3"
    unfolding copied_def j3 using s2 f2 w1 t by (simp add: w3_def fill_copy_def zero_bh_def)
  ultimately show ?thesis using that run fl by blast
qed

lemma copied_to_log:
  assumes "copied w jh c d w'" "x \<noteq> jh" "to_log w0 w x"
  shows "to_log w0 w' x"
proof -
  have "x \<noteq> jh_next w" "b_bh (jhs w x) \<noteq> bh_next w" using assms(3) by (auto simp: to_log_def Let_def)
  then have "jhs w' x = jhs w x" "bhs w' (b_bh (jhs w x)) = bhs w (b_bh (jhs w x))" "jh_next w < jh_next w'" "bh_next w < bh_next w'"
    using assms(1,2) by (simp_all add: copied_def)
  moreover from this have "logged_data w' x = logged_data w x" by (simp add: logged_data_def cong: option.case_cong)
  ultimately show ?thesis using assms(3) by (simp add: to_log_def attached_def Let_def)
qed

lemma copied_heads:
  assumes "copied w jh c d w'" "to_log w0 w jh"
  shows "attached w' jh" "jh < jh_next w'" "b_bh (jhs w' jh) = b_bh (jhs w jh)" "b_transaction (jhs w' jh) = b_transaction (jhs w jh)"
    "b_jlist (jhs w' jh) = b_jlist (jhs w jh)" "attached w' (jh_next w)" "jh_next w < jh_next w'" "b_bh (jhs w' (jh_next w)) = bh_next w"
    "b_transaction (jhs w' (jh_next w)) = None" "jh \<noteq> jh_next w" "jh_next w \<notin> set bs \<Longrightarrow> jh_next w \<notin> set (remove1 jh bs)"
proof -
  have "jh \<noteq> jh_next w" "b_bh (jhs w jh) \<noteq> bh_next w" using assms(2) by (auto simp: to_log_def Let_def)
  then show "attached w' jh" "jh < jh_next w'" "b_bh (jhs w' jh) = b_bh (jhs w jh)" "b_transaction (jhs w' jh) = b_transaction (jhs w jh)"
    "b_jlist (jhs w' jh) = b_jlist (jhs w jh)" "attached w' (jh_next w)" "jh_next w < jh_next w'" "b_bh (jhs w' (jh_next w)) = bh_next w"
    "b_transaction (jhs w' (jh_next w)) = None" "jh \<noteq> jh_next w"
    using assms by (auto simp: copied_def to_log_def attached_def Let_def zero_jh_def)
qed (meson notin_set_remove1)

lemma copy_ok:
  assumes base: "log_base k t w0 n w" and lg: "to_log w0 w jh" and mem: "jh \<in> set (t_buffers (trs w t))" and alloc: "\<forall>w. k_alloc_ok k w"
    and dev: "j_dev (jnl w) = j_dev (jnl w0)"
  obtains w' flags where "jbdbf_journal_write_metadata_buffer k w t jh (log_ix k (jnl w0) i) = Some (w', Inr (jh_next w, flags))"
    "flags mod 2 = 1 \<longleftrightarrow> get_be32 (logged_data w jh) 0 = JBD2_MAGIC_NUMBER" "log_base k t w0 n w'"
    "t_buffers (trs w' t) = remove1 jh (t_buffers (trs w t))" "t_data_tag_list (trs w' t) = t_data_tag_list (trs w t)"
    "iolog w' = iolog w" "b_bh (jhs w' (jh_next w)) = bh_next w" "\<forall>x. x \<noteq> jh \<longrightarrow> to_log w0 w x \<longrightarrow> to_log w0 w' x"
    "queued_at k w0 w' i (bh_next w)" "b_data (bhs w' (bh_next w)) = escaped (logged_data w jh)"
    "\<forall>j b. queued_at k w0 w j b \<longrightarrow> b \<noteq> bh_next w \<and> queued_at k w0 w' j b" "\<forall>x. x \<noteq> jh_next w \<longrightarrow> b_bh (jhs w' x) = b_bh (jhs w x)"
    "\<forall>b. b \<noteq> bh_next w \<longrightarrow> b_data (bhs w' b) = b_data (bhs w b) \<and> b_blocknr (bhs w' b) = b_blocknr (bhs w b)"
proof -
  let ?nb = "bh_next w" and ?nj = "jh_next w" and ?c = "log_ix k (jnl w0) i"
  have wf: "lists_wf w" using base by (simp add: log_base_def)
  have tr: "b_transaction (jhs w jh) = Some t" "b_jlist (jhs w jh) = BJ_Metadata"
    using lists_wf_mem [OF wf, of jh BJ_Metadata t] mem by simp_all
  obtain w1 flags where w1: "jbdbf_journal_write_metadata_buffer k w t jh ?c =
      do { w2 \<leftarrow> u_jbdbf_journal_file_buffer w1 jh t BJ_Shadow; w3 \<leftarrow> u_jbdbf_journal_file_buffer w2 ?nj t BJ_IO;
           Some (w3, Inr (?nj, flags)) }"
    "flags mod 2 = 1 \<longleftrightarrow> get_be32 (logged_data w jh) 0 = JBD2_MAGIC_NUMBER" "log_base k t w0 n w1" "copied w jh ?c (j_dev (jnl w)) w1"
    using copy_start [OF base lg alloc] .
  note h = copied_heads [OF w1(4) lg]
  obtain w2 where w2: "u_jbdbf_journal_file_buffer w1 jh t BJ_Shadow = Some w2" "filed w1 jh t BJ_Shadow w2" "frame w1 w2" "log_base k t w0 n w2"
    "t_data_tag_list (trs w2 t) = t_data_tag_list (trs w1 t)" "\<And>x. x \<noteq> jh \<Longrightarrow> to_log w0 w1 x \<Longrightarrow> to_log w0 w2 x"
    using file_ok [OF w1(3) h(1,2), of BJ_Shadow] h(4) tr(1) by auto
  have h2: "attached w2 ?nj" "?nj < jh_next w2" "b_transaction (jhs w2 ?nj) = None" "b_bh (jhs w2 ?nj) = ?nb"
    using w2(2) h frame_sel(7) [OF w2(3)] by (auto simp: filed_def attached_def)
  obtain w3 where w3: "u_jbdbf_journal_file_buffer w2 ?nj t BJ_IO = Some w3" "filed w2 ?nj t BJ_IO w3" "frame w2 w3" "log_base k t w0 n w3"
    "t_data_tag_list (trs w3 t) = t_data_tag_list (trs w2 t)" "\<And>x. x \<noteq> ?nj \<Longrightarrow> to_log w0 w2 x \<Longrightarrow> to_log w0 w3 x"
    using file_ok [OF w2(4) h2(1,2), of BJ_IO] h2(3) by auto
  have fr: "frame w1 w3" using frame_trans [OF w2(3) w3(3)] .
  have jbd: "bh_jbd (bhs w3 b) = bh_jbd (bhs w1 b)" for b using w2(2) w3(2) by (simp add: filed_def)
  have c: "trs w1 = trs w" "jnl w1 = jnl w" "iolog w1 = iolog w" "bh_next w1 = Suc ?nb" "\<And>b. b \<noteq> ?nb \<Longrightarrow> bhs w1 b = bhs w b"
    "b_data (bhs w1 ?nb) = escaped (logged_data w jh)" "b_blocknr (bhs w1 ?nb) = ?c" "b_bdev (bhs w1 ?nb) = Some (j_dev (jnl w0))"
    "\<not> bh_lock (bhs w1 ?nb)" "bh_jbd (bhs w1 ?nb)" "\<And>x. x \<noteq> ?nj \<Longrightarrow> b_bh (jhs w1 x) = b_bh (jhs w x)"
    using w1(4) dev h(3) by (auto simp: copied_def Let_def)
  have "t_buffers (trs w2 t) = remove1 jh (t_buffers (trs w t))"
    using filed_buffers [OF w2(2), of t] h(4,5) tr c(1) by (simp add: placed_def)
  moreover have "t_buffers (trs w3 t) = remove1 ?nj (t_buffers (trs w2 t))"
    using filed_buffers [OF w3(2), of t] h2(3) by (simp add: placed_def)
  moreover have "?nj \<notin> set (t_buffers (trs w t))"
    using lists_wf_mem [OF wf, of ?nj BJ_Metadata t] base by (auto simp: log_base_def)
  ultimately have bufs: "t_buffers (trs w3 t) = remove1 jh (t_buffers (trs w t))"
    using h(11) by (simp add: remove1_idem)
  have tl: "to_log w0 w3 x" if "x \<noteq> jh" "to_log w0 w x" for x
  proof -
    have "x \<noteq> ?nj" using that(2) by (auto simp: to_log_def Let_def)
    then show ?thesis using w3(6) w2(6) copied_to_log [OF w1(4)] that by blast
  qed
  have q: "queued_at k w0 w3 i ?nb" using c(4,7-10) jbd frame_bh [OF fr] frame_sel [OF fr] by (simp add: queued_at_def)
  have qs: "b \<noteq> ?nb \<and> queued_at k w0 w3 j b" if "queued_at k w0 w j b" for j b
    using that c(4) c(5) [of b] jbd frame_bh [OF fr] frame_sel [OF fr] by (auto simp: queued_at_def)
  show ?thesis
    by (rule that [of w3 flags])
      (use w1(1,2) w2(1,5) w3(1,4,5) bufs tl q qs c frame_bh [OF fr] frame_sel [OF fr] h(8) in simp_all)
qed

section \<open>Logging one buffer\<close>

lemma laid_journal: "laid j b p ts q = laid j' b p ts q"
proof -
  have "next_tagp j = next_tagp j'" by (simp add: next_tagp_def journal_tag_bytes_def fun_eq_iff)
  then show ?thesis by (induction ts arbitrary: p) simp_all
qed

lemma desc_ok_cong:
  assumes d: "desc_ok t w0 ts s" and s': "c_bh s' = c_bh s" "c_tagp s' = c_tagp s" "c_first_tag s' = c_first_tag s" "c_tag s' = c_tag s"
      "c_space_left s' = c_space_left s"
    and w': "b_data (bhs (c_world s') (c_bh s)) = desc_data s" "j_blocksize (jnl (c_world s')) = j_blocksize (jnl (c_world s))"
      "j_uuid (jnl (c_world s')) = j_uuid (jnl (c_world s))"
  shows "desc_ok t w0 ts s'"
proof -
  have "laid (jnl (c_world s')) = laid (jnl (c_world s))" by (intro ext) (rule laid_journal)
  then have "writing s' ts = writing s ts" unfolding writing_def Let_def s' w' by simp
  then show ?thesis using d unfolding desc_ok_def s' w' by simp
qed

text \<open>The state in which the copy is made.\<close>

definition before_copy :: "tptr \<Rightarrow> bptr \<Rightarrow> world \<Rightarrow> world" where
  "before_copy t bh w = upd_bh bh (\<lambda>b. b\<lparr>bh_jwrite := True\<rparr>)
     (get_bh bh (upd_tr t (\<lambda>tr. tr\<lparr>t_outstanding_credits := t_outstanding_credits tr - 1\<rparr>) (upd_jnl advance_head w)))"

lemma t_list_credits [simp]: "t_list l (tr\<lparr>t_outstanding_credits := c\<rparr>) = t_list l tr"
  by (cases l) simp_all

lemma log_base_credits:
  "log_base k t w0 n w \<Longrightarrow> log_base k t w0 n (upd_tr t (\<lambda>tr. tr\<lparr>t_outstanding_credits := t_outstanding_credits tr - 1\<rparr>) w)"
  (is "_ \<Longrightarrow> log_base k t w0 n ?w")
proof -
  assume b: "log_base k t w0 n w"
  then have "lists_wf w" by (simp add: log_base_def)
  then have "lists_wf ?w" by (rule lists_wf_cong) simp_all
  then show ?thesis using b by (simp add: log_base_def free_block_def)
qed

lemma before_copy_ok:
  shows "log_base k t w0 n (upd_jnl advance_head w) \<Longrightarrow> log_base k t w0 n (before_copy t bh w)"
    and "to_log w0 (before_copy t bh w) x = to_log w0 w x" "queued_at k w0 (before_copy t bh w) i b = queued_at k w0 w i b"
    and "b_data (bhs (before_copy t bh w) b) = b_data (bhs w b)" "b_blocknr (bhs (before_copy t bh w) b) = b_blocknr (bhs w b)"
    and "jhs (before_copy t bh w) = jhs w" "jnl (before_copy t bh w) = advance_head (jnl w)" "iolog (before_copy t bh w) = iolog w"
    and "t_buffers (trs (before_copy t bh w) t) = t_buffers (trs w t)"
    and "t_data_tag_list (trs (before_copy t bh w) t) = t_data_tag_list (trs w t)" "logged_data (before_copy t bh w) x = logged_data w x"
proof -
  show "log_base k t w0 n (before_copy t bh w)" if "log_base k t w0 n (upd_jnl advance_head w)"
    unfolding before_copy_def get_bh_def by (intro log_base_upd log_base_credits that) simp_all
qed (simp_all add: before_copy_def get_bh_def to_log_def queued_at_def attached_def logged_data_def Let_def cong: option.case_cong)

definition buffer_type :: "world \<Rightarrow> bptr \<Rightarrow> u32" where
  "buffer_type w bh = (if b_blocktype (bhs w bh) = B_BLOCKTYPE_DATA then T_BLOCKTYPE_OVERWRITTENDATA else T_BLOCKTYPE_NOTDATA)"

lemma prepare_copy:
  assumes env: "log_env_ok k w0" and base: "log_base k t w0 n (c_world s)" and n: "Suc n < log_free w0"
    and bufs: "t_buffers (trs (c_world s) t) = jh # rem" and lg: "\<forall>x \<in> set (jh # rem). to_log w0 (c_world s) x"
  obtains w3 flags nb where "log_buffer k t jh s =
      do { s' \<leftarrow> put_tag (b_blocknr (bhs w3 (b_bh (jhs w3 jh)))) 0 (buffer_type w3 (b_bh (jhs w3 jh)))
             (s\<lparr>c_blocknr := Some (log_ix k (jnl w0) n), c_world := w3, c_flags := flags, c_wbuf := c_wbuf s @ [nb]\<rparr>);
           done_with_tags k t s' }"
    "flags mod 2 = 1 \<longleftrightarrow> get_be32 (logged_data w0 jh) 0 = JBD2_MAGIC_NUMBER" "log_base k t w0 (Suc n) w3"
    "t_buffers (trs w3 t) = rem" "t_data_tag_list (trs w3 t) = t_data_tag_list (trs (c_world s) t)" "iolog w3 = iolog (c_world s)"
    "\<forall>x \<in> set rem. to_log w0 w3 x" "queued_at k w0 w3 n nb" "b_data (bhs w3 nb) = escaped (logged_data w0 jh)"
    "\<forall>j b. queued_at k w0 (c_world s) j b \<longrightarrow> b \<noteq> nb \<and> queued_at k w0 w3 j b"
    "\<forall>b. b \<noteq> nb \<longrightarrow> b_data (bhs w3 b) = b_data (bhs (c_world s) b)"
    "\<forall>x \<in> set (jh # rem). b_bh (jhs w3 x) = b_bh (jhs (c_world s) x) \<and> b_bh (jhs (c_world s) x) \<noteq> nb"
    "b_blocknr (bhs w3 (b_bh (jhs w3 jh))) = b_blocknr (bhs w0 (b_bh (jhs w0 jh)))"
proof -
  let ?w = "c_world s" and ?bh = "b_bh (jhs (c_world s) jh)" and ?c = "log_ix k (jnl w0) n"
  let ?w1 = "before_copy t ?bh ?w"
  let ?nb = "bh_next ?w1" and ?nj = "jh_next ?w1"
  have lj: "to_log w0 ?w jh" using lg by simp
  then have ld: "logged_data ?w jh = logged_data w0 jh" "b_blocknr (bhs ?w ?bh) = b_blocknr (bhs w0 (b_bh (jhs w0 jh)))"
    by (simp_all add: to_log_def Let_def)
  have dis: "distinct (jh # rem)"
    using base lists_wf_distinct [of ?w BJ_Metadata t] bufs by (simp add: log_base_def)
  note nx = log_base_next [OF env base n] and bc = before_copy_ok
  have al: "\<forall>w. k_alloc_ok k w" using env by (auto simp: log_env_ok_def Let_def)
  have base1: "log_base k t w0 (Suc n) ?w1" by (rule bc(1) [OF nx(2)])
  have dev: "j_dev (jnl ?w1) = j_dev (jnl w0)" using base1 by (simp add: log_base_def)
  have l1: "to_log w0 ?w1 jh" "jh \<in> set (t_buffers (trs ?w1 t))" using lj bufs by (simp_all add: bc)
  obtain w2 flags where w2: "jbdbf_journal_write_metadata_buffer k ?w1 t jh ?c = Some (w2, Inr (?nj, flags))"
    "flags mod 2 = 1 \<longleftrightarrow> get_be32 (logged_data ?w1 jh) 0 = JBD2_MAGIC_NUMBER" "log_base k t w0 (Suc n) w2"
    "t_buffers (trs w2 t) = remove1 jh (t_buffers (trs ?w1 t))" "t_data_tag_list (trs w2 t) = t_data_tag_list (trs ?w1 t)"
    "iolog w2 = iolog ?w1" "b_bh (jhs w2 ?nj) = ?nb" "\<forall>x. x \<noteq> jh \<longrightarrow> to_log w0 ?w1 x \<longrightarrow> to_log w0 w2 x"
    "queued_at k w0 w2 n ?nb" "b_data (bhs w2 ?nb) = escaped (logged_data ?w1 jh)"
    "\<forall>j b. queued_at k w0 ?w1 j b \<longrightarrow> b \<noteq> ?nb \<and> queued_at k w0 w2 j b" "\<forall>x. x \<noteq> ?nj \<longrightarrow> b_bh (jhs w2 x) = b_bh (jhs ?w1 x)"
    "\<forall>b. b \<noteq> ?nb \<longrightarrow> b_data (bhs w2 b) = b_data (bhs ?w1 b) \<and> b_blocknr (bhs w2 b) = b_blocknr (bhs ?w1 b)"
    using copy_ok [OF base1 l1 al dev, where i = n] .
  define w3 where "w3 = upd_bh ?nb (\<lambda>b. b\<lparr>bh_jwrite := True\<rparr>) w2"
  have base3: "log_base k t w0 (Suc n) w3" unfolding w3_def by (rule log_base_upd [OF _ w2(3)]) simp
  have fresh: "x \<noteq> ?nj" "b_bh (jhs ?w x) \<noteq> ?nb" if "to_log w0 ?w x" for x
    using that bc(2) [of w0 t ?bh ?w x] bc(6) [of t ?bh ?w] by (auto simp: to_log_def Let_def)
  have heads: "\<forall>x \<in> set (jh # rem). b_bh (jhs w3 x) = b_bh (jhs ?w x) \<and> b_bh (jhs ?w x) \<noteq> ?nb"
    using w2(12) fresh lg by (simp add: w3_def bc)
  have tl: "to_log w0 w3 x" if "x \<in> set rem" for x
  proof -
    have "b_bh (jhs w3 x) \<noteq> ?nb" using heads that by simp
    then have "b_bh (jhs w2 x) \<noteq> ?nb" by (simp add: w3_def)
    moreover have "to_log w0 w2 x" using w2(8) lg that dis by (auto simp: bc(2))
    ultimately show ?thesis by (simp add: w3_def to_log_upd)
  qed
  have run: "log_buffer k t jh s =
      do { s' \<leftarrow> put_tag (b_blocknr (bhs w3 (b_bh (jhs w3 jh)))) 0 (buffer_type w3 (b_bh (jhs w3 jh)))
             (s\<lparr>c_blocknr := Some ?c, c_world := w3, c_flags := flags, c_wbuf := c_wbuf s @ [?nb]\<rparr>);
           done_with_tags k t s' }"
    using heads w2(7) unfolding log_buffer_def nx(1) bind.bind_lunit Let_def before_copy_def [symmetric]
    by (simp add: before_copy_def [symmetric] w2(1) w3_def buffer_type_def)
  have q3: "queued_at k w0 w3 j b = queued_at k w0 w2 j b" for j b by (simp add: w3_def queued_at_def)
  have ne: "?bh \<noteq> ?nb" using fresh(2) [OF lj] .
  have data3: "b_data (bhs w3 b) = b_data (bhs w2 b)" "b_blocknr (bhs w3 b) = b_blocknr (bhs w2 b)" "trs w3 = trs w2" "iolog w3 = iolog w2" for b
    by (simp_all add: w3_def)
  show ?thesis
    by (rule that [OF run])
      (use base3 w2(2,4-6,9-11,13) heads tl ld dis bufs ne in \<open>simp_all add: q3 data3 bc\<close>)
qed

lemma buffer_type_journaled: "journaled (req_tag first (f, block, csum, buffer_type w bh))"
  by (simp add: buffer_type_def T_BLOCKTYPE_OVERWRITTENDATA_def T_BLOCKTYPE_NOTDATA_def T_BLOCKTYPE_NEWLYAPPENDEDDATA_def)

lemma log_buffer_ok:
  assumes env: "log_env_ok k w0" and op: "opened k t w0 m ts s" and base: "log_base k t w0 n (c_world s)"
    and n: "n = m + length (c_wbuf s)" "Suc n < log_free w0"
    and room: "c_tagp s + 52 + (if ts = [] then 16 else 0) \<le> j_blocksize (jnl w0)"
    and bufs: "t_buffers (trs (c_world s) t) = jh # rem" and lg: "\<forall>x \<in> set (jh # rem). to_log w0 (c_world s) x"
    and len: "length (logged_data w0 jh) = j_blocksize (jnl w0)"
  obtains s' q d where "log_buffer k t jh s = done_with_tags k t s'" "opened k t w0 m (ts @ [q]) s'" "journaled q"
    "lt_block q = b_blocknr (bhs w0 (b_bh (jhs w0 jh)))" "unescape (j_blocksize (jnl w0)) (lt_flags q) d = logged_data w0 jh"
    "copies s' = copies s @ [d]" "length (c_wbuf s') = Suc (length (c_wbuf s))" "log_base k t w0 (Suc n) (c_world s')"
    "t_buffers (trs (c_world s') t) = rem" "t_data_tag_list (trs (c_world s') t) = t_data_tag_list (trs (c_world s) t)"
    "iolog (c_world s') = iolog (c_world s)" "\<forall>x \<in> set rem. to_log w0 (c_world s') x"
proof -
  let ?w = "c_world s" and ?bs = "j_blocksize (jnl w0)"
  note o = openedD [OF op]
  obtain w3 flags nb where c: "log_buffer k t jh s =
      do { s' \<leftarrow> put_tag (b_blocknr (bhs w3 (b_bh (jhs w3 jh)))) 0 (buffer_type w3 (b_bh (jhs w3 jh)))
             (s\<lparr>c_blocknr := Some (log_ix k (jnl w0) n), c_world := w3, c_flags := flags, c_wbuf := c_wbuf s @ [nb]\<rparr>);
           done_with_tags k t s' }"
    "flags mod 2 = 1 \<longleftrightarrow> get_be32 (logged_data w0 jh) 0 = JBD2_MAGIC_NUMBER" "log_base k t w0 (Suc n) w3"
    "t_buffers (trs w3 t) = rem" "t_data_tag_list (trs w3 t) = t_data_tag_list (trs ?w t)" "iolog w3 = iolog ?w"
    "\<forall>x \<in> set rem. to_log w0 w3 x" "queued_at k w0 w3 n nb" "b_data (bhs w3 nb) = escaped (logged_data w0 jh)"
    "\<forall>j b. queued_at k w0 ?w j b \<longrightarrow> b \<noteq> nb \<and> queued_at k w0 w3 j b"
    "\<forall>b. b \<noteq> nb \<longrightarrow> b_data (bhs w3 b) = b_data (bhs ?w b)"
    "\<forall>x \<in> set (jh # rem). b_bh (jhs w3 x) = b_bh (jhs ?w x) \<and> b_bh (jhs ?w x) \<noteq> nb"
    "b_blocknr (bhs w3 (b_bh (jhs w3 jh))) = b_blocknr (bhs w0 (b_bh (jhs w0 jh)))"
    using prepare_copy [OF env base n(2) bufs lg] .
  define s1 where "s1 = s\<lparr>c_blocknr := Some (log_ix k (jnl w0) n), c_world := w3, c_wbuf := c_wbuf s @ [nb]\<rparr>"
  have s1: "c_world s1 = w3" "c_wbuf s1 = c_wbuf s @ [nb]" "c_bh s1 = c_bh s" "c_descriptor s1 = c_descriptor s" "c_tagp s1 = c_tagp s"
    by (simp_all add: s1_def)
  let ?q = "req_tag (ts = []) (flags, b_blocknr (bhs w3 (b_bh (jhs w3 jh))), 0, buffer_type w3 (b_bh (jhs w3 jh)))"
  have nb: "nb \<notin> set (c_wbuf s)" using o(4) c(10) by (metis in_set_conv_nth)
  then have bh0: "c_bh s \<noteq> nb" using o(1,2) by (metis length_greater_0_conv nth_mem)
  have "j_blocksize (jnl w3) = j_blocksize (jnl ?w)" "j_uuid (jnl w3) = j_uuid (jnl ?w)"
    using base c(3) by (simp_all add: log_base_def)
  then have d1: "desc_ok t w0 ts s1"
    using desc_ok_cong [of t w0 ts s s1] op c(11) bh0 by (simp add: opened_def Let_def s1_def)
  obtain s2 where s2: "put_tag (b_blocknr (bhs w3 (b_bh (jhs w3 jh)))) 0 (buffer_type w3 (b_bh (jhs w3 jh))) (s1\<lparr>c_flags := flags\<rparr>) = Some s2"
    "desc_ok t w0 (ts @ [?q]) s2" "desc_step s1 s2"
    using put_tag_ok [OF d1] room unfolding s1(5) by blast
  note d = desc_step_sel [OF s2(3), unfolded s1]
  have "s1\<lparr>c_flags := flags\<rparr> =
      s\<lparr>c_blocknr := Some (log_ix k (jnl w0) n), c_world := w3, c_flags := flags, c_wbuf := c_wbuf s @ [nb]\<rparr>"
    by (simp add: s1_def)
  then have run: "log_buffer k t jh s = done_with_tags k t s2" using c(1) s2(1) by simp
  have "\<forall>i < length (c_wbuf s @ [nb]). queued_at k w0 (c_world s2) (m + i) ((c_wbuf s @ [nb]) ! i)"
    using o(4) c(8,10) n(1) by (auto simp: d(9) nth_append less_Suc_eq)
  moreover have "b_bh (jhs w3 x) \<notin> set (c_wbuf s @ [nb])" if "x \<in> set rem" for x
  proof -
    have "b_bh (jhs w3 x) = b_bh (jhs ?w x)" "b_bh (jhs ?w x) \<noteq> nb" using bspec [OF c(12), of x] that by auto
    then show ?thesis using o(8) [of x] that bufs by simp
  qed
  ultimately have op2: "opened k t w0 m (ts @ [?q]) s2"
    using op s2(2) nb c(4) o(1,3,7) buffer_type_journaled d unfolding opened_def Let_def
    by (simp add: hd_append del: req_tag.simps)
  have "copies s2 = copies s @ [escaped (logged_data w0 jh)]"
  proof -
    have "b_data (bhs (c_world s2) b) = b_data (bhs ?w b)" if "b \<in> set (tl (c_wbuf s))" for b
    proof -
      have "b \<noteq> nb" "b \<noteq> c_bh s" using that o(1-3) nb by (cases "c_wbuf s"; auto)+
      then show ?thesis using d(10) [of b] c(11) by simp
    qed
    then show ?thesis using d(6) d(10) [of nb] bh0 c(9) o(1) by (simp add: copies_def)
  qed
  moreover have "unescape ?bs (lt_flags ?q) (escaped (logged_data w0 jh)) = logged_data w0 jh"
  proof -
    have "4 \<le> ?bs" using env by (simp add: log_env_ok_def tags_fit_def Let_def)
    then show ?thesis unfolding escaped_def using unescape_escape [OF len] c(2) req_tag_escape by metis
  qed
  moreover have "\<forall>x \<in> set rem. to_log w0 (c_world s2) x"
    using c(7,12) o(9) bufs d(11) by auto
  ultimately show ?thesis
    using that [OF run op2 buffer_type_journaled, of "escaped (logged_data w0 jh)"] c(3-6,13) d by simp
qed

end
