(* ===== verification/Commit_Replay.thy ===== *)
theory Commit_Replay
  imports Commit_Loop
begin

text \<open>
  The loop over the metadata buffers writes a log that stands for exactly the logged contents of
  the buffers, in their order, and for the checksums of the data blocks; and recovery of a log
  that the commit has written brings the contents back.
\<close>

section \<open>The invariant at the head of the loop\<close>

fun item_payload :: "nat \<Rightarrow> log_item \<Rightarrow> (u64 \<times> bytes) list" where
  "item_payload bs (LDesc tags datas) = payload bs tags datas"
| "item_payload bs _ = []"

fun item_data_tags :: "log_item \<Rightarrow> (u64 \<times> u32) list" where
  "item_data_tags (LDesc tags datas) = data_tags tags"
| "item_data_tags _ = []"

fun is_desc :: "log_item \<Rightarrow> bool" where
  "is_desc (LDesc tags datas) = True"
| "is_desc _ = False"

abbreviation items_payload :: "nat \<Rightarrow> log_item list \<Rightarrow> (u64 \<times> bytes) list" where
  "items_payload bs its \<equiv> concat (map (item_payload bs) its)"

abbreviation items_data_tags :: "log_item list \<Rightarrow> (u64 \<times> u32) list" where
  "items_data_tags its \<equiv> concat (map item_data_tags its)"

text \<open>The blocks and the data tags that have been taken care of are P and D.\<close>

definition head_inv ::
    "kernel_env \<Rightarrow> tptr \<Rightarrow> world \<Rightarrow> (u64 \<times> bytes) list \<Rightarrow> (u64 \<times> u32) list \<Rightarrow> nat \<Rightarrow> commit_state \<Rightarrow> bool" where
  "head_inv k t w0 P D n s = (\<exists>its evs m ts.
     items_ix (jnl w0) (log_image k w0 evs) (t_tid (trs w0 t)) 0 its m \<and> iolog (c_world s) = iolog w0 @ evs \<and>
     log_base k t w0 n (c_world s) \<and> (\<forall>jh \<in> set (t_buffers (trs (c_world s) t)). to_log w0 (c_world s) jh) \<and>
     (if c_descriptor s = None then c_wbuf s = [] \<and> m = n \<and> ts = []
      else opened k t w0 m ts s \<and> ts \<noteq> [] \<and> n = m + length (c_wbuf s) \<and> tag_room s \<and>
        t_buffers (trs (c_world s) t) \<noteq> [] \<and> t_data_tag_list (trs (c_world s) t) = []) \<and>
     items_payload (j_blocksize (jnl w0)) its @ payload (j_blocksize (jnl w0)) ts (copies s) = P \<and>
     items_data_tags its @ data_tags ts = D \<and> list_all is_desc its \<and> log_writes k w0 m evs)"

lemma data_tags_last_marked: "ts \<noteq> [] \<Longrightarrow> data_tags (last_marked ts) = data_tags ts"
  using payload_last_marked(3) [of ts "replicate (length (filter journaled ts)) []"] by (simp add: data_tags_def)

lemma done_ok:
  assumes env: "log_env_ok k w0" and base: "log_base k t w0 n (c_world s)" "n < log_free w0"
    and op: "opened k t w0 m ts s" "ts \<noteq> []" "n = m + length (c_wbuf s)"
    and its: "items_ix (jnl w0) (log_image k w0 evs) (t_tid (trs w0 t)) 0 its m"
    and evs: "iolog (c_world s) = iolog w0 @ evs"
    and lg: "\<forall>jh \<in> set (t_buffers (trs (c_world s) t)). to_log w0 (c_world s) jh"
    and dt: "t_data_tag_list (trs (c_world s) t) = [] \<or> \<not> tag_room s" and de: "list_all is_desc its" "log_writes k w0 m evs"
  obtains s' where "done_with_tags k t s = Some s'"
    "head_inv k t w0 (items_payload (j_blocksize (jnl w0)) its @ payload (j_blocksize (jnl w0)) ts (copies s))
       (items_data_tags its @ data_tags ts) n s'"
    "t_buffers (trs (c_world s') t) = t_buffers (trs (c_world s) t)"
    "t_data_tag_list (trs (c_world s') t) = t_data_tag_list (trs (c_world s) t)"
    "t_buffers (trs (c_world s) t) = [] \<longrightarrow> c_descriptor s' = None"
proof (cases "length (c_wbuf s) = j_wbufsize (jnl (c_world s)) \<or> t_buffers (trs (c_world s) t) = [] \<or> \<not> tag_room s")
  case False
  then have "done_with_tags k t s = Some s" by (simp add: done_with_tags_def Let_def)
  moreover have "c_descriptor s \<noteq> None" using op(1) by (simp add: opened_def Let_def)
  ultimately show ?thesis
    using False dt base(1) op its evs lg de by (intro that [of s]) (auto simp: head_inv_def intro!: exI [of _ its] exI [of _ evs] exI [of _ m] exI [of _ ts])
next
  case True
  have v: "log_space_ok (jnl w0)" "bmap_ok k (jnl w0)" using env by (auto simp: log_env_ok_def log_valid_def Let_def)
  then have n: "n \<le> ring_size (jnl w0)" using base(2) by (auto simp: log_space_ok_def log_free_def)
  obtain s' evs' where s': "map_option (start_journal_io k) (mark_last_tag s) = Some s'" "c_descriptor s' = None" "c_wbuf s' = []"
    "log_base k t w0 n (c_world s')" "iolog (c_world s') = iolog w0 @ evs'" "trs (c_world s') = trs (c_world s)"
    "items_ix (jnl w0) (log_image k w0 evs') (t_tid (trs w0 t)) 0 (its @ [LDesc (last_marked ts) (copies s)]) n"
    "\<forall>jh \<in> set (t_buffers (trs (c_world s) t)). to_log w0 (c_world s') jh" "log_writes k w0 n evs'"
    using flush_ok [OF base(1) op its v n evs lg de(2)] by (elim exE conjE) (rule that; assumption)
  have "length (copies s) = length (filter journaled ts)" using openedD(7) [OF op(1)] by (simp add: copies_def)
  then have "payload (j_blocksize (jnl w0)) (last_marked ts) (copies s) = payload (j_blocksize (jnl w0)) ts (copies s)"
    using payload_last_marked(1) [OF op(2)] by simp
  moreover have "copies s' = []" "payload bs [] [] = []" "data_tags [] = []" for bs using s'(3) by (simp_all add: copies_def payload_def data_tags_def)
  ultimately have "head_inv k t w0 (items_payload (j_blocksize (jnl w0)) its @ payload (j_blocksize (jnl w0)) ts (copies s))
       (items_data_tags its @ data_tags ts) n s'"
    unfolding head_inv_def using s' data_tags_last_marked [OF op(2)] de
    by (intro exI [of _ "its @ [LDesc (last_marked ts) (copies s)]"] exI [of _ evs'] exI [of _ n] exI [of _ "[]"]) simp
  then show ?thesis using True s' by (intro that [of s']) (simp_all add: done_with_tags_def Let_def)
qed

section \<open>One iteration\<close>

text \<open>What a metadata buffer stands for in the log.\<close>

definition logged_pair :: "world \<Rightarrow> jptr \<Rightarrow> u64 \<times> bytes" where
  "logged_pair w jh = (b_blocknr (bhs w (b_bh (jhs w jh))), logged_data w jh)"

lemma payload_snoc:
  "length datas = length (filter journaled ts) \<Longrightarrow> journaled q \<Longrightarrow>
   payload bs (ts @ [q]) (datas @ [d]) = payload bs ts datas @ [(lt_block q, unescape bs (lt_flags q) d)]"
  by (simp add: payload_def)

lemma log_image_no_writes: "no_writes ne \<Longrightarrow> log_image k w0 (evs @ ne) = log_image k w0 evs"
  by (simp add: log_image_def no_writes_disk fun_eq_iff)

lemma log_step:
  assumes env: "log_env_ok k w0" and op: "opened k t w0 m ts s" and base: "log_base k t w0 n (c_world s)"
    and n: "n = m + length (c_wbuf s)" "Suc n < log_free w0"
    and room: "c_tagp s + 52 + (if ts = [] then 16 else 0) \<le> j_blocksize (jnl w0)"
    and bufs: "t_buffers (trs (c_world s) t) = jh # rem" and lg: "\<forall>x \<in> set (jh # rem). to_log w0 (c_world s) x"
    and len: "length (logged_data w0 jh) = j_blocksize (jnl w0)"
    and its: "items_ix (jnl w0) (log_image k w0 evs) (t_tid (trs w0 t)) 0 its m"
    and evs: "iolog (c_world s) = iolog w0 @ evs" and dt: "t_data_tag_list (trs (c_world s) t) = []" and de: "list_all is_desc its" "log_writes k w0 m evs"
  obtains s' where "log_buffer k t jh s = Some s'"
    "head_inv k t w0 (items_payload (j_blocksize (jnl w0)) its @ payload (j_blocksize (jnl w0)) ts (copies s) @ [logged_pair w0 jh])
       (items_data_tags its @ data_tags ts) (Suc n) s'"
    "t_buffers (trs (c_world s') t) = rem" "t_data_tag_list (trs (c_world s') t) = []" "rem = [] \<longrightarrow> c_descriptor s' = None"
proof -
  let ?bs = "j_blocksize (jnl w0)"
  obtain s1 q d where l: "log_buffer k t jh s = done_with_tags k t s1" "opened k t w0 m (ts @ [q]) s1" "journaled q"
    "lt_block q = b_blocknr (bhs w0 (b_bh (jhs w0 jh)))" "unescape ?bs (lt_flags q) d = logged_data w0 jh"
    "copies s1 = copies s @ [d]" "length (c_wbuf s1) = Suc (length (c_wbuf s))" "log_base k t w0 (Suc n) (c_world s1)"
    "t_buffers (trs (c_world s1) t) = rem" "t_data_tag_list (trs (c_world s1) t) = t_data_tag_list (trs (c_world s) t)"
    "iolog (c_world s1) = iolog (c_world s)" "\<forall>x \<in> set rem. to_log w0 (c_world s1) x"
    using log_buffer_ok [OF env op base n room bufs lg len] .
  have a: "ts @ [q] \<noteq> []" "Suc n = m + length (c_wbuf s1)" "iolog (c_world s1) = iolog w0 @ evs"
    "\<forall>x \<in> set (t_buffers (trs (c_world s1) t)). to_log w0 (c_world s1) x" "t_data_tag_list (trs (c_world s1) t) = [] \<or> \<not> tag_room s1"
    using l n evs dt by simp_all
  obtain s' where s': "done_with_tags k t s1 = Some s'"
    "head_inv k t w0 (items_payload ?bs its @ payload ?bs (ts @ [q]) (copies s1)) (items_data_tags its @ data_tags (ts @ [q])) (Suc n) s'"
    "t_buffers (trs (c_world s') t) = t_buffers (trs (c_world s1) t)"
    "t_data_tag_list (trs (c_world s') t) = t_data_tag_list (trs (c_world s1) t)"
    "t_buffers (trs (c_world s1) t) = [] \<longrightarrow> c_descriptor s' = None"
    using done_ok [OF env l(8) n(2) l(2) a(1,2) its a(3-5) de] .
  have "length (copies s) = length (filter journaled ts)" using openedD(7) [OF op] by (simp add: copies_def)
  then have "payload ?bs (ts @ [q]) (copies s1) = payload ?bs ts (copies s) @ [logged_pair w0 jh]"
    unfolding l(6) using payload_snoc [OF _ l(3)] l(4,5) by (simp add: logged_pair_def)
  moreover have "data_tags (ts @ [q]) = data_tags ts" using l(3) by (simp add: data_tags_def)
  ultimately show ?thesis using s' l(1,9,10) dt by (intro that [of s']) simp_all
qed

lemma first_buffer:
  assumes env: "log_env_ok k w0" and cl: "closed k t w0 n s" and bufs: "t_buffers (trs (c_world s) t) = jh # rem"
    and ds: "t_data_tag_list (trs (c_world s) t) = ds" and n: "Suc (Suc n) < log_free w0"
    and len: "length (logged_data w0 jh) = j_blocksize (jnl w0)"
    and its: "items_ix (jnl w0) (log_image k w0 evs) (t_tid (trs w0 t)) 0 its n" and evs: "iolog (c_world s) = iolog w0 @ evs"
    and de: "list_all is_desc its" "log_writes k w0 n evs"
  shows "\<exists>s' n'. do { (s, fitted) \<leftarrow> open_descriptor k t s;
      case fitted of None \<Rightarrow> Some s | Some f \<Rightarrow> (if f then log_buffer k t jh s else done_with_tags k t s) } = Some s' \<and>
    (head_inv k t w0 (items_payload (j_blocksize (jnl w0)) its @ [logged_pair w0 jh]) (items_data_tags its @ map entry_pair ds) n' s' \<and>
       t_buffers (trs (c_world s') t) = rem \<and>
       t_data_tag_list (trs (c_world s') t) = [] \<and> n' \<le> n + 2 \<and> (rem = [] \<longrightarrow> c_descriptor s' = None) \<or>
     (\<exists>es rest. ds = es @ rest \<and> es \<noteq> [] \<and>
       head_inv k t w0 (items_payload (j_blocksize (jnl w0)) its) (items_data_tags its @ map entry_pair es) n' s' \<and>
       t_buffers (trs (c_world s') t) = jh # rem \<and> t_data_tag_list (trs (c_world s') t) = rest \<and> n' = Suc n))"
proof -
  let ?bs = "j_blocksize (jnl w0)"
  have n1: "Suc n < log_free w0" using n by simp
  obtain s1 us es rest ne where o: "open_descriptor k t s = Some (s1, Some (rest = []))" "opened k t w0 n us s1" "filter journaled us = []"
    "length (c_wbuf s1) = 1" "log_base k t w0 (Suc n) (c_world s1)" "t_data_tag_list (trs (c_world s) t) = es @ rest"
    "data_tags us = map entry_pair es" "length us = length es" "t_data_tag_list (trs (c_world s1) t) = rest"
    "rest \<noteq> [] \<longrightarrow> \<not> tag_room s1" "c_tagp s1 + 52 + (if us = [] then 16 else 0) \<le> ?bs"
    "t_buffers (trs (c_world s1) t) = t_buffers (trs (c_world s) t)" "\<forall>jh \<in> set (t_buffers (trs (c_world s) t)). to_log w0 (c_world s1) jh"
    "iolog (c_world s1) = iolog (c_world s) @ ne" "no_writes ne"
    using open_descriptor_ok [OF env cl n1] by (elim exE conjE) (rule that; assumption)
  have evs1: "iolog (c_world s1) = iolog w0 @ (evs @ ne)" using o(14) evs by simp
  have its1: "items_ix (jnl w0) (log_image k w0 (evs @ ne)) (t_tid (trs w0 t)) 0 its n"
    using its log_image_no_writes [OF o(15)] by simp
  have de1: "log_writes k w0 n (evs @ ne)" using log_writes_append [OF de(2)] no_writes_log [OF o(15)] by simp
  have pay: "payload ?bs us (copies s1) = []" using o(3) by (simp add: payload_def)
  have n2: "Suc n = n + length (c_wbuf s1)" using o(4) by simp
  show ?thesis
  proof (cases "rest = []")
    case True
    have lg: "\<forall>x \<in> set (jh # rem). to_log w0 (c_world s1) x" using o(13) bufs by simp
    have dt: "t_data_tag_list (trs (c_world s1) t) = []" "t_buffers (trs (c_world s1) t) = jh # rem" using o(9,12) True bufs by simp_all
    obtain s' where "log_buffer k t jh s1 = Some s'"
      "head_inv k t w0 (items_payload ?bs its @ payload ?bs us (copies s1) @ [logged_pair w0 jh])
         (items_data_tags its @ data_tags us) (Suc (Suc n)) s'"
      "t_buffers (trs (c_world s') t) = rem" "t_data_tag_list (trs (c_world s') t) = []" "rem = [] \<longrightarrow> c_descriptor s' = None"
      using log_step [OF env o(2,5) n2 n o(11) dt(2) lg len its1 evs1 dt(1) de(1) de1] .
    then show ?thesis using o(1,6,7) pay True ds by (intro exI [of _ s'] exI [of _ "Suc (Suc n)"]) simp
  next
    case False
    have d: "desc_ok t w0 us s1" using o(2) by (simp add: opened_def Let_def)
    have "1024 \<le> ?bs" using env by (simp add: log_env_ok_def tags_fit_def Let_def)
    then have us: "us \<noteq> []" using False o(10) tag_room_nat [OF d] d by (auto simp: desc_ok_def size_defs)
    have dt: "t_data_tag_list (trs (c_world s1) t) = [] \<or> \<not> tag_room s1" using False o(10) by simp
    obtain s' where "done_with_tags k t s1 = Some s'"
      "head_inv k t w0 (items_payload ?bs its @ payload ?bs us (copies s1)) (items_data_tags its @ data_tags us) (Suc n) s'"
      "t_buffers (trs (c_world s') t) = t_buffers (trs (c_world s1) t)"
      "t_data_tag_list (trs (c_world s') t) = t_data_tag_list (trs (c_world s1) t)"
      "t_buffers (trs (c_world s1) t) = [] \<longrightarrow> c_descriptor s' = None"
      using done_ok [OF env o(5) n1 o(2) us n2 its1 evs1 o(13) [folded o(12)] dt de(1) de1] .
    then show ?thesis using o(1,6-9,12) pay False ds bufs us
      by (intro exI [of _ s'] exI [of _ "Suc n"] conjI disjI2 exI [of _ es] exI [of _ rest]) auto
  qed
qed

lemma commit_buffer_ok:
  assumes env: "log_env_ok k w0" and inv: "head_inv k t w0 P D n s" and bufs: "t_buffers (trs (c_world s) t) = jh # rem"
    and ds: "t_data_tag_list (trs (c_world s) t) = ds"
    and n: "n + 2 * length (jh # rem) + length ds < log_free w0" and len: "length (logged_data w0 jh) = j_blocksize (jnl w0)"
  shows "\<exists>s' n'. commit_buffer k t jh s = Some s' \<and>
    (head_inv k t w0 (P @ [logged_pair w0 jh]) (D @ map entry_pair ds) n' s' \<and> t_buffers (trs (c_world s') t) = rem \<and>
       t_data_tag_list (trs (c_world s') t) = [] \<and> n' \<le> n + 2 \<and> (rem = [] \<longrightarrow> c_descriptor s' = None) \<or>
     (\<exists>es rest. ds = es @ rest \<and> es \<noteq> [] \<and> head_inv k t w0 P (D @ map entry_pair es) n' s' \<and>
       t_buffers (trs (c_world s') t) = jh # rem \<and> t_data_tag_list (trs (c_world s') t) = rest \<and> n' = Suc n))"
proof -
  let ?bs = "j_blocksize (jnl w0)"
  obtain its evs m ts where i: "items_ix (jnl w0) (log_image k w0 evs) (t_tid (trs w0 t)) 0 its m" "iolog (c_world s) = iolog w0 @ evs"
    "log_base k t w0 n (c_world s)" "\<forall>jh \<in> set (t_buffers (trs (c_world s) t)). to_log w0 (c_world s) jh"
    "if c_descriptor s = None then c_wbuf s = [] \<and> m = n \<and> ts = []
      else opened k t w0 m ts s \<and> ts \<noteq> [] \<and> n = m + length (c_wbuf s) \<and> tag_room s \<and>
        t_buffers (trs (c_world s) t) \<noteq> [] \<and> t_data_tag_list (trs (c_world s) t) = []"
    "items_payload ?bs its @ payload ?bs ts (copies s) = P" "items_data_tags its @ data_tags ts = D" "list_all is_desc its"
    "log_writes k w0 m evs"
    using inv unfolding head_inv_def by (elim exE conjE) (rule that; assumption)
  have na: "\<not> is_journal_aborted (jnl (c_world s))"
    using env i(3) by (simp add: log_env_ok_def log_base_def Let_def)
  show ?thesis
  proof (cases "c_descriptor s")
    case (Some x)
    then have o: "opened k t w0 m ts s" "ts \<noteq> []" "n = m + length (c_wbuf s)" "tag_room s" "ds = []" using i(5) ds by simp_all
    have "desc_ok t w0 ts s" using o(1) by (simp add: opened_def Let_def)
    then have room: "c_tagp s + 52 + (if ts = [] then 16 else 0) \<le> ?bs" using o(2,4) tag_room_nat by auto
    have n': "Suc n < log_free w0" using n by simp
    obtain s' where "log_buffer k t jh s = Some s'"
      "head_inv k t w0 (items_payload ?bs its @ payload ?bs ts (copies s) @ [logged_pair w0 jh])
         (items_data_tags its @ data_tags ts) (Suc n) s'"
      "t_buffers (trs (c_world s') t) = rem" "t_data_tag_list (trs (c_world s') t) = []" "rem = [] \<longrightarrow> c_descriptor s' = None"
      using log_step [OF env o(1) i(3) o(3) n' room bufs i(4) [unfolded bufs] len i(1,2) ds [unfolded o(5)] i(8,9)] .
    then show ?thesis using Some na i(6,7) o(5)
      by (intro exI [of _ s'] exI [of _ "Suc n"]) (auto simp: commit_buffer_def Let_def)
  next
    case None
    then have c: "c_wbuf s = []" "m = n" "ts = []" using i(5) by simp_all
    then have cl: "closed k t w0 n s" using None i(3,4) by (simp add: closed_def)
    have n': "Suc (Suc n) < log_free w0" using n by simp
    have "P = items_payload ?bs its" "D = items_data_tags its" using i(6,7) c by (simp_all add: payload_def data_tags_def)
    then show ?thesis
      using first_buffer [OF env cl bufs ds n' len i(1) [unfolded c(2)] i(2,8) i(9) [unfolded c(2)]] None na
      by (simp add: commit_buffer_def Let_def)
  qed
qed

section \<open>The whole loop\<close>

lemma commit_loop_ok:
  assumes env: "log_env_ok k w0"
  shows "head_inv k t w0 P D n s \<Longrightarrow> t_buffers (trs (c_world s) t) = rem \<Longrightarrow> t_data_tag_list (trs (c_world s) t) = ds \<Longrightarrow>
    n + 2 * length rem + length ds < log_free w0 \<Longrightarrow> \<forall>jh \<in> set rem. length (logged_data w0 jh) = j_blocksize (jnl w0) \<Longrightarrow>
    \<exists>s' n'. commit_loop k t s = Some s' \<and> t_buffers (trs (c_world s') t) = [] \<and> n' \<le> n + 2 * length rem + length ds \<and>
      t_data_tag_list (trs (c_world s') t) = (if rem = [] then ds else []) \<and>
      head_inv k t w0 (P @ map (logged_pair w0) rem) (D @ (if rem = [] then [] else map entry_pair ds)) n' s'"
proof (induction "length rem + length ds" arbitrary: P D n s rem ds rule: less_induct)
  case less
  note env = \<open>log_env_ok k w0\<close>
  show ?case
  proof (cases rem)
    case Nil
    then have "commit_loop k t s = Some s" using less.prems(2) by (subst commit_loop.simps) simp
    then show ?thesis using less.prems Nil by (intro exI [of _ s] exI [of _ n]) simp
  next
    case (Cons jh rem')
    have len: "length (logged_data w0 jh) = j_blocksize (jnl w0)" using less.prems(5) Cons by simp
    obtain s1 n1 where s1: "commit_buffer k t jh s = Some s1"
      "head_inv k t w0 (P @ [logged_pair w0 jh]) (D @ map entry_pair ds) n1 s1 \<and> t_buffers (trs (c_world s1) t) = rem' \<and>
         t_data_tag_list (trs (c_world s1) t) = [] \<and> n1 \<le> n + 2 \<and> (rem' = [] \<longrightarrow> c_descriptor s1 = None) \<or>
       (\<exists>es rest. ds = es @ rest \<and> es \<noteq> [] \<and> head_inv k t w0 P (D @ map entry_pair es) n1 s1 \<and>
         t_buffers (trs (c_world s1) t) = jh # rem' \<and> t_data_tag_list (trs (c_world s1) t) = rest \<and> n1 = Suc n)"
      using commit_buffer_ok [OF env less.prems(1) less.prems(2) [unfolded Cons] less.prems(3) less.prems(4) [unfolded Cons] len] by blast
    have run: "commit_loop k t s = commit_loop k t s1"
      using less.prems(2) Cons s1(1) by (subst commit_loop.simps) simp
    from s1(2) show ?thesis
    proof (elim disjE exE conjE)
      assume a: "head_inv k t w0 (P @ [logged_pair w0 jh]) (D @ map entry_pair ds) n1 s1" "t_buffers (trs (c_world s1) t) = rem'"
        "t_data_tag_list (trs (c_world s1) t) = []" "n1 \<le> n + 2"
      have "length rem' + length [] < length rem + length ds" "n1 + 2 * length rem' + length [] < log_free w0"
        "\<forall>jh \<in> set rem'. length (logged_data w0 jh) = j_blocksize (jnl w0)"
        using less.prems(4,5) a(4) Cons by simp_all
      from less.hyps [OF this(1) a(1-3) this(2,3)] obtain s' n' where "commit_loop k t s1 = Some s'" "t_buffers (trs (c_world s') t) = []"
        "n' \<le> n1 + 2 * length rem'" "t_data_tag_list (trs (c_world s') t) = []"
        "head_inv k t w0 ((P @ [logged_pair w0 jh]) @ map (logged_pair w0) rem') (D @ map entry_pair ds) n' s'"
        by (auto cong: if_cong)
      then show ?thesis using run Cons a(4) by (intro exI [of _ s'] exI [of _ n']) simp
    next
      fix es rest
      assume a: "ds = es @ rest" "es \<noteq> []" "head_inv k t w0 P (D @ map entry_pair es) n1 s1"
        "t_buffers (trs (c_world s1) t) = jh # rem'" "t_data_tag_list (trs (c_world s1) t) = rest" "n1 = Suc n"
      have "length (jh # rem') + length rest < length rem + length ds" "n1 + 2 * length (jh # rem') + length rest < log_free w0"
        "\<forall>jh \<in> set (jh # rem'). length (logged_data w0 jh) = j_blocksize (jnl w0)"
        using less.prems(4,5) a(1,2,6) Cons by (cases es; simp)+
      from less.hyps [OF this(1) a(3-5) this(2,3)] obtain s' n' where "commit_loop k t s1 = Some s'" "t_buffers (trs (c_world s') t) = []"
        "n' \<le> n1 + 2 * length (jh # rem') + length rest" "t_data_tag_list (trs (c_world s') t) = []"
        "head_inv k t w0 (P @ map (logged_pair w0) (jh # rem')) ((D @ map entry_pair es) @ map entry_pair rest) n' s'"
        by auto
      then show ?thesis using run Cons a(1,2,6) by (intro exI [of _ s'] exI [of _ n']) (cases es; simp)
    qed
  qed
qed

text \<open>
  A transaction whose metadata can be written: its buffers are attached and dirty and as large
  as a block, the buffers that the cache has for the free blocks of the log belong to nobody,
  and there is room for the blocks and their descriptors.
\<close>

definition commit_ready :: "kernel_env \<Rightarrow> tptr \<Rightarrow> world \<Rightarrow> bool" where
  "commit_ready k t w = (log_env_ok k w \<and> log_base k t w 0 w \<and>
     2 * length (t_buffers (trs w t)) + length (t_data_tag_list (trs w t)) + 1 < log_free w \<and>
     (\<forall>jh \<in> set (t_buffers (trs w t)). to_log w w jh \<and> length (logged_data w jh) = j_blocksize (jnl w)))"

lemma write_metadata_ok:
  assumes "commit_ready k t w"
  obtains w' crc its n evs where "write_metadata k t w = Some (w', crc)" "t_buffers (trs w' t) = []"
    "n \<le> 2 * length (t_buffers (trs w t)) + length (t_data_tag_list (trs w t))" "list_all is_desc its"
    "log_writes k w n evs" "log_base k t w n w'" "iolog w' = iolog w @ evs"
    "items_ix (jnl w) (log_image k w evs) (t_tid (trs w t)) 0 its n"
    "items_payload (j_blocksize (jnl w)) its = map (logged_pair w) (t_buffers (trs w t))"
    "items_data_tags its = (if t_buffers (trs w t) = [] then [] else map entry_pair (t_data_tag_list (trs w t)))"
proof -
  let ?s = "\<lparr>c_world = w, c_descriptor = None, c_wbuf = [], c_bh = 0, c_tagp = 0, c_tag = None,
                 c_space_left = 0, c_first_tag = False, c_flags = k_indeterminate k, c_blocknr = None, c_crc32_sum = - 1\<rparr>"
  let ?bs = "j_blocksize (jnl w)"
  have r: "log_env_ok k w" "log_base k t w 0 w" "2 * length (t_buffers (trs w t)) + length (t_data_tag_list (trs w t)) < log_free w"
    "\<forall>jh \<in> set (t_buffers (trs w t)). to_log w w jh" "\<forall>jh \<in> set (t_buffers (trs w t)). length (logged_data w jh) = ?bs"
    using assms by (auto simp: commit_ready_def)
  have "head_inv k t w [] [] 0 ?s"
    unfolding head_inv_def using r(2,4)
    by (intro exI [of _ "[]"] exI [of _ "[]"] exI [of _ 0]) (simp add: payload_def data_tags_def log_writes_def)
  then obtain s' n where s': "commit_loop k t ?s = Some s'" "t_buffers (trs (c_world s') t) = []"
    "n \<le> 2 * length (t_buffers (trs w t)) + length (t_data_tag_list (trs w t))"
    "head_inv k t w (map (logged_pair w) (t_buffers (trs w t)))
       (if t_buffers (trs w t) = [] then [] else map entry_pair (t_data_tag_list (trs w t))) n s'"
    using commit_loop_ok [OF r(1), of t "[]" "[]" 0 ?s "t_buffers (trs w t)" "t_data_tag_list (trs w t)"] r(3,5) by auto
  have run: "write_metadata k t w = Some (c_world s', c_crc32_sum s')" using s'(1) by (simp add: write_metadata_def)
  obtain its evs m ts where i: "items_ix (jnl w) (log_image k w evs) (t_tid (trs w t)) 0 its m" "iolog (c_world s') = iolog w @ evs"
    "log_base k t w n (c_world s')"
    "if c_descriptor s' = None then c_wbuf s' = [] \<and> m = n \<and> ts = []
      else opened k t w m ts s' \<and> ts \<noteq> [] \<and> n = m + length (c_wbuf s') \<and> tag_room s' \<and>
        t_buffers (trs (c_world s') t) \<noteq> [] \<and> t_data_tag_list (trs (c_world s') t) = []"
    "items_payload ?bs its @ payload ?bs ts (copies s') = map (logged_pair w) (t_buffers (trs w t))"
    "items_data_tags its @ data_tags ts = (if t_buffers (trs w t) = [] then [] else map entry_pair (t_data_tag_list (trs w t)))"
    "list_all is_desc its" "log_writes k w m evs"
    using s'(4) unfolding head_inv_def by (elim exE conjE) (rule that; assumption)
  have c: "m = n" "ts = []" using i(4) s'(2) by (simp_all split: if_splits)
  then show ?thesis
    using that [OF run s'(2,3) i(7) i(8) [unfolded c(1)] i(3,2) i(1) [unfolded c(1)]] i(5,6) by (simp add: payload_def data_tags_def)
qed

end
