(* ===== verification/Crash_Recovery.thy ===== *)
theory Crash_Recovery
  imports Commit_Replay
begin

text \<open>
  A crash after the writes of a commit have reached the disk: recovery finds the transaction in
  the log and brings back all of its metadata, or, if a data block of the transaction does not
  have the contents it was committed with, none of it.
\<close>

section \<open>The commit record\<close>

lemma header_put_commit:
  assumes "1024 \<le> length b"
  shows "header (put_commit_header j tid now crc b) tid JBD2_COMMIT_BLOCK"
  using assms by (simp add: header_def put_commit_header_def put_header_def Let_def layout_simps)

lemma log_image_one:
  assumes "log_space_ok (jnl w)" "bmap_ok k (jnl w)" "n < ring_size (jnl w)" "i \<le> n"
  shows "log_image k w (evs @ [SubmitWrite (j_dev (jnl w)) (log_ix k (jnl w) n) data fua]) i =
    (if i = n then data else log_image k w evs i)"
  using log_ix_inj [OF assms(1,2), of i n] assms(3,4) by (auto simp: log_image_def disk_after_def)

lemma commit_record_ok:
  assumes env: "log_env_ok k w" and base: "log_base k t w n w1" and n: "Suc n < log_free w"
    and its: "items_ix (jnl w) (log_image k w evs) (t_tid (trs w t)) 0 its n" and evs: "iolog w1 = iolog w @ evs"
    and lw: "log_writes k w n evs"
  obtains w2 bh evs' where "journal_submit_commit_record k w1 t crc = Some (w2, Some bh, 0)" "iolog w2 = iolog w @ evs'"
    "items_ix (jnl w) (log_image k w evs') (t_tid (trs w t)) 0 (its @ [LCommit]) (Suc n)" "log_writes k w (Suc n) evs'"
proof -
  let ?j = "jnl w" and ?bs = "j_blocksize (jnl w)"
  obtain w' bh ne where d: "jbdbf_journal_get_descriptor_buffer k w1 = Some (w', Some (jh_next w1))"
    "log_base k t w (Suc n) w'" "queued_at k w w' n bh" "jhs w' = (jhs w1)(jh_next w1 := zero_jh\<lparr>b_bh := bh, b_jcount := 1\<rparr>)"
    "b_data (bhs w' bh) = replicate ?bs 0" "iolog w' = iolog w1 @ ne" "no_writes ne"
    using get_descriptor_ok [OF env base n] by metis
  have v: "log_space_ok ?j" "bmap_ok k ?j" "1024 \<le> ?bs" "\<not> is_journal_aborted ?j" using env by (auto simp: log_env_ok_def log_valid_def tags_fit_def Let_def)
  have j1: "\<not> is_journal_aborted (jnl w1)" "t_tid (trs w' t) = t_tid (trs w t)" using base d(2) v(4) by (simp_all add: log_base_def)
  have r: "n < ring_size ?j" using log_base_next(4) [OF env base n] .
  define data where "data = put_commit_header (jnl w') (t_tid (trs w t)) (k_now k w1) crc (replicate ?bs 0)"
  define fua where "fua = (j_flags (jnl w') AND JBD2_BARRIER \<noteq> 0 \<and> \<not> JBD2_HAS_INCOMPAT_FEATURE (jnl w') JBD2_FEATURE_INCOMPAT_ASYNC_COMMIT)"
  define w2 where "w2 = submit_log_buffer k fua bh (upd_bh bh (\<lambda>b. b\<lparr>b_data := put_commit_header (jnl w') (t_tid (trs w' t)) (k_now k w1) crc (b_data b)\<rparr>) w')"
  define evs' where "evs' = (evs @ ne) @ [SubmitWrite (j_dev ?j) (log_ix k ?j n) data fua]"
  have run: "journal_submit_commit_record k w1 t crc = Some (w2, Some bh, 0)"
    using j1(1) d(1,4) by (simp add: journal_submit_commit_record_def w2_def fua_def Let_def)
  have "iolog w2 = iolog w @ evs'"
    using d(3,5,6) evs j1(2) by (simp add: w2_def evs'_def data_def queued_at_def submit_log_buffer_def submit_bh_write_def wait_on_buffer_def)
  moreover have img: "i \<le> n \<Longrightarrow> log_image k w evs' i = (if i = n then data else log_image k w evs i)" for i
    unfolding evs'_def using log_image_one [OF v(1,2) r, of i "evs @ ne"] log_image_no_writes [OF d(7), of k w evs] by simp
  have "items_ix ?j (log_image k w evs') (t_tid (trs w t)) 0 its n"
    by (rule items_ix_cong [OF _ its]) (simp add: img)
  moreover have "item_ix ?j (log_image k w evs') (t_tid (trs w t)) n LCommit"
    using img [of n] header_put_commit [of "replicate ?bs 0"] v(3) by (simp add: data_def)
  moreover have "log_writes k w (Suc n) evs'"
    unfolding evs'_def
    by (rule log_writes_append [OF log_writes_append [OF lw order_refl no_writes_log [OF d(7)]]]) (auto simp: log_writes_def)
  ultimately show ?thesis using that [OF run] items_ix_append [of ?j _ _ 0 its n LCommit] by simp
qed

section \<open>Reading the log after a crash\<close>

lemma item_ix_at:
  assumes it: "item_ix j g seq i it" and n: "i + item_len it \<le> ring_size j" and bs: "j_blocksize j = j_blocksize (jnl w)"
    and feat: "\<not> is_desc it \<Longrightarrow> it = LCommit" and rs: "ring_size (jnl w) = ring_size j"
    and g: "\<And>m. g m = log_block k w (adv (jnl w) m p)"
  shows "item_at k w (adv (jnl w) i p) seq it"
proof (cases it)
  case (LDesc ts ds)
  have g': "g (i + m) = log_block k w (adv (jnl w) m (adv (jnl w) i p))" for m using g adv_add [of "jnl w" i m p] by simp
  have a: "header (g i) seq JBD2_DESCRIPTOR_BLOCK" "tags_from j (g i) sizeof_header = ts" "length ds = length (filter journaled ts)"
    "\<forall>m < length ds. ds ! m = g (i + Suc m)" using it LDesc by simp_all
  have "ds = map (\<lambda>m. log_block k w (adv (jnl w) (Suc m) (adv (jnl w) i p))) [0..<length (filter journaled ts)]"
    by (rule nth_equalityI) (use a(3,4) g' [of "Suc _"] in simp_all)
  then show ?thesis using a n LDesc g tags_from_blocksize [OF bs] rs by simp
next
  case LCommit
  then show ?thesis using it g by simp
qed (use feat in simp)

lemma items_ix_log_at:
  assumes "items_ix j g seq i its n" "n \<le> ring_size j" "j_blocksize j = j_blocksize (jnl w)" "ring_size (jnl w) = ring_size j"
    and "\<And>m. g m = log_block k w (adv (jnl w) m p)" "list_all is_desc its" "log_at k w seq (adv (jnl w) n p) 0 rest"
  shows "log_at k w seq (adv (jnl w) i p) 0 (its @ rest)"
  using assms
proof (induction its arbitrary: i)
  case (Cons it its)
  have it: "is_desc it" "tx_next 0 it = 0" using Cons.prems(6) by (cases it; simp)+
  have le: "i + item_len it \<le> ring_size j" using items_ix_le [of j g seq "i + item_len it" its n] Cons.prems(1,2) by simp
  have "item_at k w (adv (jnl w) i p) seq it"
    by (rule item_ix_at [OF _ le Cons.prems(3) _ Cons.prems(4,5)]) (use Cons.prems(1) it in simp_all)
  moreover have "log_at k w seq (adv (jnl w) (i + item_len it) p) 0 (its @ rest)"
    by (rule Cons.IH) (use Cons.prems in simp_all)
  ultimately show ?case using it(2) by (simp add: adv_add)
qed simp

section \<open>Replaying one transaction\<close>

text \<open>The writes, in order.\<close>

definition install :: "(u64 \<times> bytes) list \<Rightarrow> (u64 \<Rightarrow> bytes) \<Rightarrow> (u64 \<Rightarrow> bytes)" where
  "install P fs = foldl (\<lambda>fs (b, d). fs(b := d)) fs P"

lemma install_append: "install (P @ Q) fs = install Q (install P fs)"
  by (simp add: install_def)

lemma install_other: "b \<notin> fst ` set P \<Longrightarrow> install P fs b = fs b"
  unfolding install_def by (induction P arbitrary: fs) auto

lemma install_distinct: "distinct (map fst P) \<Longrightarrow> (b, d) \<in> set P \<Longrightarrow> install P fs b = d"
proof (induction P arbitrary: fs)
  case (Cons x P)
  obtain c e where x: "x = (c, e)" by (cases x)
  have i: "install (x # P) fs = install P (fs(c := e))" by (simp add: install_def x)
  show ?case
  proof (cases "(b, d) = (c, e)")
    case True
    then have "b \<notin> fst ` set P" using Cons.prems x by simp
    then show ?thesis using True by (simp add: i install_other)
  next
    case False
    then have "(b, d) \<in> set P" using Cons.prems(2) x by auto
    then show ?thesis using Cons.IH Cons.prems(1) unfolding i by simp
  qed
qed simp

lemma collect_descs: "list_all is_desc its \<Longrightarrow> collect f 0 (its @ rest) = concat (map (f 0) its) @ collect f 0 rest"
proof (induction its)
  case (Cons it its)
  then show ?case by (cases it) simp_all
qed simp

lemma before_descs: "list_all is_desc its \<Longrightarrow> before stop 0 (its @ [LCommit]) = (if stop = 0 then [] else its @ [LCommit])"
proof (induction its)
  case (Cons it its)
  then show ?case by (cases it) auto
qed simp

lemma desc_items:
  assumes "list_all is_desc its"
  shows "concat (map (item_revokes 0) its) = []" "commits (its @ [LCommit]) = 1"
    "foldl (apply_write bs []) fs (concat (map (item_writes 0) its)) = install (items_payload bs its) fs"
proof -
  have "item_revokes 0 it = [] \<and> it \<noteq> LCommit" if "it \<in> set its" for it
    using assms that by (cases it) (auto simp: list_all_iff)
  then show "concat (map (item_revokes 0) its) = []" "commits (its @ [LCommit]) = 1" by (auto simp: commits_def filter_empty_conv)
  have one: "foldl (apply_write bs []) fs (item_writes 0 it) = install (item_payload bs it) fs" for it fs
  proof (cases it)
    case (LDesc ts ds)
    have "foldl (apply_write bs []) fs (map (Pair 0) xs) = install (map (\<lambda>(t, d). (lt_block t, unescape bs (lt_flags t) d)) xs) fs" for xs
      by (induction xs arbitrary: fs) (auto simp: install_def apply_write_def revoked_by_def)
    then show ?thesis using LDesc by (simp add: payload_def)
  qed (simp_all add: install_def)
  show "foldl (apply_write bs []) fs (concat (map (item_writes 0) its)) = install (items_payload bs its) fs"
    by (induction its arbitrary: fs) (simp_all add: one install_append, simp add: install_def)
qed

text \<open>Checksum mismatches of the data blocks, all of them in the first transaction.\<close>

definition tag_errors :: "nat \<Rightarrow> (u64 \<Rightarrow> bytes) \<Rightarrow> log_tag list \<Rightarrow> nat dc_event list" where
  "tag_errors bs fs ts = concat (map (tag_events bs fs 0) ts)"

abbreviation all_tags :: "log_item list \<Rightarrow> log_tag list" where
  "all_tags its \<equiv> concat (map item_tags its)"

lemma events_descs:
  assumes "list_all is_desc its"
  shows "collect (item_events bs fs (\<lambda>n. n)) 0 (its @ [LCommit]) = tag_errors bs fs (all_tags its)"
proof -
  have "concat (map (item_events bs fs (\<lambda>n. n) 0) its) = tag_errors bs fs (all_tags its)"
    by (induction its) (simp_all add: item_events_def tag_errors_def)
  then show ?thesis using assms by (simp add: collect_descs item_events_def)
qed

lemma tag_errors_mem:
  "e \<in> set (tag_errors bs fs ts) \<longleftrightarrow>
     (\<exists>b s. e = Mismatch b 0 \<and> (b, s) \<in> set (data_tags ts) \<and> dzat_checksum (fs b) bs \<noteq> s) \<or>
     (\<exists>t \<in> set ts. journaled t \<and> lt_type t = T_BLOCKTYPE_OVERWRITTENDATA \<and> e = Overwritten (lt_block t))"
  by (induction ts) (auto simp: tag_errors_def data_tags_def tag_events_def T_BLOCKTYPE_OVERWRITTENDATA_def T_BLOCKTYPE_NEWLYAPPENDEDDATA_def)

lemma no_mismatch:
  "(\<And>b n. Mismatch b n \<notin> set evs) \<Longrightarrow> foldl map_event Map.empty evs = Map.empty"
proof (induction evs)
  case (Cons e evs)
  then show ?case by (cases e) auto
qed simp

lemma mismatch_ran: "ran (foldl map_event m evs) \<subseteq> ran m \<union> {n. \<exists>b. Mismatch b n \<in> set evs}"
proof (induction evs arbitrary: m)
  case (Cons e evs)
  have "ran (map_event m e) \<subseteq> ran m \<union> {n. \<exists>b. e = Mismatch b n}" by (cases e) (auto simp: ran_def split: if_splits)
  then show ?case using Cons [of "map_event m e"] by auto
qed simp

lemma mismatch_kept:
  "Mismatch b n \<in> set evs \<or> b \<in> dom m \<Longrightarrow> Overwritten b \<notin> set evs \<Longrightarrow> b \<in> dom (foldl map_event m evs)"
proof (induction evs arbitrary: m)
  case (Cons e evs)
  have "Mismatch b n \<in> set evs \<or> b \<in> dom (map_event m e)" using Cons.prems by (cases e) auto
  then show ?case using Cons.IH [of "map_event m e"] Cons.prems(2) by simp
qed simp

lemma stop_one:
  assumes d: "list_all is_desc its"
  shows "stop_index bs fs (its @ [LCommit]) \<in> {0, 1}"
    and "(\<forall>(b, s) \<in> set (data_tags (all_tags its)). dzat_checksum (fs b) bs = s) \<Longrightarrow> stop_index bs fs (its @ [LCommit]) = 1"
    and "(b, s) \<in> set (data_tags (all_tags its)) \<Longrightarrow> dzat_checksum (fs b) bs \<noteq> s \<Longrightarrow>
      b \<notin> lt_block ` {t \<in> set (all_tags its). journaled t} \<Longrightarrow> stop_index bs fs (its @ [LCommit]) = 0"
proof -
  let ?ts = "all_tags its"
  let ?m = "foldl map_event Map.empty (tag_errors bs fs ?ts)"
  have s: "stop_index bs fs (its @ [LCommit]) = (if ?m = Map.empty then 1 else Min (ran ?m))"
    using d by (simp add: stop_index_def mismatches_def events_descs desc_items(2))
  have r: "ran ?m \<subseteq> {0}" using mismatch_ran [of Map.empty "tag_errors bs fs ?ts"] by (auto simp: tag_errors_mem)
  have ne: "Min (ran ?m) = 0" if "?m \<noteq> Map.empty"
  proof -
    have "ran ?m \<noteq> {}" using that by (auto simp: ran_def fun_eq_iff)
    then have "ran ?m = {0}" using r by blast
    then show ?thesis by simp
  qed
  show "stop_index bs fs (its @ [LCommit]) \<in> {0, 1}" using s ne by simp
  show "stop_index bs fs (its @ [LCommit]) = 1" if "\<forall>(b, s) \<in> set (data_tags ?ts). dzat_checksum (fs b) bs = s"
  proof -
    have "?m = Map.empty" by (rule no_mismatch) (use that in \<open>auto simp: tag_errors_mem\<close>)
    then show ?thesis using s by simp
  qed
  show "stop_index bs fs (its @ [LCommit]) = 0" if "(b, s) \<in> set (data_tags ?ts)" "dzat_checksum (fs b) bs \<noteq> s"
    "b \<notin> lt_block ` {t \<in> set ?ts. journaled t}"
  proof -
    have "b \<in> dom ?m"
      by (rule mismatch_kept [of _ 0]) (use that in \<open>auto simp: tag_errors_mem\<close>)
    then have "?m \<noteq> Map.empty" by auto
    then show ?thesis using s ne by simp
  qed
qed

lemma items_tags:
  "items_ix j g seq i its n \<Longrightarrow> lt_block ` {t \<in> set (all_tags its). journaled t} = fst ` set (items_payload bs its)"
  "data_tags (all_tags its) = items_data_tags its"
proof -
  have "lt_block ` {t \<in> set (item_tags it). journaled t} = fst ` set (item_payload bs it)" if it: "item_ix j g seq i it" for it i
  proof (cases it)
    case (LDesc ts ds)
    then have l: "length ds = length (filter journaled ts)" using it by simp
    have "map fst (payload bs ts ds) = map lt_block (map fst (zip (filter journaled ts) ds))"
      by (simp add: payload_def case_prod_beta comp_def)
    also have "\<dots> = map lt_block (filter journaled ts)" using l by simp
    finally have "set (map fst (payload bs ts ds)) = set (map lt_block (filter journaled ts))" by (rule arg_cong)
    then show ?thesis using LDesc by simp
  qed simp_all
  note one = this
  show "lt_block ` {t \<in> set (all_tags its). journaled t} = fst ` set (items_payload bs its)" if "items_ix j g seq i its n"
    using that
  proof (induction its arbitrary: i)
    case (Cons it its)
    have "{t \<in> set (all_tags (it # its)). journaled t} = {t \<in> set (item_tags it). journaled t} \<union> {t \<in> set (all_tags its). journaled t}"
      by auto
    then show ?case using Cons.IH [of "i + item_len it"] Cons.prems one [of i it] by (simp add: image_Un)
  qed simp
  show "data_tags (all_tags its) = items_data_tags its"
  proof (induction its)
    case (Cons it its)
    then show ?case by (cases it) (simp_all add: data_tags_def)
  qed (simp add: data_tags_def)
qed

section \<open>All or nothing\<close>

text \<open>
  The system that comes up after the crash: the requests have been carried out, the superblock
  says that the log starts with this transaction, which was written from the head of the log on,
  no block of the log is one of the next transaction, and all blocks that recovery reads or
  writes can be.
\<close>

definition rebooted :: "kernel_env \<Rightarrow> tptr \<Rightarrow> world \<Rightarrow> io_event list \<Rightarrow> world \<Rightarrow> bool" where
  "rebooted k t w evs wr =
     (let j = jnl w; jr = jnl wr; sb = j_superblock jr; tid = t_tid (trs w t); tags = t_data_tag_list (trs w t)
      in j_dev jr = j_dev j \<and> j_blocksize jr = j_blocksize j \<and> j_first jr = j_first j \<and> j_last jr = j_last j \<and>
         j_inode jr = j_inode j \<and> bdata wr = disk_after evs (bdata w) \<and>
         s_sequence sb = tid \<and> s_start sb \<noteq> 0 \<and> ucast (s_start sb) = j_head j \<and> unat tid + 1 < 2 ^ 32 \<and>
         log_env k wr \<and> log_readable k wr \<and> k_kzalloc_ok k \<and>
         (case cur_revoke jr of None \<Rightarrow> False | Some table \<Rightarrow> table_wf table \<and> (\<forall>b. table_lookup table b = None)) \<and>
         (\<forall>i < ring_size j. \<forall>ty. \<not> header (bdata w (j_dev j) (log_ix k j i)) (tid + 1) ty) \<and>
         (\<forall>b \<in> fst ` logged_pair w ` set (t_buffers (trs w t)). b \<noteq> 0 \<and> \<not> k_getblk_null k (j_fs_dev jr) b \<and>
            (j_dev jr = j_fs_dev jr \<longrightarrow> (\<forall>p < ucast (j_maxlen jr). b \<noteq> log_addr k jr p))) \<and>
         (\<forall>e \<in> set tags. dt_blocknr e \<noteq> 0 \<and> \<not> k_getblk_null k (j_fs_dev jr) (dt_blocknr e) \<and>
            \<not> unreadable wr (j_fs_dev jr) (dt_blocknr e)) \<and>
         length tags \<le> DC_CAPACITY)"

lemma card_mismatches: "card (mismatch_blocks (tag_errors bs fs ts)) \<le> length (data_tags ts)"
proof -
  have "mismatch_blocks (tag_errors bs fs ts) \<subseteq> fst ` set (data_tags ts)"
    by (force simp: mismatch_blocks_def tag_errors_mem)
  then have "card (mismatch_blocks (tag_errors bs fs ts)) \<le> card (fst ` set (data_tags ts))" by (simp add: card_mono)
  also have "\<dots> \<le> length (data_tags ts)" using card_length [of "map fst (data_tags ts)"] by simp
  finally show ?thesis .
qed

lemma items_ix_snoc:
  "items_ix j g seq i (its @ [it]) n \<Longrightarrow> \<exists>m. items_ix j g seq i its m \<and> item_ix j g seq m it \<and> n = m + item_len it"
  by (induction its arbitrary: i) auto

lemma rebooted_log:
  assumes env: "log_env_ok k w" and rb: "rebooted k t w evs wr"
    and its: "items_ix (jnl w) (log_image k w evs) (t_tid (trs w t)) 0 (its @ [LCommit]) (Suc n)" "list_all is_desc its"
    and n: "Suc n < log_free w" and lw: "log_writes k w (Suc n) evs"
  shows "in_ring (jnl wr) (j_head (jnl w))" "log_at k wr (t_tid (trs w t)) (j_head (jnl w)) 0 (its @ [LCommit])"
proof -
  let ?j = "jnl w" and ?tid = "t_tid (trs w t)" and ?p = "j_head (jnl w)"
  have v: "log_space_ok ?j" "bmap_ok k ?j" using env by (auto simp: log_env_ok_def log_valid_def Let_def)
  have r: "j_first (jnl wr) = j_first ?j" "j_last (jnl wr) = j_last ?j" "j_dev (jnl wr) = j_dev ?j" "j_inode (jnl wr) = j_inode ?j"
    "j_blocksize ?j = j_blocksize (jnl wr)" "bdata wr = disk_after evs (bdata w)"
    "\<And>i ty. i < ring_size ?j \<Longrightarrow> \<not> header (bdata w (j_dev ?j) (log_ix k ?j i)) (?tid + 1) ty"
    using rb by (simp_all add: rebooted_def Let_def)
  note geo = geometry_cong [OF r(1,2)]
  show "in_ring (jnl wr) ?p" using v(1) geo(1) by (simp add: log_space_ok_def)
  have g: "log_image k w evs m = log_block k wr (adv (jnl wr) m ?p)" for m
    using r(3,4,6) geo(3) by (simp add: log_image_def log_block_def log_ix_def log_addr_def)
  have n': "Suc n < ring_size ?j" using n v(1) by (auto simp: log_space_ok_def log_free_def)
  have i: "items_ix ?j (log_image k w evs) ?tid 0 its n" "header (log_image k w evs n) ?tid JBD2_COMMIT_BLOCK"
    using items_ix_snoc [OF its(1)] by auto
  have "\<not> header (log_image k w evs (Suc n)) (?tid + 1) ty" for ty
    using log_image_beyond [OF lw v _ n'] r(7) [OF n'] by simp
  then have "log_at k wr ?tid (adv (jnl wr) n ?p) 0 [LCommit]"
    using i(2) g [of n] g [of "Suc n"] adv_Suc [of "jnl wr" n ?p] by simp
  moreover have "n \<le> ring_size ?j" using n' by simp
  ultimately show "log_at k wr ?tid ?p 0 (its @ [LCommit])"
    using items_ix_log_at [OF i(1) _ r(5) geo(2) g its(2), of "[LCommit]"] by simp
qed

lemma rebooted_recoverable:
  assumes env: "log_env_ok k w" and rb: "rebooted k t w evs wr"
    and its: "items_ix (jnl w) (log_image k w evs) (t_tid (trs w t)) 0 (its @ [LCommit]) (Suc n)" "list_all is_desc its"
    and n: "Suc n < log_free w" and lw: "log_writes k w (Suc n) evs"
    and pay: "items_payload (j_blocksize (jnl w)) its = map (logged_pair w) (t_buffers (trs w t))"
    and dt: "set (items_data_tags its) \<subseteq> entry_pair ` set (t_data_tag_list (trs w t))"
      "length (items_data_tags its) \<le> length (t_data_tag_list (trs w t))"
  shows "recoverable k wr (its @ [LCommit])"
proof -
  let ?fs = "bdata wr (j_fs_dev (jnl wr))" and ?ts = "all_tags its" and ?bs = "j_blocksize (jnl wr)"
  have r: "log_env k wr" "log_readable k wr" "k_kzalloc_ok k" "s_start (j_superblock (jnl wr)) \<noteq> 0"
    "s_sequence (j_superblock (jnl wr)) = t_tid (trs w t)" "ucast (s_start (j_superblock (jnl wr))) = j_head (jnl w)"
    "unat (t_tid (trs w t)) + 1 < 2 ^ 32" "length (t_data_tag_list (trs w t)) \<le> DC_CAPACITY"
    "case cur_revoke (jnl wr) of None \<Rightarrow> False | Some table \<Rightarrow> table_wf table \<and> (\<forall>b. table_lookup table b = None)"
    using rb by (simp_all add: rebooted_def Let_def)
  have rb1: "\<forall>b \<in> fst ` logged_pair w ` set (t_buffers (trs w t)). b \<noteq> 0 \<and> \<not> k_getblk_null k (j_fs_dev (jnl wr)) b \<and>
      (j_dev (jnl wr) = j_fs_dev (jnl wr) \<longrightarrow> (\<forall>p < ucast (j_maxlen (jnl wr)). b \<noteq> log_addr k (jnl wr) p))"
    using rb unfolding rebooted_def Let_def by (elim conjE)
  have rb2: "\<forall>e \<in> set (t_data_tag_list (trs w t)). dt_blocknr e \<noteq> 0 \<and> \<not> k_getblk_null k (j_fs_dev (jnl wr)) (dt_blocknr e) \<and>
      \<not> unreadable wr (j_fs_dev (jnl wr)) (dt_blocknr e)"
    using rb unfolding rebooted_def Let_def by (elim conjE)
  have jb: "lt_block u \<noteq> 0" "target_ok k wr u" if "u \<in> set ?ts" "journaled u" for u
  proof -
    have "lt_block u \<in> fst ` set (items_payload (j_blocksize (jnl w)) (its @ [LCommit]))"
      using items_tags(1) [OF its(1)] that by auto
    then have "lt_block u \<in> fst ` logged_pair w ` set (t_buffers (trs w t))" using pay by simp
    then show "lt_block u \<noteq> 0" "target_ok k wr u" using bspec [OF rb1] by (simp_all add: target_ok_def)
  qed
  have db: "b \<noteq> 0" "\<not> k_getblk_null k (j_fs_dev (jnl wr)) b" "\<not> unreadable wr (j_fs_dev (jnl wr)) b"
    if b: "(b, s) \<in> set (data_tags ?ts)" for b s
  proof -
    obtain e where "e \<in> set (t_data_tag_list (trs w t))" "b = dt_blocknr e" using dt(1) b items_tags(2) [of its] by (auto simp: entry_pair_def)
    then show "b \<noteq> 0" "\<not> k_getblk_null k (j_fs_dev (jnl wr)) b" "\<not> unreadable wr (j_fs_dev (jnl wr)) b"
      using rb2 by simp_all
  qed
  have "data_readable k wr (item_tags it)" "\<forall>t \<in> set (item_tags it). target_ok k wr t" if "it \<in> set (its @ [LCommit])" for it
  proof -
    have m: "t \<in> set ?ts" if "t \<in> set (item_tags it)" for t using \<open>it \<in> _\<close> that by (cases "it = LCommit") auto
    then have "(lt_block t, lt_sum t) \<in> set (data_tags ?ts)" if "t \<in> set (item_tags it)" "\<not> journaled t" for t
      using that by (force simp: data_tags_def)
    then show "data_readable k wr (item_tags it)" using db by (fastforce simp: data_readable_def)
    show "\<forall>t \<in> set (item_tags it). target_ok k wr t" using m jb(2) by (auto simp: target_ok_def)
  qed
  moreover have "0 \<notin> event_block ` set (tag_errors ?bs ?fs ?ts)"
    using jb(1) db(1) by (force simp: tag_errors_mem)
  moreover have "card (mismatch_blocks (tag_errors ?bs ?fs ?ts)) \<le> DC_CAPACITY"
    using card_mismatches [of ?bs ?fs ?ts] dt(2) r(8) items_tags(2) [of its] by simp
  ultimately show ?thesis
    using r rebooted_log [OF env rb its n lw] events_descs [OF its(2)] desc_items(2) [OF its(2)]
    unfolding recoverable_def Let_def by simp
qed

lemma free_not_live:
  assumes "log_space_ok j" "i < unat (j_free j)"
  shows "adv j i (j_head j) \<notin> live j"
proof -
  have r: "ring_ok j" "in_ring j (j_head j)" "in_ring j (j_tail j)" "unat (j_free j) + ring_dist j (j_tail j) (j_head j) = ring_size j"
    using assms(1) by (auto simp: log_space_ok_def)
  have "i < ring_size j" using r(4) assms(2) by simp
  note d = adv_dist [OF r(1,2) this] adv_in_ring [OF r(1,2), of i]
  show ?thesis
    using ring_dist_back [OF r(3,2) d(2)] d(1) r(4) assms(2) by (auto simp: live_def)
qed

lemma free_not_live_block:
  assumes "log_valid k w" "i < log_free w"
  shows "log_ix k (jnl w) i \<notin> live_blocks k w"
proof
  assume "log_ix k (jnl w) i \<in> live_blocks k w"
  then obtain p where p: "p \<in> live (jnl w)" "log_ix k (jnl w) i = log_addr k (jnl w) p" by (auto simp: live_blocks_def)
  have v: "log_space_ok (jnl w)" "bmap_ok k (jnl w)" using assms(1) by (auto simp: log_valid_def)
  have "in_ring (jnl w) p" using p(1) by (simp add: live_def)
  then have "adv (jnl w) i (j_head (jnl w)) = p"
    using log_addr_inj [OF v(2)] adv_in_ring [of "jnl w"] v(1) p(2) by (auto simp: log_ix_def log_space_ok_def)
  then show False using free_not_live [OF v(1), of i] assms(2) p(1) by (simp add: log_free_def)
qed

lemma replay_one_transaction:
  assumes rec: "recoverable k wr (its @ [LCommit])" and de: "list_all is_desc its"
    and ix: "items_ix j g seq 0 its n" and bs: "j_blocksize (jnl wr) = bs" and fs: "fs = bdata wr (j_fs_dev (jnl wr))"
  obtains w' where "jbdbf_journal_recover k wr = Some (w', k_sync_blockdev k (j_fs_dev (jnl wr)))"
    "bdata w' (j_fs_dev (jnl wr)) \<in> {fs, install (items_payload bs its) fs}"
    "(\<forall>(b, c) \<in> set (items_data_tags its). dzat_checksum (fs b) bs = c) \<longrightarrow>
       bdata w' (j_fs_dev (jnl wr)) = install (items_payload bs its) fs"
    "(\<exists>(b, c) \<in> set (items_data_tags its). dzat_checksum (fs b) bs \<noteq> c \<and> b \<notin> fst ` set (items_payload bs its)) \<longrightarrow>
       bdata w' (j_fs_dev (jnl wr)) = fs"
proof -
  let ?stop = "stop_index bs fs (its @ [LCommit])"
  obtain w' where w': "jbdbf_journal_recover k wr = Some (w', k_sync_blockdev k (j_fs_dev (jnl wr)))"
    "bdata w' = (bdata wr)(j_fs_dev (jnl wr) := replay_result wr (its @ [LCommit]))"
    using recover_result [OF rec] by blast
  have res: "bdata w' (j_fs_dev (jnl wr)) = (if ?stop = 0 then fs else install (items_payload bs its) fs)"
    unfolding w'(2) replay_result_def Let_def fs bs
    by (simp add: before_descs [OF de] collect_descs [OF de] desc_items [OF de])
  note st = stop_one [OF de, where bs = bs and fs = fs, unfolded items_tags(2) items_tags(1) [OF ix, of bs]]
  show ?thesis
  proof (rule that [OF w'(1)])
    show "bdata w' (j_fs_dev (jnl wr)) \<in> {fs, install (items_payload bs its) fs}" using res by simp
    show "(\<forall>(b, c) \<in> set (items_data_tags its). dzat_checksum (fs b) bs = c) \<longrightarrow>
       bdata w' (j_fs_dev (jnl wr)) = install (items_payload bs its) fs" using res st(2) by simp
    show "(\<exists>(b, c) \<in> set (items_data_tags its). dzat_checksum (fs b) bs \<noteq> c \<and> b \<notin> fst ` set (items_payload bs its)) \<longrightarrow>
       bdata w' (j_fs_dev (jnl wr)) = fs"
    proof
      assume "\<exists>(b, c) \<in> set (items_data_tags its). dzat_checksum (fs b) bs \<noteq> c \<and> b \<notin> fst ` set (items_payload bs its)"
      then have "?stop = 0" using st(3) by blast
      then show "bdata w' (j_fs_dev (jnl wr)) = fs" using res by simp
    qed
  qed
qed

section \<open>Properties\<close>

text \<open>
  An example: transaction 7 has one buffer, for block 77, and one data block, block 40; the free
  part of the log wraps around at its end.
\<close>

definition ex_commit_journal :: journal where
  "ex_commit_journal = zero_journal\<lparr>j_dev := 4, j_fs_dev := 6, j_blocksize := 1024, j_first := 1, j_last := 17, j_maxlen := 17,
     j_head := 15, j_tail := 15, j_free := 16, j_uuid := replicate 16 0, j_wbufsize := 19\<rparr>"

definition ex_commit_world :: world where
  "ex_commit_world = zero_world\<lparr>jnl := ex_commit_journal,
     trs := (\<lambda>_. zero_transaction)(2 := zero_transaction\<lparr>t_tid := 7, t_buffers := [5], t_nr_buffers := 1,
       t_data_tag_list := [\<lparr>dt_blocknr = 40, crc32_data_sum = dzat_checksum (replicate 1024 0) 1024\<rparr>]\<rparr>),
     jhs := (\<lambda>_. zero_jh)(5 := zero_jh\<lparr>b_bh := 3, b_jcount := 1, b_transaction := Some 2, b_jlist := BJ_Metadata\<rparr>),
     bhs := (\<lambda>_. zero_bh)(3 := zero_bh\<lparr>b_data := replicate 1024 1, b_count := 1, bh_jbd := True,
       b_private := Some 5, bh_jbddirty := True, b_bdev := Some 6, b_blocknr := 77\<rparr>),
     bdata := (\<lambda>_ _. replicate 1024 0), bh_next := 10, jh_next := 20\<rparr>"

definition ex_reboot :: "io_event list \<Rightarrow> world" where
  "ex_reboot evs = zero_world\<lparr>jnl := ex_commit_journal\<lparr>j_revoke := Some 0, j_revoke_table := [0 \<mapsto> two_chains],
     j_superblock := zero_superblock\<lparr>s_sequence := 7, s_start := 15\<rparr>\<rparr>, bdata := disk_after evs (bdata ex_commit_world)\<rparr>"

lemmas ex_commit_defs = ex_commit_world_def ex_commit_journal_def quiet_kernel_def zero_defs

lemma ex_commit_env: "log_env_ok quiet_kernel ex_commit_world" "log_free ex_commit_world = 16"
proof -
  have "log_space_ok ex_commit_journal"
    by (simp add: log_space_ok_def ring_ok_def in_ring_def ring_dist_def ring_size_def ex_commit_defs)
  then show "log_env_ok quiet_kernel ex_commit_world"
    by (simp add: log_env_ok_def log_valid_def bmap_ok_def tags_fit_def is_journal_aborted_def Let_def ex_commit_defs)
  show "log_free ex_commit_world = 16" by (simp add: log_free_def ex_commit_defs)
qed

lemma ex_commit_base: "log_base quiet_kernel 2 ex_commit_world 0 ex_commit_world"
proof -
  have "lists_wf ex_commit_world"
    unfolding lists_wf_def
  proof (intro conjI allI)
    fix t l jh
    show "distinct (t_list l (trs ex_commit_world t))" by (cases l) (simp_all add: ex_commit_defs)
    show "jh \<in> set (t_list l (trs ex_commit_world t)) \<longleftrightarrow>
        l \<noteq> BJ_None \<and> b_transaction (jhs ex_commit_world jh) = Some t \<and> b_jlist (jhs ex_commit_world jh) = l"
      by (cases l) (auto simp: ex_commit_defs)
  qed (simp_all add: ex_commit_defs)
  then show ?thesis by (simp add: log_base_def free_block_def ex_commit_defs)
qed

lemma ex_commit_ready: "commit_ready quiet_kernel 2 ex_commit_world"
proof -
  have "to_log ex_commit_world ex_commit_world 5" by (simp add: to_log_def attached_def Let_def ex_commit_defs)
  moreover have "length (logged_data ex_commit_world 5) = 1024" by (simp add: logged_data_def ex_commit_defs)
  moreover have "t_buffers (trs ex_commit_world 2) = [5]" "length (t_data_tag_list (trs ex_commit_world 2)) = 1"
    "j_blocksize (jnl ex_commit_world) = 1024" by (simp_all add: ex_commit_defs)
  ultimately show ?thesis using ex_commit_env ex_commit_base by (simp add: commit_ready_def)
qed

lemma ex_rebooted: "rebooted quiet_kernel 2 ex_commit_world evs (ex_reboot evs)"
proof -
  have "\<not> header (bdata ex_commit_world d b) 8 ty" for d b ty
    by (simp add: header_def get_be32_def JBD2_MAGIC_NUMBER_def ex_commit_defs)
  moreover have "log_env quiet_kernel (ex_reboot evs)"
    by (simp add: log_env_def ring_ok_def readahead_window_ok_def JBD2_HAS_COMPAT_FEATURE_def ex_reboot_def ex_commit_defs)
  moreover have "log_readable quiet_kernel (ex_reboot evs)" by (simp add: log_readable_def ex_reboot_def ex_commit_defs)
  moreover have "table_lookup two_chains b = None" for b
    using fresh_table_lookup [of 1 1 b] by (simp add: two_chains_def)
  moreover have "cur_revoke (jnl (ex_reboot evs)) = Some two_chains" by (simp add: cur_revoke_def ex_reboot_def)
  ultimately show ?thesis
    using two_chains_wf unfolding rebooted_def Let_def
    by (simp add: ex_reboot_def logged_pair_def ex_commit_defs DC_CAPACITY_def)
qed

text \<open>
  C26: writing the metadata of a transaction returns and empties its list of metadata buffers,
  and the log then holds descriptor blocks, one after the other from the old head of the log on,
  whose tags and copies stand for exactly the logged contents of the buffers in their order and,
  if there are any buffers, for the checksums of all data blocks of the transaction.
\<close>

theorem metadata_reaches_log:
  assumes "commit_ready k t w"
  shows "\<exists>w' crc evs its n. write_metadata k t w = Some (w', crc) \<and> t_buffers (trs w' t) = [] \<and>
    iolog w' = iolog w @ evs \<and> jnl w' = advanced n (jnl w) \<and>
    items_ix (jnl w) (log_image k w evs) (t_tid (trs w t)) 0 its n \<and> list_all is_desc its \<and>
    items_payload (j_blocksize (jnl w)) its = map (logged_pair w) (t_buffers (trs w t)) \<and>
    items_data_tags its = (if t_buffers (trs w t) = [] then [] else map entry_pair (t_data_tag_list (trs w t)))"
proof (rule write_metadata_ok [OF assms])
  fix w' crc its n evs
  assume "write_metadata k t w = Some (w', crc)" "t_buffers (trs w' t) = []" "list_all is_desc its"
    "log_base k t w n w'" "iolog w' = iolog w @ evs" "items_ix (jnl w) (log_image k w evs) (t_tid (trs w t)) 0 its n"
    "items_payload (j_blocksize (jnl w)) its = map (logged_pair w) (t_buffers (trs w t))"
    "items_data_tags its = (if t_buffers (trs w t) = [] then [] else map entry_pair (t_data_tag_list (trs w t)))"
  moreover from this have "jnl w' = advanced n (jnl w)" by (simp add: log_base_def)
  ultimately show ?thesis
    by (intro exI [of _ w'] exI [of _ crc] exI [of _ evs] exI [of _ its] exI [of _ n] conjI)
qed

theorem metadata_reaches_log_witness:
  "\<exists>w' crc evs its n. write_metadata quiet_kernel 2 ex_commit_world = Some (w', crc) \<and> t_buffers (trs w' 2) = [] \<and>
    iolog w' = evs \<and> items_ix ex_commit_journal (log_image quiet_kernel ex_commit_world evs) 7 0 its n \<and>
    items_payload 1024 its = [(77, replicate 1024 1)] \<and> items_data_tags its = [(40, dzat_checksum (replicate 1024 0) 1024)]"
proof -
  have e: "iolog ex_commit_world = []" "jnl ex_commit_world = ex_commit_journal" "t_tid (trs ex_commit_world 2) = 7"
    "t_buffers (trs ex_commit_world 2) = [5]" "j_blocksize ex_commit_journal = 1024"
    "map (logged_pair ex_commit_world) [5] = [(77, replicate 1024 1)]"
    "map entry_pair (t_data_tag_list (trs ex_commit_world 2)) = [(40, dzat_checksum (replicate 1024 0) 1024)]"
    by (simp_all add: logged_pair_def logged_data_def entry_pair_def ex_commit_defs)
  show ?thesis using metadata_reaches_log [OF ex_commit_ready] unfolding e by auto
qed

text \<open>
  C27: every block that writing the metadata of a transaction submits is one of the free blocks of
  the log on the journal device, from the head on; no block of a transaction that is still live in
  the log is overwritten, and at most two blocks for each buffer and one for each data tag are used.
\<close>

theorem metadata_writes_free_blocks:
  assumes "commit_ready k t w"
  shows "\<exists>w' crc evs n. write_metadata k t w = Some (w', crc) \<and> iolog w' = iolog w @ evs \<and>
    n \<le> 2 * length (t_buffers (trs w t)) + length (t_data_tag_list (trs w t)) \<and> jnl w' = advanced n (jnl w) \<and>
    (\<forall>d b data fua. SubmitWrite d b data fua \<in> set evs \<longrightarrow>
       d = j_dev (jnl w) \<and> b \<notin> live_blocks k w \<and> (\<exists>i < n. b = log_ix k (jnl w) i))"
proof (rule write_metadata_ok [OF assms])
  fix w' crc its n evs
  assume a: "write_metadata k t w = Some (w', crc)" "log_base k t w n w'" "iolog w' = iolog w @ evs"
    "n \<le> 2 * length (t_buffers (trs w t)) + length (t_data_tag_list (trs w t))" "log_writes k w n evs"
  have v: "log_valid k w" "n < log_free w" using assms a(4) by (auto simp: commit_ready_def log_env_ok_def Let_def)
  have "d = j_dev (jnl w) \<and> b \<notin> live_blocks k w \<and> (\<exists>i < n. b = log_ix k (jnl w) i)" if e: "SubmitWrite d b data fua \<in> set evs" for d b data fua
  proof -
    have "write_below k w n (SubmitWrite d b data fua)" using a(5) e unfolding log_writes_def list_all_iff by blast
    then obtain i where "d = j_dev (jnl w)" "i < n" "b = log_ix k (jnl w) i" by auto
    then show ?thesis using free_not_live_block [OF v(1), of i] v(2) by auto
  qed
  then show ?thesis using a by (intro exI [of _ w'] exI [of _ crc] exI [of _ evs] exI [of _ n]) (simp add: log_base_def)
qed

theorem metadata_writes_free_blocks_witness:
  "\<exists>w' crc n. write_metadata quiet_kernel 2 ex_commit_world = Some (w', crc) \<and> n \<le> 3 \<and> jnl w' = advanced n ex_commit_journal \<and>
    (\<forall>d b data fua. SubmitWrite d b data fua \<in> set (iolog w') \<longrightarrow> d = 4 \<and> (\<exists>i < n. b = log_ix quiet_kernel ex_commit_journal i))"
proof -
  have e: "iolog ex_commit_world = []" "jnl ex_commit_world = ex_commit_journal" "j_dev ex_commit_journal = 4"
    "length (t_buffers (trs ex_commit_world 2)) = 1" "length (t_data_tag_list (trs ex_commit_world 2)) = 1"
    by (simp_all add: ex_commit_defs)
  show ?thesis using metadata_writes_free_blocks [OF ex_commit_ready] unfolding e by fastforce
qed

text \<open>
  C28: the transaction is atomic.  Writing its metadata and its commit record returns, writes only
  free blocks of the log, and if the system then comes up again with these requests carried out,
  recovery returns and leaves on the file system device either all logged buffers of the
  transaction or none; all of them if every data block has the contents it was committed with, and
  none if there is a data block that has not and that the transaction does not itself log.
\<close>

theorem commit_atomic:
  assumes "commit_ready k t w" "t_buffers (trs w t) \<noteq> []"
  shows "\<exists>w1 crc w2 bh evs. write_metadata k t w = Some (w1, crc) \<and>
    journal_submit_commit_record k w1 t crc = Some (w2, Some bh, 0) \<and> iolog w2 = iolog w @ evs \<and> log_writes k w (log_free w) evs \<and>
    (\<forall>wr. rebooted k t w evs wr \<longrightarrow>
      (let dev = j_fs_dev (jnl wr); fs = bdata wr dev; bs = j_blocksize (jnl w);
           logged = map (logged_pair w) (t_buffers (trs w t));
           intact = (\<lambda>e. dzat_checksum (fs (dt_blocknr e)) bs = crc32_data_sum e)
       in \<exists>w'. jbdbf_journal_recover k wr = Some (w', k_sync_blockdev k dev) \<and>
         bdata w' dev \<in> {fs, install logged fs} \<and>
         ((\<forall>e \<in> set (t_data_tag_list (trs w t)). intact e) \<longrightarrow> bdata w' dev = install logged fs) \<and>
         ((\<exists>e \<in> set (t_data_tag_list (trs w t)). \<not> intact e \<and> dt_blocknr e \<notin> fst ` set logged) \<longrightarrow> bdata w' dev = fs)))"
proof -
  have env: "log_env_ok k w" using assms(1) by (simp add: commit_ready_def)
  obtain w1 crc its n evs1 where m: "write_metadata k t w = Some (w1, crc)" "t_buffers (trs w1 t) = []"
    "n \<le> 2 * length (t_buffers (trs w t)) + length (t_data_tag_list (trs w t))" "list_all is_desc its" "log_writes k w n evs1"
    "log_base k t w n w1" "iolog w1 = iolog w @ evs1" "items_ix (jnl w) (log_image k w evs1) (t_tid (trs w t)) 0 its n"
    "items_payload (j_blocksize (jnl w)) its = map (logged_pair w) (t_buffers (trs w t))"
    "items_data_tags its = (if t_buffers (trs w t) = [] then [] else map entry_pair (t_data_tag_list (trs w t)))"
    using write_metadata_ok [OF assms(1)] .
  have n: "Suc n < log_free w" using assms(1) m(3) by (simp add: commit_ready_def)
  obtain w2 bh evs where c: "journal_submit_commit_record k w1 t crc = Some (w2, Some bh, 0)" "iolog w2 = iolog w @ evs"
    "items_ix (jnl w) (log_image k w evs) (t_tid (trs w t)) 0 (its @ [LCommit]) (Suc n)" "log_writes k w (Suc n) evs"
    using commit_record_ok [OF env m(6) n m(8,7,5)] .
  have lw: "log_writes k w (log_free w) evs"
    using c(4) n write_below_mono unfolding log_writes_def list_all_iff by (meson less_imp_le)
  have dt: "items_data_tags its = map entry_pair (t_data_tag_list (trs w t))" using m(10) assms(2) by simp
  have "\<exists>w'. jbdbf_journal_recover k wr = Some (w', k_sync_blockdev k (j_fs_dev (jnl wr))) \<and>
      (let dev = j_fs_dev (jnl wr); fs = bdata wr dev; bs = j_blocksize (jnl w);
           logged = map (logged_pair w) (t_buffers (trs w t));
           intact = (\<lambda>e. dzat_checksum (fs (dt_blocknr e)) bs = crc32_data_sum e)
       in bdata w' dev \<in> {fs, install logged fs} \<and>
         ((\<forall>e \<in> set (t_data_tag_list (trs w t)). intact e) \<longrightarrow> bdata w' dev = install logged fs) \<and>
         ((\<exists>e \<in> set (t_data_tag_list (trs w t)). \<not> intact e \<and> dt_blocknr e \<notin> fst ` set logged) \<longrightarrow> bdata w' dev = fs))"
    if rb: "rebooted k t w evs wr" for wr
  proof -
    have rec: "recoverable k wr (its @ [LCommit])"
      by (rule rebooted_recoverable [OF env rb c(3) m(4) n c(4) m(9)]) (simp_all add: dt)
    have ix: "items_ix (jnl w) (log_image k w evs) (t_tid (trs w t)) 0 its n" using items_ix_snoc [OF c(3)] by auto
    have "j_blocksize (jnl wr) = j_blocksize (jnl w)" using rb by (simp add: rebooted_def Let_def)
    note one = replay_one_transaction [OF rec m(4) ix this refl, unfolded m(9) dt]
    show ?thesis
      by (rule one, rule exI, rule conjI, assumption) (auto simp: Let_def entry_pair_def)
  qed
  then show ?thesis using m(1) c(1,2) lw unfolding Let_def by blast
qed


theorem commit_atomic_witness:
  "\<exists>w1 crc w2 bh evs w'. write_metadata quiet_kernel 2 ex_commit_world = Some (w1, crc) \<and>
    journal_submit_commit_record quiet_kernel w1 2 crc = Some (w2, Some bh, 0) \<and> iolog w2 = evs \<and>
    jbdbf_journal_recover quiet_kernel (ex_reboot evs) = Some (w', 0) \<and> bdata w' 6 77 = replicate 1024 1"
proof -
  let ?w = ex_commit_world
  have e: "iolog ?w = []" "t_buffers (trs ?w 2) = [5]" "j_dev (jnl ?w) = 4" "bdata ?w 6 40 = replicate 1024 0"
    "map (logged_pair ?w) [5] = [(77, replicate 1024 1)]" "t_data_tag_list (trs ?w 2) = [\<lparr>dt_blocknr = 40, crc32_data_sum = dzat_checksum (replicate 1024 0) 1024\<rparr>]"
    "j_blocksize (jnl ?w) = 1024" "\<And>evs. j_fs_dev (jnl (ex_reboot evs)) = 6" "\<And>evs. bdata (ex_reboot evs) = disk_after evs (bdata ?w)" "k_sync_blockdev quiet_kernel 6 = 0"
    by (simp_all add: logged_pair_def logged_data_def ex_reboot_def ex_commit_defs)
  have "t_buffers (trs ?w 2) \<noteq> []" using e(2) by simp
  from commit_atomic [OF ex_commit_ready this] show ?thesis
  proof (elim exE conjE, goal_cases)
    case (1 w1 crc w2 bh evs)
    have "SubmitWrite 6 40 data fua \<notin> set evs" for data fua
      using 1(4) e(3) by (auto simp: log_writes_def list_all_iff)
    then have d: "disk_after evs (bdata ?w) 6 40 = replicate 1024 0" using disk_after_untouched [of 6 40 evs "bdata ?w"] e(4) by simp
    obtain w' where "jbdbf_journal_recover quiet_kernel (ex_reboot evs) = Some (w', 0)"
      "bdata w' 6 = install [(77, replicate 1024 1)] (disk_after evs (bdata ?w) 6)"
      using 1(5) [rule_format, OF ex_rebooted] d unfolding Let_def e by auto
    then show ?thesis using 1(1-3) e(1) by (intro exI [of _ w1]) (auto simp: install_def)
  qed
qed

end
