(* ===== verification/Dir_Hash.thy ===== *)
theory Dir_Hash
  imports Prelude
begin

text \<open>
  The hashes of file names in indexed directories (hash.c, and half_md4_transform of
  lib/halfmd4.c).  A name is the list of its bytes; len is the length of that list.
\<close>

section \<open>Transformations\<close>

type_synonym hash_buf = "u32 \<times> u32 \<times> u32 \<times> u32"

definition DELTA :: u32 where "DELTA = 0x9E3779B9"

fun TEA_rounds :: "nat \<Rightarrow> u32 \<Rightarrow> u32 list \<Rightarrow> u32 \<times> u32 \<Rightarrow> u32 \<times> u32" where
  "TEA_rounds 0 acc inw (b0, b1) = (b0, b1)"
| "TEA_rounds (Suc n) acc inw (b0, b1) =
     (let acc = acc + DELTA;
          b0 = b0 + ((push_bit 4 b1 + inw ! 0) XOR (b1 + acc) XOR (drop_bit 5 b1 + inw ! 1));
          b1 = b1 + ((push_bit 4 b0 + inw ! 2) XOR (b0 + acc) XOR (drop_bit 5 b0 + inw ! 3))
      in TEA_rounds n acc inw (b0, b1))"

definition TEA_transform :: "hash_buf \<Rightarrow> u32 list \<Rightarrow> hash_buf" where
  "TEA_transform buf inw =
     (let (buf0, buf1, buf2, buf3) = buf; (b0, b1) = TEA_rounds 16 0 inw (buf0, buf1)
      in (buf0 + b0, buf1 + b1, buf2, buf3))"

definition md4_F :: "u32 \<Rightarrow> u32 \<Rightarrow> u32 \<Rightarrow> u32" where "md4_F x y z = z XOR (x AND (y XOR z))"
definition md4_G :: "u32 \<Rightarrow> u32 \<Rightarrow> u32 \<Rightarrow> u32" where "md4_G x y z = (x AND y) + ((x XOR y) AND z)"
definition md4_H :: "u32 \<Rightarrow> u32 \<Rightarrow> u32 \<Rightarrow> u32" where "md4_H x y z = x XOR y XOR z"
definition md4_K1 :: u32 where "md4_K1 = 0"
definition md4_K2 :: u32 where "md4_K2 = 0x5A827999"
definition md4_K3 :: u32 where "md4_K3 = 0x6ED9EBA1"

text \<open>
  ROUND changes its first variable; the next round is called with the variables rotated, so
  the state is rotated here.  After four rounds each variable is in its place again.
\<close>

definition md4_ROUND :: "(u32 \<Rightarrow> u32 \<Rightarrow> u32 \<Rightarrow> u32) \<Rightarrow> u32 \<Rightarrow> nat \<Rightarrow> hash_buf \<Rightarrow> hash_buf" where
  "md4_ROUND f x s = (\<lambda>(a, b, c, d).
     let a = a + (f b c d + x) in (d, push_bit s a OR drop_bit (32 - s) a, b, c))"

definition md4_rounds :: "(u32 \<Rightarrow> u32 \<Rightarrow> u32 \<Rightarrow> u32) \<Rightarrow> u32 \<Rightarrow> u32 list \<Rightarrow> (nat \<times> nat) list \<Rightarrow> hash_buf \<Rightarrow> hash_buf" where
  "md4_rounds f k inw = fold (\<lambda>(i, s). md4_ROUND f (inw ! i + k) s)"

definition half_md4_transform :: "hash_buf \<Rightarrow> u32 list \<Rightarrow> hash_buf" where
  "half_md4_transform buf inw =
     (let (buf0, buf1, buf2, buf3) = buf;
          s = md4_rounds md4_F md4_K1 inw [(0, 3), (1, 7), (2, 11), (3, 19), (4, 3), (5, 7), (6, 11), (7, 19)] buf;
          s = md4_rounds md4_G md4_K2 inw [(1, 3), (3, 5), (5, 9), (7, 13), (0, 3), (2, 5), (4, 9), (6, 13)] s;
          (a, b, c, d) = md4_rounds md4_H md4_K3 inw [(3, 3), (7, 9), (2, 11), (6, 15), (1, 3), (5, 9), (0, 11), (4, 15)] s
      in (buf0 + a, buf1 + b, buf2 + c, buf3 + d))"

section \<open>The legacy hash\<close>

definition hack_step :: "(u8 \<Rightarrow> u32) \<Rightarrow> u8 \<Rightarrow> u32 \<times> u32 \<Rightarrow> u32 \<times> u32" where
  "hack_step ext c = (\<lambda>(hash0, hash1).
     let hash = hash1 + (hash0 XOR (ext c * 7152373));
         hash = (if hash AND 0x80000000 \<noteq> 0 then hash - 0x7fffffff else hash)
     in (hash, hash0))"

definition dx_hack_hash :: "(u8 \<Rightarrow> u32) \<Rightarrow> bytes \<Rightarrow> u32" where
  "dx_hack_hash ext name = push_bit 1 (fst (fold (hack_step ext) name (0x12a3fe2d, 0x37abe8f9)))"

definition dx_hack_hash_unsigned :: "bytes \<Rightarrow> u32" where "dx_hack_hash_unsigned = dx_hack_hash ucast"
definition dx_hack_hash_signed :: "bytes \<Rightarrow> u32" where "dx_hack_hash_signed = dx_hack_hash scast"

section \<open>Packing a name into words\<close>

fun hashbuf_loop :: "(u8 \<Rightarrow> u32) \<Rightarrow> u32 \<Rightarrow> nat \<Rightarrow> u32 \<Rightarrow> int \<Rightarrow> bytes \<Rightarrow> u32 list" where
  "hashbuf_loop ext pad i val num [] = (if 0 \<le> num - 1 then val # replicate (nat (num - 1)) pad else [])"
| "hashbuf_loop ext pad i val num (c # cs) =
     (let val = (if i mod 4 = 0 then pad else val); val = ext c + push_bit 8 val
      in if i mod 4 = 3 then val # hashbuf_loop ext pad (i + 1) pad (num - 1) cs
         else hashbuf_loop ext pad (i + 1) val num cs)"

definition hash_pad :: "nat \<Rightarrow> u32" where
  "hash_pad len = (let pad = of_nat len OR push_bit 8 (of_nat len) in pad OR push_bit 16 pad)"

definition str2hashbuf :: "(u8 \<Rightarrow> u32) \<Rightarrow> bytes \<Rightarrow> nat \<Rightarrow> u32 list" where
  "str2hashbuf ext msg num =
     (let pad = hash_pad (length msg)
      in hashbuf_loop ext pad 0 pad (int num) (if length msg > num * 4 then take (num * 4) msg else msg))"

definition str2hashbuf_signed :: "bytes \<Rightarrow> nat \<Rightarrow> u32 list" where "str2hashbuf_signed = str2hashbuf scast"
definition str2hashbuf_unsigned :: "bytes \<Rightarrow> nat \<Rightarrow> u32 list" where "str2hashbuf_unsigned = str2hashbuf ucast"

section \<open>The hash of a name\<close>

record dx_hash_info =
  hash :: u32
  minor_hash :: u32
  hash_version :: int
  seed :: "hash_buf option"

definition DX_HASH_LEGACY :: int where "DX_HASH_LEGACY = 0"
definition DX_HASH_HALF_MD4 :: int where "DX_HASH_HALF_MD4 = 1"
definition DX_HASH_TEA :: int where "DX_HASH_TEA = 2"
definition DX_HASH_LEGACY_UNSIGNED :: int where "DX_HASH_LEGACY_UNSIGNED = 3"
definition DX_HASH_HALF_MD4_UNSIGNED :: int where "DX_HASH_HALF_MD4_UNSIGNED = 4"
definition DX_HASH_TEA_UNSIGNED :: int where "DX_HASH_TEA_UNSIGNED = 5"
definition EXT4_HTREE_EOF :: u32 where "EXT4_HTREE_EOF = 0x7fffffff"

lemmas dx_hash_defs = DX_HASH_LEGACY_def DX_HASH_HALF_MD4_def DX_HASH_TEA_def DX_HASH_LEGACY_UNSIGNED_def
  DX_HASH_HALF_MD4_UNSIGNED_def DX_HASH_TEA_UNSIGNED_def

function half_md4_loop :: "(bytes \<Rightarrow> nat \<Rightarrow> u32 list) \<Rightarrow> bytes \<Rightarrow> hash_buf \<Rightarrow> hash_buf" where
  "half_md4_loop tohash p buf =
     (if length p > 0 then half_md4_loop tohash (drop 32 p) (half_md4_transform buf (tohash p 8)) else buf)"
  by auto
termination by (relation "measure (\<lambda>(_, p, _). length p)") auto

function TEA_loop :: "(bytes \<Rightarrow> nat \<Rightarrow> u32 list) \<Rightarrow> bytes \<Rightarrow> hash_buf \<Rightarrow> hash_buf" where
  "TEA_loop tohash p buf =
     (if length p > 0 then TEA_loop tohash (drop 16 p) (TEA_transform buf (tohash p 4)) else buf)"
  by auto
termination by (relation "measure (\<lambda>(_, p, _). length p)") auto

declare half_md4_loop.simps [simp del] TEA_loop.simps [simp del]

definition hash_seed :: "hash_buf option \<Rightarrow> hash_buf" where
  "hash_seed sd = (case sd of
       Some s \<Rightarrow> (if s \<noteq> (0, 0, 0, 0) then s else (0x67452301, 0xefcdab89, 0x98badcfe, 0x10325476))
     | None \<Rightarrow> (0x67452301, 0xefcdab89, 0x98badcfe, 0x10325476))"

text \<open>The switch over the hash versions: the hash and the minor hash, or None for an unknown version.\<close>

definition hash_switch :: "int \<Rightarrow> hash_buf \<Rightarrow> bytes \<Rightarrow> (u32 \<times> u32) option" where
  "hash_switch v buf name =
     (if v = DX_HASH_LEGACY_UNSIGNED then Some (dx_hack_hash_unsigned name, 0)
      else if v = DX_HASH_LEGACY then Some (dx_hack_hash_signed name, 0)
      else if v = DX_HASH_HALF_MD4_UNSIGNED \<or> v = DX_HASH_HALF_MD4
      then let (_, buf1, buf2, _) = half_md4_loop
                 (if v = DX_HASH_HALF_MD4_UNSIGNED then str2hashbuf_unsigned else str2hashbuf_signed) name buf
           in Some (buf1, buf2)
      else if v = DX_HASH_TEA_UNSIGNED \<or> v = DX_HASH_TEA
      then let (buf0, buf1, _, _) = TEA_loop
                 (if v = DX_HASH_TEA_UNSIGNED then str2hashbuf_unsigned else str2hashbuf_signed) name buf
           in Some (buf0, buf1)
      else None)"

definition final_hash :: "u32 \<Rightarrow> u32" where
  "final_hash h = (let h = h AND NOT 1 in if h = push_bit 1 EXT4_HTREE_EOF then push_bit 1 (EXT4_HTREE_EOF - 1) else h)"

definition ext4bffs_dirhash :: "bytes \<Rightarrow> dx_hash_info \<Rightarrow> dx_hash_info \<times> int" where
  "ext4bffs_dirhash name hinfo =
     (case hash_switch (hash_version hinfo) (hash_seed (seed hinfo)) name of
        None \<Rightarrow> (hinfo\<lparr>hash := 0\<rparr>, - 1)
      | Some (h, m) \<Rightarrow> (hinfo\<lparr>hash := final_hash h, minor_hash := m\<rparr>, 0))"

section \<open>Words of a name\<close>

text \<open>One word: up to four bytes, after the padding.\<close>

definition hash_word :: "(u8 \<Rightarrow> u32) \<Rightarrow> u32 \<Rightarrow> bytes \<Rightarrow> u32" where
  "hash_word ext pad = foldl (\<lambda>val c. ext c + push_bit 8 val) pad"

lemma map_drop_Suc: "map (\<lambda>j. f (drop (4 * j) xs)) [0..<Suc n] = f xs # map (\<lambda>j. f (drop (4 * j) (drop 4 xs))) [0..<n]"
  by (rule nth_equalityI) (auto simp: nth_Cons add.commute split: nat.split simp del: upt_Suc)

lemma hashbuf_loop_words:
  "i mod 4 = 0 \<Longrightarrow> length cs \<le> 4 * n \<Longrightarrow>
   hashbuf_loop ext pad i pad (int n) cs = map (\<lambda>j. hash_word ext pad (take 4 (drop (4 * j) cs))) [0..<n]"
proof (induction n arbitrary: i cs)
  case (Suc n)
  have m: "Suc i mod 4 = 1" "Suc (Suc i) mod 4 = 2" "Suc (Suc (Suc i)) mod 4 = 3" "Suc (Suc (Suc (Suc i))) mod 4 = 0"
    using Suc.prems(1) by presburger+
  have pads: "map (\<lambda>j. hash_word ext pad (take 4 (drop (4 * j) (drop 4 cs)))) [0..<n] = replicate n pad" if "length cs \<le> 4"
    using that by (intro nth_equalityI) (simp_all add: hash_word_def)
  show ?case
  proof (cases "length cs \<le> 3")
    case True
    then consider "cs = []" | a where "cs = [a]" | a b where "cs = [a, b]" | a b c where "cs = [a, b, c]"
      by (cases cs; cases "tl cs"; cases "tl (tl cs)"; cases "tl (tl (tl cs))") auto
    then show ?thesis
      unfolding map_drop_Suc [of "\<lambda>x. hash_word ext pad (take 4 x)"] using pads True Suc.prems(1) m
      by cases (simp_all add: hash_word_def)
  next
    case False
    then obtain a b c d r where cs: "cs = a # b # c # d # r"
      by (cases cs; cases "tl cs"; cases "tl (tl cs)"; cases "tl (tl (tl cs))") auto
    then show ?thesis
      unfolding map_drop_Suc [of "\<lambda>x. hash_word ext pad (take 4 x)"] using Suc m by (simp add: hash_word_def)
  qed
qed simp

lemma str2hashbuf_words:
  "str2hashbuf ext msg n = map (\<lambda>j. hash_word ext (hash_pad (length msg)) (take 4 (drop (4 * j) msg))) [0..<n]"
proof -
  have "take 4 (drop (4 * j) (take (n * 4) msg)) = take 4 (drop (4 * j) msg)" if "j < n" for j
    using that by (simp add: drop_take)
  then show ?thesis by (simp add: str2hashbuf_def hashbuf_loop_words Let_def)
qed

section \<open>Names in ASCII\<close>

lemma scast_ascii:
  assumes "c < 128"
  shows "(scast c :: u32) = ucast (c :: u8)"
proof -
  have "uint c < 128" using assms by (simp add: word_less_def)
  then have "sint c = uint c" by (simp add: sint_uint signed_take_bit_eq_if_positive bit_iff_odd take_bit_int_eq_self)
  then show ?thesis by (metis of_int_sint of_int_uint)
qed

lemma hashbuf_loop_cong:
  "(\<And>c. c \<in> set cs \<Longrightarrow> ext c = ext' c) \<Longrightarrow> hashbuf_loop ext pad i val num cs = hashbuf_loop ext' pad i val num cs"
  by (induction cs arbitrary: i val num) (simp_all add: Let_def)

lemma str2hashbuf_ascii: "\<forall>c \<in> set msg. c < 128 \<Longrightarrow> str2hashbuf_signed msg n = str2hashbuf_unsigned msg n"
  unfolding str2hashbuf_signed_def str2hashbuf_unsigned_def str2hashbuf_def Let_def
  by (rule hashbuf_loop_cong) (auto simp: scast_ascii split: if_splits dest: in_set_takeD)

lemma half_md4_loop_ascii:
  "\<forall>c \<in> set p. c < 128 \<Longrightarrow> half_md4_loop str2hashbuf_signed p buf = half_md4_loop str2hashbuf_unsigned p buf"
proof (induction "length p" arbitrary: p buf rule: less_induct)
  case less
  have "\<forall>c \<in> set (drop 32 p). c < 128" using less.prems by (auto dest: in_set_dropD)
  then show ?case
    using less.hyps [of "drop 32 p"] str2hashbuf_ascii [OF less.prems, of 8]
    by (subst (1 2) half_md4_loop.simps) simp
qed

lemma TEA_loop_ascii:
  "\<forall>c \<in> set p. c < 128 \<Longrightarrow> TEA_loop str2hashbuf_signed p buf = TEA_loop str2hashbuf_unsigned p buf"
proof (induction "length p" arbitrary: p buf rule: less_induct)
  case less
  have "\<forall>c \<in> set (drop 16 p). c < 128" using less.prems by (auto dest: in_set_dropD)
  then show ?case
    using less.hyps [of "drop 16 p"] str2hashbuf_ascii [OF less.prems, of 4]
    by (subst (1 2) TEA_loop.simps) simp
qed

lemma dx_hack_hash_ascii: "\<forall>c \<in> set p. c < 128 \<Longrightarrow> dx_hack_hash_signed p = dx_hack_hash_unsigned p"
  unfolding dx_hack_hash_signed_def dx_hack_hash_unsigned_def dx_hack_hash_def
  by (intro arg_cong [of _ _ "\<lambda>x. push_bit 1 (fst x)"] fold_cong) (simp_all add: hack_step_def scast_ascii)

section \<open>The range of the hash\<close>

lemma final_hash_range: "final_hash h AND 1 = 0" "final_hash h < push_bit 1 EXT4_HTREE_EOF"
proof -
  have "(h AND NOT 1) AND 1 = 0" by (simp add: and.assoc)
  then show "final_hash h AND 1 = 0" by (simp add: final_hash_def Let_def EXT4_HTREE_EOF_def)
  have "h AND NOT 1 \<le> NOT 1" by (rule word_and_le1)
  moreover have "NOT 1 = push_bit 1 EXT4_HTREE_EOF" by (simp add: EXT4_HTREE_EOF_def)
  ultimately have le: "h AND NOT 1 \<le> push_bit 1 EXT4_HTREE_EOF" by simp
  have "push_bit 1 (EXT4_HTREE_EOF - 1) < push_bit 1 EXT4_HTREE_EOF" by (simp add: EXT4_HTREE_EOF_def)
  then show "final_hash h < push_bit 1 EXT4_HTREE_EOF"
    using le unfolding final_hash_def Let_def by (auto simp: less_le)
qed

lemma hash_switch_known: "hash_switch v buf name \<noteq> None \<longleftrightarrow> v \<in> {0..5}"
proof -
  have "hash_switch v buf name \<noteq> None \<longleftrightarrow> v \<in> {0, 1, 2, 3, 4, 5}"
    unfolding hash_switch_def dx_hash_defs
    by (cases "half_md4_loop (if v = 4 then str2hashbuf_unsigned else str2hashbuf_signed) name buf";
        cases "TEA_loop (if v = 5 then str2hashbuf_unsigned else str2hashbuf_signed) name buf") simp
  then show ?thesis by auto
qed

lemma hash_switch_ascii:
  assumes "\<forall>c \<in> set name. c < 128" and "v \<in> {DX_HASH_LEGACY, DX_HASH_HALF_MD4, DX_HASH_TEA}"
  shows "hash_switch (v + 3) buf name = hash_switch v buf name"
  using assms(2) unfolding hash_switch_def dx_hash_defs
  by (auto simp: half_md4_loop_ascii [OF assms(1)] TEA_loop_ascii [OF assms(1)] dx_hack_hash_ascii [OF assms(1)])

section \<open>Properties\<close>

text \<open>
  C29: the hash of a name is even and below the value that marks the end of a directory, for every
  name and every seed, if the hash version is one of the six known ones; otherwise the result is
  an error and the hash 0.
\<close>

theorem dirhash_range:
  "case ext4bffs_dirhash name hinfo of (h, r) \<Rightarrow>
     if hash_version hinfo \<in> {0..5} then r = 0 \<and> hash h AND 1 = 0 \<and> hash h < push_bit 1 EXT4_HTREE_EOF \<and>
       hash_version h = hash_version hinfo \<and> seed h = seed hinfo
     else r = - 1 \<and> h = hinfo\<lparr>hash := 0\<rparr>"
  using hash_switch_known [of "hash_version hinfo" "hash_seed (seed hinfo)" name] final_hash_range
  by (cases "hash_switch (hash_version hinfo) (hash_seed (seed hinfo)) name") (auto simp: ext4bffs_dirhash_def)

text \<open>
  C30: on names in ASCII the signed and the unsigned variant of each of the three hash functions
  agree, so directories written on machines with signed and with unsigned characters are
  compatible for such names.
\<close>

theorem dirhash_signedness:
  assumes "\<forall>c \<in> set name. c < 128" and "v \<in> {DX_HASH_LEGACY, DX_HASH_HALF_MD4, DX_HASH_TEA}"
  shows "ext4bffs_dirhash name (hinfo\<lparr>hash_version := v + 3\<rparr>) =
    (case ext4bffs_dirhash name (hinfo\<lparr>hash_version := v\<rparr>) of (h, r) \<Rightarrow> (h\<lparr>hash_version := v + 3\<rparr>, r))"
  using hash_switch_ascii [OF assms, of "hash_seed (seed hinfo)"]
  by (simp add: ext4bffs_dirhash_def split: option.split)

theorem dirhash_signedness_witness:
  "list_all (\<lambda>c. c < 128) [97, 46, 99 :: u8] \<and>
   ext4bffs_dirhash [97, 46, 99] \<lparr>hash = 0, minor_hash = 0, hash_version = 4, seed = None\<rparr> =
   (case ext4bffs_dirhash [97, 46, 99] \<lparr>hash = 0, minor_hash = 0, hash_version = 1, seed = None\<rparr> of
      (h, r) \<Rightarrow> (h\<lparr>hash_version := 4\<rparr>, r))"
proof -
  have a: "\<forall>c \<in> set [97, 46, 99]. c < (128 :: u8)" by simp
  show ?thesis
    using dirhash_signedness [OF a, of 1 "\<lparr>hash = 0, minor_hash = 0, hash_version = 0, seed = None\<rparr>"]
    by (simp add: dx_hash_defs)
qed

end
