(* ===== verification/Rbtree.thy ===== *)
theory Rbtree
  imports Prelude
begin

text \<open>
  Red-black trees (lib/rbtree.c).  A node is an address; a tree of nodes with its colours is a
  value of type rb_tree, and a position in it, which the code reaches through parent pointers,
  is the path from the node to the root.  Following a NULL pointer is None.
\<close>

datatype rb_color = Red | Black

datatype 'a rb_tree = Leaf | Node rb_color "'a rb_tree" 'a "'a rb_tree"

text \<open>
  A step to the parent: the node is its left or its right child.  The other parts are the colour
  and the address of the parent and its other child.
\<close>

datatype 'a step = FromLeft rb_color 'a "'a rb_tree" | FromRight "'a rb_tree" 'a rb_color

type_synonym 'a path = "'a step list"

fun step_up :: "'a step \<Rightarrow> 'a rb_tree \<Rightarrow> 'a rb_tree" where
  "step_up (FromLeft c a r) t = Node c t a r"
| "step_up (FromRight l a c) t = Node c l a t"

fun plug :: "'a path \<Rightarrow> 'a rb_tree \<Rightarrow> 'a rb_tree" where
  "plug [] t = t"
| "plug (p # ps) t = plug ps (step_up p t)"

fun step_color :: "'a step \<Rightarrow> rb_color" where
  "step_color (FromLeft c a r) = c"
| "step_color (FromRight l a c) = c"

fun rb_is_red :: "'a rb_tree \<Rightarrow> bool" where
  "rb_is_red (Node Red l a r) = True"
| "rb_is_red _ = False"

fun rb_set_black :: "'a rb_tree \<Rightarrow> 'a rb_tree" where
  "rb_set_black (Node c l a r) = Node Black l a r"
| "rb_set_black Leaf = Leaf"

section \<open>Insertion\<close>

text \<open>
  The loop of rb_insert_color, for the red node t at the position given by the path.  A red
  parent without a parent of its own would make the code follow a NULL pointer.
\<close>

fun insert_loop :: "'a path \<Rightarrow> 'a rb_tree \<Rightarrow> 'a rb_tree option" where
  "insert_loop [] t = Some t"
| "insert_loop (p # ps) t =
     (if step_color p = Black then Some (plug (p # ps) t)
      else case ps of
             [] \<Rightarrow> None
           | FromLeft gc ga uncle # gs \<Rightarrow>
               if rb_is_red uncle
               then insert_loop gs (Node Red (rb_set_black (step_up p t)) ga (rb_set_black uncle))
               else (case p of
                       FromRight pl pa pc \<Rightarrow>
                         (case t of
                            Leaf \<Rightarrow> None
                          | Node nc nl na nr \<Rightarrow> Some (plug gs (Node Black (Node pc pl pa nl) na (Node Red nr ga uncle))))
                     | FromLeft pc pa pr \<Rightarrow> Some (plug gs (Node Black t pa (Node Red pr ga uncle))))
           | FromRight uncle ga gc # gs \<Rightarrow>
               if rb_is_red uncle
               then insert_loop gs (Node Red (rb_set_black uncle) ga (rb_set_black (step_up p t)))
               else (case p of
                       FromLeft pc pa pr \<Rightarrow>
                         (case t of
                            Leaf \<Rightarrow> None
                          | Node nc nl na nr \<Rightarrow> Some (plug gs (Node Black (Node Red uncle ga nl) na (Node pc nr pa pr))))
                     | FromRight pl pa pc \<Rightarrow> Some (plug gs (Node Black (Node Red uncle ga pl) pa t))))"

text \<open>rb_link_node puts the new node, red, where the search ended; rb_insert_color rebalances.\<close>

definition rb_insert :: "'a path \<Rightarrow> 'a \<Rightarrow> 'a rb_tree option" where
  "rb_insert path a = map_option rb_set_black (insert_loop path (Node Red Leaf a Leaf))"

section \<open>Removal\<close>

text \<open>
  The loop of __rb_erase_color.  The first result is a finished tree, the second the next
  position of the loop.
\<close>

abbreviation both_black :: "'a rb_tree \<Rightarrow> 'a rb_tree \<Rightarrow> bool" where
  "both_black l r \<equiv> \<not> rb_is_red l \<and> \<not> rb_is_red r"

fun erase_left :: "rb_color \<Rightarrow> 'a \<Rightarrow> 'a path \<Rightarrow> 'a rb_tree \<Rightarrow> 'a rb_tree \<Rightarrow> ('a rb_tree + 'a path \<times> 'a rb_tree) option" where
  "erase_left pc pa ps t Leaf = None"
| "erase_left pc pa ps t (Node oc ol oa orr) =
     (if both_black ol orr then Some (Inr (ps, Node pc t pa (Node Red ol oa orr)))
      else if \<not> rb_is_red orr
      then (case ol of
              Leaf \<Rightarrow> None
            | Node _ a x b \<Rightarrow> Some (Inl (rb_set_black (plug ps (Node pc (Node Black t pa a) x (rb_set_black (Node Red b oa orr)))))))
      else Some (Inl (rb_set_black (plug ps (Node pc (Node Black t pa ol) oa (rb_set_black orr))))))"

fun erase_right :: "rb_color \<Rightarrow> 'a \<Rightarrow> 'a path \<Rightarrow> 'a rb_tree \<Rightarrow> 'a rb_tree \<Rightarrow> ('a rb_tree + 'a path \<times> 'a rb_tree) option" where
  "erase_right pc pa ps t Leaf = None"
| "erase_right pc pa ps t (Node oc ol oa orr) =
     (if both_black ol orr then Some (Inr (ps, Node pc (Node Red ol oa orr) pa t))
      else if \<not> rb_is_red ol
      then (case orr of
              Leaf \<Rightarrow> None
            | Node _ a x b \<Rightarrow> Some (Inl (rb_set_black (plug ps (Node pc (rb_set_black (Node Red ol oa a)) x (Node Black b pa t))))))
      else Some (Inl (rb_set_black (plug ps (Node pc (rb_set_black ol) oa (Node Black orr pa t))))))"

text \<open>A red sibling is rotated above the parent first.\<close>

fun erase_step :: "'a step \<Rightarrow> 'a path \<Rightarrow> 'a rb_tree \<Rightarrow> ('a rb_tree + 'a path \<times> 'a rb_tree) option" where
  "erase_step (FromLeft pc pa other) ps t =
     (case other of
        Node Red ol oa orr \<Rightarrow> erase_left Red pa (FromLeft Black oa orr # ps) t ol
      | _ \<Rightarrow> erase_left pc pa ps t other)"
| "erase_step (FromRight other pa pc) ps t =
     (case other of
        Node Red ol oa orr \<Rightarrow> erase_right Red pa (FromRight ol oa Black # ps) t orr
      | _ \<Rightarrow> erase_right pc pa ps t other)"

lemma erase_left_next:
  "erase_left pc pa ps t other = Some (Inr (ps', t')) \<Longrightarrow> ps' = ps \<and> (pc = Red \<longrightarrow> rb_is_red t')"
  by (cases other) (auto split: if_splits rb_tree.splits)

lemma erase_right_next:
  "erase_right pc pa ps t other = Some (Inr (ps', t')) \<Longrightarrow> ps' = ps \<and> (pc = Red \<longrightarrow> rb_is_red t')"
  by (cases other) (auto split: if_splits rb_tree.splits)

lemma erase_step_next:
  assumes "erase_step p ps t = Some (Inr (ps', t'))"
  shows "length ps' = length ps \<or> length ps' = Suc (length ps) \<and> rb_is_red t'"
proof (cases p)
  case (FromLeft pc pa other)
  then show ?thesis using assms by (auto simp del: erase_left.simps dest!: erase_left_next split: rb_tree.splits rb_color.splits)
next
  case (FromRight other pa pc)
  then show ?thesis using assms by (auto simp del: erase_right.simps dest!: erase_right_next split: rb_tree.splits rb_color.splits)
qed

function erase_loop :: "'a path \<Rightarrow> 'a rb_tree \<Rightarrow> 'a rb_tree option" where
  "erase_loop [] t = Some (rb_set_black t)"
| "erase_loop (p # ps) t =
     (if rb_is_red t then Some (plug (p # ps) (rb_set_black t))
      else case erase_step p ps t of
             None \<Rightarrow> None
           | Some (Inl t') \<Rightarrow> Some t'
           | Some (Inr (ps', t')) \<Rightarrow> erase_loop ps' t')"
  by pat_completeness auto
termination
  by (relation "measure (\<lambda>(ps, t). 2 * length ps + (if rb_is_red t then 0 else 1))") (auto dest!: erase_step_next split: if_splits)

text \<open>The leftmost node of a tree, with its path below the given one.\<close>

fun leftmost :: "'a path \<Rightarrow> rb_color \<Rightarrow> 'a rb_tree \<Rightarrow> 'a \<Rightarrow> 'a rb_tree \<Rightarrow> 'a path \<times> rb_color \<times> 'a \<times> 'a rb_tree" where
  "leftmost ps c Leaf a r = (ps, c, a, r)"
| "leftmost ps c (Node lc ll la lr) a r = leftmost (FromLeft c a r # ps) lc ll la lr"

text \<open>
  rb_erase of the node at the position.  A node with two children is replaced by its
  successor, which takes over its colour; the hole is where the successor was.
\<close>

definition rb_erase :: "'a path \<Rightarrow> 'a rb_tree \<Rightarrow> 'a rb_tree option" where
  "rb_erase ps t =
     (case t of
        Leaf \<Rightarrow> None
      | Node c Leaf a r \<Rightarrow> (if c = Black then erase_loop ps r else Some (plug ps r))
      | Node c l a Leaf \<Rightarrow> (if c = Black then erase_loop ps l else Some (plug ps l))
      | Node c l a (Node rc rl ra rr) \<Rightarrow>
          (let (qs, sc, sa, child) = leftmost [] rc rl ra rr; path = qs @ FromRight l sa c # ps
           in if sc = Black then erase_loop path child else Some (plug path child)))"


section \<open>Walking the tree\<close>

text \<open>rb_first and rb_last go down on one side as far as they can; NULL is None.\<close>

fun rb_first :: "'a rb_tree \<Rightarrow> 'a option" where
  "rb_first Leaf = None"
| "rb_first (Node c Leaf a r) = Some a"
| "rb_first (Node c (Node lc ll la lr) a r) = rb_first (Node lc ll la lr)"

fun rb_last :: "'a rb_tree \<Rightarrow> 'a option" where
  "rb_last Leaf = None"
| "rb_last (Node c l a Leaf) = Some a"
| "rb_last (Node c l a (Node rc rl ra rr)) = rb_last (Node rc rl ra rr)"

text \<open>The loop of rb_next climbs while the node is a right child; that of rb_prev is symmetric.\<close>

fun climb_right :: "'a path \<Rightarrow> 'a option" where
  "climb_right [] = None"
| "climb_right (FromRight l a c # ps) = climb_right ps"
| "climb_right (FromLeft c a r # ps) = Some a"

fun climb_left :: "'a path \<Rightarrow> 'a option" where
  "climb_left [] = None"
| "climb_left (FromLeft c a r # ps) = climb_left ps"
| "climb_left (FromRight l a c # ps) = Some a"

fun rb_next :: "'a path \<Rightarrow> 'a rb_tree \<Rightarrow> 'a option" where
  "rb_next ps Leaf = None"
| "rb_next ps (Node c l a Leaf) = climb_right ps"
| "rb_next ps (Node c l a (Node rc rl ra rr)) = rb_first (Node rc rl ra rr)"

fun rb_prev :: "'a path \<Rightarrow> 'a rb_tree \<Rightarrow> 'a option" where
  "rb_prev ps Leaf = None"
| "rb_prev ps (Node c Leaf a r) = climb_left ps"
| "rb_prev ps (Node c (Node lc ll la lr) a r) = rb_last (Node lc ll la lr)"

text \<open>rb_replace_node puts another node at a position, with the colour and children of the old one.\<close>

fun rb_replace_node :: "'a path \<Rightarrow> 'a rb_tree \<Rightarrow> 'a \<Rightarrow> 'a rb_tree option" where
  "rb_replace_node ps Leaf b = None"
| "rb_replace_node ps (Node c l a r) b = Some (plug ps (Node c l b r))"

text \<open>
  The position of a node.  The code has it in the pointer to the node; here the node is looked up by
  its address, which occurs once in a tree.
\<close>

fun rb_locate :: "'a \<Rightarrow> 'a path \<Rightarrow> 'a rb_tree \<Rightarrow> ('a path \<times> 'a rb_tree) option" where
  "rb_locate x ps Leaf = None"
| "rb_locate x ps (Node c l a r) =
     (if a = x then Some (ps, Node c l a r)
      else case rb_locate x (FromLeft c a r # ps) l of
             Some p \<Rightarrow> Some p
           | None \<Rightarrow> rb_locate x (FromRight l a c # ps) r)"

section \<open>The order of the nodes\<close>

text \<open>The nodes of a tree in order, and those before and after a position.\<close>

fun inorder :: "'a rb_tree \<Rightarrow> 'a list" where
  "inorder Leaf = []"
| "inorder (Node c l a r) = inorder l @ a # inorder r"

fun before :: "'a path \<Rightarrow> 'a list" where
  "before [] = []"
| "before (FromLeft c a r # ps) = before ps"
| "before (FromRight l a c # ps) = before ps @ inorder l @ [a]"

fun after :: "'a path \<Rightarrow> 'a list" where
  "after [] = []"
| "after (FromLeft c a r # ps) = a # inorder r @ after ps"
| "after (FromRight l a c # ps) = after ps"

lemma inorder_plug [simp]: "inorder (plug ps t) = before ps @ inorder t @ after ps"
proof (induction ps arbitrary: t)
  case (Cons p ps)
  then show ?case by (cases p) simp_all
qed simp

lemma inorder_set_black [simp]: "inorder (rb_set_black t) = inorder t"
  by (cases t) simp_all

lemma before_append [simp]: "before (qs @ ps) = before ps @ before qs"
  by (induction qs rule: before.induct) simp_all

lemma after_append [simp]: "after (qs @ ps) = after qs @ after ps"
  by (induction qs rule: after.induct) simp_all

lemma inorder_insert_loop:
  "insert_loop ps t = Some t' \<Longrightarrow> inorder t' = before ps @ inorder t @ after ps"
proof (induction ps t rule: insert_loop.induct)
  case (2 p ps t)
  then show ?case by (cases p) (auto split: if_splits list.splits step.splits rb_tree.splits)
qed simp

lemma inorder_erase_left:
  "erase_left pc pa ps t other = Some (Inl t') \<Longrightarrow>
     inorder t' = before ps @ inorder t @ pa # inorder other @ after ps"
  "erase_left pc pa ps t other = Some (Inr (ps', t')) \<Longrightarrow>
     ps' = ps \<and> inorder t' = inorder t @ pa # inorder other"
  by (cases other; auto split: if_splits rb_tree.splits)+

lemma inorder_erase_right:
  "erase_right pc pa ps t other = Some (Inl t') \<Longrightarrow>
     inorder t' = before ps @ inorder other @ pa # inorder t @ after ps"
  "erase_right pc pa ps t other = Some (Inr (ps', t')) \<Longrightarrow>
     ps' = ps \<and> inorder t' = inorder other @ pa # inorder t"
  by (cases other; auto split: if_splits rb_tree.splits)+

lemma inorder_erase_step:
  "erase_step p ps t = Some (Inl t') \<Longrightarrow> inorder t' = before (p # ps) @ inorder t @ after (p # ps)"
  "erase_step p ps t = Some (Inr (ps', t')) \<Longrightarrow>
     before ps' @ inorder t' @ after ps' = before (p # ps) @ inorder t @ after (p # ps)"
  by (cases p; auto simp del: erase_left.simps erase_right.simps dest!: inorder_erase_left inorder_erase_right
      split: rb_tree.splits rb_color.splits)+

lemma inorder_erase_loop:
  "erase_loop ps t = Some t' \<Longrightarrow> inorder t' = before ps @ inorder t @ after ps"
proof (induction ps t rule: erase_loop.induct)
  case (1 t)
  then show ?case by auto
next
  case (2 p ps t)
  then show ?case
    by (auto simp del: plug.simps before.simps after.simps erase_step.simps dest: inorder_erase_step
        split: if_splits option.splits sum.splits)
qed

lemma leftmost_plug:
  "leftmost ps c l a r = (qs, sc, sa, child) \<Longrightarrow> plug qs (Node sc Leaf sa child) = plug ps (Node c l a r)"
  by (induction ps c l a r rule: leftmost.induct) simp_all

lemma plug_append: "plug (qs @ ps) t = plug ps (plug qs t)"
  by (induction qs arbitrary: t) simp_all

lemma leftmost_inorder:
  assumes "leftmost [] c l a r = (qs, sc, sa, child)"
  shows "before qs = []" and "sa # inorder child @ after qs = inorder l @ a # inorder r"
proof -
  have "before qs = before ps" if "leftmost ps c l a r = (qs, sc, sa, child)" for ps
    using that by (induction ps c l a r rule: leftmost.induct) simp_all
  from this [OF assms] show 1: "before qs = []" by simp
  have "inorder (plug qs (Node sc Leaf sa child)) = inorder (plug [] (Node c l a r))"
    by (simp only: leftmost_plug [OF assms])
  with 1 show "sa # inorder child @ after qs = inorder l @ a # inorder r" by simp
qed

lemma inorder_rb_erase:
  assumes "rb_erase ps (Node c l a r) = Some t'"
  shows "inorder t' = before ps @ inorder l @ inorder r @ after ps"
  using assms
  by (auto simp: rb_erase_def leftmost_inorder Let_def dest!: inorder_erase_loop split: rb_tree.splits if_splits prod.splits)

lemma rb_first_inorder: "rb_first t = (if inorder t = [] then None else Some (hd (inorder t)))"
  by (induction t rule: rb_first.induct) (auto simp: hd_append)

lemma rb_last_inorder: "rb_last t = (if inorder t = [] then None else Some (last (inorder t)))"
  by (induction t rule: rb_last.induct) auto

lemma climb_right_after: "climb_right ps = (if after ps = [] then None else Some (hd (after ps)))"
  by (induction ps rule: climb_right.induct) auto

lemma climb_left_before: "climb_left ps = (if before ps = [] then None else Some (last (before ps)))"
  by (induction ps rule: climb_left.induct) auto

lemma rb_next_inorder:
  "rb_next ps (Node c l a r) =
     (if inorder r @ after ps = [] then None else Some (hd (inorder r @ after ps)))"
  by (cases r) (auto simp: climb_right_after rb_first_inorder hd_append)

lemma rb_prev_inorder:
  "rb_prev ps (Node c l a r) =
     (if before ps @ inorder l = [] then None else Some (last (before ps @ inorder l)))"
  by (cases l) (auto simp: climb_left_before rb_last_inorder)

section \<open>Balance\<close>

text \<open>
  Every path from a node down to a missing child has the same number of black nodes, no red node
  has a red child, and the root is black.
\<close>

fun bheight :: "'a rb_tree \<Rightarrow> nat" where
  "bheight Leaf = 0"
| "bheight (Node c l a r) = (if c = Black then Suc (bheight l) else bheight l)"

fun invc :: "'a rb_tree \<Rightarrow> bool" where
  "invc Leaf = True"
| "invc (Node c l a r) = ((c = Red \<longrightarrow> both_black l r) \<and> invc l \<and> invc r)"

fun invh :: "'a rb_tree \<Rightarrow> bool" where
  "invh Leaf = True"
| "invh (Node c l a r) = (bheight l = bheight r \<and> invh l \<and> invh r)"

definition rb_ok :: "'a rb_tree \<Rightarrow> bool" where
  "rb_ok t \<longleftrightarrow> invc t \<and> invh t \<and> \<not> rb_is_red t"

text \<open>The same for a tree with a hole, into which a tree of black height h fits.\<close>

fun red_fits :: "'a path \<Rightarrow> bool" where
  "red_fits [] = False"
| "red_fits (p # ps) = (step_color p = Black)"

fun step_other :: "'a step \<Rightarrow> 'a rb_tree" where
  "step_other (FromLeft c a r) = r"
| "step_other (FromRight l a c) = l"

fun pinv :: "'a path \<Rightarrow> nat \<Rightarrow> bool" where
  "pinv [] h = True"
| "pinv (p # ps) h =
     (invc (step_other p) \<and> invh (step_other p) \<and> bheight (step_other p) = h \<and>
      (step_color p = Red \<longrightarrow> \<not> rb_is_red (step_other p) \<and> red_fits ps) \<and>
      pinv ps (if step_color p = Black then Suc h else h))"

lemma not_Black_iff [simp]: "c \<noteq> Black \<longleftrightarrow> c = Red"
  by (cases c) simp_all

lemma rb_is_red_Node [simp]: "rb_is_red (Node c l a r) \<longleftrightarrow> c = Red"
  by (cases c) simp_all

lemma rb_ok_plug:
  "rb_ok (plug ps t) \<longleftrightarrow> pinv ps (bheight t) \<and> invc t \<and> invh t \<and> (rb_is_red t \<longrightarrow> red_fits ps)"
proof (induction ps arbitrary: t)
  case Nil
  then show ?case by (simp add: rb_ok_def)
next
  case (Cons p ps)
  show ?case
  proof (cases p)
    case (FromLeft c a r)
    then show ?thesis by (cases c; cases "bheight r = bheight t"; simp add: Cons.IH; blast)
  next
    case (FromRight l a c)
    then show ?thesis by (cases c; cases "bheight l = bheight t"; simp add: Cons.IH; blast)
  qed
qed

lemma set_black_balance [simp]:
  "invh (rb_set_black t) = invh t" "invc t \<Longrightarrow> invc (rb_set_black t)" "\<not> rb_is_red (rb_set_black t)"
  "bheight (rb_set_black t) = (if rb_is_red t then Suc (bheight t) else bheight t)"
  by (cases t; simp)+

lemma rb_ok_set_black: "rb_ok t \<Longrightarrow> rb_ok (rb_set_black t)"
  by (simp add: rb_ok_def)

lemma insert_loop_ok:
  assumes "pinv ps (bheight t)" "invc t" "invh t" "rb_is_red t"
  shows "\<exists>t'. insert_loop ps t = Some t' \<and> rb_ok (rb_set_black t')"
  using assms
proof (induction ps t rule: insert_loop.induct)
  case (1 t)
  then show ?case by (simp add: rb_ok_def)
next
  case (2 p ps t)
  show ?case
  proof (cases "step_color p = Black")
    case True
    then have "rb_ok (plug (p # ps) t)" using "2.prems" by (simp add: rb_ok_plug del: plug.simps)
    then show ?thesis using True by (simp add: rb_ok_set_black)
  next
    case False
    then obtain g gs where ps: "ps = g # gs" and g: "step_color g = Black"
      using "2.prems" by (cases ps) auto
    obtain nl na nr where t: "t = Node Red nl na nr" using "2.prems" by (cases t) auto
    have prems: "pinv (p # g # gs) (bheight t)" "invc t" "invh t" using "2.prems" ps by blast+
    show ?thesis
    proof (cases "rb_is_red (step_other g)")
      case True
      show ?thesis
      proof (cases g)
        case (FromLeft gc ga u)
        have "\<exists>t'. insert_loop gs (Node Red (rb_set_black (step_up p t)) ga (rb_set_black u)) = Some t' \<and> rb_ok (rb_set_black t')"
          by (rule "2.IH"(1) [OF False ps FromLeft]) (use True prems g False FromLeft in \<open>cases p; simp\<close>)+
        then show ?thesis using False ps True FromLeft by simp
      next
        case (FromRight u ga gc)
        have "\<exists>t'. insert_loop gs (Node Red (rb_set_black u) ga (rb_set_black (step_up p t))) = Some t' \<and> rb_ok (rb_set_black t')"
          by (rule "2.IH"(2) [OF False ps FromRight]) (use True prems g False FromRight in \<open>cases p; simp\<close>)+
        then show ?thesis using False ps True FromRight by simp
      qed
    next
      case black: False
      show ?thesis using prems False ps g t black by (cases g; cases p) (simp_all add: rb_ok_plug rb_ok_set_black)
    qed
  qed
qed

text \<open>
  A step of the removal loop, for a position whose tree lacks one black node: it ends in a
  balanced tree, or goes on with a position of the same kind.
\<close>

fun erase_goes_on :: "('a rb_tree + 'a path \<times> 'a rb_tree) option \<Rightarrow> bool" where
  "erase_goes_on None = False"
| "erase_goes_on (Some (Inl t)) = rb_ok t"
| "erase_goes_on (Some (Inr (ps, t))) =
     (pinv ps (Suc (bheight t)) \<and> invc t \<and> invh t \<or> rb_is_red t \<and> rb_ok (plug ps (rb_set_black t)))"

lemma erase_left_ok:
  assumes "pinv (FromLeft pc pa other # ps) (Suc (bheight t))" "invc t" "invh t" "\<not> rb_is_red t" "\<not> rb_is_red other"
  shows "erase_goes_on (erase_left pc pa ps t other)"
proof (cases other)
  case Leaf
  then show ?thesis using assms by simp
next
  case (Node oc ol oa orr)
  with assms(5) have "other = Node Black ol oa orr" by (cases oc) simp_all
  then show ?thesis using assms
    by (cases pc; cases "rb_is_red ol"; cases "rb_is_red orr"; cases ol)
      (simp_all add: rb_ok_plug rb_ok_set_black)
qed

lemma erase_right_ok:
  assumes "pinv (FromRight other pa pc # ps) (Suc (bheight t))" "invc t" "invh t" "\<not> rb_is_red t" "\<not> rb_is_red other"
  shows "erase_goes_on (erase_right pc pa ps t other)"
proof (cases other)
  case Leaf
  then show ?thesis using assms by simp
next
  case (Node oc ol oa orr)
  with assms(5) have other: "other = Node Black ol oa orr" by (cases oc) simp_all
  with assms(1) have "bheight t = bheight orr" by simp
  then show ?thesis using assms other
    by (cases pc; cases "rb_is_red ol"; cases "rb_is_red orr"; cases orr)
      (simp_all add: rb_ok_plug rb_ok_set_black)
qed

lemma erase_step_ok:
  assumes "pinv (p # ps) (Suc (bheight t))" "invc t" "invh t" "\<not> rb_is_red t"
  shows "erase_goes_on (erase_step p ps t)"
proof (cases p)
  case (FromLeft pc pa other)
  show ?thesis
  proof (cases "rb_is_red other")
    case True
    then obtain ol oa orr where other: "other = Node Red ol oa orr" by (cases other) auto
    have "erase_goes_on (erase_left Red pa (FromLeft Black oa orr # ps) t ol)"
      by (rule erase_left_ok) (use assms FromLeft other in \<open>cases pc; simp\<close>)+
    then show ?thesis using FromLeft other by simp
  next
    case False
    have "erase_goes_on (erase_left pc pa ps t other)"
      by (rule erase_left_ok) (use assms FromLeft False in simp_all)
    then show ?thesis using FromLeft False by (auto simp del: erase_left.simps split: rb_tree.splits rb_color.splits)
  qed
next
  case (FromRight other pa pc)
  show ?thesis
  proof (cases "rb_is_red other")
    case True
    then obtain ol oa orr where other: "other = Node Red ol oa orr" by (cases other) auto
    have "erase_goes_on (erase_right Red pa (FromRight ol oa Black # ps) t orr)"
      by (rule erase_right_ok) (use assms FromRight other in \<open>cases pc; simp\<close>)+
    then show ?thesis using FromRight other by simp
  next
    case False
    have "erase_goes_on (erase_right pc pa ps t other)"
      by (rule erase_right_ok) (use assms FromRight False in simp_all)
    then show ?thesis using FromRight False by (auto simp del: erase_right.simps split: rb_tree.splits rb_color.splits)
  qed
qed

lemma erase_loop_ok:
  assumes "erase_goes_on (Some (Inr (ps, t)))"
  shows "\<exists>t'. erase_loop ps t = Some t' \<and> rb_ok t'"
  using assms
proof (induction ps t rule: erase_loop.induct)
  case (1 t)
  then show ?case by (auto simp: rb_ok_def)
next
  case (2 p ps t)
  show ?case
  proof (cases "rb_is_red t")
    case True
    then have "rb_ok (plug (p # ps) (rb_set_black t))" using "2.prems" by (auto simp: rb_ok_plug simp del: plug.simps)
    then show ?thesis using True by simp
  next
    case False
    then have step: "erase_goes_on (erase_step p ps t)" using "2.prems" by (auto intro!: erase_step_ok simp del: pinv.simps)
    show ?thesis
    proof (cases "erase_step p ps t")
      case None
      then show ?thesis using step by simp
    next
      case (Some x)
      then show ?thesis
        using step "2.IH" [OF False Some] False by (cases x) auto
    qed
  qed
qed

lemma pinv_append: "pinv (qs @ FromRight l a c # ps) h = pinv (qs @ FromRight l b c # ps) h"
proof (induction qs arbitrary: h)
  case (Cons q qs)
  have "red_fits (qs @ FromRight l a c # ps) = red_fits (qs @ FromRight l b c # ps)" by (cases qs) simp_all
  then show ?case using Cons.IH by simp
qed simp

lemma red_fits_append: "red_fits (qs @ FromRight l a c # ps) = red_fits (qs @ FromRight l b c # ps)"
  by (cases qs) simp_all

lemma erase_one_child:
  assumes "rb_ok (plug ps (Node c l a r))" and "l = Leaf \<and> t = r \<or> r = Leaf \<and> t = l"
  shows "\<exists>t'. (if c = Black then erase_loop ps t else Some (plug ps t)) = Some t' \<and> rb_ok t'"
proof (cases c)
  case Black
  then have "erase_goes_on (Some (Inr (ps, t)))" using assms by (auto simp: rb_ok_plug)
  with Black show ?thesis using erase_loop_ok by simp
next
  case Red
  then show ?thesis using assms by (auto simp: rb_ok_plug)
qed

lemma rb_erase_ok:
  assumes "rb_ok (plug ps (Node c l a r))"
  shows "\<exists>t'. rb_erase ps (Node c l a r) = Some t' \<and> rb_ok t'"
proof (cases "l = Leaf \<or> r = Leaf")
  case True
  then show ?thesis using erase_one_child [OF assms] by (cases l; cases r) (auto simp: rb_erase_def)
next
  case False
  then obtain rc rl ra rr where r: "r = Node rc rl ra rr" by (cases r) auto
  obtain qs sc sa child where left: "leftmost [] rc rl ra rr = (qs, sc, sa, child)" by (metis prod_cases4)
  have "rb_ok (plug (qs @ FromRight l a c # ps) (Node sc Leaf sa child))"
    using assms r leftmost_plug [OF left] by (simp add: plug_append)
  then have "rb_ok (plug (qs @ FromRight l sa c # ps) (Node sc Leaf sa child))"
    by (simp add: rb_ok_plug pinv_append [of qs l a c ps _ sa] red_fits_append [of qs l a c ps sa])
  from erase_one_child [OF this, of child] show ?thesis
    using False left r by (cases l; cases sc) (simp_all add: rb_erase_def Let_def)
qed

lemma rb_insert_ok:
  assumes "rb_ok (plug ps Leaf)"
  shows "\<exists>t. rb_insert ps a = Some t \<and> rb_ok t \<and> inorder t = before ps @ a # after ps"
proof -
  obtain t where "insert_loop ps (Node Red Leaf a Leaf) = Some t" "rb_ok (rb_set_black t)"
    using assms insert_loop_ok [of ps "Node Red Leaf a Leaf"] by (auto simp: rb_ok_plug)
  then show ?thesis using inorder_insert_loop by (fastforce simp: rb_insert_def)
qed

section \<open>Nodes by address\<close>

lemma rb_locate_plug:
  "(case rb_locate x ps t of
      None \<Rightarrow> x \<notin> set (inorder t)
    | Some (qs, u) \<Rightarrow> plug qs u = plug ps t \<and> (\<exists>c l r. u = Node c l x r))"
proof (induction t arbitrary: ps)
  case (Node c l a r)
  show ?case
    using Node.IH(1) [of "FromLeft c a r # ps"] Node.IH(2) [of "FromRight l a c # ps"]
    by (auto split: option.splits)
qed simp

text \<open>In a tree without repetitions, a node is found between the nodes before and after it.\<close>

lemma rb_locate_split:
  assumes "inorder t = xs @ x # ys" "distinct (inorder t)"
  obtains ps c l r where "rb_locate x [] t = Some (ps, Node c l x r)" "plug ps (Node c l x r) = t"
    "before ps @ inorder l = xs" "inorder r @ after ps = ys"
proof -
  have "x \<in> set (inorder t)" using assms(1) by simp
  then obtain ps c l r where p: "rb_locate x [] t = Some (ps, Node c l x r)" "plug ps (Node c l x r) = t"
    using rb_locate_plug [of x t "[]"] by (auto split: option.splits)
  have "(before ps @ inorder l) @ x # (inorder r @ after ps) = xs @ x # ys"
    using p(2) assms(1) inorder_plug [of ps "Node c l x r"] by simp
  moreover have "distinct (inorder (plug ps (Node c l x r)))" by (simp only: p(2) assms(2))
  then have "x \<notin> set (before ps @ inorder l)" "x \<notin> set (inorder r @ after ps)" by auto
  ultimately have "before ps @ inorder l = xs" "inorder r @ after ps = ys"
    using append_Cons_eq_iff [of x "before ps @ inorder l" "inorder r @ after ps" xs ys] by blast+
  then show thesis using that p by blast
qed

lemma rb_locate_prev_next:
  assumes "inorder t = xs @ x # ys" "distinct (inorder t)"
  obtains ps u where "rb_locate x [] t = Some (ps, u)"
    "rb_prev ps u = (if xs = [] then None else Some (last xs))"
    "rb_next ps u = (if ys = [] then None else Some (hd ys))"
proof -
  obtain ps c l r where "rb_locate x [] t = Some (ps, Node c l x r)" "before ps @ inorder l = xs" "inorder r @ after ps = ys"
    using rb_locate_split [OF assms] by metis
  then show thesis using that [of ps "Node c l x r"] by (simp add: rb_prev_inorder rb_next_inorder)
qed

lemma rb_locate_erase:
  assumes "rb_ok t" "inorder t = xs @ x # ys" "distinct (inorder t)"
  obtains ps u t' where "rb_locate x [] t = Some (ps, u)" "rb_erase ps u = Some t'" "rb_ok t'" "inorder t' = xs @ ys"
proof -
  obtain ps c l r where p: "rb_locate x [] t = Some (ps, Node c l x r)" "plug ps (Node c l x r) = t"
      "before ps @ inorder l = xs" "inorder r @ after ps = ys"
    using rb_locate_split [OF assms(2,3)] by metis
  obtain t' where "rb_erase ps (Node c l x r) = Some t'" "rb_ok t'"
    using rb_erase_ok [of ps c l x r] assms(1) p(2) by auto
  moreover have "inorder t' = xs @ ys" using inorder_rb_erase [OF calculation(1)] p(3,4) by simp
  ultimately show thesis using that p(1) by blast
qed

section \<open>Correctness\<close>

text \<open>
  C31. Linking a new node at any free position of a red-black tree and rebalancing never follows
  a NULL pointer, keeps the colour and height rules, and puts exactly the new node between the
  nodes before and after the position.  Erasing any node does the same and removes exactly that
  node.
\<close>

theorem rbtree_operations:
  "(rb_ok (plug ps Leaf) \<longrightarrow>
      (\<exists>t. rb_insert ps a = Some t \<and> rb_ok t \<and> inorder t = before ps @ a # after ps)) \<and>
   (rb_ok (plug ps (Node c l b r)) \<longrightarrow>
      (\<exists>t. rb_erase ps (Node c l b r) = Some t \<and> rb_ok t \<and>
           inorder t = before ps @ inorder l @ inorder r @ after ps))"
proof (intro conjI impI)
  assume "rb_ok (plug ps Leaf)"
  then show "\<exists>t. rb_insert ps a = Some t \<and> rb_ok t \<and> inorder t = before ps @ a # after ps"
    by (rule rb_insert_ok)
next
  assume "rb_ok (plug ps (Node c l b r))"
  then show "\<exists>t. rb_erase ps (Node c l b r) = Some t \<and> rb_ok t \<and>
         inorder t = before ps @ inorder l @ inorder r @ after ps"
    using rb_erase_ok [of ps c l b r] inorder_rb_erase [of ps c l b r] by auto
qed

text \<open>Five nodes: a sixth linked after the last one, and the root, with two children, erased.\<close>

definition ex_left :: "nat rb_tree" where
  "ex_left = Node Black Leaf 1 Leaf"

definition ex_right :: "nat rb_tree" where
  "ex_right = Node Black (Node Red Leaf 3 Leaf) 4 (Node Red Leaf 5 Leaf)"

definition ex_path :: "nat path" where
  "ex_path = [FromRight Leaf 5 Red, FromRight (Node Red Leaf 3 Leaf) 4 Black, FromRight ex_left 2 Black]"

theorem rbtree_operations_witness:
  "rb_ok (plug ex_path Leaf) \<and> rb_ok (plug [] (Node Black ex_left 2 ex_right)) \<and>
   (\<exists>t. rb_insert ex_path 6 = Some t \<and> rb_ok t \<and> inorder t = [1, 2, 3, 4, 5, 6]) \<and>
   (\<exists>t. rb_erase [] (Node Black ex_left 2 ex_right) = Some t \<and> rb_ok t \<and> inorder t = [1, 3, 4, 5])"
  using rbtree_operations [of ex_path 6] rbtree_operations [of "[]" _ Black ex_left 2 ex_right]
  by (simp add: ex_left_def ex_right_def ex_path_def rb_ok_def)

end
