(* ===== verification/Bitmaps.thy ===== *)
theory Bitmaps
  imports Bytes
begin

text \<open>
  Little-endian fields and bitmaps inside disk blocks: the bit operations that ext4bf.h takes from
  the kernel (__test_and_set_bit_le and friends), the end marks of ialloc.c and the count of free bits of
  bitmap.c.  Bit n of a bitmap is bit n mod 8 of byte n div 8.  An access outside the bitmap is None.
\<close>

section \<open>Little-endian fields\<close>

definition get_le16 :: "bytes \<Rightarrow> nat \<Rightarrow> 16 word" where
  "get_le16 bs off = push_bit 8 (ucast (bs ! (off + 1))) OR ucast (bs ! off)"

definition put_le16 :: "nat \<Rightarrow> 16 word \<Rightarrow> bytes \<Rightarrow> bytes" where
  "put_le16 off v bs = bs[off := ucast v, off + 1 := ucast (drop_bit 8 v)]"

definition put_le32 :: "nat \<Rightarrow> u32 \<Rightarrow> bytes \<Rightarrow> bytes" where
  "put_le32 off v bs =
     bs[off := ucast v, off + 1 := ucast (drop_bit 8 v),
        off + 2 := ucast (drop_bit 16 v), off + 3 := ucast (drop_bit 24 v)]"

lemma length_put_le [simp]:
  "length (put_le16 off v bs) = length bs" "length (put_le32 off w bs) = length bs"
  by (simp_all add: put_le16_def put_le32_def)

lemma le16_bytes_cat: "push_bit 8 (ucast (ucast (drop_bit 8 v) :: u8)) OR ucast (ucast v :: u8) = (v :: 16 word)"
proof (rule bit_word_eqI)
  fix n assume "n < LENGTH(16)"
  then show "bit (push_bit 8 (ucast (ucast (drop_bit 8 v) :: u8)) OR ucast (ucast v :: u8) :: 16 word) n = bit v n"
    by (cases "n < 8") (auto simp: bit_simps)
qed

lemma get_put_le16_same [layout_simps]: "off + 1 < length bs \<Longrightarrow> get_le16 (put_le16 off v bs) off = v"
  by (simp add: get_le16_def put_le16_def le16_bytes_cat)

lemma get_put_le16_other [layout_simps]:
  "off' + 1 < off \<or> off + 1 < off' \<Longrightarrow> get_le16 (put_le16 off v bs) off' = get_le16 bs off'"
  by (auto simp: get_le16_def put_le16_def)

lemma get_put_le32_same [layout_simps]: "off + 3 < length bs \<Longrightarrow> get_le32 (put_le32 off v bs) off = v"
  by (simp add: get_le32_def put_le32_def be32_bytes_cat)

lemma get_le32_put_le16_other [layout_simps]:
  "off' + 3 < off \<or> off + 1 < off' \<Longrightarrow> get_le32 (put_le16 off v bs) off' = get_le32 bs off'"
  by (auto simp: get_le32_def put_le16_def)

lemma get_le16_put_le32_other [layout_simps]:
  "off' + 1 < off \<or> off + 3 < off' \<Longrightarrow> get_le16 (put_le32 off v bs) off' = get_le16 bs off'"
  by (auto simp: get_le16_def put_le32_def)

lemma get_put_le32_other [layout_simps]:
  "off' + 3 < off \<or> off + 3 < off' \<Longrightarrow> get_le32 (put_le32 off v bs) off' = get_le32 bs off'"
  by (auto simp: get_le32_def put_le32_def)

section \<open>Bits\<close>

definition bit_at :: "bytes \<Rightarrow> nat \<Rightarrow> bool" where
  "bit_at bm n = bit (bm ! (n div 8)) (n mod 8)"

definition ext4bf_test_bit :: "nat \<Rightarrow> bytes \<Rightarrow> bool option" where
  "ext4bf_test_bit n bm = (if n < 8 * length bm then Some (bit_at bm n) else None)"

definition ext4bf_set_bit :: "nat \<Rightarrow> bytes \<Rightarrow> bytes option" where
  "ext4bf_set_bit n bm =
     (if n < 8 * length bm then Some (bm[n div 8 := set_bit (n mod 8) (bm ! (n div 8))]) else None)"

definition ext4bf_clear_bit :: "nat \<Rightarrow> bytes \<Rightarrow> bytes option" where
  "ext4bf_clear_bit n bm =
     (if n < 8 * length bm then Some (bm[n div 8 := unset_bit (n mod 8) (bm ! (n div 8))]) else None)"

text \<open>The first clear bit from start on, or the given size when there is none before it.\<close>

function ext4bf_find_next_zero_bit :: "bytes \<Rightarrow> nat \<Rightarrow> nat \<Rightarrow> nat option" where
  "ext4bf_find_next_zero_bit bm sz start =
     (if start < sz
      then do { b \<leftarrow> ext4bf_test_bit start bm;
                if b then ext4bf_find_next_zero_bit bm sz (start + 1) else Some start }
      else Some sz)"
  by pat_completeness auto
termination
  by (relation "measure (\<lambda>(bm, sz, start). sz - start)") auto

declare ext4bf_find_next_zero_bit.simps [simp del]

text \<open>Setting a range of bits one by one.\<close>

function set_bit_range :: "nat \<Rightarrow> nat \<Rightarrow> bytes \<Rightarrow> bytes option" where
  "set_bit_range i n bm = (if i < n then do { bm \<leftarrow> ext4bf_set_bit i bm; set_bit_range (i + 1) n bm } else Some bm)"
  by pat_completeness auto
termination
  by (relation "measure (\<lambda>(i, n, bm). n - i)") auto

declare set_bit_range.simps [simp del]

definition memset :: "nat \<Rightarrow> u8 \<Rightarrow> nat \<Rightarrow> bytes \<Rightarrow> bytes option" where
  "memset off c n bs =
     (if off + n \<le> length bs then Some (take off bs @ replicate n c @ drop (off + n) bs) else None)"

definition ext4bf_mark_bitmap_end :: "nat \<Rightarrow> nat \<Rightarrow> bytes \<Rightarrow> bytes option" where
  "ext4bf_mark_bitmap_end start_bit end_bit bitmap =
     (if start_bit \<ge> end_bit then Some bitmap
      else let i = (start_bit + 7) div 8 * 8
           in do { bitmap \<leftarrow> set_bit_range start_bit i bitmap;
                   if i < end_bit then memset (i div 8) 0xff ((end_bit - i) div 8) bitmap else Some bitmap })"

definition nibblemap :: "nat list" where
  "nibblemap = [4, 3, 3, 2, 3, 2, 2, 1, 3, 2, 2, 1, 2, 1, 1, 0]"

text \<open>The bytes are plain char: the shift is arithmetic, and the mask removes the sign bits.\<close>

definition ext4bf_count_free :: "bytes \<Rightarrow> nat \<Rightarrow> nat" where
  "ext4bf_count_free bm numchars =
     (\<Sum>b\<leftarrow>take numchars bm. nibblemap ! unat (b AND 0xf) + nibblemap ! unat (drop_bit 4 b AND 0xf))"

section \<open>What the bit operations do\<close>

lemma bit_at_set:
  assumes "n < 8 * length bm"
  shows "bit_at (bm[n div 8 := set_bit (n mod 8) (bm ! (n div 8))]) m \<longleftrightarrow> m = n \<or> bit_at bm m"
proof (cases "m div 8 = n div 8")
  case True
  then have "m = n \<longleftrightarrow> m mod 8 = n mod 8" by (metis div_mult_mod_eq)
  then show ?thesis using True assms by (auto simp: bit_at_def bit_set_bit_iff less_mult_imp_div_less)
next
  case False
  then show ?thesis by (auto simp: bit_at_def)
qed

lemma ext4bf_set_bit_Some:
  assumes "ext4bf_set_bit n bm = Some bm'"
  shows "length bm' = length bm" and "bit_at bm' m \<longleftrightarrow> m = n \<or> bit_at bm m"
  using assms by (auto simp: ext4bf_set_bit_def bit_at_set split: if_splits)

lemma ext4bf_set_bit_ok: "n < 8 * length bm \<Longrightarrow> \<exists>bm'. ext4bf_set_bit n bm = Some bm'"
  by (simp add: ext4bf_set_bit_def)

lemma set_bit_range_ok:
  assumes "n \<le> 8 * length bm"
  shows "\<exists>bm'. set_bit_range i n bm = Some bm' \<and> length bm' = length bm \<and>
           (\<forall>m. bit_at bm' m \<longleftrightarrow> i \<le> m \<and> m < n \<or> bit_at bm m)"
  using assms
proof (induction i n bm rule: set_bit_range.induct)
  case (1 i n bm)
  show ?case
  proof (cases "i < n")
    case True
    with 1 obtain bm1 where b1: "ext4bf_set_bit i bm = Some bm1" using ext4bf_set_bit_ok [of i bm] by auto
    note e = ext4bf_set_bit_Some [OF b1]
    obtain bm' where "set_bit_range (i + 1) n bm1 = Some bm'" "length bm' = length bm1"
      "\<forall>m. bit_at bm' m \<longleftrightarrow> i + 1 \<le> m \<and> m < n \<or> bit_at bm1 m"
      using "1.IH" [OF True b1] "1.prems" e(1) by auto
    then show ?thesis using True b1 e by (subst set_bit_range.simps) auto
  qed (auto simp: set_bit_range.simps)
qed

text \<open>A range that does not fit into the bitmap is written past its end.\<close>

lemma set_bit_range_None:
  assumes "i \<le> 8 * length bm" "8 * length bm < n"
  shows "set_bit_range i n bm = None"
  using assms
proof (induction i n bm rule: set_bit_range.induct)
  case (1 i n bm)
  show ?case
  proof (cases "ext4bf_set_bit i bm")
    case (Some bm')
    note e = ext4bf_set_bit_Some [OF Some]
    have "i < 8 * length bm"
      using Some "1.prems"(1) by (auto simp: ext4bf_set_bit_def split: if_splits)
    then show ?thesis using 1 Some e(1) by (subst set_bit_range.simps) simp
  qed (use "1.prems" in \<open>simp add: set_bit_range.simps\<close>)
qed

lemma bit_at_memset:
  assumes "off + n \<le> length bs" and "m < 8 * length bs"
  shows "bit_at (take off bs @ replicate n 0xff @ drop (off + n) bs) m \<longleftrightarrow> 8 * off \<le> m \<and> m < 8 * (off + n) \<or> bit_at bs m"
proof -
  have ff: "bit (0xff :: u8) (m mod 8)"
  proof -
    have "(0xff :: u8) = - 1" by simp
    then show ?thesis by (simp only: bit_minus_1_iff) simp
  qed
  have m: "m div 8 < length bs" using assms(2) by (simp add: less_mult_imp_div_less mult.commute)
  have "m div 8 < off \<longleftrightarrow> m < 8 * off" "m div 8 < off + n \<longleftrightarrow> m < 8 * (off + n)"
    by (simp_all add: div_less_iff_less_mult mult.commute)
  moreover have "(take off bs @ replicate n 0xff @ drop (off + n) bs) ! (m div 8) =
      (if m div 8 < off then bs ! (m div 8) else if m div 8 < off + n then 0xff else bs ! (m div 8))"
    using assms(1) m by (auto simp: nth_append)
  ultimately show ?thesis using ff by (simp add: bit_at_def not_less)
qed

lemma memset_ff_ok:
  assumes "off + n \<le> length bs"
  shows "\<exists>bs'. memset off 0xff n bs = Some bs' \<and> length bs' = length bs \<and>
           (\<forall>m < 8 * length bs. bit_at bs' m \<longleftrightarrow> 8 * off \<le> m \<and> m < 8 * (off + n) \<or> bit_at bs m)"
  using assms bit_at_memset by (simp add: memset_def)

text \<open>Marking the end sets exactly the bits from the start to the end, which is at a byte boundary.\<close>

lemma mark_bitmap_end_ok:
  assumes "8 * k \<le> 8 * length bm"
  shows "\<exists>bm'. ext4bf_mark_bitmap_end start (8 * k) bm = Some bm' \<and> length bm' = length bm \<and>
           (\<forall>m < 8 * length bm. bit_at bm' m \<longleftrightarrow> start \<le> m \<and> m < 8 * k \<or> bit_at bm m)"
proof (cases "start < 8 * k")
  case True
  define i where "i = (start + 7) div 8 * 8"
  then have i: "start \<le> i" "i \<le> 8 * k" "i = 8 * (i div 8)" using True by auto
  then obtain bm1 where b1: "set_bit_range start i bm = Some bm1" "length bm1 = length bm"
      "\<forall>m. bit_at bm1 m \<longleftrightarrow> start \<le> m \<and> m < i \<or> bit_at bm m"
    using set_bit_range_ok [of i bm start] assms by auto
  have "i div 8 + (8 * k - i) div 8 = k" using i by auto
  then obtain bm2 where b2: "memset (i div 8) 0xff ((8 * k - i) div 8) bm1 = Some bm2" "length bm2 = length bm"
      "\<forall>m < 8 * length bm. bit_at bm2 m \<longleftrightarrow> i \<le> m \<and> m < 8 * k \<or> bit_at bm1 m"
    using memset_ff_ok [of "i div 8" "(8 * k - i) div 8" bm1] assms b1(2) i(3) by auto
  have mark: "ext4bf_mark_bitmap_end start (8 * k) bm =
      (if i < 8 * k then memset (i div 8) 0xff ((8 * k - i) div 8) bm1 else Some bm1)"
    using True b1(1) by (simp add: ext4bf_mark_bitmap_end_def i_def Let_def)
  show ?thesis
  proof (cases "i < 8 * k")
    case True
    then show ?thesis using mark b1(3) b2 i(1) by auto
  next
    case False
    then show ?thesis using mark b1 i(2) by auto
  qed
qed (auto simp: ext4bf_mark_bitmap_end_def)

lemma nibblemap_byte:
  "nibblemap ! unat (b AND 0xf) + nibblemap ! unat (drop_bit 4 b AND 0xf) = length (filter (\<lambda>i. \<not> bit b i) [0..<8])"
  for b :: u8
proof -
  have all: "list_all (\<lambda>n. nibblemap ! unat (word_of_nat n AND 0xf :: u8) +
      nibblemap ! unat (drop_bit 4 (word_of_nat n) AND 0xf :: u8) =
      length (filter (\<lambda>i. \<not> bit (word_of_nat n :: u8) i) [0..<8])) [0..<256]"
    by code_simp
  have "unat b < 256" using unsigned_less [of b] by simp
  then show ?thesis using all by (auto simp: list_all_iff dest: bspec [of _ _ "unat b"])
qed

text \<open>The count of free bits of bitmap.c is the number of clear bits.\<close>

lemma count_free_ok:
  assumes "n \<le> length bm"
  shows "ext4bf_count_free bm n = card {m. m < 8 * n \<and> \<not> bit_at bm m}"
  using assms
proof (induction n)
  case (Suc n)
  let ?z = "\<lambda>n. {m. m < 8 * n \<and> \<not> bit_at bm m}"
  have split: "?z (Suc n) = ?z n \<union> (\<lambda>i. 8 * n + i) ` {i. i < 8 \<and> \<not> bit (bm ! n) i}"
  proof (intro equalityI subsetI)
    fix m assume m: "m \<in> ?z (Suc n)"
    show "m \<in> ?z n \<union> (\<lambda>i. 8 * n + i) ` {i. i < 8 \<and> \<not> bit (bm ! n) i}"
    proof (cases "m < 8 * n")
      case False
      then have d: "m div 8 = n" using m by auto
      then have "m = 8 * n + m mod 8" by (metis mult_div_mod_eq)
      with d show ?thesis using m by (auto simp: bit_at_def intro!: image_eqI [of _ _ "m mod 8"])
    qed (use m in simp)
  qed (auto simp: bit_at_def)
  have "card (?z (Suc n)) = card (?z n) + card {i. i < 8 \<and> \<not> bit (bm ! n) i}"
    unfolding split by (subst card_Un_disjoint) (auto simp: card_image)
  also have "card {i. i < 8 \<and> \<not> bit (bm ! n) i} = length (filter (\<lambda>i. \<not> bit (bm ! n) i) [0..<8])"
    using distinct_card [of "filter (\<lambda>i. \<not> bit (bm ! n) i) [0..<8]"] by (simp add: conj_commute)
  finally show ?case
    using Suc by (simp add: ext4bf_count_free_def take_Suc_conv_app_nth nibblemap_byte)
qed (simp add: ext4bf_count_free_def)

lemma find_next_zero_bit_ok:
  assumes "sz \<le> 8 * length bm"
  shows "\<exists>n. ext4bf_find_next_zero_bit bm sz start = Some n \<and>
           (\<forall>m. start \<le> m \<and> m < n \<and> m < sz \<longrightarrow> bit_at bm m) \<and>
           (if start < sz then start \<le> n \<and> n \<le> sz \<and> (n < sz \<longrightarrow> \<not> bit_at bm n) else n = sz)"
  using assms
proof (induction bm sz start rule: ext4bf_find_next_zero_bit.induct)
  case (1 bm sz start)
  show ?case
  proof (cases "start < sz \<and> bit_at bm start")
    case True
    then have "ext4bf_test_bit start bm = Some True" using "1.prems" by (simp add: ext4bf_test_bit_def)
    moreover have "ext4bf_find_next_zero_bit bm sz start = ext4bf_find_next_zero_bit bm sz (start + 1)"
      using calculation True by (simp add: ext4bf_find_next_zero_bit.simps [of bm sz start])
    moreover have "\<forall>m. start \<le> m \<longleftrightarrow> m = start \<or> start + 1 \<le> m" by auto
    ultimately show ?thesis using "1.IH" [of True] True "1.prems" by (cases "start + 1 < sz") auto
  next
    case False
    then show ?thesis using "1.prems" by (subst ext4bf_find_next_zero_bit.simps) (auto simp: ext4bf_test_bit_def)
  qed
qed

end
