(* ===== verification/Group_Desc.thy ===== *)
theory Group_Desc
  imports Bitmaps
begin

text \<open>
  The superblock fields that describe the layout of the file system, and the group descriptors
  (ext4bf.h, super.c, balloc.c) with their checksum (lib/crc16.c).  A descriptor is a list of bytes
  with the layout of struct ext4bf_group_desc; block numbers are 64 bits wide, in a low and, for
  large descriptors, a high half.
\<close>

section \<open>Features and flags\<close>

definition EXT4_FEATURE_RO_COMPAT_SPARSE_SUPER :: u32 where "EXT4_FEATURE_RO_COMPAT_SPARSE_SUPER = 0x0001"
definition EXT4_FEATURE_RO_COMPAT_GDT_CSUM :: u32 where "EXT4_FEATURE_RO_COMPAT_GDT_CSUM = 0x0010"
definition EXT4_FEATURE_INCOMPAT_META_BG :: u32 where "EXT4_FEATURE_INCOMPAT_META_BG = 0x0010"
definition EXT4_FEATURE_INCOMPAT_64BIT :: u32 where "EXT4_FEATURE_INCOMPAT_64BIT = 0x0080"
definition EXT4_FEATURE_INCOMPAT_FLEX_BG :: u32 where "EXT4_FEATURE_INCOMPAT_FLEX_BG = 0x0200"
definition EXT4_MIN_DESC_SIZE :: nat where "EXT4_MIN_DESC_SIZE = 32"
definition EXT4_MIN_DESC_SIZE_64BIT :: nat where "EXT4_MIN_DESC_SIZE_64BIT = 64"
definition EXT4_BG_INODE_UNINIT :: "16 word" where "EXT4_BG_INODE_UNINIT = 0x0001"
definition EXT4_BG_BLOCK_UNINIT :: "16 word" where "EXT4_BG_BLOCK_UNINIT = 0x0002"
definition EXT4_BG_INODE_ZEROED :: "16 word" where "EXT4_BG_INODE_ZEROED = 0x0004"

lemmas feature_defs =
  EXT4_FEATURE_RO_COMPAT_SPARSE_SUPER_def EXT4_FEATURE_RO_COMPAT_GDT_CSUM_def EXT4_FEATURE_INCOMPAT_META_BG_def
  EXT4_FEATURE_INCOMPAT_64BIT_def EXT4_FEATURE_INCOMPAT_FLEX_BG_def EXT4_MIN_DESC_SIZE_def
  EXT4_MIN_DESC_SIZE_64BIT_def EXT4_BG_INODE_UNINIT_def EXT4_BG_BLOCK_UNINIT_def EXT4_BG_INODE_ZEROED_def

section \<open>The superblock\<close>

text \<open>
  Fields of struct ext4bf_super_block, struct ext4bf_sb_info and struct super_block.  The field
  \<open>es_desc_size\<close> is the descriptor size on disk, \<open>s_desc_size\<close> the one in use.  \<open>s_group_desc\<close> is the array of
  descriptor blocks; NULL is None.
\<close>

record ext4bf_sb_info =
  s_blocksize :: nat
  s_rdonly :: bool
  s_uuid :: bytes
  s_feature_ro_compat :: u32
  s_feature_incompat :: u32
  s_first_data_block :: u32
  s_blocks_count :: u64
  s_r_blocks_count :: u64
  s_free_blocks_count :: u64
  s_free_inodes_count :: u32
  s_first_meta_bg :: u32
  s_reserved_gdt_blocks :: "16 word"
  es_desc_size :: "16 word"
  s_desc_size :: nat
  s_desc_per_block :: u64
  s_desc_per_block_bits :: nat
  s_blocks_per_group :: u64
  s_inodes_per_group :: u64
  s_itb_per_group :: u64
  s_gdb_count :: u64
  s_groups_count :: u32
  s_cluster_bits :: nat
  s_cluster_ratio :: u32
  s_log_groups_per_flex :: nat
  s_group_desc :: "nat \<Rightarrow> bytes option"

definition EXT4_HAS_RO_COMPAT_FEATURE :: "ext4bf_sb_info \<Rightarrow> u32 \<Rightarrow> bool" where
  "EXT4_HAS_RO_COMPAT_FEATURE sbi m = (s_feature_ro_compat sbi AND m \<noteq> 0)"

definition EXT4_HAS_INCOMPAT_FEATURE :: "ext4bf_sb_info \<Rightarrow> u32 \<Rightarrow> bool" where
  "EXT4_HAS_INCOMPAT_FEATURE sbi m = (s_feature_incompat sbi AND m \<noteq> 0)"

section \<open>Fields of a group descriptor\<close>

definition wide_desc :: "ext4bf_sb_info \<Rightarrow> bool" where
  "wide_desc sbi = (s_desc_size sbi \<ge> EXT4_MIN_DESC_SIZE_64BIT)"

definition get_desc64 :: "ext4bf_sb_info \<Rightarrow> bytes \<Rightarrow> nat \<Rightarrow> nat \<Rightarrow> u64" where
  "get_desc64 sbi bg lo hi = ucast (get_le32 bg lo) OR (if wide_desc sbi then push_bit 32 (ucast (get_le32 bg hi)) else 0)"

definition get_desc32 :: "ext4bf_sb_info \<Rightarrow> bytes \<Rightarrow> nat \<Rightarrow> nat \<Rightarrow> u32" where
  "get_desc32 sbi bg lo hi = ucast (get_le16 bg lo) OR (if wide_desc sbi then push_bit 16 (ucast (get_le16 bg hi)) else 0)"

definition put_desc64 :: "ext4bf_sb_info \<Rightarrow> nat \<Rightarrow> nat \<Rightarrow> u64 \<Rightarrow> bytes \<Rightarrow> bytes" where
  "put_desc64 sbi lo hi v bg =
     (let bg = put_le32 lo (ucast v) bg in if wide_desc sbi then put_le32 hi (ucast (drop_bit 32 v)) bg else bg)"

definition put_desc32 :: "ext4bf_sb_info \<Rightarrow> nat \<Rightarrow> nat \<Rightarrow> u32 \<Rightarrow> bytes \<Rightarrow> bytes" where
  "put_desc32 sbi lo hi v bg =
     (let bg = put_le16 lo (ucast v) bg in if wide_desc sbi then put_le16 hi (ucast (drop_bit 16 v)) bg else bg)"

definition ext4bf_block_bitmap :: "ext4bf_sb_info \<Rightarrow> bytes \<Rightarrow> u64" where
  "ext4bf_block_bitmap sbi bg = get_desc64 sbi bg 0 32"

definition ext4bf_inode_bitmap :: "ext4bf_sb_info \<Rightarrow> bytes \<Rightarrow> u64" where
  "ext4bf_inode_bitmap sbi bg = get_desc64 sbi bg 4 36"

definition ext4bf_inode_table :: "ext4bf_sb_info \<Rightarrow> bytes \<Rightarrow> u64" where
  "ext4bf_inode_table sbi bg = get_desc64 sbi bg 8 40"

definition ext4bf_free_group_clusters :: "ext4bf_sb_info \<Rightarrow> bytes \<Rightarrow> u32" where
  "ext4bf_free_group_clusters sbi bg = get_desc32 sbi bg 12 44"

definition ext4bf_free_inodes_count :: "ext4bf_sb_info \<Rightarrow> bytes \<Rightarrow> u32" where
  "ext4bf_free_inodes_count sbi bg = get_desc32 sbi bg 14 46"

definition ext4bf_used_dirs_count :: "ext4bf_sb_info \<Rightarrow> bytes \<Rightarrow> u32" where
  "ext4bf_used_dirs_count sbi bg = get_desc32 sbi bg 16 48"

definition ext4bf_itable_unused_count :: "ext4bf_sb_info \<Rightarrow> bytes \<Rightarrow> u32" where
  "ext4bf_itable_unused_count sbi bg = get_desc32 sbi bg 28 50"

definition ext4bf_block_bitmap_set :: "ext4bf_sb_info \<Rightarrow> u64 \<Rightarrow> bytes \<Rightarrow> bytes" where
  "ext4bf_block_bitmap_set sbi = put_desc64 sbi 0 32"

definition ext4bf_inode_bitmap_set :: "ext4bf_sb_info \<Rightarrow> u64 \<Rightarrow> bytes \<Rightarrow> bytes" where
  "ext4bf_inode_bitmap_set sbi = put_desc64 sbi 4 36"

definition ext4bf_inode_table_set :: "ext4bf_sb_info \<Rightarrow> u64 \<Rightarrow> bytes \<Rightarrow> bytes" where
  "ext4bf_inode_table_set sbi = put_desc64 sbi 8 40"

definition ext4bf_free_group_clusters_set :: "ext4bf_sb_info \<Rightarrow> u32 \<Rightarrow> bytes \<Rightarrow> bytes" where
  "ext4bf_free_group_clusters_set sbi = put_desc32 sbi 12 44"

definition ext4bf_free_inodes_set :: "ext4bf_sb_info \<Rightarrow> u32 \<Rightarrow> bytes \<Rightarrow> bytes" where
  "ext4bf_free_inodes_set sbi = put_desc32 sbi 14 46"

definition ext4bf_used_dirs_set :: "ext4bf_sb_info \<Rightarrow> u32 \<Rightarrow> bytes \<Rightarrow> bytes" where
  "ext4bf_used_dirs_set sbi = put_desc32 sbi 16 48"

definition ext4bf_itable_unused_set :: "ext4bf_sb_info \<Rightarrow> u32 \<Rightarrow> bytes \<Rightarrow> bytes" where
  "ext4bf_itable_unused_set sbi = put_desc32 sbi 28 50"

definition bg_flags :: "bytes \<Rightarrow> 16 word" where
  "bg_flags bg = get_le16 bg 18"

definition bg_checksum :: "bytes \<Rightarrow> 16 word" where
  "bg_checksum bg = get_le16 bg 30"

text \<open>The descriptor of a group, inside the block that holds it.\<close>

definition ext4bf_get_group_desc :: "ext4bf_sb_info \<Rightarrow> u32 \<Rightarrow> bytes option" where
  "ext4bf_get_group_desc sbi block_group =
     (if block_group \<ge> s_groups_count sbi then None
      else let group_desc = drop_bit (s_desc_per_block_bits sbi) block_group;
               offset = ucast block_group AND (s_desc_per_block sbi - 1)
           in map_option (\<lambda>b. take (s_desc_size sbi) (drop (unat offset * s_desc_size sbi) b))
                (s_group_desc sbi (unat group_desc)))"

section \<open>Checksums\<close>

definition crc16_table :: "16 word list" where
  "crc16_table =
     [0x0000, 0xC0C1, 0xC181, 0x0140, 0xC301, 0x03C0, 0x0280, 0xC241,
      0xC601, 0x06C0, 0x0780, 0xC741, 0x0500, 0xC5C1, 0xC481, 0x0440,
      0xCC01, 0x0CC0, 0x0D80, 0xCD41, 0x0F00, 0xCFC1, 0xCE81, 0x0E40,
      0x0A00, 0xCAC1, 0xCB81, 0x0B40, 0xC901, 0x09C0, 0x0880, 0xC841,
      0xD801, 0x18C0, 0x1980, 0xD941, 0x1B00, 0xDBC1, 0xDA81, 0x1A40,
      0x1E00, 0xDEC1, 0xDF81, 0x1F40, 0xDD01, 0x1DC0, 0x1C80, 0xDC41,
      0x1400, 0xD4C1, 0xD581, 0x1540, 0xD701, 0x17C0, 0x1680, 0xD641,
      0xD201, 0x12C0, 0x1380, 0xD341, 0x1100, 0xD1C1, 0xD081, 0x1040,
      0xF001, 0x30C0, 0x3180, 0xF141, 0x3300, 0xF3C1, 0xF281, 0x3240,
      0x3600, 0xF6C1, 0xF781, 0x3740, 0xF501, 0x35C0, 0x3480, 0xF441,
      0x3C00, 0xFCC1, 0xFD81, 0x3D40, 0xFF01, 0x3FC0, 0x3E80, 0xFE41,
      0xFA01, 0x3AC0, 0x3B80, 0xFB41, 0x3900, 0xF9C1, 0xF881, 0x3840,
      0x2800, 0xE8C1, 0xE981, 0x2940, 0xEB01, 0x2BC0, 0x2A80, 0xEA41,
      0xEE01, 0x2EC0, 0x2F80, 0xEF41, 0x2D00, 0xEDC1, 0xEC81, 0x2C40,
      0xE401, 0x24C0, 0x2580, 0xE541, 0x2700, 0xE7C1, 0xE681, 0x2640,
      0x2200, 0xE2C1, 0xE381, 0x2340, 0xE101, 0x21C0, 0x2080, 0xE041,
      0xA001, 0x60C0, 0x6180, 0xA141, 0x6300, 0xA3C1, 0xA281, 0x6240,
      0x6600, 0xA6C1, 0xA781, 0x6740, 0xA501, 0x65C0, 0x6480, 0xA441,
      0x6C00, 0xACC1, 0xAD81, 0x6D40, 0xAF01, 0x6FC0, 0x6E80, 0xAE41,
      0xAA01, 0x6AC0, 0x6B80, 0xAB41, 0x6900, 0xA9C1, 0xA881, 0x6840,
      0x7800, 0xB8C1, 0xB981, 0x7940, 0xBB01, 0x7BC0, 0x7A80, 0xBA41,
      0xBE01, 0x7EC0, 0x7F80, 0xBF41, 0x7D00, 0xBDC1, 0xBC81, 0x7C40,
      0xB401, 0x74C0, 0x7580, 0xB541, 0x7700, 0xB7C1, 0xB681, 0x7640,
      0x7200, 0xB2C1, 0xB381, 0x7340, 0xB101, 0x71C0, 0x7080, 0xB041,
      0x5000, 0x90C1, 0x9181, 0x5140, 0x9301, 0x53C0, 0x5280, 0x9241,
      0x9601, 0x56C0, 0x5780, 0x9741, 0x5500, 0x95C1, 0x9481, 0x5440,
      0x9C01, 0x5CC0, 0x5D80, 0x9D41, 0x5F00, 0x9FC1, 0x9E81, 0x5E40,
      0x5A00, 0x9AC1, 0x9B81, 0x5B40, 0x9901, 0x59C0, 0x5880, 0x9841,
      0x8801, 0x48C0, 0x4980, 0x8941, 0x4B00, 0x8BC1, 0x8A81, 0x4A40,
      0x4E00, 0x8EC1, 0x8F81, 0x4F40, 0x8D01, 0x4DC0, 0x4C80, 0x8C41,
      0x4400, 0x84C1, 0x8581, 0x4540, 0x8701, 0x47C0, 0x4680, 0x8641,
      0x8201, 0x42C0, 0x4380, 0x8341, 0x4100, 0x81C1, 0x8081, 0x4040]"

definition crc16_byte :: "16 word \<Rightarrow> u8 \<Rightarrow> 16 word" where
  "crc16_byte crc data = drop_bit 8 crc XOR crc16_table ! unat ((crc XOR ucast data) AND 0xff)"

definition crc16 :: "16 word \<Rightarrow> bytes \<Rightarrow> 16 word" where
  "crc16 crc buffer = foldl crc16_byte crc buffer"

definition le32_bytes :: "u32 \<Rightarrow> bytes" where
  "le32_bytes v = [ucast v, ucast (drop_bit 8 v), ucast (drop_bit 16 v), ucast (drop_bit 24 v)]"

definition ext4bf_group_desc_csum :: "ext4bf_sb_info \<Rightarrow> u32 \<Rightarrow> bytes \<Rightarrow> 16 word" where
  "ext4bf_group_desc_csum sbi block_group gdp =
     (if EXT4_HAS_RO_COMPAT_FEATURE sbi EXT4_FEATURE_RO_COMPAT_GDT_CSUM
      then let crc = crc16 (NOT 0) (s_uuid sbi);
               crc = crc16 crc (le32_bytes block_group);
               crc = crc16 crc (take 30 gdp)
           in if EXT4_HAS_INCOMPAT_FEATURE sbi EXT4_FEATURE_INCOMPAT_64BIT \<and> 32 < unat (es_desc_size sbi)
              then crc16 crc (take (unat (es_desc_size sbi) - 32) (drop 32 gdp)) else crc
      else 0)"

definition ext4bf_group_desc_csum_verify :: "ext4bf_sb_info \<Rightarrow> u32 \<Rightarrow> bytes \<Rightarrow> bool" where
  "ext4bf_group_desc_csum_verify sbi block_group gdp =
     (\<not> (EXT4_HAS_RO_COMPAT_FEATURE sbi EXT4_FEATURE_RO_COMPAT_GDT_CSUM \<and>
          bg_checksum gdp \<noteq> ext4bf_group_desc_csum sbi block_group gdp))"

text \<open>Storing the checksum of a descriptor in it makes the descriptor pass verification.\<close>

lemma csum_ignores_checksum:
  "ext4bf_group_desc_csum sbi g (put_le16 30 c gdp) = ext4bf_group_desc_csum sbi g gdp"
  by (simp add: ext4bf_group_desc_csum_def put_le16_def take_update_cancel drop_update_cancel Let_def)

lemma csum_verify_set:
  "length gdp \<ge> 32 \<Longrightarrow>
     ext4bf_group_desc_csum_verify sbi g (put_le16 30 (ext4bf_group_desc_csum sbi g gdp) gdp)"
  by (simp add: ext4bf_group_desc_csum_verify_def bg_checksum_def csum_ignores_checksum layout_simps)

text \<open>A field of a descriptor reads back what was stored, as far as the descriptor has room for it.\<close>

lemma desc64_cat: "ucast (ucast v :: u32) OR push_bit 32 (ucast (ucast (drop_bit 32 v) :: u32)) = (v :: u64)"
proof (rule bit_word_eqI)
  fix n assume "n < LENGTH(64)"
  then show "bit (ucast (ucast v :: u32) OR push_bit 32 (ucast (ucast (drop_bit 32 v) :: u32)) :: u64) n = bit v n"
    by (cases "n < 32") (auto simp: bit_simps)
qed

lemma get_put_desc64:
  assumes "lo + 3 < hi" "lo + 3 < length bg" "wide_desc sbi \<Longrightarrow> hi + 3 < length bg"
  shows "get_desc64 sbi (put_desc64 sbi lo hi v bg) lo hi = (if wide_desc sbi then v else ucast (ucast v :: u32))"
  using assms by (simp add: get_desc64_def put_desc64_def layout_simps desc64_cat Let_def)

end
