(* ===== verification/Block_Groups.thy ===== *)
theory Block_Groups
  imports Group_Desc
begin

text \<open>
  Block groups (balloc.c): the group and offset of a block, the copies of the superblock and of the
  group descriptors, the bitmap of a group that was never written, and the mount-time check of the
  descriptors (super.c).  Unsigned and signed 32-bit integers of the code are both words of 32 bits, as the
  code compares them as unsigned integers; an allocation bitmap is the list of bytes of its block.
\<close>

section \<open>Geometry\<close>

definition EXT4_B2C :: "ext4bf_sb_info \<Rightarrow> 'a::len word \<Rightarrow> 'a word" where
  "EXT4_B2C sbi blk = drop_bit (s_cluster_bits sbi) blk"

definition EXT4_C2B :: "ext4bf_sb_info \<Rightarrow> 'a::len word \<Rightarrow> 'a word" where
  "EXT4_C2B sbi cluster = push_bit (s_cluster_bits sbi) cluster"

definition EXT4_NUM_B2C :: "ext4bf_sb_info \<Rightarrow> u32 \<Rightarrow> u32" where
  "EXT4_NUM_B2C sbi blks = drop_bit (s_cluster_bits sbi) (blks + s_cluster_ratio sbi - 1)"

definition ext4bf_group_first_block_no :: "ext4bf_sb_info \<Rightarrow> u32 \<Rightarrow> u64" where
  "ext4bf_group_first_block_no sbi group_no =
     ucast group_no * s_blocks_per_group sbi + ucast (s_first_data_block sbi)"

text \<open>do_div divides by the low 32 bits of its second argument.\<close>

definition do_div :: "u64 \<Rightarrow> u64 \<Rightarrow> u64 \<times> u32" where
  "do_div n base = (let b = ucast (ucast base :: u32) in (n div b, ucast (n mod b)))"

definition ext4bf_get_group_no_and_offset :: "ext4bf_sb_info \<Rightarrow> u64 \<Rightarrow> u32 \<times> u32" where
  "ext4bf_get_group_no_and_offset sbi blocknr =
     (let (blocknr, rem) = do_div (blocknr - ucast (s_first_data_block sbi)) (s_blocks_per_group sbi)
      in (ucast blocknr, drop_bit (s_cluster_bits sbi) rem))"

definition ext4bf_block_in_group :: "ext4bf_sb_info \<Rightarrow> u64 \<Rightarrow> u32 \<Rightarrow> bool" where
  "ext4bf_block_in_group sbi block block_group = (fst (ext4bf_get_group_no_and_offset sbi block) = block_group)"

section \<open>Copies of the superblock\<close>

text \<open>
  The base b is 3, 5 or 7, and group numbers stay far below the point where the int num overflows; the
  first two conditions of the loop always hold then.
\<close>

function test_root_loop :: "nat \<Rightarrow> nat \<Rightarrow> nat \<Rightarrow> bool" where
  "test_root_loop a b num = (if 1 < b \<and> 0 < num \<and> a > num then test_root_loop a b (num * b) else num = a)"
  by pat_completeness auto
termination
  by (relation "measure (\<lambda>(a, b, num). a - num)") (auto simp: diff_less_mono2)

definition test_root :: "u32 \<Rightarrow> nat \<Rightarrow> bool" where
  "test_root a b = test_root_loop (unat a) b b"

definition ext4bf_group_sparse :: "u32 \<Rightarrow> bool" where
  "ext4bf_group_sparse grp =
     (if grp \<le> 1 then True
      else if grp AND 1 = 0 then False
      else test_root grp 7 \<or> test_root grp 5 \<or> test_root grp 3)"

definition ext4bf_bg_has_super :: "ext4bf_sb_info \<Rightarrow> u32 \<Rightarrow> bool" where
  "ext4bf_bg_has_super sbi grp =
     (\<not> (EXT4_HAS_RO_COMPAT_FEATURE sbi EXT4_FEATURE_RO_COMPAT_SPARSE_SUPER \<and> \<not> ext4bf_group_sparse grp))"

definition ext4bf_bg_num_gdb_meta :: "ext4bf_sb_info \<Rightarrow> u32 \<Rightarrow> u64" where
  "ext4bf_bg_num_gdb_meta sbi grp =
     (let metagroup = ucast grp div s_desc_per_block sbi;
          first_group = ucast (metagroup * s_desc_per_block sbi) :: u32;
          last_group = ucast (ucast first_group + s_desc_per_block sbi - 1) :: u32
      in if grp = first_group \<or> grp = first_group + 1 \<or> grp = last_group then 1 else 0)"

definition ext4bf_bg_num_gdb_nometa :: "ext4bf_sb_info \<Rightarrow> u32 \<Rightarrow> u64" where
  "ext4bf_bg_num_gdb_nometa sbi grp =
     (if \<not> ext4bf_bg_has_super sbi grp then 0
      else if EXT4_HAS_INCOMPAT_FEATURE sbi EXT4_FEATURE_INCOMPAT_META_BG then ucast (s_first_meta_bg sbi)
      else s_gdb_count sbi)"

definition ext4bf_bg_num_gdb :: "ext4bf_sb_info \<Rightarrow> u32 \<Rightarrow> u64" where
  "ext4bf_bg_num_gdb sbi grp =
     (let metagroup = ucast grp div s_desc_per_block sbi
      in if \<not> EXT4_HAS_INCOMPAT_FEATURE sbi EXT4_FEATURE_INCOMPAT_META_BG \<or> metagroup < ucast (s_first_meta_bg sbi)
         then ext4bf_bg_num_gdb_nometa sbi grp else ext4bf_bg_num_gdb_meta sbi grp)"

definition ext4bf_num_base_meta_clusters :: "ext4bf_sb_info \<Rightarrow> u32 \<Rightarrow> u32" where
  "ext4bf_num_base_meta_clusters sbi block_group =
     (let num = (if ext4bf_bg_has_super sbi block_group then 1 else 0) :: u32;
          num = (if \<not> EXT4_HAS_INCOMPAT_FEATURE sbi EXT4_FEATURE_INCOMPAT_META_BG \<or>
                    ucast block_group < ucast (s_first_meta_bg sbi) * s_desc_per_block sbi
                 then if num \<noteq> 0
                      then num + ucast (ext4bf_bg_num_gdb sbi block_group) + ucast (s_reserved_gdt_blocks sbi)
                      else num
                 else num + ucast (ext4bf_bg_num_gdb sbi block_group))
      in EXT4_NUM_B2C sbi num)"

section \<open>The bitmap of an unused group\<close>

definition num_clusters_in_group :: "ext4bf_sb_info \<Rightarrow> u32 \<Rightarrow> u32" where
  "num_clusters_in_group sbi block_group =
     EXT4_NUM_B2C sbi
       (if block_group = s_groups_count sbi - 1
        then ucast (s_blocks_count sbi - ext4bf_group_first_block_no sbi block_group)
        else ucast (s_blocks_per_group sbi))"

text \<open>The number of a bit is an int; a negative one is outside every bitmap, like a large unsigned one.\<close>

definition set_group_bit :: "ext4bf_sb_info \<Rightarrow> u32 \<Rightarrow> u64 \<Rightarrow> bytes \<Rightarrow> bytes option" where
  "set_group_bit sbi block_group tmp bm =
     (let start = ext4bf_group_first_block_no sbi block_group;
          flex_bg = EXT4_HAS_INCOMPAT_FEATURE sbi EXT4_FEATURE_INCOMPAT_FLEX_BG
      in if \<not> flex_bg \<or> ext4bf_block_in_group sbi tmp block_group
         then ext4bf_set_bit (unat (ucast (EXT4_B2C sbi (tmp - start)) :: u32)) bm
         else Some bm)"

fun set_group_bits :: "ext4bf_sb_info \<Rightarrow> u32 \<Rightarrow> u64 list \<Rightarrow> bytes \<Rightarrow> bytes option" where
  "set_group_bits sbi g [] bm = Some bm"
| "set_group_bits sbi g (tmp # ts) bm = do { bm \<leftarrow> set_group_bit sbi g tmp bm; set_group_bits sbi g ts bm }"

text \<open>The blocks the loop over the inode table visits.\<close>

definition itable_blocks :: "ext4bf_sb_info \<Rightarrow> bytes \<Rightarrow> u64 list" where
  "itable_blocks sbi gdp =
     (let t = ext4bf_inode_table sbi gdp in map word_of_nat [unat t..<unat (t + s_itb_per_group sbi)])"

definition ext4bf_init_block_bitmap :: "ext4bf_sb_info \<Rightarrow> bytes \<Rightarrow> u32 \<Rightarrow> bytes \<Rightarrow> (bytes \<times> bytes) option" where
  "ext4bf_init_block_bitmap sbi bm block_group gdp =
     (if \<not> ext4bf_group_desc_csum_verify sbi block_group gdp
      then do { bm \<leftarrow> memset 0 0xff (s_blocksize sbi) bm;
                Some (ext4bf_itable_unused_set sbi 0 (ext4bf_free_inodes_set sbi 0
                        (ext4bf_free_group_clusters_set sbi 0 gdp)), bm) }
      else do { bm \<leftarrow> memset 0 0 (s_blocksize sbi) bm;
                bm \<leftarrow> set_bit_range 0 (unat (ext4bf_num_base_meta_clusters sbi block_group)) bm;
                bm \<leftarrow> set_group_bit sbi block_group (ext4bf_block_bitmap sbi gdp) bm;
                bm \<leftarrow> set_group_bit sbi block_group (ext4bf_inode_bitmap sbi gdp) bm;
                bm \<leftarrow> set_group_bits sbi block_group (itable_blocks sbi gdp) bm;
                bm \<leftarrow> ext4bf_mark_bitmap_end (unat (num_clusters_in_group sbi block_group)) (s_blocksize sbi * 8) bm;
                Some (gdp, bm) })"

section \<open>Counting the clusters in use\<close>

text \<open>
  The counters are ints compared with unsigned integers, and -1 stands for no cluster.  The arguments
  of the loop are the remaining indices, the cluster count and the last cluster of the inode table.
\<close>

definition overhead_cluster :: "ext4bf_sb_info \<Rightarrow> u32 \<Rightarrow> u64 \<Rightarrow> u32 \<Rightarrow> u32 \<times> u32" where
  "overhead_cluster sbi block_group blk num_clusters =
     (if ext4bf_block_in_group sbi blk block_group
      then let c = ucast (EXT4_B2C sbi (ext4bf_group_first_block_no sbi block_group - blk)) :: u32
           in if c < num_clusters then (- 1, num_clusters)
              else if c = num_clusters then (- 1, num_clusters + 1)
              else (c, num_clusters)
      else (- 1, num_clusters))"

fun overhead_itable :: "ext4bf_sb_info \<Rightarrow> u32 \<Rightarrow> u64 \<Rightarrow> u32 \<Rightarrow> u32 \<Rightarrow> nat list \<Rightarrow> u32 \<Rightarrow> u32 \<Rightarrow> u32" where
  "overhead_itable sbi g itbl_blk block_cluster inode_cluster [] num_clusters itbl_cluster = num_clusters"
| "overhead_itable sbi g itbl_blk block_cluster inode_cluster (i # is) num_clusters itbl_cluster =
     (if ext4bf_block_in_group sbi (itbl_blk + word_of_nat i) g
      then let c = ucast (EXT4_B2C sbi (ext4bf_group_first_block_no sbi g - itbl_blk + word_of_nat i)) :: u32
           in if c < num_clusters \<or> c = inode_cluster \<or> c = block_cluster \<or> c = itbl_cluster
              then overhead_itable sbi g itbl_blk block_cluster inode_cluster is num_clusters itbl_cluster
              else if c = num_clusters
              then overhead_itable sbi g itbl_blk block_cluster inode_cluster is (num_clusters + 1) itbl_cluster
              else overhead_itable sbi g itbl_blk block_cluster inode_cluster is (num_clusters + 1) c
      else overhead_itable sbi g itbl_blk block_cluster inode_cluster is num_clusters itbl_cluster)"

definition ext4bf_num_overhead_clusters :: "ext4bf_sb_info \<Rightarrow> u32 \<Rightarrow> bytes \<Rightarrow> u32" where
  "ext4bf_num_overhead_clusters sbi block_group gdp =
     (let num_clusters = ext4bf_num_base_meta_clusters sbi block_group;
          (block_cluster, num_clusters) = overhead_cluster sbi block_group (ext4bf_block_bitmap sbi gdp) num_clusters;
          (inode_cluster, num_clusters) = overhead_cluster sbi block_group (ext4bf_inode_bitmap sbi gdp) num_clusters;
          num_clusters = overhead_itable sbi block_group (ext4bf_inode_table sbi gdp) block_cluster inode_cluster
                           [0..<unat (s_itb_per_group sbi)] num_clusters (- 1);
          num_clusters = (if block_cluster \<noteq> - 1 then num_clusters + 1 else num_clusters)
      in if inode_cluster \<noteq> - 1 then num_clusters + 1 else num_clusters)"

definition ext4bf_free_clusters_after_init :: "ext4bf_sb_info \<Rightarrow> u32 \<Rightarrow> bytes \<Rightarrow> u32" where
  "ext4bf_free_clusters_after_init sbi block_group gdp =
     num_clusters_in_group sbi block_group - ext4bf_num_overhead_clusters sbi block_group gdp"

section \<open>Totals and checks over all groups\<close>

definition group_list :: "ext4bf_sb_info \<Rightarrow> u32 list" where
  "group_list sbi = map word_of_nat [0..<unat (s_groups_count sbi)]"

fun count_groups :: "ext4bf_sb_info \<Rightarrow> (bytes \<Rightarrow> u32) \<Rightarrow> u32 list \<Rightarrow> u64 \<Rightarrow> u64" where
  "count_groups sbi f [] desc_count = desc_count"
| "count_groups sbi f (i # is) desc_count =
     (case ext4bf_get_group_desc sbi i of
        None \<Rightarrow> count_groups sbi f is desc_count
      | Some gdp \<Rightarrow> count_groups sbi f is (desc_count + ucast (f gdp)))"

definition ext4bf_count_free_clusters :: "ext4bf_sb_info \<Rightarrow> u64" where
  "ext4bf_count_free_clusters sbi = count_groups sbi (ext4bf_free_group_clusters sbi) (group_list sbi) 0"

definition ext4bf_count_free_inodes :: "ext4bf_sb_info \<Rightarrow> u64" where
  "ext4bf_count_free_inodes sbi = count_groups sbi (ext4bf_free_inodes_count sbi) (group_list sbi) 0"

definition ext4bf_count_dirs :: "ext4bf_sb_info \<Rightarrow> u64" where
  "ext4bf_count_dirs sbi = count_groups sbi (ext4bf_used_dirs_count sbi) (group_list sbi) 0"

text \<open>
  One round of the mount-time check of a descriptor, and the loop.  The descriptor must be loaded, as
  the code does not test for NULL.  The loop carries the first block of the group and
  the first group whose inode table is not zeroed; Some None is the answer that the descriptors are bad.
\<close>

definition check_descriptor :: "ext4bf_sb_info \<Rightarrow> u32 \<Rightarrow> bytes \<Rightarrow> u64 \<Rightarrow> bool" where
  "check_descriptor sbi i gdp first_block =
     (let flexbg_flag = EXT4_HAS_INCOMPAT_FEATURE sbi EXT4_FEATURE_INCOMPAT_FLEX_BG;
          last_block = (if i = s_groups_count sbi - 1 \<or> flexbg_flag then s_blocks_count sbi - 1
                        else first_block + (s_blocks_per_group sbi - 1));
          block_bitmap = ext4bf_block_bitmap sbi gdp;
          inode_bitmap = ext4bf_inode_bitmap sbi gdp;
          inode_table = ext4bf_inode_table sbi gdp
      in \<not> (block_bitmap < first_block \<or> block_bitmap > last_block) \<and>
         \<not> (inode_bitmap < first_block \<or> inode_bitmap > last_block) \<and>
         \<not> (inode_table < first_block \<or> inode_table + s_itb_per_group sbi - 1 > last_block) \<and>
         (ext4bf_group_desc_csum_verify sbi i gdp \<or> s_rdonly sbi))"

fun check_loop :: "ext4bf_sb_info \<Rightarrow> u32 list \<Rightarrow> u64 \<Rightarrow> u32 \<Rightarrow> u32 option option" where
  "check_loop sbi [] first_block grp = Some (Some grp)"
| "check_loop sbi (i # is) first_block grp =
     do { gdp \<leftarrow> ext4bf_get_group_desc sbi i;
          let grp = (if grp = s_groups_count sbi \<and> bg_flags gdp AND EXT4_BG_INODE_ZEROED = 0 then i else grp);
          if check_descriptor sbi i gdp first_block
          then check_loop sbi is
                 (if EXT4_HAS_INCOMPAT_FEATURE sbi EXT4_FEATURE_INCOMPAT_FLEX_BG then first_block
                  else first_block + s_blocks_per_group sbi) grp
          else Some None }"

definition ext4bf_check_descriptors :: "ext4bf_sb_info \<Rightarrow> (ext4bf_sb_info \<times> u32) option option" where
  "ext4bf_check_descriptors sbi =
     do { r \<leftarrow> check_loop sbi (group_list sbi) (ucast (s_first_data_block sbi)) (s_groups_count sbi);
          Some (map_option (\<lambda>grp.
                  (sbi\<lparr>s_free_blocks_count := EXT4_C2B sbi (ext4bf_count_free_clusters sbi),
                       s_free_inodes_count := ucast (ext4bf_count_free_inodes sbi)\<rparr>, grp)) r) }"

text \<open>Whether the bits of the metadata of a group are set in its bitmap, checked when it is read from disk.\<close>

definition ext4bf_valid_block_bitmap :: "ext4bf_sb_info \<Rightarrow> bytes \<Rightarrow> u32 \<Rightarrow> bytes \<Rightarrow> bool option" where
  "ext4bf_valid_block_bitmap sbi desc block_group bm =
     (if EXT4_HAS_INCOMPAT_FEATURE sbi EXT4_FEATURE_INCOMPAT_FLEX_BG then Some True
      else let group_first_block = ext4bf_group_first_block_no sbi block_group;
               offset = (\<lambda>blk. unat (ucast (blk - group_first_block) :: u32));
               itb = unat (s_itb_per_group sbi)
           in do { b \<leftarrow> ext4bf_test_bit (offset (ext4bf_block_bitmap sbi desc)) bm;
                   if \<not> b then Some False
                   else do { b \<leftarrow> ext4bf_test_bit (offset (ext4bf_inode_bitmap sbi desc)) bm;
                             if \<not> b then Some False
                             else do { n \<leftarrow> ext4bf_find_next_zero_bit bm (offset (ext4bf_inode_table sbi desc) + itb)
                                              (offset (ext4bf_inode_table sbi desc));
                                       Some (n \<ge> offset (ext4bf_inode_table sbi desc) + itb) } } })"

section \<open>Reserving clusters\<close>

text \<open>
  The counters of free and of reserved (dirty) clusters are kept per processor.  A quick read of a
  counter may differ from its value; the sum is exact.  The record counter_env has what the quick reads
  return, the watermark below which the code computes the sums, and whether the caller may
  use the blocks reserved for root.
\<close>

record cluster_counters =
  s_freeclusters_counter :: int
  s_dirtyclusters_counter :: int

record counter_env =
  fcc_read :: int
  dcc_read :: int
  watermark :: int
  may_use_reserved :: bool

definition EXT4_MB_USE_ROOT_BLOCKS :: u32 where "EXT4_MB_USE_ROOT_BLOCKS = 0x1000"

definition ext4bf_has_free_clusters ::
    "ext4bf_sb_info \<Rightarrow> counter_env \<Rightarrow> cluster_counters \<Rightarrow> int \<Rightarrow> u32 \<Rightarrow> bool" where
  "ext4bf_has_free_clusters sbi e cc nclusters flags =
     (let free_clusters = max 0 (fcc_read e); dirty_clusters = max 0 (dcc_read e);
          root_clusters = uint (EXT4_B2C sbi (s_r_blocks_count sbi));
          (free_clusters, dirty_clusters) =
            (if free_clusters - (nclusters + root_clusters + dirty_clusters) < watermark e
             then (push_bit (s_cluster_bits sbi) (max 0 (s_freeclusters_counter cc)), max 0 (s_dirtyclusters_counter cc))
             else (free_clusters, dirty_clusters))
      in if free_clusters \<ge> root_clusters + nclusters + dirty_clusters then True
         else (may_use_reserved e \<or> flags AND EXT4_MB_USE_ROOT_BLOCKS \<noteq> 0) \<and>
              free_clusters \<ge> nclusters + dirty_clusters)"

definition ext4bf_claim_free_clusters ::
    "ext4bf_sb_info \<Rightarrow> counter_env \<Rightarrow> cluster_counters \<Rightarrow> int \<Rightarrow> u32 \<Rightarrow> cluster_counters \<times> int" where
  "ext4bf_claim_free_clusters sbi e cc nclusters flags =
     (if ext4bf_has_free_clusters sbi e cc nclusters flags
      then (cc\<lparr>s_dirtyclusters_counter := s_dirtyclusters_counter cc + nclusters\<rparr>, 0)
      else (cc, - ENOSPC))"

end
