(* ===== verification/Block_Validity.thy ===== *)
theory Block_Validity
  imports Rbtree Block_Groups
begin

text \<open>
  The system zones (block_validity.c): a red-black tree of the block ranges that hold metadata of
  the file system, and the test that a range of blocks may belong to a file.  A node of the tree is
  the address of an entry; the entries are a function of the address.  Error reports
  to the log are left out.
\<close>

record system_zone =
  start_blk :: u64
  zone_count :: u32

record zone_state =
  system_blks :: "nat rb_tree"
  zone_at :: "nat \<Rightarrow> system_zone"
  s_last_error_block :: u64

definition zone_end :: "system_zone \<Rightarrow> u64" where
  "zone_end z = start_blk z + ucast (zone_count z)"

definition can_merge :: "system_zone \<Rightarrow> system_zone \<Rightarrow> bool" where
  "can_merge entry1 entry2 = (zone_end entry1 = start_blk entry2)"

section \<open>Adding a zone\<close>

text \<open>The search loop ends at a free position or at the first entry that holds the block.\<close>

fun zone_walk :: "(nat \<Rightarrow> system_zone) \<Rightarrow> u64 \<Rightarrow> nat path \<Rightarrow> nat rb_tree \<Rightarrow> nat path \<times> nat rb_tree" where
  "zone_walk zs start ps Leaf = (ps, Leaf)"
| "zone_walk zs start ps (Node c l e r) =
     (if start < start_blk (zs e) then zone_walk zs start (FromLeft c e r # ps) l
      else if start \<ge> zone_end (zs e) then zone_walk zs start (FromRight l e c # ps) r
      else (ps, Node c l e r))"

definition extend_zone :: "u64 \<Rightarrow> u32 \<Rightarrow> system_zone \<Rightarrow> system_zone" where
  "extend_zone start cnt z =
     (if start + ucast cnt > zone_end z then z\<lparr>zone_count := ucast (start + ucast cnt - start_blk z)\<rparr> else z)"

definition remove_zone :: "nat \<Rightarrow> zone_state \<Rightarrow> zone_state option" where
  "remove_zone n st =
     do { (ps, t) \<leftarrow> rb_locate n [] (system_blks st); t \<leftarrow> rb_erase ps t; Some (st\<lparr>system_blks := t\<rparr>) }"

definition merge_left :: "nat \<Rightarrow> zone_state \<Rightarrow> zone_state option" where
  "merge_left e st =
     do { (ps, t) \<leftarrow> rb_locate e [] (system_blks st);
          case rb_prev ps t of
            None \<Rightarrow> Some st
          | Some n \<Rightarrow>
              (if can_merge (zone_at st n) (zone_at st e)
               then remove_zone n (st\<lparr>zone_at := (zone_at st)(e :=
                      \<lparr>start_blk = start_blk (zone_at st n),
                       zone_count = zone_count (zone_at st e) + zone_count (zone_at st n)\<rparr>)\<rparr>)
               else Some st) }"

definition merge_right :: "nat \<Rightarrow> zone_state \<Rightarrow> zone_state option" where
  "merge_right e st =
     do { (ps, t) \<leftarrow> rb_locate e [] (system_blks st);
          case rb_next ps t of
            None \<Rightarrow> Some st
          | Some n \<Rightarrow>
              (if can_merge (zone_at st e) (zone_at st n)
               then remove_zone n (st\<lparr>zone_at := (zone_at st)(e := (zone_at st e)\<lparr>zone_count :=
                      zone_count (zone_at st e) + zone_count (zone_at st n)\<rparr>)\<rparr>)
               else Some st) }"

text \<open>The argument alloc is what kmem_cache_alloc returns: a free address, or NULL.\<close>

definition add_system_zone :: "nat option \<Rightarrow> zone_state \<Rightarrow> u64 \<Rightarrow> u32 \<Rightarrow> (zone_state \<times> int) option" where
  "add_system_zone alloc st start cnt =
     (let (ps, t) = zone_walk (zone_at st) start [] (system_blks st)
      in do { (st, new_entry) \<leftarrow>
                (case t of
                   Node c l e r \<Rightarrow> Some (st\<lparr>zone_at := (zone_at st)(e := extend_zone start cnt (zone_at st e))\<rparr>, Some e)
                 | Leaf \<Rightarrow>
                     (case alloc of
                        None \<Rightarrow> Some (st, None)
                      | Some e \<Rightarrow>
                          do { t \<leftarrow> rb_insert ps e;
                               Some (st\<lparr>system_blks := t,
                                        zone_at := (zone_at st)(e := \<lparr>start_blk = start, zone_count = cnt\<rparr>)\<rparr>, Some e) }));
              case new_entry of
                None \<Rightarrow> Some (st, - ENOMEM)
              | Some e \<Rightarrow> do { st \<leftarrow> merge_left e st; st \<leftarrow> merge_right e st; Some (st, 0) } })"

section \<open>Setting up and releasing the tree\<close>

fun add_zones :: "(zone_state \<Rightarrow> nat option) \<Rightarrow> (u64 \<times> u32) list \<Rightarrow> zone_state \<Rightarrow> (zone_state \<times> int) option" where
  "add_zones alloc [] st = Some (st, 0)"
| "add_zones alloc ((start, cnt) # zs) st =
     do { (st, ret) \<leftarrow> add_system_zone (alloc st) st start cnt;
          if ret \<noteq> 0 then Some (st, ret) else add_zones alloc zs st }"

definition ext4bf_flex_bg_size :: "ext4bf_sb_info \<Rightarrow> u32" where
  "ext4bf_flex_bg_size sbi = push_bit (s_log_groups_per_flex sbi) 1"

text \<open>
  One round of the loop over the groups.  The result of adding the copies of the superblock and the
  descriptors is ignored, that of the other zones is not.
\<close>

definition super_zone :: "ext4bf_sb_info \<Rightarrow> u32 \<Rightarrow> (u64 \<times> u32) list" where
  "super_zone sbi i =
     (if ext4bf_bg_has_super sbi i \<and> (i < 5 \<or> i mod ext4bf_flex_bg_size sbi = 0)
      then [(ext4bf_group_first_block_no sbi i, ucast (ext4bf_bg_num_gdb sbi i) + 1)] else [])"

definition desc_zones :: "ext4bf_sb_info \<Rightarrow> bytes \<Rightarrow> (u64 \<times> u32) list" where
  "desc_zones sbi gdp =
     [(ext4bf_block_bitmap sbi gdp, 1), (ext4bf_inode_bitmap sbi gdp, 1),
      (ext4bf_inode_table sbi gdp, ucast (s_itb_per_group sbi))]"

fun setup_loop ::
    "(zone_state \<Rightarrow> nat option) \<Rightarrow> ext4bf_sb_info \<Rightarrow> u32 list \<Rightarrow> zone_state \<Rightarrow> (zone_state \<times> int) option" where
  "setup_loop alloc sbi [] st = Some (st, 0)"
| "setup_loop alloc sbi (i # is) st =
     do { (st, _) \<leftarrow> add_zones alloc (super_zone sbi i) st;
          gdp \<leftarrow> ext4bf_get_group_desc sbi i;
          (st, ret) \<leftarrow> add_zones alloc (desc_zones sbi gdp) st;
          if ret \<noteq> 0 then Some (st, ret) else setup_loop alloc sbi is st }"

text \<open>
  The loop of ext4bf_release_system_zone goes down to a node without children, frees it, clears the link
  to it and goes on with its parent.  The result is the list of the freed entries.
\<close>

function release_walk :: "'a path \<Rightarrow> 'a rb_tree \<Rightarrow> 'a list" where
  "release_walk ps Leaf = []"
| "release_walk ps (Node c (Node lc ll la lr) a r) = release_walk (FromLeft c a r # ps) (Node lc ll la lr)"
| "release_walk ps (Node c Leaf a (Node rc rl ra rr)) = release_walk (FromRight Leaf a c # ps) (Node rc rl ra rr)"
| "release_walk [] (Node c Leaf a Leaf) = [a]"
| "release_walk (p # ps) (Node c Leaf a Leaf) = a # release_walk ps (step_up p Leaf)"
  by pat_completeness auto

definition path_size :: "'a path \<Rightarrow> nat" where
  "path_size ps = length (before ps) + length (after ps)"

lemma path_size_simps [simp]:
  "path_size (FromLeft c a r # ps) = Suc (length (inorder r) + path_size ps)"
  "path_size (FromRight l a c # ps) = Suc (length (inorder l) + path_size ps)"
  by (simp_all add: path_size_def)

termination release_walk
proof (relation "measures [\<lambda>(ps, t). path_size ps + length (inorder t), \<lambda>(ps, t). length (inorder t)]", goal_cases)
  case (4 p ps c a)
  then show ?case by (cases p) simp_all
qed simp_all

definition ext4bf_release_system_zone :: "zone_state \<Rightarrow> zone_state \<times> nat list" where
  "ext4bf_release_system_zone st = (st\<lparr>system_blks := Leaf\<rparr>, release_walk [] (system_blks st))"

definition ext4bf_setup_system_zone ::
    "(zone_state \<Rightarrow> nat option) \<Rightarrow> bool \<Rightarrow> ext4bf_sb_info \<Rightarrow> zone_state \<Rightarrow> (zone_state \<times> int) option" where
  "ext4bf_setup_system_zone alloc block_validity sbi st =
     (if \<not> block_validity
      then Some (if system_blks st \<noteq> Leaf then fst (ext4bf_release_system_zone st) else st, 0)
      else if system_blks st \<noteq> Leaf then Some (st, 0)
      else setup_loop alloc sbi (group_list sbi) st)"

section \<open>Testing blocks\<close>

fun valid_walk :: "(nat \<Rightarrow> system_zone) \<Rightarrow> u64 \<Rightarrow> u32 \<Rightarrow> nat rb_tree \<Rightarrow> bool" where
  "valid_walk zs start cnt Leaf = True"
| "valid_walk zs start cnt (Node c l e r) =
     (if start + ucast cnt - 1 < start_blk (zs e) then valid_walk zs start cnt l
      else if start \<ge> zone_end (zs e) then valid_walk zs start cnt r
      else False)"

definition ext4bf_data_block_valid :: "ext4bf_sb_info \<Rightarrow> zone_state \<Rightarrow> u64 \<Rightarrow> u32 \<Rightarrow> zone_state \<times> bool" where
  "ext4bf_data_block_valid sbi st start cnt =
     (if start \<le> ucast (s_first_data_block sbi) \<or> start + ucast cnt < start \<or> start + ucast cnt > s_blocks_count sbi
      then (st\<lparr>s_last_error_block := start\<rparr>, False)
      else if valid_walk (zone_at st) start cnt (system_blks st) then (st, True)
      else (st\<lparr>s_last_error_block := start\<rparr>, False))"

text \<open>The block numbers in an indirect block or in the inode; 0 is a hole.\<close>

fun ext4bf_check_blockref :: "ext4bf_sb_info \<Rightarrow> zone_state \<Rightarrow> u32 list \<Rightarrow> zone_state \<times> int" where
  "ext4bf_check_blockref sbi st [] = (st, 0)"
| "ext4bf_check_blockref sbi st (blk # bs) =
     (if blk \<noteq> 0
      then case ext4bf_data_block_valid sbi st (ucast blk) 1 of
             (st, valid) \<Rightarrow>
               if \<not> valid then (st\<lparr>s_last_error_block := ucast blk\<rparr>, - EIO)
               else ext4bf_check_blockref sbi st bs
      else ext4bf_check_blockref sbi st bs)"

end
