(* ===== verification/Block_Groups_Correct.thy ===== *)
theory Block_Groups_Correct
  imports Block_Groups
begin

text \<open>
  Correctness of the block group computations: the group and offset of a block, what the bitmap of
  an unused group marks once the descriptors have passed the mount-time check, and the cases in
  which the count of used clusters and the reservation of clusters are wrong.
\<close>

section \<open>Geometry\<close>

text \<open>A layout without overflow: the groups cover the blocks, and the clusters of a group have bits in its bitmap.\<close>

definition geometry_ok :: "ext4bf_sb_info \<Rightarrow> bool" where
  "geometry_ok sbi =
     (let bpg = unat (s_blocks_per_group sbi); fdb = unat (s_first_data_block sbi); n = unat (s_groups_count sbi)
      in 0 < bpg \<and> bpg < 2 ^ 32 \<and> 0 < n \<and> fdb + n * bpg < 2 ^ 64 \<and>
         fdb + (n - 1) * bpg < unat (s_blocks_count sbi) \<and> unat (s_blocks_count sbi) \<le> fdb + n * bpg \<and>
         s_cluster_bits sbi < 32 \<and> bpg \<le> 8 * s_blocksize sbi * 2 ^ s_cluster_bits sbi \<and> 8 * s_blocksize sbi < 2 ^ 32)"

definition group_start :: "ext4bf_sb_info \<Rightarrow> u32 \<Rightarrow> nat" where
  "group_start sbi g = unat (s_first_data_block sbi) + unat g * unat (s_blocks_per_group sbi)"

lemma unat_u64 [simp]: "unat (ucast (x :: u32) :: u64) = unat x"
proof -
  have "unat x < 2 ^ LENGTH(32)" by (rule unsigned_less)
  then show ?thesis by (simp add: unsigned_ucast_eq take_bit_nat_eq_self)
qed

lemma unat_drop_bit: "unat (drop_bit n w) = unat (w :: 'a::len word) div 2 ^ n"
proof -
  have "unat w < 2 ^ LENGTH('a)" by (rule unsigned_less)
  then show ?thesis by (simp add: unsigned_drop_bit_eq take_bit_nat_eq_self drop_bit_nat_def)
qed

lemma unat_u32: "unat x < 2 ^ 32 \<Longrightarrow> unat (ucast (x :: u64) :: u32) = unat x"
  by (simp add: unsigned_ucast_eq unsigned_take_bit_eq take_bit_nat_eq_self)

lemma drop_bit_ucast:
  assumes "unat x < 2 ^ 32"
  shows "drop_bit k (ucast (x :: u64) :: u32) = word_of_nat (unat x div 2 ^ k)"
proof -
  have "unat x div 2 ^ k < 2 ^ 32" using assms by (rule div_le_dividend [THEN le_less_trans])
  then have "unat (word_of_nat (unat x div 2 ^ k) :: u32) = unat x div 2 ^ k"
    by (simp add: unsigned_of_nat take_bit_nat_eq_self)
  moreover have "unat (drop_bit k (ucast x :: u32)) = unat x div 2 ^ k"
    by (simp only: unat_drop_bit unat_u32 [OF assms])
  ultimately show ?thesis by (simp add: word_unat_eq_iff)
qed

lemma group_start_less:
  assumes "geometry_ok sbi" "g < s_groups_count sbi"
  shows "group_start sbi g + unat (s_blocks_per_group sbi) \<le>
           unat (s_first_data_block sbi) + unat (s_groups_count sbi) * unat (s_blocks_per_group sbi)"
proof -
  have "unat g + 1 \<le> unat (s_groups_count sbi)" using assms(2) by (simp add: word_less_nat_alt)
  then have "(unat g + 1) * unat (s_blocks_per_group sbi) \<le> unat (s_groups_count sbi) * unat (s_blocks_per_group sbi)"
    by (rule mult_le_mono1)
  then show ?thesis by (simp add: group_start_def)
qed

lemma unat_first_block:
  assumes "geometry_ok sbi" "g < s_groups_count sbi"
  shows "unat (ext4bf_group_first_block_no sbi g) = group_start sbi g"
proof -
  have "group_start sbi g < 2 ^ 64"
    using group_start_less [OF assms] assms(1) by (simp add: geometry_ok_def Let_def)
  then have lt: "unat g * unat (s_blocks_per_group sbi) + unat (s_first_data_block sbi) < 2 ^ LENGTH(64)"
    by (simp add: group_start_def)
  then have "unat (ucast g * s_blocks_per_group sbi) = unat g * unat (s_blocks_per_group sbi)"
    using iffD1 [OF unat_mult_lem, of "ucast g" "s_blocks_per_group sbi"] by simp
  then show ?thesis
    using lt iffD1 [OF unat_add_lem, of "ucast g * s_blocks_per_group sbi" "ucast (s_first_data_block sbi)"]
    by (simp add: ext4bf_group_first_block_no_def group_start_def)
qed

text \<open>A block that belongs to the file system.\<close>

definition fs_block :: "ext4bf_sb_info \<Rightarrow> u64 \<Rightarrow> bool" where
  "fs_block sbi b = (unat (s_first_data_block sbi) \<le> unat b \<and> unat b < unat (s_blocks_count sbi))"

lemma group_no_and_offset:
  assumes "geometry_ok sbi" "fs_block sbi b"
  shows "ext4bf_get_group_no_and_offset sbi b =
    (word_of_nat ((unat b - unat (s_first_data_block sbi)) div unat (s_blocks_per_group sbi)),
     word_of_nat ((unat b - unat (s_first_data_block sbi)) mod unat (s_blocks_per_group sbi) div 2 ^ s_cluster_bits sbi))"
proof -
  let ?bpg = "unat (s_blocks_per_group sbi)" and ?d = "unat b - unat (s_first_data_block sbi)"
  have bpg: "0 < ?bpg" "?bpg < 2 ^ 32" using assms(1) by (auto simp: geometry_ok_def Let_def)
  have base: "unat (ucast (ucast (s_blocks_per_group sbi) :: u32) :: u64) = ?bpg"
    using unat_u32 [OF bpg(2)] by (simp only: unat_u64)
  have d: "unat (b - ucast (s_first_data_block sbi)) = ?d"
    using assms(2) by (simp add: fs_block_def unat_sub word_le_nat_alt)
  have "?d mod ?bpg < 2 ^ 32" using bpg by (meson less_trans mod_less_divisor)
  then have rem: "drop_bit (s_cluster_bits sbi) (ucast ((b - ucast (s_first_data_block sbi)) mod
        ucast (ucast (s_blocks_per_group sbi) :: u32)) :: u32) = word_of_nat (?d mod ?bpg div 2 ^ s_cluster_bits sbi)"
    using base d by (subst drop_bit_ucast) (simp_all only: unat_mod)
  have quo: "(ucast ((b - ucast (s_first_data_block sbi)) div ucast (ucast (s_blocks_per_group sbi) :: u32)) :: u32) =
      word_of_nat (?d div ?bpg)"
  proof -
    have "(ucast q :: u32) = word_of_nat (unat q)" for q :: u64 by simp
    then show ?thesis using base d by (simp only: unat_div)
  qed
  show ?thesis
    by (simp only: ext4bf_get_group_no_and_offset_def do_div_def Let_def case_prod_conv rem quo)
qed

text \<open>The group of a block and its offset there give back the block, up to its cluster.\<close>

lemma group_roundtrip:
  assumes "geometry_ok sbi" "g < s_groups_count sbi" "unat b = group_start sbi g + k"
    and "k < unat (s_blocks_per_group sbi)" "unat b < unat (s_blocks_count sbi)"
  shows "ext4bf_get_group_no_and_offset sbi b = (g, word_of_nat (k div 2 ^ s_cluster_bits sbi))"
proof -
  have "fs_block sbi b" using assms(3,5) by (simp add: fs_block_def group_start_def)
  moreover have "unat b - unat (s_first_data_block sbi) = unat g * unat (s_blocks_per_group sbi) + k"
    using assms(3) by (simp add: group_start_def)
  ultimately show ?thesis using group_no_and_offset [OF assms(1)] assms(4) by simp
qed

lemma in_group_iff:
  assumes "geometry_ok sbi" "fs_block sbi b"
  shows "ext4bf_block_in_group sbi b g \<longleftrightarrow>
    group_start sbi g \<le> unat b \<and> unat b < group_start sbi g + unat (s_blocks_per_group sbi)"
proof -
  let ?bpg = "unat (s_blocks_per_group sbi)" and ?fdb = "unat (s_first_data_block sbi)"
  let ?q = "(unat b - ?fdb) div ?bpg"
  have bpg: "0 < ?bpg" using assms(1) by (simp add: geometry_ok_def Let_def)
  have "unat b - ?fdb < unat (s_groups_count sbi) * ?bpg"
    using assms bpg by (auto simp: geometry_ok_def fs_block_def Let_def)
  then have "?q < unat (s_groups_count sbi)" by (simp add: less_mult_imp_div_less)
  moreover have "unat (s_groups_count sbi) < 2 ^ LENGTH(32)" by (rule unsigned_less)
  ultimately have "?q < 2 ^ 32" by simp
  then have "unat (word_of_nat ?q :: u32) = ?q" by (simp add: unsigned_of_nat take_bit_nat_eq_self)
  then have "ext4bf_block_in_group sbi b g \<longleftrightarrow> ?q = unat g"
    using group_no_and_offset [OF assms] by (simp add: ext4bf_block_in_group_def word_unat_eq_iff)
  also have "\<dots> \<longleftrightarrow> unat g * ?bpg \<le> unat b - ?fdb \<and> unat b - ?fdb < Suc (unat g) * ?bpg"
    using bpg by (metis div_nat_eqI dividend_less_times_div mult.commute times_div_less_eq_dividend mult_Suc)
  finally show ?thesis using assms(2) by (auto simp: group_start_def fs_block_def)
qed

lemma word_of_nat_small: "n < 2 ^ 32 \<Longrightarrow> unat (word_of_nat n :: u32) = n"
  by (simp add: unsigned_of_nat take_bit_nat_eq_self)

text \<open>The cluster of a block in its group; the bit that is set for a block of the group is its cluster.\<close>

definition cluster_of :: "ext4bf_sb_info \<Rightarrow> u64 \<Rightarrow> nat" where
  "cluster_of sbi b = unat (snd (ext4bf_get_group_no_and_offset sbi b))"

lemma cluster_of_in_group:
  assumes "geometry_ok sbi" "g < s_groups_count sbi" "fs_block sbi b" "ext4bf_block_in_group sbi b g"
  shows "unat (ucast (EXT4_B2C sbi (b - ext4bf_group_first_block_no sbi g)) :: u32) = cluster_of sbi b"
    and "cluster_of sbi b < 8 * s_blocksize sbi"
proof -
  let ?bpg = "unat (s_blocks_per_group sbi)" and ?k = "unat b - group_start sbi g"
  have k: "group_start sbi g \<le> unat b" "?k < ?bpg" using assms(4) in_group_iff [OF assms(1,3)] by auto
  have bpg: "?bpg < 2 ^ 32" "?bpg \<le> 8 * s_blocksize sbi * 2 ^ s_cluster_bits sbi" "8 * s_blocksize sbi < 2 ^ 32"
    using assms(1) by (auto simp: geometry_ok_def Let_def)
  have c: "?k div 2 ^ s_cluster_bits sbi < 8 * s_blocksize sbi"
    using k(2) bpg(2) by (intro less_mult_imp_div_less) simp
  have "cluster_of sbi b = ?k div 2 ^ s_cluster_bits sbi"
    using group_roundtrip [OF assms(1,2) _ k(2)] k(1) assms(3) c bpg(3)
    by (simp add: cluster_of_def fs_block_def word_of_nat_small)
  moreover have "unat (b - ext4bf_group_first_block_no sbi g) = ?k"
    using k(1) unat_first_block [OF assms(1,2)] by (simp add: unat_sub word_le_nat_alt)
  then have "unat (EXT4_B2C sbi (b - ext4bf_group_first_block_no sbi g)) = ?k div 2 ^ s_cluster_bits sbi"
    by (simp only: EXT4_B2C_def unat_drop_bit)
  ultimately show "unat (ucast (EXT4_B2C sbi (b - ext4bf_group_first_block_no sbi g)) :: u32) = cluster_of sbi b"
    and "cluster_of sbi b < 8 * s_blocksize sbi"
    using c bpg(3) by (simp_all add: unat_u32)
qed

section \<open>The mount-time check\<close>

definition meta_blocks :: "ext4bf_sb_info \<Rightarrow> bytes \<Rightarrow> u64 set" where
  "meta_blocks sbi gdp = {ext4bf_block_bitmap sbi gdp, ext4bf_inode_bitmap sbi gdp} \<union> set (itable_blocks sbi gdp)"

abbreviation flex_bg :: "ext4bf_sb_info \<Rightarrow> bool" where
  "flex_bg sbi \<equiv> EXT4_HAS_INCOMPAT_FEATURE sbi EXT4_FEATURE_INCOMPAT_FLEX_BG"

lemma itable_block_between:
  assumes "b \<in> set (itable_blocks sbi gdp)" "l \<le> ext4bf_inode_table sbi gdp"
    and "ext4bf_inode_table sbi gdp + s_itb_per_group sbi - 1 \<le> u"
  shows "l \<le> b \<and> b \<le> u"
proof -
  let ?t = "ext4bf_inode_table sbi gdp" and ?n = "s_itb_per_group sbi"
  obtain m where m: "unat ?t \<le> m" "m < unat (?t + ?n)" and b: "b = word_of_nat m"
    using assms(1) by (auto simp: itable_blocks_def Let_def)
  have "unat (?t + ?n) < 2 ^ LENGTH(64)" by (rule unsigned_less)
  then have ub: "unat b = m" using m b by (simp add: unsigned_of_nat take_bit_nat_eq_self)
  have "?t + ?n \<noteq> 0" using m(2) by auto
  then have "unat (?t + ?n - 1) = unat (?t + ?n) - 1" by (rule unat_minus_one)
  then have "m \<le> unat u" using assms(3) m(2) by (simp add: word_le_nat_alt)
  then show ?thesis using ub m(1) assms(2) by (simp add: word_le_nat_alt)
qed

lemma check_descriptor_between:
  assumes "check_descriptor sbi g gdp l" "b \<in> meta_blocks sbi gdp"
  shows "l \<le> b \<and> b \<le> (if g = s_groups_count sbi - 1 \<or> flex_bg sbi then s_blocks_count sbi - 1
                       else l + (s_blocks_per_group sbi - 1))"
  using assms itable_block_between [of b sbi gdp l]
  by (fastforce simp: check_descriptor_def Let_def meta_blocks_def not_less)

definition check_start :: "ext4bf_sb_info \<Rightarrow> u32 \<Rightarrow> u64" where
  "check_start sbi g = (if flex_bg sbi then ucast (s_first_data_block sbi) else ext4bf_group_first_block_no sbi g)"

lemma check_loop_all:
  assumes "check_loop sbi (map word_of_nat [k..<n]) (check_start sbi (word_of_nat k)) grp = Some (Some r)"
    and "k \<le> i" "i < n" "n < 2 ^ 32"
  shows "\<exists>gdp. ext4bf_get_group_desc sbi (word_of_nat i) = Some gdp \<and>
           check_descriptor sbi (word_of_nat i) gdp (check_start sbi (word_of_nat i))"
  using assms
proof (induction "n - k" arbitrary: k grp)
  case (Suc d)
  then have k: "k < n" by simp
  then have list: "map word_of_nat [k..<n] = (word_of_nat k :: u32) # map word_of_nat [Suc k..<n]"
    by (simp add: upt_rec)
  have "ucast (word_of_nat j :: u32) = (word_of_nat j :: u64)" if "j < 2 ^ 32" for j
    using that by (simp add: word_unat_eq_iff unsigned_of_nat take_bit_nat_eq_self)
  then have "check_start sbi (word_of_nat (Suc k)) =
      (if flex_bg sbi then check_start sbi (word_of_nat k)
       else check_start sbi (word_of_nat k) + s_blocks_per_group sbi)"
    using k Suc.prems(4) by (simp add: check_start_def ext4bf_group_first_block_no_def algebra_simps del: of_nat_Suc) (simp add: algebra_simps)
  then show ?case
    using Suc.prems Suc.hyps(1) [of "Suc k"] Suc.hyps(2) list
    by (cases "i = k") (auto simp: check_start_def split: if_splits bind_splits)
qed simp

lemma check_descriptors_group:
  assumes "ext4bf_check_descriptors sbi = Some (Some r)" "g < s_groups_count sbi"
  shows "\<exists>gdp. ext4bf_get_group_desc sbi g = Some gdp \<and> check_descriptor sbi g gdp (check_start sbi g)"
proof -
  have start: "check_start sbi (word_of_nat 0) = ucast (s_first_data_block sbi)"
    by (simp add: check_start_def ext4bf_group_first_block_no_def)
  obtain grp where "check_loop sbi (map word_of_nat [0..<unat (s_groups_count sbi)])
      (check_start sbi (word_of_nat 0)) (s_groups_count sbi) = Some (Some grp)"
    using assms(1) start by (auto simp: ext4bf_check_descriptors_def group_list_def split: bind_splits)
  moreover have "unat (s_groups_count sbi) < 2 ^ LENGTH(32)" by (rule unsigned_less)
  ultimately show ?thesis
    using check_loop_all [of sbi 0 "unat (s_groups_count sbi)" "s_groups_count sbi" grp "unat g"] assms(2)
    by (simp add: word_less_nat_alt)
qed

text \<open>The metadata blocks of a checked descriptor are blocks of the file system, and without FLEX_BG of the group.\<close>

lemma last_group_start:
  assumes "geometry_ok sbi"
  shows "group_start sbi (s_groups_count sbi - 1) + unat (s_blocks_per_group sbi) =
    unat (s_first_data_block sbi) + unat (s_groups_count sbi) * unat (s_blocks_per_group sbi)"
proof -
  have "0 < unat (s_groups_count sbi)" using assms by (simp add: geometry_ok_def Let_def)
  moreover have "unat (s_groups_count sbi - 1) = unat (s_groups_count sbi) - 1"
    using calculation by (intro unat_minus_one) auto
  ultimately show ?thesis by (cases "unat (s_groups_count sbi)") (simp_all add: group_start_def)
qed

lemma inner_group_end:
  assumes geo: "geometry_ok sbi" and g: "g < s_groups_count sbi" and "g \<noteq> s_groups_count sbi - 1"
  shows "group_start sbi g + unat (s_blocks_per_group sbi) < unat (s_blocks_count sbi)"
    and "unat (ext4bf_group_first_block_no sbi g + (s_blocks_per_group sbi - 1)) + 1 =
      group_start sbi g + unat (s_blocks_per_group sbi)"
proof -
  let ?bpg = "unat (s_blocks_per_group sbi)" and ?n = "unat (s_groups_count sbi)"
  let ?fdb = "unat (s_first_data_block sbi)" and ?count = "unat (s_blocks_count sbi)"
  have geo': "0 < ?bpg" "?fdb + (?n - 1) * ?bpg < ?count" "?fdb + ?n * ?bpg < 2 ^ 64" "0 < ?n"
    using geo by (simp_all add: geometry_ok_def Let_def)
  have n1: "unat (s_groups_count sbi - 1) = ?n - 1" using geo'(4) by (intro unat_minus_one) auto
  have "unat g < ?n" using g by (simp add: word_less_nat_alt)
  moreover have "unat g \<noteq> ?n - 1" using assms(3) n1 by (metis word_unat_eq_iff)
  ultimately have "Suc (unat g) * ?bpg \<le> (?n - 1) * ?bpg" by (intro mult_le_mono1) simp
  then show "group_start sbi g + ?bpg < ?count" using geo'(2) by (simp add: group_start_def)
  have p1: "unat (s_blocks_per_group sbi - 1) = ?bpg - 1" using geo'(1) by (intro unat_minus_one) auto
  have "group_start sbi g + (?bpg - 1) < 2 ^ LENGTH(64)"
    using group_start_less [OF geo g] geo'(3) by simp
  then show "unat (ext4bf_group_first_block_no sbi g + (s_blocks_per_group sbi - 1)) + 1 = group_start sbi g + ?bpg"
    using unat_first_block [OF geo g] p1 geo'(1)
      iffD1 [OF unat_add_lem, of "ext4bf_group_first_block_no sbi g" "s_blocks_per_group sbi - 1"] by simp
qed

lemma checked_meta_block:
  assumes geo: "geometry_ok sbi" and g: "g < s_groups_count sbi"
    and check: "check_descriptor sbi g gdp (check_start sbi g)" and b: "b \<in> meta_blocks sbi gdp"
  shows "fs_block sbi b" and "flex_bg sbi \<or> ext4bf_block_in_group sbi b g"
proof -
  let ?bpg = "unat (s_blocks_per_group sbi)" and ?count = "unat (s_blocks_count sbi)"
  have geo': "0 < ?count" "?count \<le> unat (s_first_data_block sbi) + unat (s_groups_count sbi) * ?bpg"
    using geo by (auto simp: geometry_ok_def Let_def)
  have last: "unat (s_blocks_count sbi - 1) = ?count - 1" using geo'(1) by (intro unat_minus_one) auto
  note between = check_descriptor_between [OF check b]
  have fdb: "unat (s_first_data_block sbi) \<le> group_start sbi g" by (simp add: group_start_def)
  have "fs_block sbi b \<and> (flex_bg sbi \<or> group_start sbi g \<le> unat b \<and> unat b < group_start sbi g + ?bpg)"
  proof (cases "flex_bg sbi")
    case True
    then have "ucast (s_first_data_block sbi) \<le> b" "b \<le> s_blocks_count sbi - 1"
      using between by (simp_all add: check_start_def)
    then show ?thesis using True last geo'(1) by (simp add: fs_block_def word_le_nat_alt)
  next
    case False
    then have start: "group_start sbi g \<le> unat b" "check_start sbi g = ext4bf_group_first_block_no sbi g"
      using between unat_first_block [OF geo g] by (simp_all add: check_start_def word_le_nat_alt)
    show ?thesis
    proof (cases "g = s_groups_count sbi - 1")
      case True
      then have "b \<le> s_blocks_count sbi - 1" using between by simp
      then have "unat b < ?count" using last geo'(1) by (simp add: word_le_nat_alt)
      then show ?thesis
        using last_group_start [OF geo] True start(1) geo'(2) fdb by (simp add: fs_block_def)
    next
      case notlast: False
      then have "unat b < group_start sbi g + ?bpg"
        using between False start(2) inner_group_end(2) [OF geo g notlast] by (simp add: word_le_nat_alt)
      then show ?thesis
        using inner_group_end(1) [OF geo g notlast] start(1) fdb by (simp add: fs_block_def)
    qed
  qed
  then show "fs_block sbi b" and "flex_bg sbi \<or> ext4bf_block_in_group sbi b g"
    using in_group_iff [OF geo] by blast+
qed

section \<open>The bitmap of an unused group\<close>

lemma bit_at_zero: "m < 8 * n \<Longrightarrow> \<not> bit_at (replicate n 0) m"
  by (simp add: bit_at_def less_mult_imp_div_less mult.commute)

lemma set_group_bits_ok:
  assumes geo: "geometry_ok sbi" and g: "g < s_groups_count sbi" and len: "length bm = s_blocksize sbi"
    and ts: "\<forall>t \<in> set ts. fs_block sbi t \<and> (flex_bg sbi \<or> ext4bf_block_in_group sbi t g)"
  shows "\<exists>bm'. set_group_bits sbi g ts bm = Some bm' \<and> length bm' = length bm \<and>
           (\<forall>m. bit_at bm' m \<longleftrightarrow> (\<exists>t \<in> set ts. ext4bf_block_in_group sbi t g \<and> cluster_of sbi t = m) \<or> bit_at bm m)"
  using len ts
proof (induction ts arbitrary: bm)
  case (Cons t ts)
  show ?case
  proof (cases "ext4bf_block_in_group sbi t g")
    case True
    note c = cluster_of_in_group [OF geo g _ True]
    obtain bm1 where b1: "ext4bf_set_bit (cluster_of sbi t) bm = Some bm1"
      using ext4bf_set_bit_ok [of "cluster_of sbi t" bm] c(2) Cons.prems by auto
    note e = ext4bf_set_bit_Some [OF b1]
    obtain bm' where "set_group_bits sbi g ts bm1 = Some bm'" "length bm' = length bm1"
      "\<forall>m. bit_at bm' m \<longleftrightarrow> (\<exists>t \<in> set ts. ext4bf_block_in_group sbi t g \<and> cluster_of sbi t = m) \<or> bit_at bm1 m"
      using Cons.IH [of bm1] Cons.prems e(1) by auto
    then show ?thesis
      using b1 e c(1) True Cons.prems(2) by (auto simp: set_group_bit_def Let_def)
  next
    case False
    then show ?thesis using Cons by (auto simp: set_group_bit_def Let_def)
  qed
qed simp

lemma init_block_bitmap_marks:
  assumes geo: "geometry_ok sbi" and g: "g < s_groups_count sbi"
    and check: "check_descriptor sbi g gdp (check_start sbi g)" and csum: "ext4bf_group_desc_csum_verify sbi g gdp"
    and len: "length bm = s_blocksize sbi" and base: "unat (ext4bf_num_base_meta_clusters sbi g) \<le> 8 * s_blocksize sbi"
  shows "\<exists>bm'. ext4bf_init_block_bitmap sbi bm g gdp = Some (gdp, bm') \<and> length bm' = s_blocksize sbi \<and>
           (\<forall>c < 8 * s_blocksize sbi. bit_at bm' c \<longleftrightarrow>
              c < unat (ext4bf_num_base_meta_clusters sbi g) \<or>
              (\<exists>b \<in> meta_blocks sbi gdp. ext4bf_block_in_group sbi b g \<and> cluster_of sbi b = c) \<or>
              unat (num_clusters_in_group sbi g) \<le> c)"
proof -
  let ?n = "s_blocksize sbi" and ?base = "unat (ext4bf_num_base_meta_clusters sbi g)"
  let ?ts = "ext4bf_block_bitmap sbi gdp # ext4bf_inode_bitmap sbi gdp # itable_blocks sbi gdp"
  have zero: "memset 0 0 ?n bm = Some (replicate ?n 0)" using len by (simp add: memset_def)
  obtain b1 where b1: "set_bit_range 0 ?base (replicate ?n 0) = Some b1" "length b1 = ?n"
      "\<forall>m. bit_at b1 m \<longleftrightarrow> m < ?base \<or> bit_at (replicate ?n 0) m"
    using set_bit_range_ok [of ?base "replicate ?n 0" 0] base by auto
  have "\<forall>t \<in> set ?ts. fs_block sbi t \<and> (flex_bg sbi \<or> ext4bf_block_in_group sbi t g)"
    using checked_meta_block [OF geo g check] by (auto simp: meta_blocks_def)
  from set_group_bits_ok [OF geo g b1(2) this]
  obtain b2 where b2: "set_group_bits sbi g ?ts b1 = Some b2" "length b2 = ?n"
      "\<forall>m. bit_at b2 m \<longleftrightarrow> (\<exists>t \<in> set ?ts. ext4bf_block_in_group sbi t g \<and> cluster_of sbi t = m) \<or> bit_at b1 m"
    unfolding b1(2) by (elim exE conjE) (rule that)
  then obtain x y where xy: "set_group_bit sbi g (ext4bf_block_bitmap sbi gdp) b1 = Some x"
      "set_group_bit sbi g (ext4bf_inode_bitmap sbi gdp) x = Some y" "set_group_bits sbi g (itable_blocks sbi gdp) y = Some b2"
    by (auto simp: bind_eq_Some_conv)
  obtain b3 where b3: "ext4bf_mark_bitmap_end (unat (num_clusters_in_group sbi g)) (8 * ?n) b2 = Some b3" "length b3 = ?n"
      "\<forall>m < 8 * ?n. bit_at b3 m \<longleftrightarrow> unat (num_clusters_in_group sbi g) \<le> m \<and> m < 8 * ?n \<or> bit_at b2 m"
    using mark_bitmap_end_ok [of ?n b2] b2(2) by auto
  have "ext4bf_init_block_bitmap sbi bm g gdp = Some (gdp, b3)"
    using csum zero b1(1) xy b3(1) by (simp add: ext4bf_init_block_bitmap_def mult.commute)
  moreover have "bit_at b3 c \<longleftrightarrow> c < ?base \<or>
      (\<exists>b \<in> meta_blocks sbi gdp. ext4bf_block_in_group sbi b g \<and> cluster_of sbi b = c) \<or>
      unat (num_clusters_in_group sbi g) \<le> c" if "c < 8 * ?n" for c
  proof -
    have "set ?ts = meta_blocks sbi gdp" by (simp add: meta_blocks_def)
    then show ?thesis using that b1(3) b2(3) b3(3) bit_at_zero [of c ?n] by metis
  qed
  ultimately show ?thesis using b3(2) by blast
qed

text \<open>
  C32. On a file system mounted for writing, once the group descriptors have passed the check at mount
  time, initialising the bitmap of a group writes outside the bitmap exactly when the superblock, the descriptors and
  the reserved descriptor blocks of the group take more clusters than the bitmap has bits; the check at mount
  time does not look at the number of reserved blocks.  Otherwise it marks exactly these clusters, those of the
  bitmaps and the inode table as far as they lie in the group, and the bits after the end of the group.
\<close>

theorem fresh_bitmap_after_check:
  assumes "geometry_ok sbi" "ext4bf_check_descriptors sbi = Some (Some r)" "\<not> s_rdonly sbi" "g < s_groups_count sbi"
    and "length bm = s_blocksize sbi"
  shows "\<exists>gdp. ext4bf_get_group_desc sbi g = Some gdp \<and>
    (if 8 * s_blocksize sbi < unat (ext4bf_num_base_meta_clusters sbi g)
     then ext4bf_init_block_bitmap sbi bm g gdp = None
     else \<exists>bm'. ext4bf_init_block_bitmap sbi bm g gdp = Some (gdp, bm') \<and> length bm' = s_blocksize sbi \<and>
       (\<forall>c < 8 * s_blocksize sbi. bit_at bm' c \<longleftrightarrow>
          c < unat (ext4bf_num_base_meta_clusters sbi g) \<or>
          (\<exists>b \<in> meta_blocks sbi gdp. ext4bf_block_in_group sbi b g \<and> cluster_of sbi b = c) \<or>
          unat (num_clusters_in_group sbi g) \<le> c))"
proof -
  obtain gdp where gdp: "ext4bf_get_group_desc sbi g = Some gdp" "check_descriptor sbi g gdp (check_start sbi g)"
    using check_descriptors_group [OF assms(2,4)] by blast
  then have csum: "ext4bf_group_desc_csum_verify sbi g gdp" using assms(3) by (simp add: check_descriptor_def Let_def)
  have "ext4bf_init_block_bitmap sbi bm g gdp = None" if "8 * s_blocksize sbi < unat (ext4bf_num_base_meta_clusters sbi g)"
    using that csum assms(5) set_bit_range_None [of 0 "replicate (s_blocksize sbi) 0"]
    by (simp add: ext4bf_init_block_bitmap_def memset_def)
  then show ?thesis using init_block_bitmap_marks [OF assms(1,4) gdp(2) csum assms(5)] gdp(1) by auto
qed

text \<open>
  A file system of one group with blocks of 1 KiB: superblock in block 1, descriptors in 2, bitmaps
  in 3 and 4, inode table in 5 to 8.
\<close>

definition ex_gdp :: bytes where
  "ex_gdp = put_le32 8 5 (put_le32 4 4 (put_le32 0 3 (replicate 32 0)))"

definition ex_sbi :: ext4bf_sb_info where
  "ex_sbi = \<lparr>s_blocksize = 1024, s_rdonly = False, s_uuid = replicate 16 0, s_feature_ro_compat = 0,
     s_feature_incompat = 0, s_first_data_block = 1, s_blocks_count = 8193, s_r_blocks_count = 0,
     s_free_blocks_count = 0, s_free_inodes_count = 0, s_first_meta_bg = 0, s_reserved_gdt_blocks = 0,
     es_desc_size = 32, s_desc_size = 32, s_desc_per_block = 32, s_desc_per_block_bits = 5,
     s_blocks_per_group = 8192, s_inodes_per_group = 32, s_itb_per_group = 4, s_gdb_count = 1, s_groups_count = 1,
     s_cluster_bits = 0, s_cluster_ratio = 1, s_log_groups_per_flex = 0, s_group_desc = (\<lambda>_. Some ex_gdp)\<rparr>"

lemma ex_gdp_fields:
  "ext4bf_block_bitmap ex_sbi ex_gdp = 3" "ext4bf_inode_bitmap ex_sbi ex_gdp = 4" "ext4bf_inode_table ex_sbi ex_gdp = 5"
  by (simp_all add: ext4bf_block_bitmap_def ext4bf_inode_bitmap_def ext4bf_inode_table_def get_desc64_def wide_desc_def
      ex_sbi_def ex_gdp_def feature_defs layout_simps)

lemma ex_get_group_desc: "ext4bf_get_group_desc ex_sbi 0 = Some ex_gdp"
  by (simp add: ext4bf_get_group_desc_def ex_sbi_def Let_def) (simp add: ex_gdp_def)

lemmas ex_layout_defs = geometry_ok_def ex_sbi_def group_list_def ext4bf_num_base_meta_clusters_def ext4bf_bg_has_super_def
  EXT4_HAS_RO_COMPAT_FEATURE_def EXT4_HAS_INCOMPAT_FEATURE_def ext4bf_bg_num_gdb_def ext4bf_bg_num_gdb_nometa_def
  EXT4_NUM_B2C_def num_clusters_in_group_def ext4bf_group_first_block_no_def Let_def

lemma ex_sbi_layout:
  "geometry_ok ex_sbi" "group_list ex_sbi = [0]" "ext4bf_num_base_meta_clusters ex_sbi 0 = 2"
  "num_clusters_in_group ex_sbi 0 = 8192" "ext4bf_group_first_block_no ex_sbi 0 = 1"
  by (simp_all add: ex_layout_defs)

lemma ex_check_descriptor: "check_descriptor ex_sbi 0 ex_gdp 1"
  using ex_gdp_fields
  by (simp add: check_descriptor_def Let_def ext4bf_group_desc_csum_verify_def EXT4_HAS_RO_COMPAT_FEATURE_def
      EXT4_HAS_INCOMPAT_FEATURE_def) (simp add: ex_sbi_def)

lemma ex_check_descriptors: "\<exists>r. ext4bf_check_descriptors ex_sbi = Some (Some r)"
proof -
  have "ucast (s_first_data_block ex_sbi) = (1 :: u64)" by (simp add: ex_sbi_def)
  then show ?thesis
    using ex_get_group_desc ex_check_descriptor
    by (simp add: ext4bf_check_descriptors_def ex_sbi_layout(2) Let_def split: if_splits)
qed

text \<open>The same file system with the largest number of reserved descriptor blocks.\<close>

definition ex_sbi_reserved :: ext4bf_sb_info where
  "ex_sbi_reserved = ex_sbi\<lparr>s_reserved_gdt_blocks := 0xffff\<rparr>"

lemma ex_reserved_layout:
  "geometry_ok ex_sbi_reserved" "group_list ex_sbi_reserved = [0]" "ext4bf_num_base_meta_clusters ex_sbi_reserved 0 = 65537"
  by (simp_all add: ex_sbi_reserved_def ex_layout_defs)

lemma ex_reserved_checked: "\<exists>r. ext4bf_check_descriptors ex_sbi_reserved = Some (Some r)"
proof -
  have "ext4bf_get_group_desc ex_sbi_reserved 0 = Some ex_gdp"
    by (simp add: ext4bf_get_group_desc_def ex_sbi_reserved_def ex_sbi_def Let_def) (simp add: ex_gdp_def)
  moreover have "ext4bf_block_bitmap ex_sbi_reserved ex_gdp = 3" "ext4bf_inode_bitmap ex_sbi_reserved ex_gdp = 4"
      "ext4bf_inode_table ex_sbi_reserved ex_gdp = 5"
    using ex_gdp_fields by (simp_all add: ex_sbi_reserved_def ext4bf_block_bitmap_def ext4bf_inode_bitmap_def
        ext4bf_inode_table_def get_desc64_def wide_desc_def)
  then have "check_descriptor ex_sbi_reserved 0 ex_gdp 1"
    by (simp add: check_descriptor_def Let_def ext4bf_group_desc_csum_verify_def EXT4_HAS_RO_COMPAT_FEATURE_def
        EXT4_HAS_INCOMPAT_FEATURE_def) (simp add: ex_sbi_reserved_def ex_sbi_def)
  moreover have "ucast (s_first_data_block ex_sbi_reserved) = (1 :: u64)" by (simp add: ex_sbi_reserved_def ex_sbi_def)
  ultimately show ?thesis
    by (simp add: ext4bf_check_descriptors_def ex_reserved_layout(2) Let_def split: if_splits)
qed

theorem fresh_bitmap_after_check_witness:
  "(\<exists>r gdp bm'. ext4bf_check_descriptors ex_sbi = Some (Some r) \<and> ext4bf_get_group_desc ex_sbi 0 = Some gdp \<and>
     ext4bf_init_block_bitmap ex_sbi (replicate 1024 0) 0 gdp = Some (gdp, bm') \<and> length bm' = 1024 \<and> bit_at bm' 1) \<and>
   (\<exists>r gdp. ext4bf_check_descriptors ex_sbi_reserved = Some (Some r) \<and>
     ext4bf_get_group_desc ex_sbi_reserved 0 = Some gdp \<and>
     ext4bf_init_block_bitmap ex_sbi_reserved (replicate 1024 0) 0 gdp = None)"
proof -
  obtain r r' where r: "ext4bf_check_descriptors ex_sbi = Some (Some r)"
      "ext4bf_check_descriptors ex_sbi_reserved = Some (Some r')"
    using ex_check_descriptors ex_reserved_checked by blast
  have "\<not> s_rdonly ex_sbi" "0 < s_groups_count ex_sbi" "s_blocksize ex_sbi = 1024" by (simp_all add: ex_sbi_def)
  moreover have "\<not> s_rdonly ex_sbi_reserved" "0 < s_groups_count ex_sbi_reserved" "s_blocksize ex_sbi_reserved = 1024"
    by (simp_all add: ex_sbi_reserved_def ex_sbi_def)
  ultimately show ?thesis
    using fresh_bitmap_after_check [OF ex_sbi_layout(1) r(1), of 0 "replicate 1024 0"] ex_sbi_layout(3)
      fresh_bitmap_after_check [OF ex_reserved_layout(1) r(2), of 0 "replicate 1024 0"] ex_reserved_layout(3) r
    by auto
qed

section \<open>Clusters that are not counted\<close>

text \<open>
  The usual layout of a group: the block bitmap, the inode bitmap and an inode table of n blocks follow the
  N blocks of the superblock and the descriptors, and clusters are single blocks.
\<close>

definition group_length :: "ext4bf_sb_info \<Rightarrow> u32 \<Rightarrow> nat" where
  "group_length sbi g =
     (if g = s_groups_count sbi - 1 then unat (s_blocks_count sbi) - group_start sbi g else unat (s_blocks_per_group sbi))"

definition usual_layout :: "ext4bf_sb_info \<Rightarrow> u32 \<Rightarrow> bytes \<Rightarrow> bool" where
  "usual_layout sbi g gdp =
     (let N = unat (ext4bf_num_base_meta_clusters sbi g); n = unat (s_itb_per_group sbi); S = group_start sbi g
      in s_cluster_bits sbi = 0 \<and> s_cluster_ratio sbi = 1 \<and> s_blocksize sbi \<le> 65536 \<and> 2 \<le> N \<and> 3 \<le> n \<and> N + 2 + n \<le> group_length sbi g \<and>
         unat (ext4bf_block_bitmap sbi gdp) = S + N \<and> unat (ext4bf_inode_bitmap sbi gdp) = S + N + 1 \<and>
         unat (ext4bf_inode_table sbi gdp) = S + N + 2)"

lemma group_length_bounds:
  assumes "geometry_ok sbi" "g < s_groups_count sbi"
  shows "group_length sbi g \<le> unat (s_blocks_per_group sbi)" "group_start sbi g + group_length sbi g \<le> unat (s_blocks_count sbi)"
proof -
  have "unat (s_blocks_count sbi) \<le> unat (s_first_data_block sbi) + unat (s_groups_count sbi) * unat (s_blocks_per_group sbi)"
    and "unat (s_first_data_block sbi) + (unat (s_groups_count sbi) - 1) * unat (s_blocks_per_group sbi) < unat (s_blocks_count sbi)"
    and "0 < unat (s_groups_count sbi)"
    using assms(1) by (simp_all add: geometry_ok_def Let_def)
  moreover have "unat (s_groups_count sbi - 1) = unat (s_groups_count sbi) - 1"
    using calculation(3) by (intro unat_minus_one) auto
  ultimately show "group_length sbi g \<le> unat (s_blocks_per_group sbi)"
      "group_start sbi g + group_length sbi g \<le> unat (s_blocks_count sbi)"
    using last_group_start [OF assms(1)] inner_group_end(1) [OF assms]
    by (auto simp: group_length_def group_start_def)
qed

lemma unat_num_clusters:
  assumes geo: "geometry_ok sbi" and g: "g < s_groups_count sbi" and "s_cluster_bits sbi = 0" "s_cluster_ratio sbi = 1"
  shows "unat (num_clusters_in_group sbi g) = group_length sbi g"
proof -
  note len = group_length_bounds [OF geo g]
  have bpg: "unat (s_blocks_per_group sbi) < 2 ^ 32" using geo by (simp add: geometry_ok_def Let_def)
  have "unat (s_blocks_count sbi - ext4bf_group_first_block_no sbi g) = unat (s_blocks_count sbi) - group_start sbi g"
    using unat_first_block [OF geo g] len(2) by (simp add: unat_sub word_le_nat_alt)
  then show ?thesis
    using len(1) bpg assms(3,4)
    by (auto simp: num_clusters_in_group_def EXT4_NUM_B2C_def group_length_def unat_u32)
qed

text \<open>The offset of a block from the start of the group, subtracted the wrong way round.\<close>

lemma ucast_offset:
  assumes "unat (b :: u64) = unat s + d"
  shows "ucast (s - b) = (- word_of_nat d :: u32)" "ucast (s - b + word_of_nat i) = (word_of_nat i - word_of_nat d :: u32)"
proof -
  have "(word_of_nat (unat b) :: u64) = word_of_nat (unat s + d)" using assms by (rule arg_cong)
  then have "b = s + word_of_nat d" by simp
  then have eq: "s - b = - word_of_nat d" by simp
  have plus: "(ucast (x + y) :: u32) = ucast x + ucast y" for x y :: u64
  proof transfer
    fix x y :: int
    have "take_bit 32 (take_bit 64 z) = take_bit 32 z" for z :: int by simp
    then show "take_bit LENGTH(32) (take_bit LENGTH(64) (x + y)) = take_bit LENGTH(32) (take_bit LENGTH(64) x + take_bit LENGTH(64) y)"
      using take_bit_add [of 32 "take_bit 64 x" "take_bit 64 y"] take_bit_add [of 32 x y] by simp
  qed
  have minus: "(ucast (- x) :: u32) = - ucast x" for x :: u64 using plus [of "- x" x] by (simp add: eq_neg_iff_add_eq_0)
  have num: "(ucast (word_of_nat k :: u64) :: u32) = word_of_nat k" for k by (rule bit_word_eqI) (simp add: bit_simps)
  show "ucast (s - b) = (- word_of_nat d :: u32)" unfolding eq minus num ..
  show "ucast (s - b + word_of_nat i) = (word_of_nat i - word_of_nat d :: u32)" unfolding eq plus minus num by simp
qed

lemma unat_neg:
  assumes "0 < a" "a < 2 ^ 32"
  shows "unat (- word_of_nat a :: u32) = 2 ^ 32 - a"
proof -
  have "(word_of_nat (2 ^ 32 - a) :: u32) = word_of_nat (2 ^ 32) - word_of_nat a"
    using assms(2) by (intro of_nat_diff) simp
  moreover have "(word_of_nat (2 ^ 32) :: u32) = 0" by simp
  ultimately have "(- word_of_nat a :: u32) = word_of_nat (2 ^ 32 - a)" by simp
  then show ?thesis using assms(1) by (simp only:) (rule word_of_nat_small, simp)
qed

lemma neg_eq_iff: "a < 2 ^ 32 \<Longrightarrow> b < 2 ^ 32 \<Longrightarrow> (- word_of_nat a :: u32) = - word_of_nat b \<longleftrightarrow> a = b"
  by (metis neg_equal_iff_equal word_of_nat_small)

lemma neg_large:
  assumes "0 < a" "a < 2 ^ 30" "unat c < 2 ^ 31"
  shows "\<not> (- word_of_nat a :: u32) < c" "(- word_of_nat a :: u32) \<noteq> c" "c \<noteq> - word_of_nat a"
  using unat_neg [of a] assms by (auto simp: word_less_nat_alt)

text \<open>
  The loop over the inode table when the table starts d blocks after the start of the group: from the
  block d of the table on, and from an earlier block.
\<close>

definition table_at :: "ext4bf_sb_info \<Rightarrow> u32 \<Rightarrow> u64 \<Rightarrow> nat \<Rightarrow> nat \<Rightarrow> bool" where
  "table_at sbi g t d n \<longleftrightarrow> (\<forall>i < n. ext4bf_block_in_group sbi (t + word_of_nat i) g) \<and> s_cluster_bits sbi = 0 \<and>
     unat t = unat (ext4bf_group_first_block_no sbi g) + d \<and> d + n < 2 ^ 30"

lemma table_cluster:
  assumes "table_at sbi g t d n" "i < n"
  shows "ext4bf_block_in_group sbi (t + word_of_nat i) g"
    and "i < d \<Longrightarrow> ucast (EXT4_B2C sbi (ext4bf_group_first_block_no sbi g - t + word_of_nat i)) = (- word_of_nat (d - i) :: u32)"
    and "d \<le> i \<Longrightarrow> ucast (EXT4_B2C sbi (ext4bf_group_first_block_no sbi g - t + word_of_nat i)) = (word_of_nat (i - d) :: u32)"
  using assms ucast_offset(2) [of t "ext4bf_group_first_block_no sbi g" d i]
  by (simp_all add: table_at_def EXT4_B2C_def of_nat_diff)

lemma overhead_itable_high:
  assumes "table_at sbi g t d n" "d \<le> i" "i \<le> n" "i - d \<le> unat num" "unat num < 2 ^ 30"
    and "bc = - word_of_nat b1" "ic = - word_of_nat b2" "cl = - word_of_nat b3" "0 < b1" "0 < b2" "0 < b3"
    and "b1 < 2 ^ 30" "b2 < 2 ^ 30" "b3 < 2 ^ 30"
  shows "unat (overhead_itable sbi g t bc ic [i..<n] num cl) = max (unat num) (n - d)"
  using assms(2-5)
proof (induction "n - i" arbitrary: i num)
  case (Suc k)
  then have i: "i < n" "[i..<n] = i # [Suc i..<n]" by (auto simp: upt_conv_Cons)
  note c = table_cluster [OF assms(1) i(1)]
  have lt: "n < 2 ^ 30" using assms(1) by (simp add: table_at_def)
  have u: "unat (word_of_nat (i - d) :: u32) = i - d" using i(1) lt by (intro word_of_nat_small) simp
  have ne: "word_of_nat (i - d) \<noteq> bc" "word_of_nat (i - d) \<noteq> ic" "word_of_nat (i - d) \<noteq> cl"
    using neg_large(3) [of _ "word_of_nat (i - d)"] assms(6-) u i(1) lt by auto
  define ci :: u32 where "ci = word_of_nat (i - d)"
  have c': "ucast (EXT4_B2C sbi (ext4bf_group_first_block_no sbi g - t + word_of_nat i)) = ci" "unat ci = i - d"
    using c(3) [OF Suc.prems(1)] u by (simp_all only: ci_def)
  note ne = ne [folded ci_def]
  show ?case
  proof (cases "i - d = unat num")
    case True
    then have num: "ci = num" using c'(2) by (simp only: word_unat_eq_iff)
    have inc: "unat (num + 1) = unat num + 1" using iffD1 [OF unat_add_lem, of num 1] Suc.prems(4) by simp
    have "overhead_itable sbi g t bc ic [i..<n] num cl = overhead_itable sbi g t bc ic [Suc i..<n] (num + 1) cl"
      using c(1) c'(1) ne num by (simp only: i(2) overhead_itable.simps Let_def if_True if_False simp_thms less_irrefl)
    moreover have "unat (overhead_itable sbi g t bc ic [Suc i..<n] (num + 1) cl) = max (unat num + 1) (n - d)"
      using Suc.hyps(1) [of "Suc i" "num + 1"] Suc.hyps(2) Suc.prems(1) True i(1) lt unfolding inc by linarith
    ultimately show ?thesis using True i(1) Suc.prems(1) by simp
  next
    case False
    then have "ci < num" using Suc.prems(3) c'(2) by (simp add: word_less_nat_alt)
    then have "overhead_itable sbi g t bc ic [i..<n] num cl = overhead_itable sbi g t bc ic [Suc i..<n] num cl"
      using c(1) c'(1) by (simp only: i(2) overhead_itable.simps Let_def if_True simp_thms)
    moreover have "unat (overhead_itable sbi g t bc ic [Suc i..<n] num cl) = max (unat num) (n - d)"
      using Suc.hyps(1) [of "Suc i" num] Suc.hyps(2) Suc.prems False i(1) by linarith
    ultimately show ?thesis by simp
  qed
qed auto

lemma overhead_itable_low:
  assumes "table_at sbi g t d n" "d = N + 2" "0 < N" "3 \<le> i" "i \<le> n" "i \<le> d"
    and "cl = - word_of_nat b" "d - i < b" "b < 2 ^ 30" "unat num + n < 2 ^ 30 + i"
  shows "unat (overhead_itable sbi g t (- word_of_nat N) (- word_of_nat (N + 1)) [i..<n] num cl) =
    max (unat num + (min n d - i)) (n - d)"
  using assms(4-)
proof (induction "n - i" arbitrary: i num cl b)
  case (Suc k)
  have lt: "d + n < 2 ^ 30" using assms(1) by (simp add: table_at_def)
  show ?case
  proof (cases "i = d")
    case True
    have "unat (overhead_itable sbi g t (- word_of_nat N) (- word_of_nat (N + 1)) [i..<n] num cl) = max (unat num) (n - d)"
      using Suc.prems Suc.hyps(2) True assms(2,3) lt
      by (intro overhead_itable_high [OF assms(1), where ?b1.0 = N and ?b2.0 = "N + 1" and ?b3.0 = b]) (rule refl | simp)+
    then show ?thesis using True Suc.prems(2) by simp
  next
    case False
    then have i: "i < n" "i < d" "[i..<n] = i # [Suc i..<n]" using Suc by (auto simp: upt_conv_Cons)
    define ci :: u32 where "ci = - word_of_nat (d - i)"
    have c: "ext4bf_block_in_group sbi (t + word_of_nat i) g"
      "ucast (EXT4_B2C sbi (ext4bf_group_first_block_no sbi g - t + word_of_nat i)) = ci"
      using table_cluster(1,2) [OF assms(1) i(1)] i(2) by (simp_all only: ci_def)
    have ne: "ci \<noteq> - word_of_nat N" "ci \<noteq> - word_of_nat (N + 1)" "ci \<noteq> cl" "\<not> ci < num" "ci \<noteq> num"
      using neg_eq_iff [of "d - i" N] neg_eq_iff [of "d - i" "N + 1"] neg_eq_iff [of "d - i" b] neg_large(1,2) [of "d - i" num]
        Suc.prems assms(2) lt i by (auto simp: ci_def)
    have inc: "unat (num + 1) = unat num + 1" using iffD1 [OF unat_add_lem, of num 1] Suc.prems(7) i(1) lt by simp
    have "overhead_itable sbi g t (- word_of_nat N) (- word_of_nat (N + 1)) [i..<n] num cl =
        overhead_itable sbi g t (- word_of_nat N) (- word_of_nat (N + 1)) [Suc i..<n] (num + 1) ci"
      using c ne by (simp only: i(3) overhead_itable.simps Let_def if_True if_False simp_thms)
    moreover have "unat (overhead_itable sbi g t (- word_of_nat N) (- word_of_nat (N + 1)) [Suc i..<n] (num + 1) ci) =
        max (unat num + 1 + (min n d - Suc i)) (n - d)"
      unfolding inc [symmetric]
      by (rule Suc.hyps(1) [where b = "d - i"]) (use Suc.hyps(2) Suc.prems i lt inc ci_def in \<open>simp_all\<close>)
    moreover have "unat num + 1 + (min n d - Suc i) = unat num + (min n d - i)" using i by simp
    ultimately show ?thesis by (simp only:)
  qed
qed simp

lemma overhead_itable_all:
  assumes "table_at sbi g t d n" "d = N + 2" "2 \<le> N" "3 \<le> n" "unat num = N"
  shows "unat (overhead_itable sbi g t (- word_of_nat N) (- word_of_nat (N + 1)) [0..<n] num (- 1)) =
    max (N + (min n d - 2)) (n - d)"
proof -
  have lt: "d + n < 2 ^ 30" using assms(1) by (simp add: table_at_def)
  have list: "[0..<n] = 0 # 1 # 2 # [3..<n]" using assms(4) by (simp add: upt_rec numeral_eq_Suc)
  have c0: "ext4bf_block_in_group sbi (t + word_of_nat 0) g"
      "ucast (EXT4_B2C sbi (ext4bf_group_first_block_no sbi g - t + word_of_nat 0)) = (- word_of_nat d :: u32)"
    using table_cluster(1,2) [OF assms(1), of 0] assms(2,4) by auto
  have c1: "ext4bf_block_in_group sbi (t + word_of_nat 1) g"
      "ucast (EXT4_B2C sbi (ext4bf_group_first_block_no sbi g - t + word_of_nat 1)) = (- word_of_nat (N + 1) :: u32)"
    using table_cluster(1,2) [OF assms(1), of 1] assms(2,4) by auto
  have c2: "ext4bf_block_in_group sbi (t + word_of_nat 2) g"
      "ucast (EXT4_B2C sbi (ext4bf_group_first_block_no sbi g - t + word_of_nat 2)) = (- word_of_nat N :: u32)"
    using table_cluster(1,2) [OF assms(1), of 2] assms(2,3,4) by auto
  have ne: "(- word_of_nat d :: u32) \<noteq> - word_of_nat N" "(- word_of_nat d :: u32) \<noteq> - word_of_nat (N + 1)"
      "(- word_of_nat d :: u32) \<noteq> - 1" "\<not> (- word_of_nat d :: u32) < num" "(- word_of_nat d :: u32) \<noteq> num"
    using neg_eq_iff [of d N] neg_eq_iff [of d "N + 1"] neg_eq_iff [of d 1] neg_large(1,2) [of d num] assms(2,3,5) lt by auto
  have inc: "unat (num + 1) = N + 1" using iffD1 [OF unat_add_lem, of num 1] assms(2,5) lt by simp
  have "overhead_itable sbi g t (- word_of_nat N) (- word_of_nat (N + 1)) [0..<n] num (- 1) =
      overhead_itable sbi g t (- word_of_nat N) (- word_of_nat (N + 1)) [3..<n] (num + 1) (- word_of_nat d)"
    using c0 c1 c2 ne by (simp only: list overhead_itable.simps Let_def if_True if_False simp_thms)
  moreover have "unat (overhead_itable sbi g t (- word_of_nat N) (- word_of_nat (N + 1)) [3..<n] (num + 1) (- word_of_nat d)) =
      max (unat (num + 1) + (min n d - 3)) (n - d)"
    by (rule overhead_itable_low [OF assms(1,2), where b = d]) (use assms lt inc in \<open>simp_all\<close>)
  moreover have "N + 1 + (min n d - 3) = N + (min n d - 2)" using assms(2-4) by simp
  ultimately show ?thesis by (simp only: inc)
qed

lemma usual_blocks:
  assumes "geometry_ok sbi" "g < s_groups_count sbi" "usual_layout sbi g gdp" "unat b = group_start sbi g + k" "k < group_length sbi g"
  shows "ext4bf_block_in_group sbi b g" "cluster_of sbi b = k" "fs_block sbi b"
proof -
  note len = group_length_bounds [OF assms(1,2)]
  have "unat b < unat (s_blocks_count sbi)" "k < unat (s_blocks_per_group sbi)" using assms(4,5) len by simp_all
  note rt = group_roundtrip [OF assms(1,2,4) this(2,1)]
  then show "ext4bf_block_in_group sbi b g" by (simp add: ext4bf_block_in_group_def)
  have "unat (s_blocks_per_group sbi) < 2 ^ 32" using assms(1) by (simp add: geometry_ok_def Let_def)
  then have "k < 2 ^ 32" using assms(5) len(1) by simp
  then show "cluster_of sbi b = k"
    using rt assms(3) by (simp add: cluster_of_def usual_layout_def Let_def word_of_nat_small)
  show "fs_block sbi b" using assms(4,5) len(2) by (simp add: fs_block_def group_start_def)
qed

lemma usual_small:
  assumes "geometry_ok sbi" "g < s_groups_count sbi" "usual_layout sbi g gdp"
  shows "group_length sbi g \<le> 8 * s_blocksize sbi" "group_length sbi g < 2 ^ 30"
proof -
  have "unat (s_blocks_per_group sbi) \<le> 8 * s_blocksize sbi" "s_blocksize sbi \<le> 65536"
    using assms by (simp_all add: geometry_ok_def usual_layout_def Let_def)
  then show "group_length sbi g \<le> 8 * s_blocksize sbi" "group_length sbi g < 2 ^ 30"
    using group_length_bounds(1) [OF assms(1,2)] by simp_all
qed

lemma unat_plus_nat: "unat (x :: u64) + i < 2 ^ LENGTH(64) \<Longrightarrow> unat (x + word_of_nat i) = unat x + i"
  using iffD1 [OF unat_add_lem, of x "word_of_nat i"] by (simp add: unsigned_of_nat take_bit_nat_eq_self)

lemma usual_overhead:
  assumes geo: "geometry_ok sbi" and g: "g < s_groups_count sbi" and lay: "usual_layout sbi g gdp"
    and N: "N = unat (ext4bf_num_base_meta_clusters sbi g)" and n: "n = unat (s_itb_per_group sbi)"
  shows "unat (ext4bf_num_overhead_clusters sbi g gdp) = max (N + min n (N + 2)) (n - N)"
proof -
  let ?s = "ext4bf_group_first_block_no sbi g" and ?num = "ext4bf_num_base_meta_clusters sbi g"
  have l: "s_cluster_bits sbi = 0" "2 \<le> N" "3 \<le> n" "N + 2 + n \<le> group_length sbi g"
      "unat (ext4bf_block_bitmap sbi gdp) = group_start sbi g + N" "unat (ext4bf_inode_bitmap sbi gdp) = group_start sbi g + (N + 1)"
      "unat (ext4bf_inode_table sbi gdp) = group_start sbi g + (N + 2)"
    using lay by (auto simp: usual_layout_def Let_def N n)
  note small = usual_small [OF geo g lay] and s = unat_first_block [OF geo g]
  have lt: "N + 2 + n < 2 ^ 30" using l(4) small(2) by simp
  have bb: "overhead_cluster sbi g (ext4bf_block_bitmap sbi gdp) ?num = (- word_of_nat N, ?num)"
    using usual_blocks(1) [OF geo g lay l(5)] l ucast_offset(1) [of "ext4bf_block_bitmap sbi gdp" ?s N] s
      neg_large(1,2) [of N ?num] lt N
    by (simp add: overhead_cluster_def EXT4_B2C_def Let_def)
  have ib: "overhead_cluster sbi g (ext4bf_inode_bitmap sbi gdp) ?num = (- word_of_nat (N + 1), ?num)"
    using usual_blocks(1) [OF geo g lay l(6)] l ucast_offset(1) [of "ext4bf_inode_bitmap sbi gdp" ?s "N + 1"] s
      neg_large(1,2) [of "N + 1" ?num] lt N
    by (simp add: overhead_cluster_def EXT4_B2C_def Let_def del: of_nat_add of_nat_Suc)
  have table: "table_at sbi g (ext4bf_inode_table sbi gdp) (N + 2) n"
    unfolding table_at_def
  proof (intro conjI allI impI)
    fix i assume i: "i < n"
    have "group_start sbi g + (N + 2 + i) < 2 ^ LENGTH(64)"
    proof -
      have "unat (s_blocks_count sbi) < 2 ^ LENGTH(64)" by (rule unsigned_less)
      then show ?thesis using group_length_bounds(2) [OF geo g] l(4) i by linarith
    qed
    then have "unat (ext4bf_inode_table sbi gdp + word_of_nat i) = group_start sbi g + (N + 2 + i)"
      using unat_plus_nat [of "ext4bf_inode_table sbi gdp" i] l(7) by simp
    then show "ext4bf_block_in_group sbi (ext4bf_inode_table sbi gdp + word_of_nat i) g"
      using usual_blocks(1) [OF geo g lay] l(4) i by simp
  qed (use l s lt in simp_all)
  have ne: "(- word_of_nat N :: u32) \<noteq> - 1" "(- word_of_nat (N + 1) :: u32) \<noteq> - 1"
    using neg_eq_iff [of N 1] neg_eq_iff [of "N + 1" 1] l(2) lt by auto
  define tot where "tot = overhead_itable sbi g (ext4bf_inode_table sbi gdp) (- word_of_nat N) (- word_of_nat (N + 1)) [0..<n] ?num (- 1)"
  have tot: "unat tot = max (N + (min n (N + 2) - 2)) (n - (N + 2))"
    unfolding tot_def by (rule overhead_itable_all [OF table]) (use l N in simp_all)
  have "ext4bf_num_overhead_clusters sbi g gdp = tot + 1 + 1"
    using bb ib ne n by (simp add: ext4bf_num_overhead_clusters_def Let_def tot_def)
  moreover have "unat tot \<le> N + n"
    unfolding tot by (intro max.boundedI) (use min.cobounded1 [of n "N + 2"] in linarith)+
  then have "unat (tot + 1 + 1) = unat tot + 2"
    using lt iffD1 [OF unat_add_lem, of tot 1] iffD1 [OF unat_add_lem, of "tot + 1" 1] by simp
  moreover have "max (N + (min n (N + 2) - 2)) (n - (N + 2)) + 2 = max (N + min n (N + 2)) (n - N)"
    using l(2,3) by arith
  ultimately show ?thesis using tot by (simp only:)
qed

lemma usual_free:
  assumes geo: "geometry_ok sbi" and g: "g < s_groups_count sbi" and lay: "usual_layout sbi g gdp"
    and check: "check_descriptor sbi g gdp (check_start sbi g)" and csum: "ext4bf_group_desc_csum_verify sbi g gdp"
    and bm: "length bm = s_blocksize sbi"
    and N: "N = unat (ext4bf_num_base_meta_clusters sbi g)" and n: "n = unat (s_itb_per_group sbi)"
  shows "\<exists>bm'. ext4bf_init_block_bitmap sbi bm g gdp = Some (gdp, bm') \<and>
    ext4bf_count_free bm' (s_blocksize sbi) = group_length sbi g - (N + 2 + n)"
proof -
  have l: "N + 2 + n \<le> group_length sbi g" "unat (ext4bf_block_bitmap sbi gdp) = group_start sbi g + N"
      "unat (ext4bf_inode_bitmap sbi gdp) = group_start sbi g + (N + 1)"
      "unat (ext4bf_inode_table sbi gdp) = group_start sbi g + (N + 2)" "s_cluster_bits sbi = 0" "s_cluster_ratio sbi = 1"
    using lay by (auto simp: usual_layout_def Let_def N n)
  note small = usual_small [OF geo g lay] and blocks = usual_blocks [OF geo g lay]
  have "unat (s_blocks_count sbi) < 2 ^ LENGTH(64)" by (rule unsigned_less)
  then have lt: "group_start sbi g + (N + 2 + n) < 2 ^ LENGTH(64)"
    using group_length_bounds(2) [OF geo g] l(1) by linarith
  have small_nat: "unat (word_of_nat m :: u64) = m" if "m < group_start sbi g + (N + 2 + n)" for m
    using that lt by (simp add: unsigned_of_nat take_bit_nat_eq_self)
  have "unat (ext4bf_inode_table sbi gdp + s_itb_per_group sbi) = group_start sbi g + (N + 2 + n)"
    using iffD1 [OF unat_add_lem, of "ext4bf_inode_table sbi gdp" "s_itb_per_group sbi"] lt l(4) n by simp
  then have table: "set (itable_blocks sbi gdp) =
      word_of_nat ` {group_start sbi g + (N + 2)..<group_start sbi g + (N + 2 + n)}"
    by (simp only: itable_blocks_def Let_def l(4) set_map set_upt)
  have meta: "b \<in> meta_blocks sbi gdp \<longleftrightarrow> (\<exists>k. N \<le> k \<and> k < N + 2 + n \<and> unat b = group_start sbi g + k)" for b
  proof
    assume "b \<in> meta_blocks sbi gdp"
    then consider "b = ext4bf_block_bitmap sbi gdp" | "b = ext4bf_inode_bitmap sbi gdp"
      | m where "group_start sbi g + (N + 2) \<le> m" "m < group_start sbi g + (N + 2 + n)" "b = word_of_nat m"
      unfolding meta_blocks_def table by fastforce
    then show "\<exists>k. N \<le> k \<and> k < N + 2 + n \<and> unat b = group_start sbi g + k"
    proof cases
      case 3
      then have "N \<le> m - group_start sbi g \<and> m - group_start sbi g < N + 2 + n" by linarith
      moreover have "unat b = group_start sbi g + (m - group_start sbi g)" using 3 small_nat [of m] by simp
      ultimately show ?thesis by blast
    qed (use l(2,3) in auto)
  next
    assume "\<exists>k. N \<le> k \<and> k < N + 2 + n \<and> unat b = group_start sbi g + k"
    then obtain k where k: "N \<le> k" "k < N + 2 + n" "unat b = group_start sbi g + k" by blast
    then consider "k = N" | "k = N + 1" | "N + 2 \<le> k" by linarith
    then show "b \<in> meta_blocks sbi gdp"
    proof cases
      case 3
      have "b = word_of_nat (group_start sbi g + k)" by (simp only: k(3) [symmetric]) simp
      moreover have "group_start sbi g + k \<in> {group_start sbi g + (N + 2)..<group_start sbi g + (N + 2 + n)}"
        using 3 k(2) by simp
      ultimately show ?thesis unfolding meta_blocks_def table by blast
    qed (use k(3) l(2,3) in \<open>simp_all add: meta_blocks_def word_unat_eq_iff\<close>)
  qed
  obtain bm' where bm': "ext4bf_init_block_bitmap sbi bm g gdp = Some (gdp, bm')" "length bm' = s_blocksize sbi"
      "\<forall>c < 8 * s_blocksize sbi. bit_at bm' c \<longleftrightarrow> c < N \<or>
        (\<exists>b \<in> meta_blocks sbi gdp. ext4bf_block_in_group sbi b g \<and> cluster_of sbi b = c) \<or> group_length sbi g \<le> c"
    using init_block_bitmap_marks [OF geo g check csum bm] unat_num_clusters [OF geo g l(5,6)] l(1) small(1) N by auto
  have "(\<exists>b \<in> meta_blocks sbi gdp. ext4bf_block_in_group sbi b g \<and> cluster_of sbi b = c) \<longleftrightarrow> N \<le> c \<and> c < N + 2 + n" for c
  proof
    assume "\<exists>b \<in> meta_blocks sbi gdp. ext4bf_block_in_group sbi b g \<and> cluster_of sbi b = c"
    then show "N \<le> c \<and> c < N + 2 + n" using meta blocks(2) l(1) by (metis less_le_trans)
  next
    assume c: "N \<le> c \<and> c < N + 2 + n"
    then have "unat (word_of_nat (group_start sbi g + c) :: u64) = group_start sbi g + c" by (intro small_nat) simp
    then show "\<exists>b \<in> meta_blocks sbi gdp. ext4bf_block_in_group sbi b g \<and> cluster_of sbi b = c"
      using meta c blocks(1,2) l(1) by (metis less_le_trans)
  qed
  then have "{m. m < 8 * s_blocksize sbi \<and> \<not> bit_at bm' m} = {N + 2 + n..<group_length sbi g}"
    using bm'(3) small(1) by auto
  then show ?thesis using bm'(1,2) count_free_ok [of "s_blocksize sbi" bm'] by auto
qed

text \<open>
  C33. In a group of the usual layout, whose N blocks of superblock and descriptors are followed by the two
  bitmaps and an inode table of n blocks, the bitmap of the unused group leaves as many clusters free as the group has beyond
  N + 2 + n.  But ext4bf_free_clusters_after_init, which subtracts block numbers from the start of the group instead
  of the start from the block numbers, gives more: two more if the table is not longer than N + 2, and up to
  2 * N + 2 more for longer tables.
\<close>

theorem overhead_too_small:
  assumes "geometry_ok sbi" "g < s_groups_count sbi" "usual_layout sbi g gdp"
    and "check_descriptor sbi g gdp (check_start sbi g)" "ext4bf_group_desc_csum_verify sbi g gdp" "length bm = s_blocksize sbi"
    and "N = unat (ext4bf_num_base_meta_clusters sbi g)" "n = unat (s_itb_per_group sbi)"
  shows "\<exists>bm'. ext4bf_init_block_bitmap sbi bm g gdp = Some (gdp, bm') \<and>
    ext4bf_count_free bm' (s_blocksize sbi) = group_length sbi g - (N + 2 + n) \<and>
    unat (ext4bf_free_clusters_after_init sbi g gdp) =
      ext4bf_count_free bm' (s_blocksize sbi) + 2 + min (n - (N + 2)) (2 * N)"
proof -
  have l: "N + 2 + n \<le> group_length sbi g" "s_cluster_bits sbi = 0" "s_cluster_ratio sbi = 1"
    using assms(3,7,8) by (auto simp: usual_layout_def Let_def)
  note over = usual_overhead [OF assms(1-3,7,8)] and len = unat_num_clusters [OF assms(1,2) l(2,3)]
  have "max (N + min n (N + 2)) (n - N) \<le> group_length sbi g"
    by (intro max.boundedI) (use min.cobounded1 [of n "N + 2"] l(1) in linarith)+
  then have "unat (ext4bf_free_clusters_after_init sbi g gdp) = group_length sbi g - max (N + min n (N + 2)) (n - N)"
    by (simp add: ext4bf_free_clusters_after_init_def unat_sub word_le_nat_alt over len)
  moreover have "group_length sbi g - max (N + min n (N + 2)) (n - N) =
      group_length sbi g - (N + 2 + n) + 2 + min (n - (N + 2)) (2 * N)"
    using l(1) by arith
  ultimately have "unat (ext4bf_free_clusters_after_init sbi g gdp) =
      group_length sbi g - (N + 2 + n) + 2 + min (n - (N + 2)) (2 * N)" by (rule trans)
  then show ?thesis using usual_free [OF assms] by metis
qed

text \<open>The example with descriptor checksums, its group marked as not initialised.\<close>

definition ex_uninit_sbi :: ext4bf_sb_info where
  "ex_uninit_sbi = ex_sbi\<lparr>s_feature_ro_compat := EXT4_FEATURE_RO_COMPAT_GDT_CSUM\<rparr>"

definition ex_uninit_gdp :: bytes where
  "ex_uninit_gdp = (let gdp = put_le16 18 EXT4_BG_BLOCK_UNINIT ex_gdp
                    in put_le16 30 (ext4bf_group_desc_csum ex_uninit_sbi 0 gdp) gdp)"

lemma ex_uninit_layout:
  "geometry_ok ex_uninit_sbi" "s_groups_count ex_uninit_sbi = 1" "s_blocksize ex_uninit_sbi = 1024" "group_start ex_uninit_sbi 0 = 1"
  "group_length ex_uninit_sbi 0 = 8192" "ext4bf_num_base_meta_clusters ex_uninit_sbi 0 = 2" "s_itb_per_group ex_uninit_sbi = 4"
  "s_cluster_bits ex_uninit_sbi = 0" "s_cluster_ratio ex_uninit_sbi = 1" "s_blocks_count ex_uninit_sbi = 8193"
  "EXT4_HAS_RO_COMPAT_FEATURE ex_uninit_sbi EXT4_FEATURE_RO_COMPAT_GDT_CSUM" "check_start ex_uninit_sbi 0 = 1"
  by (simp_all add: ex_uninit_sbi_def check_start_def group_length_def group_start_def ex_layout_defs feature_defs)

lemma ex_uninit:
  "usual_layout ex_uninit_sbi 0 ex_uninit_gdp" "bg_flags ex_uninit_gdp = EXT4_BG_BLOCK_UNINIT"
  "ext4bf_group_desc_csum_verify ex_uninit_sbi 0 ex_uninit_gdp"
  "check_descriptor ex_uninit_sbi 0 ex_uninit_gdp (check_start ex_uninit_sbi 0)"
proof -
  let ?gdp = "put_le16 18 EXT4_BG_BLOCK_UNINIT ex_gdp"
  have f: "ext4bf_block_bitmap ex_uninit_sbi ex_uninit_gdp = 3" "ext4bf_inode_bitmap ex_uninit_sbi ex_uninit_gdp = 4"
      "ext4bf_inode_table ex_uninit_sbi ex_uninit_gdp = 5"
    by (simp_all add: ext4bf_block_bitmap_def ext4bf_inode_bitmap_def ext4bf_inode_table_def get_desc64_def wide_desc_def
        ex_uninit_sbi_def ex_sbi_def ex_uninit_gdp_def ex_gdp_def Let_def feature_defs layout_simps)
  show "bg_flags ex_uninit_gdp = EXT4_BG_BLOCK_UNINIT"
    by (simp add: bg_flags_def ex_uninit_gdp_def ex_gdp_def Let_def layout_simps)
  show "usual_layout ex_uninit_sbi 0 ex_uninit_gdp" by (simp add: usual_layout_def f ex_uninit_layout)
  have "32 \<le> length ?gdp" by (simp add: ex_gdp_def layout_simps)
  then show csum: "ext4bf_group_desc_csum_verify ex_uninit_sbi 0 ex_uninit_gdp"
    using csum_verify_set [of ?gdp ex_uninit_sbi 0] by (simp only: ex_uninit_gdp_def Let_def)
  show "check_descriptor ex_uninit_sbi 0 ex_uninit_gdp (check_start ex_uninit_sbi 0)"
    using csum by (simp add: check_descriptor_def f ex_uninit_layout Let_def)
qed

theorem overhead_too_small_witness:
  "bg_flags ex_uninit_gdp = EXT4_BG_BLOCK_UNINIT \<and>
   EXT4_HAS_RO_COMPAT_FEATURE ex_uninit_sbi EXT4_FEATURE_RO_COMPAT_GDT_CSUM \<and>
   (\<exists>bm. ext4bf_init_block_bitmap ex_uninit_sbi (replicate 1024 0) 0 ex_uninit_gdp = Some (ex_uninit_gdp, bm) \<and>
      ext4bf_count_free bm 1024 = 8184 \<and> unat (ext4bf_free_clusters_after_init ex_uninit_sbi 0 ex_uninit_gdp) = 8186)"
proof -
  have "0 < s_groups_count ex_uninit_sbi" "length (replicate 1024 (0 :: u8)) = s_blocksize ex_uninit_sbi"
      "2 = unat (ext4bf_num_base_meta_clusters ex_uninit_sbi 0)" "4 = unat (s_itb_per_group ex_uninit_sbi)"
    by (simp_all add: ex_uninit_layout)
  from overhead_too_small [OF ex_uninit_layout(1) this(1) ex_uninit(1,4,3) this(2-4)] show ?thesis
    using ex_uninit(2) by (auto simp: ex_uninit_layout)
qed

text \<open>
  With clusters of several blocks the sum of free clusters is shifted to blocks before it is compared with
  numbers of clusters: ten clusters are granted when one is free.
\<close>

lemma claim_without_space:
  "ext4bf_claim_free_clusters (ex_sbi\<lparr>s_cluster_bits := 4\<rparr>)
     \<lparr>fcc_read = 1, dcc_read = 0, watermark = 0, may_use_reserved = False\<rparr>
     \<lparr>s_freeclusters_counter = 1, s_dirtyclusters_counter = 0\<rparr> 10 0 =
   (\<lparr>s_freeclusters_counter = 1, s_dirtyclusters_counter = 10\<rparr>, 0)"
  by (simp add: ext4bf_claim_free_clusters_def ext4bf_has_free_clusters_def EXT4_B2C_def ex_sbi_def)

text \<open>
  The sum of inode table and its length wraps around: a descriptor with a table that starts at the
  last 64-bit block number passes the check.
\<close>

definition ex_wrap_gdp :: bytes where
  "ex_wrap_gdp = put_le32 40 (- 1) (put_le32 8 (- 1) (put_le32 4 4 (put_le32 0 3 (replicate 64 0))))"

lemma check_descriptor_wraps:
  "check_descriptor (ex_sbi\<lparr>s_desc_size := 64\<rparr>) 0 ex_wrap_gdp 1 \<and>
   ext4bf_inode_table (ex_sbi\<lparr>s_desc_size := 64\<rparr>) ex_wrap_gdp = - 1"
proof -
  have "ucast (- 1 :: u32) OR push_bit 32 (ucast (- 1 :: u32)) = (- 1 :: u64)" by code_simp
  then have f: "ext4bf_block_bitmap (ex_sbi\<lparr>s_desc_size := 64\<rparr>) ex_wrap_gdp = 3"
    "ext4bf_inode_bitmap (ex_sbi\<lparr>s_desc_size := 64\<rparr>) ex_wrap_gdp = 4"
    "ext4bf_inode_table (ex_sbi\<lparr>s_desc_size := 64\<rparr>) ex_wrap_gdp = - 1"
    by (simp_all add: ext4bf_block_bitmap_def ext4bf_inode_bitmap_def ext4bf_inode_table_def get_desc64_def wide_desc_def
        ex_wrap_gdp_def feature_defs layout_simps) (simp_all add: get_le32_def)
  then show ?thesis
    by (simp add: check_descriptor_def Let_def ext4bf_group_desc_csum_verify_def EXT4_HAS_RO_COMPAT_FEATURE_def
        EXT4_HAS_INCOMPAT_FEATURE_def) (simp add: ex_sbi_def)
qed

end
