(* ===== verification/Block_Validity_Correct.thy ===== *)
theory Block_Validity_Correct
  imports Block_Validity Block_Groups_Correct "HOL-Library.Multiset"
begin

text \<open>
  Correctness of the system zones.  The tree is a sorted sequence of disjoint ranges; adding a range
  adds exactly its blocks, and the test of a range answers whether it meets one of them.
\<close>

section \<open>The invariant\<close>

definition zstart :: "system_zone \<Rightarrow> nat" where "zstart z = unat (start_blk z)"
definition zend :: "system_zone \<Rightarrow> nat" where "zend z = unat (start_blk z) + unat (zone_count z)"

definition zone_ok :: "system_zone \<Rightarrow> bool" where
  "zone_ok z = (0 < unat (zone_count z) \<and> zend z < 2 ^ 64)"

text \<open>A sequence of zones, in order and without overlaps.\<close>

definition zones_sorted :: "(nat \<Rightarrow> system_zone) \<Rightarrow> nat list \<Rightarrow> bool" where
  "zones_sorted zs xs = (distinct xs \<and> (\<forall>e \<in> set xs. zone_ok (zs e)) \<and> sorted_wrt (\<lambda>a b. zend (zs a) \<le> zstart (zs b)) xs)"

definition covered :: "(nat \<Rightarrow> system_zone) \<Rightarrow> nat list \<Rightarrow> nat set" where
  "covered zs xs = (\<Union>e \<in> set xs. {zstart (zs e)..<zend (zs e)})"

definition zones_ok :: "zone_state \<Rightarrow> bool" where
  "zones_ok st = (rb_ok (system_blks st) \<and> zones_sorted (zone_at st) (inorder (system_blks st)))"

definition system_blocks :: "zone_state \<Rightarrow> nat set" where
  "system_blocks st = covered (zone_at st) (inorder (system_blks st))"

lemma zone_ok_less: "zone_ok z \<Longrightarrow> zstart z < zend z"
  by (simp add: zone_ok_def zstart_def zend_def)

lemma unat_zone_end: "zone_ok z \<Longrightarrow> unat (zone_end z) = zend z"
  using iffD1 [OF unat_add_lem, of "start_blk z" "ucast (zone_count z)"]
  by (simp add: zone_ok_def zone_end_def zend_def)

lemma covered_append [simp]: "covered zs (xs @ ys) = covered zs xs \<union> covered zs ys"
  by (simp add: covered_def)

lemma covered_Cons [simp]: "covered zs (x # xs) = {zstart (zs x)..<zend (zs x)} \<union> covered zs xs"
  by (simp add: covered_def)

lemma covered_Nil [simp]: "covered zs [] = {}"
  by (simp add: covered_def)

lemma covered_cong: "(\<And>e. e \<in> set xs \<Longrightarrow> zs e = zs' e) \<Longrightarrow> covered zs xs = covered zs' xs"
  by (simp add: covered_def)

lemma zones_sorted_cong: "(\<And>e. e \<in> set xs \<Longrightarrow> zs e = zs' e) \<Longrightarrow> zones_sorted zs xs = zones_sorted zs' xs"
  by (auto simp: zones_sorted_def elim!: sorted_wrt_mono_rel [rotated])

lemma covered_upd: "e \<notin> set xs \<Longrightarrow> covered (zs(e := z)) xs = covered zs xs"
  by (rule covered_cong) auto

lemma finite_covered: "finite (covered zs xs)"
  by (simp add: covered_def)

lemma zones_sorted_append:
  "zones_sorted zs (xs @ ys) \<longleftrightarrow> zones_sorted zs xs \<and> zones_sorted zs ys \<and> set xs \<inter> set ys = {} \<and>
     (\<forall>a \<in> set xs. \<forall>b \<in> set ys. zend (zs a) \<le> zstart (zs b))"
  by (auto simp: zones_sorted_def sorted_wrt_append)

lemma zones_sorted_Cons:
  "zones_sorted zs (x # xs) \<longleftrightarrow> zone_ok (zs x) \<and> zones_sorted zs xs \<and> x \<notin> set xs \<and>
     (\<forall>b \<in> set xs. zend (zs x) \<le> zstart (zs b))"
  by (auto simp: zones_sorted_def)

section \<open>Searching\<close>

lemma zone_walk_ok:
  assumes "zone_walk zs start ps t = (qs, u)" "zones_sorted zs (before ps @ inorder t @ after ps)"
    and "\<forall>e \<in> set (before ps). zend (zs e) \<le> unat start" "\<forall>e \<in> set (after ps). unat start < zstart (zs e)"
  shows "plug qs u = plug ps t \<and> (\<forall>e \<in> set (before qs). zend (zs e) \<le> unat start) \<and>
    (\<forall>e \<in> set (after qs). unat start < zstart (zs e)) \<and>
    (case u of Leaf \<Rightarrow> True
     | Node c l e r \<Rightarrow> zstart (zs e) \<le> unat start \<and> unat start < zend (zs e))"
  using assms
proof (induction zs start ps t rule: zone_walk.induct)
  case (2 zs start ps c l e r)
  have e: "zone_ok (zs e)" and high: "\<forall>b \<in> set (inorder r). zend (zs e) \<le> zstart (zs b)"
    and low: "\<forall>a \<in> set (inorder l). zend (zs a) \<le> zstart (zs e)"
    using "2.prems"(2) by (simp_all add: zones_sorted_append zones_sorted_Cons)
  have lt: "start < start_blk (zs e) \<longleftrightarrow> unat start < zstart (zs e)" by (simp add: word_less_nat_alt zstart_def)
  have ge: "start \<ge> zone_end (zs e) \<longleftrightarrow> zend (zs e) \<le> unat start" by (simp add: word_le_nat_alt unat_zone_end [OF e])
  consider (left) "unat start < zstart (zs e)" | (right) "\<not> unat start < zstart (zs e)" "zend (zs e) \<le> unat start"
    | (found) "\<not> unat start < zstart (zs e)" "\<not> zend (zs e) \<le> unat start" by blast
  then show ?case
  proof cases
    case left
    have "\<forall>b \<in> set (inorder r). unat start < zstart (zs b)"
      using high left zone_ok_less [OF e] by fastforce
    then show ?thesis using "2.IH"(1) "2.prems" left lt by (simp add: ball_Un)
  next
    case right
    have "\<forall>b \<in> set (inorder l). zend (zs b) \<le> unat start"
      using low right zone_ok_less [OF e] by fastforce
    then show ?thesis using "2.IH"(2) "2.prems" right lt ge by (simp add: ball_Un)
  next
    case found
    then show ?thesis using "2.prems" lt ge by auto
  qed
qed simp

text \<open>The test of a range: it walks down the tree as long as the range is on one side of the node.\<close>

lemma valid_walk_ok:
  assumes "zones_sorted zs (inorder t)" "0 < unat cnt" "unat start + unat cnt < 2 ^ 64"
  shows "valid_walk zs start cnt t \<longleftrightarrow> {unat start..<unat start + unat cnt} \<inter> covered zs (inorder t) = {}"
  using assms
proof (induction zs start cnt t rule: valid_walk.induct)
  case (2 zs start cnt c l e r)
  let ?R = "{unat start..<unat start + unat cnt}"
  have sorted: "zones_sorted zs (inorder l)" "zones_sorted zs (inorder r)" "zone_ok (zs e)"
    "\<forall>b \<in> set (inorder r). zend (zs e) \<le> zstart (zs b)" "\<forall>a \<in> set (inorder l). zend (zs a) \<le> zstart (zs e)"
    using "2.prems"(1) by (auto simp: zones_sorted_append zones_sorted_Cons)
  note e = zone_ok_less [OF sorted(3)]
  have "unat (start + ucast cnt) = unat start + unat cnt"
    using "2.prems"(3) iffD1 [OF unat_add_lem, of start "ucast cnt"] by simp
  then have "unat (start + ucast cnt - 1) = unat start + unat cnt - 1"
    using "2.prems"(2) unat_minus_one [of "start + ucast cnt"] by fastforce
  then have lt: "start + ucast cnt - 1 < start_blk (zs e) \<longleftrightarrow> unat start + unat cnt \<le> zstart (zs e)"
    using "2.prems"(2) by (auto simp: word_less_nat_alt zstart_def)
  have ge: "start \<ge> zone_end (zs e) \<longleftrightarrow> zend (zs e) \<le> unat start"
    by (simp add: word_le_nat_alt unat_zone_end [OF sorted(3)])
  have low: "covered zs (inorder l) \<subseteq> {..<zstart (zs e)}" using sorted(5) by (fastforce simp: covered_def)
  have high: "covered zs (inorder r) \<subseteq> {zend (zs e)..}" using sorted(4) by (fastforce simp: covered_def)
  consider (left) "unat start + unat cnt \<le> zstart (zs e)"
    | (right) "\<not> unat start + unat cnt \<le> zstart (zs e)" "zend (zs e) \<le> unat start"
    | (found) "zstart (zs e) < unat start + unat cnt" "unat start < zend (zs e)" by linarith
  then show ?case
  proof cases
    case left
    then have "?R \<inter> covered zs (inorder r) = {}" "?R \<inter> {zstart (zs e)..<zend (zs e)} = {}"
      using high e by fastforce+
    then show ?thesis using "2.IH"(1) "2.prems" sorted(1) left lt by (simp add: Int_Un_distrib)
  next
    case right
    then have "?R \<inter> covered zs (inorder l) = {}" "?R \<inter> {zstart (zs e)..<zend (zs e)} = {}"
      using low e by fastforce+
    then show ?thesis using "2.IH"(2) "2.prems" sorted(2) right lt ge by (simp add: Int_Un_distrib)
  next
    case found
    define x where "x = max (unat start) (zstart (zs e))"
    have "x \<in> ?R" "x \<in> {zstart (zs e)..<zend (zs e)}" using found e "2.prems"(2) by (simp_all add: x_def)
    then have "?R \<inter> covered zs (inorder (Node c l e r)) \<noteq> {}" by auto
    then show ?thesis using found lt ge by simp
  qed
qed simp

lemma data_block_valid_iff:
  assumes "zones_ok st" "0 < unat cnt"
  shows "snd (ext4bf_data_block_valid sbi st start cnt) \<longleftrightarrow>
    unat (s_first_data_block sbi) < unat start \<and> unat start + unat cnt \<le> unat (s_blocks_count sbi) \<and>
    {unat start..<unat start + unat cnt} \<inter> system_blocks st = {}"
proof (cases "unat start + unat cnt < 2 ^ 64")
  case True
  then have "unat (start + ucast cnt) = unat start + unat cnt"
    using iffD1 [OF unat_add_lem, of start "ucast cnt"] by simp
  then show ?thesis
    using valid_walk_ok [OF _ assms(2) True, of "zone_at st" "system_blks st"] assms(1)
    by (auto simp: ext4bf_data_block_valid_def zones_ok_def system_blocks_def word_le_nat_alt word_less_nat_alt)
next
  case False
  then have "unat (start + ucast cnt) \<noteq> unat start + unat cnt"
    using unsigned_less [of "start + ucast cnt", where 'a = nat] by auto
  moreover have "unat (s_blocks_count sbi) < 2 ^ LENGTH(64)" by (rule unsigned_less)
  then have "\<not> unat start + unat cnt \<le> unat (s_blocks_count sbi)" using False by simp
  moreover have "start + ucast cnt < start"
    using False no_plus_overflow_unat_size [of start "ucast cnt :: u64"] by (simp add: word_size not_le)
  ultimately show ?thesis by (simp add: ext4bf_data_block_valid_def)
qed

section \<open>Merging\<close>

lemma covered_card:
  assumes "{a..<b} \<subseteq> covered zs xs"
  shows "b - a \<le> card (covered zs xs)"
  using card_mono [OF finite_covered assms] by simp

lemma zones_sorted_upd: "e \<notin> set xs \<Longrightarrow> zones_sorted (zs(e := z)) xs = zones_sorted zs xs"
  by (rule zones_sorted_cong) auto

text \<open>Two adjacent zones become one.\<close>

lemma zones_merge:
  assumes sorted: "zones_sorted zs (xs @ a # b # ys)" and adj: "zend (zs a) = zstart (zs b)"
    and z: "zone_ok z" "zstart z = zstart (zs a)" "zend z = zend (zs b)" and k: "k = a \<or> k = b"
  shows "zones_sorted (zs(k := z)) (xs @ k # ys)" and "covered (zs(k := z)) (xs @ k # ys) = covered zs (xs @ a # b # ys)"
proof -
  have notin: "k \<notin> set xs" "k \<notin> set ys" using sorted k by (auto simp: zones_sorted_def)
  have parts: "zones_sorted zs xs" "zones_sorted zs ys" "set xs \<inter> set ys = {}" "zone_ok (zs a)" "zone_ok (zs b)"
    "\<forall>x \<in> set xs. zend (zs x) \<le> zstart (zs a)" "\<forall>y \<in> set ys. zend (zs b) \<le> zstart (zs y)"
    "\<forall>x \<in> set xs. \<forall>y \<in> set ys. zend (zs x) \<le> zstart (zs y)"
    using sorted by (simp_all add: zones_sorted_append zones_sorted_Cons)
  have upd: "(zs(k := z)) x = zs x" if "x \<in> set xs \<union> set ys" for x using that notin by auto
  show "zones_sorted (zs(k := z)) (xs @ k # ys)"
    using parts notin upd z by (simp add: zones_sorted_append zones_sorted_Cons zones_sorted_upd)
  have "{zstart (zs a)..<zend (zs a)} \<union> {zstart (zs b)..<zend (zs b)} = {zstart z..<zend z}"
    using adj z zone_ok_less [OF parts(4)] zone_ok_less [OF parts(5)] by auto
  then show "covered (zs(k := z)) (xs @ k # ys) = covered zs (xs @ a # b # ys)"
    using notin by (simp add: covered_upd) blast
qed

lemma remove_zone_ok:
  assumes "rb_ok (system_blks st)" "inorder (system_blks st) = xs @ n # ys" "distinct (xs @ n # ys)"
  shows "\<exists>st'. remove_zone n st = Some st' \<and> rb_ok (system_blks st') \<and> inorder (system_blks st') = xs @ ys \<and>
           zone_at st' = zone_at st"
proof -
  have "distinct (inorder (system_blks st))" using assms(2,3) by simp
  from rb_locate_erase [OF assms(1,2) this]
  obtain ps u t where "rb_locate n [] (system_blks st) = Some (ps, u)" "rb_erase ps u = Some t" "rb_ok t" "inorder t = xs @ ys" .
  then show ?thesis by (simp add: remove_zone_def)
qed

lemma can_merge_iff: "zone_ok a \<Longrightarrow> can_merge a b \<longleftrightarrow> zend a = zstart b"
  by (simp add: can_merge_def zstart_def word_unat_eq_iff unat_zone_end)

lemma merged_zone:
  assumes "zone_ok a" "zone_ok b" "zend a = zstart b" "unat (zone_count a) + unat (zone_count b) < 2 ^ 32"
    and "start_blk z = start_blk a" "zone_count z = zone_count a + zone_count b \<or> zone_count z = zone_count b + zone_count a"
  shows "zone_ok z \<and> zstart z = zstart a \<and> zend z = zend b"
proof -
  have "zone_count z = zone_count a + zone_count b" using assms(6) by (metis add.commute)
  then have count: "unat (zone_count z) = unat (zone_count a) + unat (zone_count b)"
    using assms(4) iffD1 [OF unat_add_lem, of "zone_count a" "zone_count b"] by simp
  have "zend z = zend b" using assms(3,5) count by (simp add: zstart_def zend_def)
  then show ?thesis using assms(1,2,5) count by (simp add: zone_ok_def zstart_def)
qed

text \<open>What a merge step keeps; the sequence before or after the new entry may lose its neighbour.\<close>

definition merge_step_ok :: "nat \<Rightarrow> zone_state \<Rightarrow> zone_state \<Rightarrow> bool" where
  "merge_step_ok e st st' = (zones_ok st' \<and> e \<in> set (inorder (system_blks st')) \<and> system_blocks st' = system_blocks st)"

lemma merge_pair:
  assumes ok: "zones_ok st" and order: "inorder (system_blks st) = xs @ a # b # ys" and ke: "k = a \<and> n = b \<or> k = b \<and> n = a"
    and adj: "zend (zone_at st a) = zstart (zone_at st b)" and small: "card (system_blocks st) < 2 ^ 32"
    and z: "start_blk z = start_blk (zone_at st a)"
      "zone_count z = zone_count (zone_at st a) + zone_count (zone_at st b) \<or>
       zone_count z = zone_count (zone_at st b) + zone_count (zone_at st a)"
  shows "\<exists>st'. remove_zone n (st\<lparr>zone_at := (zone_at st)(k := z)\<rparr>) = Some st' \<and> merge_step_ok k st st'"
proof -
  let ?zs = "zone_at st"
  have sorted: "zones_sorted ?zs (xs @ a # b # ys)" using ok order by (simp add: zones_ok_def)
  then have ab: "zone_ok (?zs a)" "zone_ok (?zs b)" "distinct (xs @ a # b # ys)" by (auto simp: zones_sorted_def)
  have sub: "{zstart (?zs a)..<zend (?zs b)} \<subseteq> system_blocks st"
    using adj order zone_ok_less [OF ab(1)] zone_ok_less [OF ab(2)] by (auto simp: system_blocks_def)
  then have "zend (?zs b) - zstart (?zs a) < 2 ^ 32"
    using covered_card small unfolding system_blocks_def by (meson le_less_trans)
  then have "unat (zone_count (?zs a)) + unat (zone_count (?zs b)) < 2 ^ 32"
    using adj by (simp add: zend_def zstart_def)
  then have z': "zone_ok z" "zstart z = zstart (?zs a)" "zend z = zend (?zs b)"
    using merged_zone [OF ab(1,2) adj _ z] by auto
  note m = zones_merge [OF sorted adj z', of k]
  obtain st' where st': "remove_zone n (st\<lparr>zone_at := ?zs(k := z)\<rparr>) = Some st'" "rb_ok (system_blks st')"
      "inorder (system_blks st') = xs @ k # ys" "zone_at st' = ?zs(k := z)"
  proof (cases "k = a \<and> n = b")
    case True
    then show thesis
      using that remove_zone_ok [of "st\<lparr>zone_at := ?zs(k := z)\<rparr>" "xs @ [a]" b ys] ok order ab(3) by (auto simp: zones_ok_def)
  next
    case False
    then show thesis
      using that ke remove_zone_ok [of "st\<lparr>zone_at := ?zs(k := z)\<rparr>" xs a "b # ys"] ok order ab(3) by (auto simp: zones_ok_def)
  qed
  moreover have "merge_step_ok k st st'"
    using m st' ke order by (auto simp: merge_step_ok_def zones_ok_def system_blocks_def)
  ultimately show ?thesis by blast
qed

lemma merge_left_ok:
  assumes ok: "zones_ok st" and e: "e \<in> set (inorder (system_blks st))" and small: "card (system_blocks st) < 2 ^ 32"
  shows "\<exists>st'. merge_left e st = Some st' \<and> merge_step_ok e st st'"
proof -
  obtain xs ys where split: "inorder (system_blks st) = xs @ e # ys" using e by (meson split_list)
  have dist: "distinct (inorder (system_blks st))" using ok by (simp add: zones_ok_def zones_sorted_def)
  obtain ps u where loc: "rb_locate e [] (system_blks st) = Some (ps, u)"
      "rb_prev ps u = (if xs = [] then None else Some (last xs))"
    by (rule rb_locate_prev_next [OF split dist])
  have same: "merge_step_ok e st st" using ok e by (simp add: merge_step_ok_def)
  show ?thesis
  proof (cases "xs \<noteq> [] \<and> can_merge (zone_at st (last xs)) (zone_at st e)")
    case True
    let ?n = "last xs"
    have order: "inorder (system_blks st) = butlast xs @ ?n # e # ys" using split True by simp
    have "zone_ok (zone_at st ?n)" using ok split True by (simp add: zones_ok_def zones_sorted_def)
    then have adj: "zend (zone_at st ?n) = zstart (zone_at st e)" using True by (simp add: can_merge_iff)
    show ?thesis
      using merge_pair [OF ok order _ adj small, of e ?n
          "\<lparr>start_blk = start_blk (zone_at st ?n), zone_count = zone_count (zone_at st e) + zone_count (zone_at st ?n)\<rparr>"]
        True loc by (simp add: merge_left_def)
  next
    case False
    then show ?thesis using loc same by (auto simp: merge_left_def)
  qed
qed

lemma merge_right_ok:
  assumes ok: "zones_ok st" and e: "e \<in> set (inorder (system_blks st))" and small: "card (system_blocks st) < 2 ^ 32"
  shows "\<exists>st'. merge_right e st = Some st' \<and> merge_step_ok e st st'"
proof -
  obtain xs ys where split: "inorder (system_blks st) = xs @ e # ys" using e by (meson split_list)
  have dist: "distinct (inorder (system_blks st))" using ok by (simp add: zones_ok_def zones_sorted_def)
  obtain ps u where loc: "rb_locate e [] (system_blks st) = Some (ps, u)"
      "rb_next ps u = (if ys = [] then None else Some (hd ys))"
    by (rule rb_locate_prev_next [OF split dist])
  have same: "merge_step_ok e st st" using ok e by (simp add: merge_step_ok_def)
  show ?thesis
  proof (cases "ys \<noteq> [] \<and> can_merge (zone_at st e) (zone_at st (hd ys))")
    case True
    let ?n = "hd ys"
    have order: "inorder (system_blks st) = xs @ e # ?n # tl ys" using split True by simp
    have "zone_ok (zone_at st e)" using ok split by (simp add: zones_ok_def zones_sorted_def)
    then have adj: "zend (zone_at st e) = zstart (zone_at st ?n)" using True by (simp add: can_merge_iff)
    show ?thesis
      using merge_pair [OF ok order _ adj small, of e ?n
          "(zone_at st e)\<lparr>zone_count := zone_count (zone_at st e) + zone_count (zone_at st ?n)\<rparr>"]
        True loc by (simp add: merge_right_def)
  next
    case False
    then show ?thesis using loc same by (auto simp: merge_right_def)
  qed
qed

section \<open>Adding a zone\<close>

text \<open>The state after the search, before the merges: a new entry, or one that was extended.\<close>

lemma insert_zone_ok:
  assumes ok: "zones_ok st" and fresh: "e \<notin> set (inorder (system_blks st))" and plug: "plug ps Leaf = system_blks st"
    and low: "\<forall>b \<in> set (before ps). zend (zone_at st b) \<le> unat start"
    and high: "\<forall>b \<in> set (after ps). unat start + unat cnt \<le> zstart (zone_at st b)"
    and z: "0 < unat cnt" "unat start + unat cnt < 2 ^ 64"
  shows "\<exists>t. rb_insert ps e = Some t \<and>
    (let st' = st\<lparr>system_blks := t, zone_at := (zone_at st)(e := \<lparr>start_blk = start, zone_count = cnt\<rparr>)\<rparr>
     in zones_ok st' \<and> e \<in> set (inorder t) \<and> system_blocks st' = system_blocks st \<union> {unat start..<unat start + unat cnt})"
proof -
  let ?zs = "(zone_at st)(e := \<lparr>start_blk = start, zone_count = cnt\<rparr>)"
  have order: "inorder (system_blks st) = before ps @ after ps" by (simp flip: plug)
  obtain t where t: "rb_insert ps e = Some t" "rb_ok t" "inorder t = before ps @ e # after ps"
    using rb_insert_ok [of ps e] ok plug by (auto simp: zones_ok_def)
  have notin: "e \<notin> set (before ps)" "e \<notin> set (after ps)" using fresh order by simp_all
  have upd: "?zs x = zone_at st x" if "x \<in> set (before ps) \<union> set (after ps)" for x using that notin by auto
  have new: "zone_ok (?zs e)" "zstart (?zs e) = unat start" "zend (?zs e) = unat start + unat cnt"
    using z by (simp_all add: zone_ok_def zstart_def zend_def)
  have "zones_sorted (zone_at st) (before ps @ after ps)" using ok order by (simp add: zones_ok_def)
  then have "zones_sorted ?zs (before ps @ e # after ps)"
    using new low high notin upd by (simp add: zones_sorted_append zones_sorted_Cons zones_sorted_upd)
  moreover have "covered ?zs (before ps @ e # after ps) = system_blocks st \<union> {unat start..<unat start + unat cnt}"
    using new notin order by (simp add: covered_upd system_blocks_def) blast
  ultimately show ?thesis using t by (simp add: zones_ok_def system_blocks_def)
qed

lemma extend_zone_ok:
  assumes ok: "zones_ok st" and order: "inorder (system_blks st) = xs @ e # ys"
    and e: "zstart (zone_at st e) \<le> unat start" "unat start < zend (zone_at st e)"
    and high: "\<forall>b \<in> set ys. unat start + unat cnt \<le> zstart (zone_at st b)"
    and z: "unat start + unat cnt < 2 ^ 64" "card (system_blocks st) + unat cnt < 2 ^ 32"
  shows "let st' = st\<lparr>zone_at := (zone_at st)(e := extend_zone start cnt (zone_at st e))\<rparr>
    in zones_ok st' \<and> system_blocks st' = system_blocks st \<union> {unat start..<unat start + unat cnt}"
proof -
  let ?z = "zone_at st e" let ?zs = "(zone_at st)(e := extend_zone start cnt ?z)"
  have sorted: "zones_sorted (zone_at st) (xs @ e # ys)" using ok order by (simp add: zones_ok_def)
  then have ze: "zone_ok ?z" and notin: "e \<notin> set xs" "e \<notin> set ys" by (auto simp: zones_sorted_def)
  have sum: "unat (start + ucast cnt) = unat start + unat cnt"
    using z(1) iffD1 [OF unat_add_lem, of start "ucast cnt"] by simp
  have "{zstart ?z..<zend ?z} \<subseteq> system_blocks st" using order by (auto simp: system_blocks_def)
  then have "zend ?z - zstart ?z \<le> card (system_blocks st)" using covered_card by (simp add: system_blocks_def)
  then have len: "unat start + unat cnt - zstart ?z < 2 ^ 32" using e z(2) by simp
  have new: "zone_ok (?zs e)" "zstart (?zs e) = zstart ?z" "zend (?zs e) = max (zend ?z) (unat start + unat cnt)"
  proof -
    have gt: "start + ucast cnt > zone_end ?z \<longleftrightarrow> zend ?z < unat start + unat cnt"
      by (simp add: word_less_nat_alt unat_zone_end [OF ze] sum)
    have "unat (start + ucast cnt - start_blk ?z) = unat start + unat cnt - zstart ?z" if "zend ?z < unat start + unat cnt"
      using that zone_ok_less [OF ze] by (simp add: unat_sub word_le_nat_alt sum zstart_def)
    then have "unat (ucast (start + ucast cnt - start_blk ?z) :: u32) = unat start + unat cnt - zstart ?z"
      if "zend ?z < unat start + unat cnt" using that len by (simp add: unat_u32)
    then show "zone_ok (?zs e)" "zstart (?zs e) = zstart ?z" "zend (?zs e) = max (zend ?z) (unat start + unat cnt)"
      using gt ze z(1) e zone_ok_less [OF ze] by (auto simp: extend_zone_def zone_ok_def zstart_def zend_def)
  qed
  have upd: "?zs x = zone_at st x" if "x \<in> set xs \<union> set ys" for x using that notin by auto
  have "zones_sorted ?zs (xs @ e # ys)"
    using sorted new high notin upd by (simp add: zones_sorted_append zones_sorted_Cons zones_sorted_upd)
  moreover have "{zstart (?zs e)..<zend (?zs e)} = {zstart ?z..<zend ?z} \<union> {unat start..<unat start + unat cnt}"
    using new e by auto
  then have "covered ?zs (xs @ e # ys) = system_blocks st \<union> {unat start..<unat start + unat cnt}"
    using notin order by (simp add: covered_upd system_blocks_def) blast
  ultimately show ?thesis using ok order by (simp add: zones_ok_def system_blocks_def)
qed

definition region :: "u64 \<times> u32 \<Rightarrow> nat set" where
  "region r = {unat (fst r)..<unat (fst r) + unat (snd r)}"

definition region_ok :: "u64 \<times> u32 \<Rightarrow> bool" where
  "region_ok r = (0 < unat (snd r) \<and> unat (fst r) + unat (snd r) < 2 ^ 64)"

lemma add_system_zone_ok:
  assumes ok: "zones_ok st" and fresh: "\<And>e. alloc = Some e \<Longrightarrow> e \<notin> set (inorder (system_blks st))"
    and r: "region_ok (start, cnt)" and small: "card (system_blocks st) + unat cnt < 2 ^ 32"
    and high: "\<forall>b \<in> set (inorder (system_blks st)). unat start < zstart (zone_at st b) \<longrightarrow>
      unat start + unat cnt \<le> zstart (zone_at st b)"
  shows "\<exists>st' ret. add_system_zone alloc st start cnt = Some (st', ret) \<and> zones_ok st' \<and>
    (ret = 0 \<and> system_blocks st' = system_blocks st \<union> region (start, cnt) \<or> ret = - ENOMEM \<and> alloc = None \<and> st' = st)"
proof -
  obtain ps t where walk: "zone_walk (zone_at st) start [] (system_blks st) = (ps, t)" by (cases "zone_walk (zone_at st) start [] (system_blks st)")
  have sorted: "zones_sorted (zone_at st) (inorder (system_blks st))" using ok by (simp add: zones_ok_def)
  have w: "plug ps t = system_blks st" "\<forall>b \<in> set (before ps). zend (zone_at st b) \<le> unat start"
    "\<forall>b \<in> set (after ps). unat start < zstart (zone_at st b)"
    "\<And>c l e r. t = Node c l e r \<Longrightarrow> zstart (zone_at st e) \<le> unat start \<and> unat start < zend (zone_at st e)"
    using zone_walk_ok [OF walk] sorted by (auto split: rb_tree.splits)
  have order: "inorder (system_blks st) = before ps @ inorder t @ after ps" by (simp flip: w(1))
  have after: "\<forall>b \<in> set (after ps). unat start + unat cnt \<le> zstart (zone_at st b)" using high w(3) order by auto
  have merges: "\<exists>st'. (do { st \<leftarrow> merge_left e st1; st \<leftarrow> merge_right e st; Some (st, 0 :: int) }) = Some (st', 0) \<and>
      zones_ok st' \<and> system_blocks st' = system_blocks st \<union> region (start, cnt)"
    if st1: "zones_ok st1" "e \<in> set (inorder (system_blks st1))" "system_blocks st1 = system_blocks st \<union> region (start, cnt)"
    for st1 e
  proof -
    have c1: "card (system_blocks st1) < 2 ^ 32"
      using card_Un_le [of "system_blocks st" "region (start, cnt)"] small st1(3) by (simp add: region_def)
    obtain st2 where st2: "merge_left e st1 = Some st2" "merge_step_ok e st1 st2" using merge_left_ok [OF st1(1,2) c1] by blast
    then have "zones_ok st2" "e \<in> set (inorder (system_blks st2))" "card (system_blocks st2) < 2 ^ 32"
      using c1 by (simp_all add: merge_step_ok_def)
    then obtain st3 where "merge_right e st2 = Some st3" "merge_step_ok e st2 st3" using merge_right_ok by blast
    then show ?thesis using st2 st1(3) by (simp add: merge_step_ok_def)
  qed
  have nat: "0 < unat cnt" "unat start + unat cnt < 2 ^ 64" using r by (simp_all add: region_ok_def)
  show ?thesis
  proof (cases t)
    case (Node c l e r)
    let ?st1 = "st\<lparr>zone_at := (zone_at st)(e := extend_zone start cnt (zone_at st e))\<rparr>"
    have inside: "zstart (zone_at st e) \<le> unat start" "unat start < zend (zone_at st e)" using w(4) [OF Node] by auto
    have split: "inorder (system_blks st) = (before ps @ inorder l) @ e # (inorder r @ after ps)" using order Node by simp
    have "zend (zone_at st e) \<le> zstart (zone_at st b)" if "b \<in> set (inorder r)" for b
      using sorted that unfolding split by (simp add: zones_sorted_append zones_sorted_Cons)
    then have "\<forall>b \<in> set (inorder r @ after ps). unat start + unat cnt \<le> zstart (zone_at st b)"
      using high after inside split by fastforce
    from extend_zone_ok [OF ok split inside this nat(2) small]
    have "zones_ok ?st1" "system_blocks ?st1 = system_blocks st \<union> region (start, cnt)" by (simp_all add: region_def Let_def)
    then show ?thesis using merges [of ?st1 e] split walk Node by (auto simp: add_system_zone_def)
  next
    case Leaf
    show ?thesis
    proof (cases alloc)
      case None
      then show ?thesis using walk Leaf ok by (simp add: add_system_zone_def)
    next
      case (Some e)
      obtain t' where t': "rb_insert ps e = Some t'"
        "let st' = st\<lparr>system_blks := t', zone_at := (zone_at st)(e := \<lparr>start_blk = start, zone_count = cnt\<rparr>)\<rparr>
         in zones_ok st' \<and> e \<in> set (inorder t') \<and> system_blocks st' = system_blocks st \<union> {unat start..<unat start + unat cnt}"
        using insert_zone_ok [OF ok fresh [OF Some] _ w(2) after nat] w(1) Leaf by auto
      then show ?thesis
        using merges [of "st\<lparr>system_blks := t', zone_at := (zone_at st)(e := \<lparr>start_blk = start, zone_count = cnt\<rparr>)\<rparr>" e]
          walk Leaf Some by (auto simp: add_system_zone_def region_def Let_def)
    qed
  qed
qed

section \<open>Setting up the tree\<close>

text \<open>An allocator that never fails and never returns an address in use.\<close>

definition alloc_ok :: "(zone_state \<Rightarrow> nat option) \<Rightarrow> bool" where
  "alloc_ok alloc = (\<forall>st. \<exists>e. alloc st = Some e \<and> e \<notin> set (inorder (system_blks st)))"

definition regions :: "(u64 \<times> u32) list \<Rightarrow> nat set" where
  "regions rs = (\<Union>r \<in> set rs. region r)"

definition regions_ok :: "(u64 \<times> u32) list \<Rightarrow> bool" where
  "regions_ok rs = (list_all region_ok rs \<and> sorted_wrt (\<lambda>a b. region a \<inter> region b = {}) rs)"

lemma regions_simps [simp]:
  "regions [] = {}" "regions (r # rs) = region r \<union> regions rs" "regions (rs @ rs') = regions rs \<union> regions rs'"
  by (simp_all add: regions_def)

lemma add_zones_ok:
  assumes "zones_ok st" "alloc_ok alloc" "regions_ok rs" "regions rs \<inter> system_blocks st = {}"
    and "card (system_blocks st) + (\<Sum>r\<leftarrow>rs. unat (snd r)) < 2 ^ 32"
  shows "\<exists>st'. add_zones alloc rs st = Some (st', 0) \<and> zones_ok st' \<and> system_blocks st' = system_blocks st \<union> regions rs \<and>
    card (system_blocks st') \<le> card (system_blocks st) + (\<Sum>r\<leftarrow>rs. unat (snd r))"
  using assms
proof (induction alloc rs st rule: add_zones.induct)
  case (2 alloc start cnt zs st)
  have r: "region_ok (start, cnt)" "regions_ok zs" "\<forall>b \<in> set zs. region (start, cnt) \<inter> region b = {}"
    using "2.prems"(3) by (auto simp: regions_ok_def)
  obtain e where e: "alloc st = Some e" "e \<notin> set (inorder (system_blks st))" using "2.prems"(2) by (auto simp: alloc_ok_def)
  have mem: "zstart (zone_at st b) \<in> system_blocks st" if "b \<in> set (inorder (system_blks st))" for b
    using that "2.prems"(1) zone_ok_less [of "zone_at st b"]
    by (auto simp: system_blocks_def covered_def zones_ok_def zones_sorted_def intro!: bexI [of _ b])
  have high: "\<forall>b \<in> set (inorder (system_blks st)). unat start < zstart (zone_at st b) \<longrightarrow>
      unat start + unat cnt \<le> zstart (zone_at st b)"
  proof (intro ballI impI)
    fix b assume b: "b \<in> set (inorder (system_blks st))" "unat start < zstart (zone_at st b)"
    then have "zstart (zone_at st b) \<notin> region (start, cnt)" using "2.prems"(4) mem [of b] by auto
    then show "unat start + unat cnt \<le> zstart (zone_at st b)" using b(2) by (simp add: region_def)
  qed
  obtain st1 where st1: "add_system_zone (alloc st) st start cnt = Some (st1, 0)" "zones_ok st1"
      "system_blocks st1 = system_blocks st \<union> region (start, cnt)"
    using add_system_zone_ok [OF "2.prems"(1) _ r(1) _ high, of "alloc st"] e "2.prems"(5) by auto
  have card: "card (system_blocks st1) \<le> card (system_blocks st) + unat cnt"
    using card_Un_le [of "system_blocks st" "region (start, cnt)"] st1(3) by (simp add: region_def)
  have "regions zs \<inter> system_blocks st1 = {}" using "2.prems"(4) r(3) st1(3) by (auto simp: regions_def)
  then obtain st2 where "add_zones alloc zs st1 = Some (st2, 0)" "zones_ok st2" "system_blocks st2 = system_blocks st1 \<union> regions zs"
      "card (system_blocks st2) \<le> card (system_blocks st1) + (\<Sum>r\<leftarrow>zs. unat (snd r))"
    using "2.IH" [OF st1(1), of st1 0] st1(2) "2.prems"(2,5) r(2) card by auto
  then show ?case using st1 card by auto
qed simp

definition group_zones :: "ext4bf_sb_info \<Rightarrow> u32 \<Rightarrow> (u64 \<times> u32) list" where
  "group_zones sbi i =
     (case ext4bf_get_group_desc sbi i of None \<Rightarrow> [] | Some gdp \<Rightarrow> super_zone sbi i @ desc_zones sbi gdp)"

lemma add_zones_append:
  "add_zones alloc (xs @ ys) st = do { (st, ret) \<leftarrow> add_zones alloc xs st; if ret \<noteq> 0 then Some (st, ret) else add_zones alloc ys st }"
  by (induction alloc xs st rule: add_zones.induct) (auto split: bind_splits)

lemma setup_loop_zones:
  assumes "\<forall>i \<in> set is. ext4bf_get_group_desc sbi i \<noteq> None"
    and "add_zones alloc (concat (map (group_zones sbi) is)) st = Some (st', 0)"
  shows "setup_loop alloc sbi is st = Some (st', 0)"
  using assms
proof (induction alloc sbi "is" st rule: setup_loop.induct)
  case (2 alloc sbi i "is" st)
  then obtain gdp where gdp: "ext4bf_get_group_desc sbi i = Some gdp" by auto
  have all: "add_zones alloc (super_zone sbi i @ desc_zones sbi gdp @ concat (map (group_zones sbi) is)) st = Some (st', 0)"
  proof -
    have "group_zones sbi i = super_zone sbi i @ desc_zones sbi gdp" by (simp add: group_zones_def gdp)
    then show ?thesis using "2.prems"(2) by simp
  qed
  then obtain st1 where st1: "add_zones alloc (super_zone sbi i) st = Some (st1, 0)"
      "add_zones alloc (desc_zones sbi gdp @ concat (map (group_zones sbi) is)) st1 = Some (st', 0)"
    by (auto simp: add_zones_append split: bind_splits if_splits)
  then obtain st2 where st2: "add_zones alloc (desc_zones sbi gdp) st1 = Some (st2, 0)"
      "add_zones alloc (concat (map (group_zones sbi) is)) st2 = Some (st', 0)"
    by (auto simp: add_zones_append split: bind_splits if_splits)
  then have "setup_loop alloc sbi is st2 = Some (st', 0)"
    using "2.IH" [OF st1(1) _ gdp st2(1)] "2.prems"(1) by simp
  then show ?case using st1 st2 gdp by simp
qed simp

lemma setup_system_zone_regions:
  assumes "alloc_ok alloc" "system_blks st = Leaf" "list_all (\<lambda>i. ext4bf_get_group_desc sbi i \<noteq> None) (group_list sbi)"
    and "regions_ok (concat (map (group_zones sbi) (group_list sbi)))"
    and "(\<Sum>r\<leftarrow>concat (map (group_zones sbi) (group_list sbi)). unat (snd r)) < 2 ^ 32"
  shows "\<exists>st'. ext4bf_setup_system_zone alloc True sbi st = Some (st', 0) \<and> zones_ok st' \<and>
    system_blocks st' = regions (concat (map (group_zones sbi) (group_list sbi)))"
proof -
  have empty: "zones_ok st" "system_blocks st = {}"
    using assms(2) by (simp_all add: zones_ok_def system_blocks_def rb_ok_def zones_sorted_def)
  obtain st' where st': "add_zones alloc (concat (map (group_zones sbi) (group_list sbi))) st = Some (st', 0)" "zones_ok st'"
      "system_blocks st' = regions (concat (map (group_zones sbi) (group_list sbi)))"
    using add_zones_ok [OF empty(1) assms(1,4)] empty(2) assms(5) by auto
  have "setup_loop alloc sbi (group_list sbi) st = Some (st', 0)"
    using setup_loop_zones [OF _ st'(1)] assms(3) by (simp add: list_all_iff)
  then show ?thesis
    using assms(2) st'(2,3) by (simp add: ext4bf_setup_system_zone_def)
qed

section \<open>The metadata of the file system\<close>

text \<open>
  The ranges of metadata, as first block and length: the two bitmaps and the inode table of a group, and
  its copy of the superblock, which the blocks of descriptors follow.  The copies that the code looks at are those of
  the first five groups and of the first group of each flexible group.
\<close>

definition group_metadata :: "ext4bf_sb_info \<Rightarrow> u32 \<Rightarrow> (nat \<times> nat) list" where
  "group_metadata sbi i =
     (case ext4bf_get_group_desc sbi i of
        None \<Rightarrow> []
      | Some gdp \<Rightarrow> [(unat (ext4bf_block_bitmap sbi gdp), 1), (unat (ext4bf_inode_bitmap sbi gdp), 1),
                     (unat (ext4bf_inode_table sbi gdp), unat (s_itb_per_group sbi))])"

definition super_copy :: "ext4bf_sb_info \<Rightarrow> u32 \<Rightarrow> (nat \<times> nat) list" where
  "super_copy sbi i =
     (if ext4bf_bg_has_super sbi i
      then [(unat (ext4bf_group_first_block_no sbi i), Suc (unat (ext4bf_bg_num_gdb sbi i)))] else [])"

definition copy_checked :: "ext4bf_sb_info \<Rightarrow> u32 \<Rightarrow> bool" where
  "copy_checked sbi i = (unat i < 5 \<or> unat (ext4bf_flex_bg_size sbi) dvd unat i)"

definition blocks_of :: "(nat \<times> nat) list \<Rightarrow> nat set" where
  "blocks_of rs = (\<Union>(b, n) \<in> set rs. {b..<b + n})"

definition checked_metadata :: "ext4bf_sb_info \<Rightarrow> u32 \<Rightarrow> (nat \<times> nat) list" where
  "checked_metadata sbi i = (if copy_checked sbi i then super_copy sbi i else []) @ group_metadata sbi i"

text \<open>The descriptors are loaded; no range is empty, wraps around or overlaps another; all fit in 32 bits.\<close>

definition metadata_ok :: "ext4bf_sb_info \<Rightarrow> bool" where
  "metadata_ok sbi =
     (let rs = concat (map (checked_metadata sbi) (group_list sbi))
      in list_all (\<lambda>i. ext4bf_get_group_desc sbi i \<noteq> None) (group_list sbi) \<and>
         list_all (\<lambda>(b, n). 0 < n \<and> b + n < 2 ^ 64) rs \<and>
         sorted_wrt (\<lambda>(b, n) (b', n'). b + n \<le> b' \<or> b' + n' \<le> b) rs \<and> (\<Sum>(b, n)\<leftarrow>rs. n) < 2 ^ 32)"

lemma blocks_of_simps [simp]:
  "blocks_of [] = {}" "blocks_of ((b, n) # rs) = {b..<b + n} \<union> blocks_of rs" "blocks_of (rs @ rs') = blocks_of rs \<union> blocks_of rs'"
  by (auto simp: blocks_of_def)

abbreviation as_range :: "u64 \<times> u32 \<Rightarrow> nat \<times> nat" where
  "as_range r \<equiv> (unat (fst r), unat (snd r))"

lemma copy_checked_iff:
  "copy_checked sbi i \<longleftrightarrow> i < 5 \<or> i mod ext4bf_flex_bg_size sbi = 0"
  by (simp add: copy_checked_def word_less_nat_alt word_unat_eq_iff unat_mod dvd_eq_mod_eq_0)

lemma group_zones_ranges:
  assumes "ext4bf_get_group_desc sbi i \<noteq> None" "(\<Sum>(b, n)\<leftarrow>checked_metadata sbi i. n) < 2 ^ 32"
  shows "map as_range (group_zones sbi i) = checked_metadata sbi i"
proof -
  obtain gdp where gdp: "ext4bf_get_group_desc sbi i = Some gdp" using assms(1) by blast
  have "unat (s_itb_per_group sbi) < 2 ^ 32" using assms(2) by (simp add: checked_metadata_def group_metadata_def gdp)
  then have "unat (ucast (s_itb_per_group sbi) :: u32) = unat (s_itb_per_group sbi)" by (rule unat_u32)
  moreover have "unat (ucast (ext4bf_bg_num_gdb sbi i) + 1 :: u32) = Suc (unat (ext4bf_bg_num_gdb sbi i))"
    if "copy_checked sbi i" "ext4bf_bg_has_super sbi i"
  proof -
    have lt: "unat (ext4bf_bg_num_gdb sbi i) + 1 < 2 ^ 32" using assms(2) that by (simp add: checked_metadata_def super_copy_def)
    then have "unat (ucast (ext4bf_bg_num_gdb sbi i) :: u32) = unat (ext4bf_bg_num_gdb sbi i)" by (intro unat_u32) simp
    then show ?thesis using iffD1 [OF unat_add_lem, of "ucast (ext4bf_bg_num_gdb sbi i) :: u32" 1] lt by simp
  qed
  ultimately show ?thesis
    by (auto simp: group_zones_def super_zone_def desc_zones_def checked_metadata_def super_copy_def group_metadata_def gdp
        copy_checked_iff)
qed

lemma all_zones_ranges:
  assumes "\<forall>i \<in> set is. ext4bf_get_group_desc sbi i \<noteq> None" "(\<Sum>(b, n)\<leftarrow>concat (map (checked_metadata sbi) is). n) < 2 ^ 32"
  shows "map as_range (concat (map (group_zones sbi) is)) = concat (map (checked_metadata sbi) is)"
  using assms by (induction "is") (simp_all add: group_zones_ranges)

lemma regions_blocks: "regions rs = blocks_of (map as_range rs)"
  by (auto simp: regions_def blocks_of_def region_def)

lemma regions_ok_ranges:
  assumes "list_all (\<lambda>(b, n). 0 < n \<and> b + n < 2 ^ 64) (map as_range rs)"
    and "sorted_wrt (\<lambda>(b, n) (b', n'). b + n \<le> b' \<or> b' + n' \<le> b) (map as_range rs)"
  shows "regions_ok rs"
proof -
  have "sorted_wrt (\<lambda>a b. region a \<inter> region b = {}) rs"
    using assms(2) unfolding sorted_wrt_map
    by (rule sorted_wrt_mono_rel [rotated]) (auto simp: region_def)
  then show ?thesis using assms(1) by (auto simp: regions_ok_def region_ok_def list_all_iff)
qed

lemma checked_blocks:
  "blocks_of (concat (map (checked_metadata sbi) (group_list sbi))) =
     (\<Union>i \<in> {..<s_groups_count sbi}. blocks_of (group_metadata sbi i)) \<union>
     (\<Union>i \<in> {i. i < s_groups_count sbi \<and> copy_checked sbi i}. blocks_of (super_copy sbi i))"
proof -
  have "blocks_of (concat (map f is)) = (\<Union>i \<in> set is. blocks_of (f i))" for f and "is" :: "u32 list"
    by (induction "is") auto
  moreover have "set (group_list sbi) = {..<s_groups_count sbi}"
  proof (intro set_eqI iffI)
    fix i assume "i \<in> {..<s_groups_count sbi}"
    then have "unat i \<in> {0..<unat (s_groups_count sbi)}" by (simp add: word_less_nat_alt)
    moreover have "i = word_of_nat (unat i)" by simp
    ultimately show "i \<in> set (group_list sbi)" unfolding group_list_def set_map set_upt by blast
  next
    fix i assume "i \<in> set (group_list sbi)"
    then obtain m where m: "i = word_of_nat m" "m < unat (s_groups_count sbi)" by (auto simp: group_list_def)
    moreover have "unat (s_groups_count sbi) < 2 ^ LENGTH(32)" by (rule unsigned_less)
    ultimately show "i \<in> {..<s_groups_count sbi}" by (simp add: word_less_nat_alt word_of_nat_small)
  qed
  ultimately show ?thesis by (auto simp: checked_metadata_def split: if_splits)
qed

text \<open>
  C34. After the system zones have been set up, a range of blocks is accepted for file data exactly when it
  lies after the first data block and inside the file system, contains no block of a bitmap or of the inode table
  of any group, and contains no block of the copies of the superblock and the descriptors in the first five groups
  and in the first groups of the flexible groups.  The copies in the other groups are not looked at.
  The metadata ranges that are looked at must be disjoint.
\<close>

theorem setup_system_zone_protects:
  assumes "alloc_ok alloc" "system_blks st = Leaf" "metadata_ok sbi" "0 < unat cnt"
  shows "\<exists>st'. ext4bf_setup_system_zone alloc True sbi st = Some (st', 0) \<and>
    (snd (ext4bf_data_block_valid sbi st' start cnt) \<longleftrightarrow>
       unat (s_first_data_block sbi) < unat start \<and> unat start + unat cnt \<le> unat (s_blocks_count sbi) \<and>
       (\<forall>i < s_groups_count sbi. {unat start..<unat start + unat cnt} \<inter> blocks_of (group_metadata sbi i) = {}) \<and>
       (\<forall>i < s_groups_count sbi. copy_checked sbi i \<longrightarrow>
          {unat start..<unat start + unat cnt} \<inter> blocks_of (super_copy sbi i) = {}))"
proof -
  let ?zs = "concat (map (group_zones sbi) (group_list sbi))"
  have ok: "list_all (\<lambda>i. ext4bf_get_group_desc sbi i \<noteq> None) (group_list sbi)"
      "map as_range ?zs = concat (map (checked_metadata sbi) (group_list sbi))"
    using assms(3) all_zones_ranges [of "group_list sbi" sbi] by (auto simp: metadata_ok_def Let_def list_all_iff)
  have "regions_ok ?zs" using assms(3) unfolding metadata_ok_def Let_def ok(2) [symmetric] by (intro regions_ok_ranges) blast+
  moreover have "(\<Sum>r\<leftarrow>?zs. unat (snd r)) < 2 ^ 32"
    using assms(3) unfolding metadata_ok_def Let_def ok(2) [symmetric] by (simp add: comp_def del: map_concat)
  ultimately obtain st' where st': "ext4bf_setup_system_zone alloc True sbi st = Some (st', 0)" "zones_ok st'"
      "system_blocks st' = regions ?zs"
    using setup_system_zone_regions [OF assms(1,2) ok(1)] by blast
  have "system_blocks st' = (\<Union>i \<in> {..<s_groups_count sbi}. blocks_of (group_metadata sbi i)) \<union>
      (\<Union>i \<in> {i. i < s_groups_count sbi \<and> copy_checked sbi i}. blocks_of (super_copy sbi i))"
    unfolding st'(3) regions_blocks ok(2) checked_blocks ..
  then show ?thesis
    using st'(1) data_block_valid_iff [OF st'(2) assms(4), of sbi start] by (intro exI [of _ st']) blast
qed

definition ex_alloc :: "zone_state \<Rightarrow> nat option" where
  "ex_alloc st = Some (Suc (sum_list (inorder (system_blks st))))"

lemma ex_alloc_ok: "alloc_ok ex_alloc"
proof -
  have "Suc (sum_list xs) \<notin> set xs" for xs :: "nat list"
    using member_le_sum_list [of "Suc (sum_list xs)" xs] by auto
  then show ?thesis by (simp add: alloc_ok_def ex_alloc_def)
qed

definition ex_zone_state :: zone_state where
  "ex_zone_state = \<lparr>system_blks = Leaf, zone_at = (\<lambda>_. \<lparr>start_blk = 0, zone_count = 0\<rparr>), s_last_error_block = 0\<rparr>"

lemma ex_metadata:
  "group_metadata ex_sbi 0 = [(3, 1), (4, 1), (5, 4)]" "super_copy ex_sbi 0 = [(1, 2)]" "copy_checked ex_sbi 0"
  using ex_gdp_fields ex_get_group_desc ex_sbi_layout(5)
  by (simp_all add: group_metadata_def super_copy_def copy_checked_def)
    (simp_all add: ex_sbi_def ext4bf_bg_has_super_def ext4bf_bg_num_gdb_def ext4bf_bg_num_gdb_nometa_def
        EXT4_HAS_RO_COMPAT_FEATURE_def EXT4_HAS_INCOMPAT_FEATURE_def)

theorem setup_system_zone_protects_witness:
  "\<exists>st'. ext4bf_setup_system_zone ex_alloc True ex_sbi ex_zone_state = Some (st', 0) \<and>
     \<not> snd (ext4bf_data_block_valid ex_sbi st' 6 4)"
proof -
  have "metadata_ok ex_sbi"
    using ex_get_group_desc by (simp add: metadata_ok_def checked_metadata_def ex_sbi_layout(2) ex_metadata)
  moreover have "system_blks ex_zone_state = Leaf" "0 < unat (4 :: u32)" by (simp_all add: ex_zone_state_def)
  moreover have "0 < s_groups_count ex_sbi" by (simp add: ex_sbi_def)
  moreover have "6 \<in> {unat (6 :: u64)..<unat (6 :: u64) + unat (4 :: u32)} \<inter> blocks_of (group_metadata ex_sbi 0)"
    by (simp add: ex_metadata)
  ultimately show ?thesis
    using setup_system_zone_protects [OF ex_alloc_ok, of ex_zone_state ex_sbi 4 6] by blast
qed

section \<open>Overlapping zones\<close>

text \<open>
  A zone that starts before another one and overlaps it is neither merged nor trimmed, and the search for a
  block after the end of the later zone misses it: of the blocks 5 to 24, added after
  10 to 19, block 22 is accepted for file data.
\<close>

definition ex_overlap_state :: zone_state where
  "ex_overlap_state = \<lparr>system_blks = Node Black Leaf 0 Leaf, zone_at = (\<lambda>_. \<lparr>start_blk = 10, zone_count = 10\<rparr>),
     s_last_error_block = 0\<rparr>"

lemma overlap_not_protected:
  "\<exists>st'. add_system_zone (Some 1) ex_overlap_state 5 20 = Some (st', 0) \<and> snd (ext4bf_data_block_valid ex_sbi st' 22 1)"
  by (simp add: add_system_zone_def ex_overlap_state_def zone_end_def rb_insert_def merge_left_def merge_right_def
      can_merge_def ext4bf_data_block_valid_def) (simp add: ex_sbi_def word_le_nat_alt)

section \<open>Releasing the tree\<close>

fun postorder :: "'a rb_tree \<Rightarrow> 'a list" where
  "postorder Leaf = []"
| "postorder (Node c l a r) = postorder l @ postorder r @ [a]"

fun post_rest :: "'a path \<Rightarrow> 'a list" where
  "post_rest [] = []"
| "post_rest (FromLeft c a r # ps) = postorder r @ a # post_rest ps"
| "post_rest (FromRight l a c # ps) = a # post_rest ps"

lemma release_walk_postorder:
  assumes "t \<noteq> Leaf" "list_all (\<lambda>p. case p of FromLeft c a r \<Rightarrow> True | FromRight l a c \<Rightarrow> l = Leaf) ps"
  shows "release_walk ps t = postorder t @ post_rest ps"
  using assms
proof (induction ps t rule: release_walk.induct)
  case (5 p ps c a)
  then show ?case by (cases p) simp_all
qed simp_all

text \<open>Releasing the tree frees every entry exactly once.\<close>

lemma release_frees_all:
  "mset (snd (ext4bf_release_system_zone st)) = mset (inorder (system_blks st))"
proof -
  have post: "mset (postorder t) = mset (inorder t)" for t :: "nat rb_tree" by (induction t) simp_all
  show ?thesis
    by (cases "system_blks st = Leaf") (simp_all add: ext4bf_release_system_zone_def release_walk_postorder post)
qed

end
