(* ===== verification/Spec2Isabelle.thy ===== *)
theory Spec2Isabelle
  imports Recovery_Correct Checkpoint_Correct Circular_Lists Handles_Correct Access_Correct Journal_Load Crash_Recovery
    Dir_Hash Rbtree Block_Validity_Correct
begin

text \<open>
  A verification library for OptFS, the optimistic crash consistency file system in
  src/fs/ext4bf, a variant of ext4 for Linux 3.2 that orders its writes with checksums and delayed
  checkpoints instead of cache flushes.

  \<^bold>\<open>The program.\<close>  OptFS consists of a file system (ext4bf) and a journal (jbdbf) in the same
  directory.  File system operations run inside handles (transaction.c): a handle joins the running
  transaction, asks for write access to the buffers it changes and declares them dirty, as
  metadata, which is journalled, or as newly written data, which is written in place and
  covered by a checksum in the log.  The commit thread (journal.c, commit.c) closes the running
  transaction, writes the data, the revoke records (revoke.c), descriptor blocks with tags, copies
  of the metadata blocks and a commit block to the log, and files the buffers for checkpointing.
  Checkpointing (checkpoint.c) writes the blocks to their places after the checkpoint time of
  the transaction and moves the tail of the log.  After a crash, recovery (recovery.c) scans the log,
  stops at the first transaction with a data block whose checksum is wrong and that no later
  tag excuses, collects the revoke records and replays the blocks that are not revoked.

  \<^bold>\<open>The model.\<close>  The state of the journal, its transactions, journal heads, buffer heads, handles,
  the contents of the devices and the sequence of I/O requests is one record, world (JBD_Types).
  Pointers are natural numbers, NULL is None; machine integers keep their width where the code
  depends on it (block numbers, sequence numbers, tags and their flags are words).  Every
  function of the C code is a function from worlds to worlds, with its C name where Isabelle allows it;
  a leading double underscore is written \<open>u_\<close>.  The result None of a function that returns an
  option stands for a failed assertion of the code (BUG), for undefined behaviour, or for a
  sleep that is never ended; error codes are values.  The rest of the kernel is the record
  kernel_env, a parameter of the definitions: which blocks cannot be read or written, the
  mapping of the journal inode, memory allocation, the clock, and what other threads have
  done when a thread that sleeps wakes up (\<open>k_sleep\<close>, \<open>k_wait_commit\<close>).  Locks are not modelled: an
  operation that the code runs under a lock is one step.

  \<^bold>\<open>The theories.\<close>

  \<^item> Prelude, Bytes: integers, assertions, big-endian fields of blocks, with the lemmas on reading a field
    that was written.
  \<^item> JBD_Types: the data structures and constants (jbdbf.h, journal-bf-head.h, the fields of struct
    buffer_head that the journal uses), transaction number comparison.
  \<^item> Journal: requests to commit, superblock, features, errors, allocation of log blocks (journal.c).
    Log_Space: the log is a ring; allocated blocks are fresh (C7) and moving the tail frees exactly
    the blocks of finished transactions (C8).
  \<^item> Revoke: the revoke tables (revoke.c).  Testing a block after recording a set of revokes gives the
    answer of the latest of them (C1); initialisation (C2).  The locale of the table operations is
    what recovery relies on.
  \<^item> Recovery: the passes of do_one_pass and their parts (recovery.c).  Log_Format describes the log as
    a sequence of items, Mismatch_Table the table of data blocks with wrong checksums, and
    Recovery_Correct shows that recovery replays exactly the transactions before the stop index,
    without the revoked blocks (C3).
  \<^item> Buffers: journal heads and the lists of a transaction (transaction.c, journal.c).  Buffer_Lists:
    filing and refiling keep the invariant that a buffer is on the list its fields name (C4, C5),
    and a case in which a dirty bit escapes (C6).  Circular_Lists: the pointer manipulations of the
    code implement the address lists of the model (C9, C10).  Frames: what these operations leave alone.
  \<^item> Checkpoint: checkpoint.c.  Checkpoint_Correct: a checkpoint that is due returns and has written the oldest
    transaction (C11); before the checkpoint time it does no I/O (C12).
  \<^item> Handles: starting and stopping handles (transaction.c).  Handles_Correct: admission of handles (C17),
    credits (C18), nesting (C19) and a durable commit that is lost (C20).
  \<^item> Access: write access, dirty metadata and data, revoking, forgetting, releasing and invalidating
    buffers (transaction.c, revoke.c, journal.c).  Access_Correct: revoke bits agree with the table
    (C21, C22), data of the committing transaction is copied out (C23), credits are charged once
    (C24), and rewritten data moves to the log (C25).
  \<^item> Log_Writing, Commit: building log blocks and the phases of jbdbf_journal_commit_transaction.
    Log_Encoding: what the commit writes is what recovery reads: tags (C13), escaped copies (C14)
    and revoke records (C15); and a case in which the tags overflow a small block (C16).
  \<^item> Commit_Log, Commit_Loop, Commit_Replay: an invariant of the loop over the metadata buffers, from one
    tag and one copy to the whole loop.  Crash_Recovery: the log holds what the transaction was to log
    (C26), only free blocks of the log are written (C27), and after a crash recovery brings back
    all of the transaction or nothing (C28).
  \<^item> Journal_Load: creating, loading, flushing and destroying a journal, and the commit thread (journal.c).
  \<^item> Dir_Hash: the name hashes of indexed directories (hash.c, lib/halfmd4.c): their range (C29) and
    the agreement of their variants for signed and unsigned characters (C30).
  \<^item> Rbtree: red-black trees (lib/rbtree.c), with insertion and removal that keep order and balance (C31).
  \<^item> Bitmaps, Group_Desc, Block_Groups: bitmaps, group descriptors with their checksum, and the layout of the
    block groups (balloc.c, super.c, ialloc.c, bitmap.c, lib/crc16.c).  Block_Groups_Correct: the bitmap of an
    unused group marks exactly its metadata once the descriptors are checked (C32), and a free count
    that is too large (C33).
  \<^item> Block_Validity: the tree of metadata ranges (block_validity.c).  Block_Validity_Correct: file data is
    kept out of exactly these ranges (C34).

  \<^bold>\<open>Termination.\<close>  Loops over lists are structural; loops of the code that may wait or repeat are
  partial functions into option, and None includes that the loop does not end.  Where a
  property says that an operation returns, it is stated as an equation with Some.  No fuel is used.

  \<^bold>\<open>Not modelled.\<close>  The ext4bf file system proper (inodes, extents, allocation, directories, extended
  attributes, mounting), statistics and the output in procfs and debugfs, slab caches, locks and
  memory ordering, the page cache beyond the buffers of a page, and the block layer beyond
  the order of requests and their failures.
\<close>

end
